(* ===== verification/Prelude.thy ===== *)
theory Prelude
  imports Main "HOL-Library.Word"
begin

text \<open>
  Types, collections and generic lemmas that the component theories share: names for the
  machine integers of the C++ code, the compare-and-swap of \<^verbatim>\<open>std::atomic\<close>,
  list-update facts for the tables in shared memory, and \<open>unat\<close> facts for the
  wrapping counters.
\<close>

type_synonym u8 = "8 word"
type_synonym u16 = "16 word"
type_synonym u32 = "32 word"
type_synonym u64 = "64 word"
type_synonym i64 = "64 word"

text \<open>
  \<open>ring_simps\<close> collects frame facts of the ring operations (which field an operation leaves
  alone); \<open>inv_intros\<close> the preservation lemmas of the component invariants.
\<close>

named_theorems ring_simps \<open>fields left alone by the ring operations\<close>
named_theorems inv_intros \<open>preservation of component invariants\<close>

section \<open>Atomics\<close>

text \<open>
  \<^verbatim>\<open>cell.compare_exchange_strong(expected, desired)\<close> under sequential consistency: whether
  it succeeded, and the value the cell holds afterwards.
\<close>

definition cas :: "'a \<Rightarrow> 'a \<Rightarrow> 'a \<Rightarrow> bool \<times> 'a" where
  "cas cell expected desired = (if cell = expected then (True, desired) else (False, cell))"

lemma cas_same [simp]: "cas c c d = (True, d)"
  by (simp add: cas_def)

lemma cas_other: "c \<noteq> e \<Longrightarrow> cas c e d = (False, c)"
  by (simp add: cas_def)

section \<open>Words\<close>

lemma unat_minus_1: "w \<noteq> 0 \<Longrightarrow> unat (w - 1 :: 'a::len word) = unat w - 1"
  by (rule unat_minus_one)

lemma unat_plus_1: "unat (w :: 'a::len word) + 1 < 2 ^ LENGTH('a) \<Longrightarrow> unat (w + 1) = unat w + 1"
  by (simp add: unat_word_ariths)

lemma unat_u32_less: "unat (w :: u32) < 2 ^ 32"
  using unsigned_less [of w, where ?'a = nat] by simp

lemma unat_u64_less: "unat (w :: u64) < 2 ^ 64"
  using unsigned_less [of w, where ?'a = nat] by simp

lemma unat_ucast_u32_u64 [simp]: "unat (ucast (w :: u32) :: u64) = unat w"
  using unat_u32_less [of w] by (simp add: unsigned_ucast_eq take_bit_eq_mod)

lemma ucast_u32_u64_eq_0 [simp]: "(ucast (w :: u32) :: u64) = 0 \<longleftrightarrow> w = 0"
  by (metis unat_eq_zero unat_ucast_u32_u64)

lemma unat_ucast_u64_u32: "unat (w :: u64) < 2 ^ 32 \<Longrightarrow> unat (ucast w :: u32) = unat w"
  by (simp add: unsigned_ucast_eq take_bit_eq_mod)

lemma unat_pos_iff: "0 < unat (w :: 'a::len word) \<longleftrightarrow> w \<noteq> 0"
  by (rule unat_gt_0)

section \<open>Tables in shared memory: list update\<close>

lemma nth_update_if: "i < length xs \<Longrightarrow> xs[i := x] ! j = (if j = i then x else xs ! j)"
  by simp

lemma update_frame: "i \<noteq> j \<Longrightarrow> xs[i := x] ! j = xs ! j"
  by simp

section \<open>Errors as values\<close>

text \<open>
  \<open>Inl\<close> is a reported error, and nothing after it runs. \<open>also_then\<close> runs the next step on the
  result; \<open>each\<close> is a loop whose body may leave with an error; \<open>guard_error\<close> is a check with an
  early return.
\<close>

definition also_then :: "'e + 'a \<Rightarrow> ('a \<Rightarrow> 'e + 'b) \<Rightarrow> 'e + 'b" where
  "also_then m f = (case m of Inl e \<Rightarrow> Inl e | Inr x \<Rightarrow> f x)"

definition guard_error :: "bool \<Rightarrow> 'e \<Rightarrow> 'e + unit" where
  "guard_error ok e = (if ok then Inr () else Inl e)"

fun each :: "('a \<Rightarrow> 's \<Rightarrow> 'e + 's) \<Rightarrow> 'a list \<Rightarrow> 's \<Rightarrow> 'e + 's" where
  "each f [] s = Inr s"
| "each f (x # xs) s = (case f x s of Inl e \<Rightarrow> Inl e | Inr s' \<Rightarrow> each f xs s')"

lemma also_then_simps [simp]:
  "also_then (Inl e) f = Inl e" "also_then (Inr x) f = f x"
  by (simp_all add: also_then_def)

lemma also_then_Inr [simp]: "also_then m f = Inr y \<longleftrightarrow> (\<exists>x. m = Inr x \<and> f x = Inr y)"
  by (cases m) auto

lemma also_then_Inl: "also_then m f = Inl e \<longleftrightarrow> m = Inl e \<or> (\<exists>x. m = Inr x \<and> f x = Inl e)"
  by (cases m) auto

lemma guard_error_Inr [simp]: "guard_error ok e = Inr u \<longleftrightarrow> ok"
  by (simp add: guard_error_def)

lemma guard_error_simps [simp]: "guard_error True e = Inr ()" "guard_error False e = Inl e"
  by (simp_all add: guard_error_def)

lemma each_invariant:
  assumes "each f xs s = Inr s'" "P s"
    and "\<And>x s s'. x \<in> set xs \<Longrightarrow> P s \<Longrightarrow> f x s = Inr s' \<Longrightarrow> P s'"
  shows "P s'"
  using assms
proof (induction xs arbitrary: s)
  case (Cons x xs)
  then obtain t where t: "f x s = Inr t" "each f xs t = Inr s'"
    by (auto split: sum.splits)
  have "P t"
    by (rule Cons.prems(3) [OF _ Cons.prems(2) t(1)]) simp
  then show ?case
    by (rule Cons.IH [OF t(2)]) (rule Cons.prems(3), simp_all)
qed simp

lemma each_Inl:
  assumes "each f xs s = Inl e"
  shows "\<exists>x \<in> set xs. \<exists>s. f x s = Inl e"
  using assms by (induction xs arbitrary: s) (auto split: sum.splits)

lemma each_append:
  "each f (xs @ ys) s = (case each f xs s of Inl e \<Rightarrow> Inl e | Inr s' \<Rightarrow> each f ys s')"
  by (induction xs arbitrary: s) (simp_all split: sum.splits)

lemma each_map: "each f (map g xs) s = each (\<lambda>x. f (g x)) xs s"
  by (induction xs arbitrary: s) (simp_all split: sum.splits)

lemma each_concat: "each f (concat xss) s = each (each f) xss s"
  by (induction xss arbitrary: s) (simp_all add: each_append split: sum.splits)

lemma each_cong:
  assumes "xs = ys" "\<And>x s. x \<in> set ys \<Longrightarrow> f x s = g x s"
  shows "each f xs s = each g ys s"
  using assms(2) unfolding assms(1) by (induction ys arbitrary: s) (simp_all split: sum.splits)

section \<open>Unordered maps\<close>

text \<open>
  A \<^verbatim>\<open>std::unordered_map\<close> is its association list in the order of insertion; the order the
  library would iterate in is not fixed, and no result here depends on it other than which of
  several errors is reported first.
\<close>

definition emplace :: "'k \<Rightarrow> 'v \<Rightarrow> ('k \<times> 'v) list \<Rightarrow> ('k \<times> 'v) list" where
  "emplace k v al = (if k \<in> fst ` set al then al else al @ [(k, v)])"

fun assign :: "'k \<Rightarrow> 'v \<Rightarrow> ('k \<times> 'v) list \<Rightarrow> ('k \<times> 'v) list" where
  "assign k v [] = [(k, v)]"
| "assign k v ((k', v') # al) = (if k' = k then (k, v) # al else (k', v') # assign k v al)"

definition erase_key :: "'k \<Rightarrow> ('k \<times> 'v) list \<Rightarrow> ('k \<times> 'v) list" where
  "erase_key k al = filter (\<lambda>kv. fst kv \<noteq> k) al"

lemma map_of_emplace: "map_of (emplace k v al) k' = (if k' = k \<and> k \<notin> fst ` set al then Some v else map_of al k')"
proof -
  have "map_of al k = None" if "k \<notin> fst ` set al"
    using that by (simp add: map_of_eq_None_iff)
  then show ?thesis
    by (auto simp: emplace_def map_add_def split: option.splits)
qed

lemma map_of_assign [simp]: "map_of (assign k v al) = (map_of al)(k \<mapsto> v)"
  by (induction k v al rule: assign.induct) (auto simp: fun_upd_twist)

lemma keys_assign [simp]: "fst ` set (assign k v al) = insert k (fst ` set al)"
  by (induction k v al rule: assign.induct) auto

lemma distinct_assign: "distinct (map fst al) \<Longrightarrow> distinct (map fst (assign k v al))"
proof (induction k v al rule: assign.induct)
  case (2 k v k' v' al)
  have "set (map fst (assign k v al)) = insert k (set (map fst al))" for al :: "('a \<times> 'b) list"
    using keys_assign [of k v al] by simp
  then show ?case
    using 2 by auto
qed simp

lemma map_of_erase [simp]: "map_of (erase_key k al) = (map_of al)(k := None)"
  by (induction al) (auto simp: erase_key_def)

section \<open>State machines\<close>

text \<open>
  The contract of a step relation and its invariant: what holds where a machine starts and is kept by
  every step holds in every state it reaches.
\<close>

locale state_machine =
  fixes step :: "'s \<Rightarrow> 's \<Rightarrow> bool"
    and invariant :: "'s \<Rightarrow> bool"
  assumes step_keeps: "step s s' \<Longrightarrow> invariant s \<Longrightarrow> invariant s'"
begin

lemma reachable_keeps: "step\<^sup>*\<^sup>* s s' \<Longrightarrow> invariant s \<Longrightarrow> invariant s'"
  by (induction rule: rtranclp_induct) (auto intro: step_keeps)

end

end
