(* ===== verification/Restart_Policy.thy ===== *)
theory Restart_Policy
  imports Prelude
begin

text \<open>
  \<^verbatim>\<open>common/comm/src/restart_policy.cpp\<close>: the sliding window of failures, the exponential
  back-off and the fuse of one module. Times are integers of milliseconds; the lemmas bound the
  delay, so that 64 bits hold it for any base below \<open>2 ^ 33\<close>.
\<close>

section \<open>Data and evaluation\<close>

record RestartPolicyConfig =
  restart_backoff_ms :: int
  restart_max_retries :: int
  restart_window_ms :: int
  restart_fuse_ms :: int

record RestartDecision =
  should_restart :: bool
  fuse_open :: bool
  restart_delay_ms :: int
  retries_in_window :: int

record ModulePolicyState =
  failure_timestamps_ms :: "int list"
  fuse_open_until_ms :: int

definition Pow2Saturating :: "int \<Rightarrow> int" where
  "Pow2Saturating e = (if e \<le> 0 then 1 else if e \<ge> 30 then 2 ^ 30 else 2 ^ nat e)"

definition fresh_policy_state :: ModulePolicyState where
  "fresh_policy_state = \<lparr>failure_timestamps_ms = [], fuse_open_until_ms = -1\<rparr>"

definition EvaluateModule ::
    "RestartPolicyConfig \<Rightarrow> int \<Rightarrow> ModulePolicyState \<Rightarrow> RestartDecision \<times> ModulePolicyState" where
  "EvaluateModule config now_ms state =
     (if fuse_open_until_ms state \<ge> 0 \<and> now_ms < fuse_open_until_ms state
      then (\<lparr>should_restart = False, fuse_open = True, restart_delay_ms = 0, retries_in_window = 0\<rparr>, state)
      else let window_start = now_ms - max 0 (restart_window_ms config);
               kept = dropWhile (\<lambda>t. t < window_start) (failure_timestamps_ms state) @ [now_ms];
               retries = int (length kept);
               state1 = state\<lparr>failure_timestamps_ms := kept\<rparr> in
        if retries > max 0 (restart_max_retries config)
        then (\<lparr>should_restart = False, fuse_open = True, restart_delay_ms = 0, retries_in_window = retries\<rparr>,
              state1\<lparr>fuse_open_until_ms := now_ms + max 0 (restart_fuse_ms config)\<rparr>)
        else (\<lparr>should_restart = True, fuse_open = False,
               restart_delay_ms = max 0 (restart_backoff_ms config) * Pow2Saturating (max 0 (retries - 1)),
               retries_in_window = retries\<rparr>, state1))"

text \<open>The table of modules: \<^verbatim>\<open>module_state_[module_name]\<close> creates a fresh entry.\<close>

type_synonym policy_table = "string \<Rightarrow> ModulePolicyState option"

definition EvaluateAbnormalExit ::
    "string \<Rightarrow> RestartPolicyConfig \<Rightarrow> int \<Rightarrow> policy_table \<Rightarrow> RestartDecision \<times> policy_table" where
  "EvaluateAbnormalExit module_name config now_ms tab =
     (let state = (case tab module_name of None \<Rightarrow> fresh_policy_state | Some s \<Rightarrow> s);
          (decision, state') = EvaluateModule config now_ms state
      in (decision, tab(module_name \<mapsto> state')))"

section \<open>Histories\<close>

text \<open>Evaluating a module's exits at the times of a list, oldest first.\<close>

fun evaluate_all :: "RestartPolicyConfig \<Rightarrow> int list \<Rightarrow> ModulePolicyState \<Rightarrow> RestartDecision list \<times> ModulePolicyState" where
  "evaluate_all config [] s = ([], s)"
| "evaluate_all config (t # ts) s =
     (let (d, s1) = EvaluateModule config t s; (ds, s2) = evaluate_all config ts s1 in (d # ds, s2))"

lemma Pow2Saturating_bounds: "1 \<le> Pow2Saturating e" "Pow2Saturating e \<le> 2 ^ 30"
proof -
  have "(2 :: int) ^ nat e \<le> 2 ^ 30" if "\<not> 30 \<le> e"
    using that by (intro power_increasing) simp_all
  then show "Pow2Saturating e \<le> 2 ^ 30" "1 \<le> Pow2Saturating e"
    by (simp_all add: Pow2Saturating_def)
qed

text \<open>
  \<open>recent x us\<close> counts the times not before \<open>x\<close>. \<open>restarts\<close> are the times of a history at
  which a restart was granted.
\<close>

definition recent :: "int \<Rightarrow> int list \<Rightarrow> nat" where
  "recent x us = length (filter (\<lambda>u. x \<le> u) us)"

definition restarts :: "int list \<Rightarrow> RestartDecision list \<Rightarrow> int list" where
  "restarts ts ds = map fst (filter (\<lambda>(t, d). should_restart d) (zip ts ds))"

definition window :: "RestartPolicyConfig \<Rightarrow> int" where
  "window config = max 0 (restart_window_ms config)"

text \<open>Every restart granted in the window before \<open>now\<close> is still on record.\<close>

definition on_record :: "RestartPolicyConfig \<Rightarrow> int list \<Rightarrow> int \<Rightarrow> ModulePolicyState \<Rightarrow> bool" where
  "on_record config granted now s \<longleftrightarrow> sorted (failure_timestamps_ms s) \<and>
     (\<forall>u \<in> set (failure_timestamps_ms s). u \<le> now) \<and>
     (\<forall>x \<ge> now - window config. recent x granted \<le> recent x (failure_timestamps_ms s))"

lemma dropWhile_sorted:
  "sorted xs \<Longrightarrow> dropWhile (\<lambda>u. u < (w :: int)) xs = filter (\<lambda>u. w \<le> u) xs"
proof (induction xs)
  case (Cons x xs)
  show ?case
  proof (cases "x < w")
    case False
    with Cons.prems have "\<forall>u \<in> set (x # xs). w \<le> u" by auto
    with False show ?thesis by (simp add: filter_True)
  qed (use Cons in simp)
qed simp

lemma evaluate_step:
  assumes rec: "on_record config granted now s" and t: "now \<le> t"
    and step: "EvaluateModule config t s = (d, s')"
  shows "on_record config (granted @ (if should_restart d then [t] else [])) t s'"
    and "should_restart d \<Longrightarrow>
         int (recent (t - window config) (granted @ [t])) \<le> max 0 (restart_max_retries config)"
proof -
  let ?F = "failure_timestamps_ms s" and ?w = "window config"
  let ?F' = "filter (\<lambda>u. t - ?w \<le> u) ?F @ [t]"
  have sorted: "sorted ?F" and le: "\<forall>u \<in> set ?F. u \<le> t"
    using rec t by (auto simp: on_record_def)
  have count: "recent x granted \<le> recent x ?F" if "t - ?w \<le> x" for x
    using rec t that by (simp add: on_record_def)
  have "d = \<lparr>should_restart = False, fuse_open = True, restart_delay_ms = 0, retries_in_window = 0\<rparr> \<and> s' = s
      \<or> failure_timestamps_ms s' = ?F' \<and>
        (should_restart d \<longrightarrow> int (length ?F') \<le> max 0 (restart_max_retries config))"
    using step dropWhile_sorted [OF sorted, of "t - ?w"]
    by (auto simp: EvaluateModule_def Let_def window_def split: if_splits)
  then consider (fused) "\<not> should_restart d" "s' = s"
    | (pushed) "failure_timestamps_ms s' = ?F'"
        "should_restart d \<longrightarrow> int (length ?F') \<le> max 0 (restart_max_retries config)"
    by auto
  note cases = this
  have kept: "recent x ?F' = recent x ?F + (if x \<le> t then 1 else 0)" if "t - ?w \<le> x" for x
    using that unfolding recent_def by (auto simp: filter_filter intro!: arg_cong [where f = length] filter_cong)
  show "on_record config (granted @ (if should_restart d then [t] else [])) t s'"
  proof (cases rule: cases)
    case fused
    then show ?thesis
      using sorted le count by (simp add: on_record_def)
  next
    case pushed
    have "sorted ?F'"
      using sorted le by (simp add: sorted_append sorted_wrt_filter)
    moreover have "recent x (granted @ (if should_restart d then [t] else [])) \<le> recent x ?F'"
      if "t - ?w \<le> x" for x
      using count [OF that] kept [OF that] by (auto simp: recent_def)
    ultimately show ?thesis
      using le by (auto simp: on_record_def pushed(1))
  qed
  assume grant: "should_restart d"
  show "int (recent (t - ?w) (granted @ [t])) \<le> max 0 (restart_max_retries config)"
  proof (cases rule: cases)
    case pushed
    have "recent (t - ?w) (granted @ [t]) \<le> recent (t - ?w) ?F'"
      using count [of "t - ?w"] kept [of "t - ?w"] by (auto simp: recent_def window_def)
    also have "\<dots> \<le> length ?F'"
      unfolding recent_def by (rule length_filter_le)
    finally show ?thesis
      using pushed(2) grant by linarith
  qed (use grant in simp)
qed

lemma evaluate_all_limit:
  assumes "on_record config granted now s" "sorted (now # ts)" "i < length ts"
    and "should_restart (fst (evaluate_all config ts s) ! i)"
  shows "int (recent (ts ! i - window config)
           (granted @ restarts (take (Suc i) ts) (take (Suc i) (fst (evaluate_all config ts s)))))
         \<le> max 0 (restart_max_retries config)"
  using assms
proof (induction ts arbitrary: granted now s i)
  case (Cons t ts)
  obtain d s1 where step: "EvaluateModule config t s = (d, s1)" by (cases "EvaluateModule config t s")
  have now: "now \<le> t" and rest: "sorted (t # ts)" using Cons.prems(2) by auto
  note st = evaluate_step [OF Cons.prems(1) now step]
  have run: "fst (evaluate_all config (t # ts) s) = d # fst (evaluate_all config ts s1)"
    by (simp add: step case_prod_beta)
  show ?case
  proof (cases i)
    case 0
    then show ?thesis
      using Cons.prems(4) st(2) unfolding run by (simp add: restarts_def)
  next
    case (Suc j)
    then have j: "j < length ts" "should_restart (fst (evaluate_all config ts s1) ! j)"
      using Cons.prems(3,4) unfolding run by simp_all
    have "restarts (take (Suc i) (t # ts)) (take (Suc i) (fst (evaluate_all config (t # ts) s))) =
        (if should_restart d then [t] else [])
          @ restarts (take (Suc j) ts) (take (Suc j) (fst (evaluate_all config ts s1)))"
      unfolding run by (simp add: restarts_def Suc)
    with Cons.IH [OF st(1) rest j] show ?thesis
      by (simp add: Suc)
  qed
qed simp

section \<open>Properties\<close>

text \<open>
  C20: Restart rate. Whatever the times of a module's abnormal exits (in order), a restart is
  granted only if, counting it, at most \<open>restart_max_retries\<close> restarts were granted within the
  last \<open>restart_window_ms\<close>.
\<close>

theorem restart_rate_limited:
  assumes "sorted ts" "i < length ts"
    and "should_restart (fst (evaluate_all config ts fresh_policy_state) ! i)"
  shows "int (recent (ts ! i - window config)
           (restarts (take (Suc i) ts) (take (Suc i) (fst (evaluate_all config ts fresh_policy_state)))))
         \<le> max 0 (restart_max_retries config)"
proof -
  have "on_record config [] (hd ts) fresh_policy_state"
    by (simp add: on_record_def fresh_policy_state_def recent_def)
  moreover have "sorted (hd ts # ts)"
    using assms(1,2) by (cases ts) auto
  ultimately show ?thesis
    using evaluate_all_limit [of config "[]" "hd ts" fresh_policy_state ts i] assms by simp
qed

definition demo_policy :: RestartPolicyConfig where
  "demo_policy = \<lparr>restart_backoff_ms = 100, restart_max_retries = 2, restart_window_ms = 1000, restart_fuse_ms = 5000\<rparr>"

lemma demo_policy_run:
  "map should_restart (fst (evaluate_all demo_policy [0, 500, 700, 6000] fresh_policy_state)) = [True, True, False, True]"
  by code_simp

theorem restart_rate_limited_witness:
  "int (recent (500 - window demo_policy)
     (restarts (take 2 [0, 500, 700, 6000]) (take 2 (fst (evaluate_all demo_policy [0, 500, 700, 6000] fresh_policy_state))))) \<le> 2"
proof -
  have "should_restart (fst (evaluate_all demo_policy [0, 500, 700, 6000] fresh_policy_state) ! 1)"
    by code_simp
  then show ?thesis
    using restart_rate_limited [of "[0, 500, 700, 6000]" 1 demo_policy]
    by (simp add: demo_policy_def numeral_2_eq_2)
qed



end
