(* ===== verification/Ready_Pipe.thy ===== *)
theory Ready_Pipe
  imports Prelude
begin

text \<open>
  \<^verbatim>\<open>common/comm/src/ready_pipe_protocol.cpp\<close>: the READY message a child writes into a pipe
  and the parent's bounded wait for it. What \<^verbatim>\<open>pipe\<close>, \<^verbatim>\<open>write\<close>, \<^verbatim>\<open>poll\<close> and \<^verbatim>\<open>read\<close>
  return is an argument; the message crosses the pipe as the eight bytes of the structure on a
  little-endian machine.
\<close>

unbundle bit_operations_syntax

section \<open>The message\<close>

definition kMagic :: u32 where "kMagic = 0x4D4F554C"
definition kVersion :: u16 where "kVersion = 1"
definition kTypeReady :: u16 where "kTypeReady = 1"

record ReadyMessage =
  rmagic :: u32
  rversion :: u16
  rtype :: u16

definition ready_message :: ReadyMessage where
  "ready_message = \<lparr>rmagic = kMagic, rversion = kVersion, rtype = kTypeReady\<rparr>"

definition u32_bytes :: "u32 \<Rightarrow> u8 list" where
  "u32_bytes w = [ucast w, ucast (drop_bit 8 w), ucast (drop_bit 16 w), ucast (drop_bit 24 w)]"

definition u16_bytes :: "u16 \<Rightarrow> u8 list" where
  "u16_bytes w = [ucast w, ucast (drop_bit 8 w)]"

definition message_bytes :: "ReadyMessage \<Rightarrow> u8 list" where
  "message_bytes m = u32_bytes (rmagic m) @ u16_bytes (rversion m) @ u16_bytes (rtype m)"

fun bytes_message :: "u8 list \<Rightarrow> ReadyMessage option" where
  "bytes_message [a, b, c, d, e, f, g, h] =
     Some \<lparr>rmagic = ucast a OR push_bit 8 (ucast b) OR push_bit 16 (ucast c) OR push_bit 24 (ucast d),
           rversion = ucast e OR push_bit 8 (ucast f), rtype = ucast g OR push_bit 8 (ucast h)\<rparr>"
| "bytes_message _ = None"

section \<open>Pipe creation and descriptors\<close>

definition CreateParentManagedPipe :: "(string + int \<times> int) \<Rightarrow> string + int \<times> int" where
  "CreateParentManagedPipe pipe_result =
     (case pipe_result of Inl err \<Rightarrow> Inl (''ready pipe create failed: '' @ err) | Inr fds \<Rightarrow> Inr fds)"

text \<open>\<open>Some\<close> of the descriptor closed, and the value left in \<^verbatim>\<open>*fd\<close>.\<close>

definition CloseFdIfOpen :: "int \<Rightarrow> int option \<times> int" where
  "CloseFdIfOpen fd = (if fd \<ge> 0 then (Some fd, -1) else (None, fd))"

section \<open>Sending and waiting\<close>

text \<open>\<open>write_fn bytes\<close> is what \<^verbatim>\<open>write\<close> returns for them.\<close>

definition SendReady :: "(u8 list \<Rightarrow> int) \<Rightarrow> int \<Rightarrow> string + u8 list" where
  "SendReady write_fn child_write_fd =
     (if child_write_fd < 0 then Inl ''ready pipe write fd is invalid''
      else if write_fn (message_bytes ready_message) \<noteq> 8 then Inl ''failed to write READY message to pipe''
      else Inr (message_bytes ready_message))"

text \<open>\<^verbatim>\<open>static_cast<int>(ready_timeout_ms)\<close> keeps the low 32 bits as a signed number.\<close>

definition poll_timeout :: "int \<Rightarrow> int" where
  "poll_timeout ms = sint (word_of_int ms :: 32 word)"

datatype poll_outcome = PollTimeout | PollError string | PollReadable "u8 list"

text \<open>
  \<open>poll_fn t\<close> is the outcome of polling with the timeout \<open>t\<close>, with the bytes a following \<^verbatim>\<open>read\<close>
  of eight bytes returns (none at end of file).
\<close>

definition WaitReady :: "(int \<Rightarrow> poll_outcome) \<Rightarrow> int \<Rightarrow> int \<Rightarrow> string + unit" where
  "WaitReady poll_fn parent_read_fd ready_timeout_ms =
     (if parent_read_fd < 0 then Inl ''ready pipe read fd is invalid''
      else if ready_timeout_ms < 0 then Inl ''ready timeout must be non-negative''
      else case poll_fn (poll_timeout ready_timeout_ms) of
             PollTimeout \<Rightarrow> Inl ''READY timeout''
           | PollError err \<Rightarrow> Inl (''ready poll failed: '' @ err)
           | PollReadable bytes \<Rightarrow>
               (case bytes_message (take 8 bytes) of
                  None \<Rightarrow> Inl ''ready protocol read size mismatch''
                | Some m \<Rightarrow>
                    if rmagic m \<noteq> kMagic \<or> rversion m \<noteq> kVersion \<or> rtype m \<noteq> kTypeReady
                    then Inl ''invalid READY message payload'' else Inr ()))"

section \<open>The encoding is injective\<close>

lemma u32_join:
  "ucast (ucast w :: u8) OR push_bit 8 (ucast (ucast (drop_bit 8 w) :: u8)) OR
   push_bit 16 (ucast (ucast (drop_bit 16 w) :: u8)) OR push_bit 24 (ucast (ucast (drop_bit 24 w) :: u8))
   = (w :: u32)" (is "?l = w")
proof (rule bit_word_eqI)
  fix n assume "n < LENGTH(32)"
  then show "bit ?l n = bit w n"
    by (cases "24 \<le> n"; cases "16 \<le> n"; cases "8 \<le> n";
        simp add: bit_or_iff bit_push_bit_iff bit_ucast_iff bit_drop_bit_eq; arith?)
qed

lemma u16_join:
  "ucast (ucast w :: u8) OR push_bit 8 (ucast (ucast (drop_bit 8 w) :: u8)) = (w :: u16)"
  by (rule bit_word_eqI) (auto simp: bit_or_iff bit_push_bit_iff bit_ucast_iff bit_drop_bit_eq)

lemma bytes_message_roundtrip: "bytes_message (message_bytes m) = Some m"
  by (simp add: message_bytes_def u32_bytes_def u16_bytes_def u32_join u16_join)

lemma byte_split32:
  fixes a b c d :: u8
  defines "w \<equiv> ucast a OR push_bit 8 (ucast b) OR push_bit 16 (ucast c) OR push_bit 24 (ucast d) :: u32"
  shows "ucast w = a" "ucast (drop_bit 8 w) = b" "ucast (drop_bit 16 w) = c" "ucast (drop_bit 24 w) = d"
proof -
  show "ucast w = a" "ucast (drop_bit 8 w) = b"
    by (rule bit_word_eqI; auto simp: w_def bit_or_iff bit_push_bit_iff bit_ucast_iff bit_drop_bit_eq
        dest: bit_imp_le_length)+
  show "ucast (drop_bit 16 w) = c" "ucast (drop_bit 24 w) = d"
    by (rule bit_word_eqI; auto simp: w_def bit_or_iff bit_push_bit_iff bit_ucast_iff bit_drop_bit_eq
        dest: bit_imp_le_length)+
qed

lemma byte_split16:
  fixes a b :: u8
  defines "w \<equiv> ucast a OR push_bit 8 (ucast b) :: u16"
  shows "ucast w = a" "ucast (drop_bit 8 w) = b"
  by (rule bit_word_eqI; auto simp: w_def bit_or_iff bit_push_bit_iff bit_ucast_iff bit_drop_bit_eq
      dest: bit_imp_le_length)+

lemma message_bytes_of: "bytes_message bs = Some m \<Longrightarrow> message_bytes m = bs"
proof (cases bs rule: bytes_message.cases)
  case (1 a b c d e f g h)
  assume "bytes_message bs = Some m"
  then have m: "m = \<lparr>rmagic = ucast a OR push_bit 8 (ucast b) OR push_bit 16 (ucast c) OR push_bit 24 (ucast d),
      rversion = ucast e OR push_bit 8 (ucast f), rtype = ucast g OR push_bit 8 (ucast h)\<rparr>"
    by (simp add: 1)
  show ?thesis
    unfolding m message_bytes_def u32_bytes_def u16_bytes_def ReadyMessage.simps byte_split32 byte_split16
    by (simp add: 1)
qed simp_all

lemma poll_timeout_eq: "poll_timeout ms = (ms + 2147483648) mod 4294967296 - 2147483648"
  by (simp add: poll_timeout_def signed_of_int signed_take_bit_eq_take_bit_shift take_bit_eq_mod)

section \<open>Properties\<close>



text \<open>
  The timeout handed to \<^verbatim>\<open>poll\<close> is the configured one only below \<open>2 ^ 31\<close> milliseconds: a
  larger one is truncated, to a negative number (wait for ever) from \<open>2 ^ 31\<close> to \<open>2 ^ 32 - 1\<close>
  and to zero (do not wait) at \<open>2 ^ 32\<close>.
\<close>

lemma ready_timeout_truncated:
  "(0 \<le> ms \<longrightarrow> poll_timeout ms = ms \<longleftrightarrow> ms < 2 ^ 31) \<and>
   (2 ^ 31 \<le> ms \<and> ms < 2 ^ 32 \<longrightarrow> poll_timeout ms < 0) \<and> poll_timeout (2 ^ 32) = 0"
proof -
  note t = poll_timeout_eq
  have below: "(ms + 2147483648) mod 4294967296 = ms + 2147483648" if "0 \<le> ms" "ms < 2147483648"
    using that by (intro mod_pos_pos_trivial) simp_all
  have "(ms + 2147483648) mod 4294967296 < 4294967296"
    by simp
  with below have "(ms + 2147483648) mod 4294967296 - 2147483648 = ms \<longleftrightarrow> ms < 2147483648" if "0 \<le> ms"
    using that by linarith
  moreover have "(ms + 2147483648) mod 4294967296 - 2147483648 < 0" if "2147483648 \<le> ms" "ms < 4294967296"
  proof -
    have "(ms + 2147483648) mod 4294967296 = (ms - 2147483648 + 4294967296) mod 4294967296"
      by (simp add: add.commute)
    also have "\<dots> = (ms - 2147483648) mod 4294967296"
      by (rule mod_add_self2)
    also have "\<dots> = ms - 2147483648"
      using that by (intro mod_pos_pos_trivial) simp_all
    finally show ?thesis using that by simp
  qed
  ultimately show ?thesis
    by (simp add: t)
qed

end
