(* ===== verification/Supervisor.thy ===== *)
theory Supervisor
  imports Restart_Policy Ready_Pipe "HOL-Library.Multiset"
begin

text \<open>
  \<^verbatim>\<open>common/comm/src/supervisor.cpp\<close>: the process table of the master, the life cycle of each
  module, the startup batches and the monitor loop. Hash maps are maps; the loop runs over the
  list of what its iterations observe, and its call-backs are functions on the supervisor.
\<close>

section \<open>Data\<close>

record SupervisorModuleSpec =
  spec_name :: string
  startup_priority :: int

datatype ModuleLifecycleState = kForked | kIniting | kReady | kRunning | kFailed

record ModuleLifecycleRecord =
  lstate :: ModuleLifecycleState
  failure_reason :: string

record SupervisorObservabilitySnapshot =
  ready_transitions :: "string \<Rightarrow> nat"
  restart_evaluations :: "string \<Rightarrow> nat"
  fuse_open_events :: "string \<Rightarrow> nat"
  startup_order_trace :: "string list"
  restart_order_trace :: "string list"

record supervisor =
  module_to_pid :: "string \<Rightarrow> int option"
  pid_to_module :: "int \<Rightarrow> string option"
  module_lifecycle :: "string \<Rightarrow> ModuleLifecycleRecord option"
  policy_state :: policy_table
  master_alive :: bool
  observability :: SupervisorObservabilitySnapshot

definition fresh_supervisor :: supervisor where
  "fresh_supervisor =
     \<lparr>module_to_pid = \<lambda>_. None, pid_to_module = \<lambda>_. None, module_lifecycle = \<lambda>_. None,
      policy_state = \<lambda>_. None, master_alive = True,
      observability = \<lparr>ready_transitions = \<lambda>_. 0, restart_evaluations = \<lambda>_. 0, fuse_open_events = \<lambda>_. 0,
                       startup_order_trace = [], restart_order_trace = []\<rparr>\<rparr>"

section \<open>Launch plan checks and startup batches\<close>

fun validate_modules :: "SupervisorModuleSpec list \<Rightarrow> string list \<Rightarrow> string option" where
  "validate_modules [] seen = None"
| "validate_modules (m # ms) seen =
     (if spec_name m = [] then Some ''supervisor module entry has empty module_name''
      else if spec_name m \<in> set seen then Some (''duplicate module in launch plan: '' @ spec_name m)
      else validate_modules ms (spec_name m # seen))"

text \<open>\<open>None\<close> is success, \<open>Some\<close> the error text.\<close>

definition ValidateSingleModulePerProcessInvariant :: "SupervisorModuleSpec list \<Rightarrow> string option" where
  "ValidateSingleModulePerProcessInvariant modules = validate_modules modules []"

definition trace_startup :: "SupervisorModuleSpec list \<Rightarrow> 'w supervisor_scheme \<Rightarrow> 'w supervisor_scheme" where
  "trace_startup ms s = s\<lparr>observability := (observability s)\<lparr>startup_order_trace :=
     startup_order_trace (observability s) @ map spec_name ms\<rparr>\<rparr>"

text \<open>
  \<open>shuffle g xs\<close> is \<^verbatim>\<open>std::shuffle\<close> with the generator state \<open>g\<close>. Batches go by increasing
  priority, each holding the modules of that priority in list order before the shuffle.
\<close>

fun startup_batches ::
    "('g \<Rightarrow> SupervisorModuleSpec list \<Rightarrow> SupervisorModuleSpec list \<times> 'g) \<Rightarrow> SupervisorModuleSpec list
     \<Rightarrow> int list \<Rightarrow> 'g \<Rightarrow> 'w supervisor_scheme \<Rightarrow> SupervisorModuleSpec list list \<times> 'g \<times> 'w supervisor_scheme" where
  "startup_batches shuffle modules [] g s = ([], g, s)"
| "startup_batches shuffle modules (p # ps) g s =
     (let (batch, g1) = shuffle g (filter (\<lambda>m. startup_priority m = p) modules);
          (rest, g2, s2) = startup_batches shuffle modules ps g1 (trace_startup batch s)
      in (batch # rest, g2, s2))"

definition BuildInitialStartupBatches ::
    "('g \<Rightarrow> SupervisorModuleSpec list \<Rightarrow> SupervisorModuleSpec list \<times> 'g) \<Rightarrow> SupervisorModuleSpec list
     \<Rightarrow> 'g \<Rightarrow> 'w supervisor_scheme \<Rightarrow> SupervisorModuleSpec list list \<times> 'g \<times> 'w supervisor_scheme" where
  "BuildInitialStartupBatches shuffle modules g s =
     startup_batches shuffle modules (sort (remdups (map startup_priority modules))) g s"

definition OrderSamePriorityRestartBatch ::
    "('g \<Rightarrow> SupervisorModuleSpec list \<Rightarrow> SupervisorModuleSpec list \<times> 'g) \<Rightarrow> SupervisorModuleSpec list
     \<Rightarrow> 'g \<Rightarrow> 'w supervisor_scheme \<Rightarrow> SupervisorModuleSpec list \<times> 'g \<times> 'w supervisor_scheme" where
  "OrderSamePriorityRestartBatch shuffle pending_restart g s =
     (let (ordered, g1) = (if length pending_restart > 1 then shuffle g pending_restart else (pending_restart, g))
      in (ordered, g1, s\<lparr>observability := (observability s)\<lparr>restart_order_trace :=
            restart_order_trace (observability s) @ map spec_name ordered\<rparr>\<rparr>))"

section \<open>Life cycle\<close>

definition set_lifecycle :: "string \<Rightarrow> ModuleLifecycleState \<Rightarrow> string \<Rightarrow> 'w supervisor_scheme \<Rightarrow> 'w supervisor_scheme" where
  "set_lifecycle m st reason s =
     s\<lparr>module_lifecycle := (module_lifecycle s)(m \<mapsto> \<lparr>lstate = st, failure_reason = reason\<rparr>)\<rparr>"

definition TransitionToForked :: "string \<Rightarrow> 'w supervisor_scheme \<Rightarrow> 'w supervisor_scheme" where
  "TransitionToForked m s = set_lifecycle m kForked [] s"

definition TransitionToIniting :: "string \<Rightarrow> 'w supervisor_scheme \<Rightarrow> 'w supervisor_scheme" where
  "TransitionToIniting m s = set_lifecycle m kIniting [] s"

definition TransitionToReady :: "string \<Rightarrow> 'w supervisor_scheme \<Rightarrow> 'w supervisor_scheme" where
  "TransitionToReady m s =
     (let s1 = set_lifecycle m kReady [] s; o1 = observability s1 in
      s1\<lparr>observability := o1\<lparr>ready_transitions := (ready_transitions o1)(m := ready_transitions o1 m + 1)\<rparr>\<rparr>)"

definition TransitionToRunning :: "string \<Rightarrow> 'w supervisor_scheme \<Rightarrow> 'w supervisor_scheme" where
  "TransitionToRunning m s = set_lifecycle m kRunning [] s"

definition TransitionToFailed :: "string \<Rightarrow> string \<Rightarrow> 'w supervisor_scheme \<Rightarrow> 'w supervisor_scheme" where
  "TransitionToFailed m reason s = set_lifecycle m kFailed reason s"

definition LifecycleOf :: "string \<Rightarrow> 'w supervisor_scheme \<Rightarrow> ModuleLifecycleRecord option" where
  "LifecycleOf m s = module_lifecycle s m"

definition WaitForReadyOrTransitionFailed ::
    "(int \<Rightarrow> poll_outcome) \<Rightarrow> string \<Rightarrow> int \<Rightarrow> int \<Rightarrow> 'w supervisor_scheme \<Rightarrow> bool \<times> 'w supervisor_scheme" where
  "WaitForReadyOrTransitionFailed poll_fn m fd timeout_ms s =
     (let s1 = TransitionToIniting m s in
      case WaitReady poll_fn fd timeout_ms of
        Inr u \<Rightarrow> (True, TransitionToReady m s1)
      | Inl err \<Rightarrow> (False, TransitionToFailed m err s1))"

definition CanReleaseNextPriorityBatch :: "string list \<Rightarrow> 'w supervisor_scheme \<Rightarrow> bool" where
  "CanReleaseNextPriorityBatch current s \<longleftrightarrow>
     list_all (\<lambda>m. case LifecycleOf m s of
                     None \<Rightarrow> False | Some r \<Rightarrow> lstate r = kReady \<or> lstate r = kFailed) current"

section \<open>Processes\<close>

text \<open>
  \<open>has_entrypoint\<close> says whether the \<^verbatim>\<open>std::function\<close> is set; \<open>fork_result\<close> is what \<^verbatim>\<open>fork(2)\<close>
  returns in the parent (the child runs the entrypoint and exits).
\<close>

definition ForkModuleProcess :: "string \<Rightarrow> bool \<Rightarrow> int \<Rightarrow> 'w supervisor_scheme \<Rightarrow> (string + unit) \<times> 'w supervisor_scheme" where
  "ForkModuleProcess m has_entrypoint fork_result s =
     (if m = [] then (Inl ''cannot fork module with empty module_name'', s)
      else if \<not> has_entrypoint then (Inl ''cannot fork module without child entrypoint'', s)
      else if module_to_pid s m \<noteq> None
      then (Inl (''module already has an active child process: '' @ m), s)
      else if fork_result < 0 then (Inl (''fork failed for module: '' @ m), s)
      else (Inr (), TransitionToForked m
              (s\<lparr>module_to_pid := (module_to_pid s)(m \<mapsto> fork_result),
                 pid_to_module := (pid_to_module s)(fork_result \<mapsto> m)\<rparr>)))"

definition HasChildProcess :: "string \<Rightarrow> 'w supervisor_scheme \<Rightarrow> bool" where
  "HasChildProcess m s \<longleftrightarrow> module_to_pid s m \<noteq> None"

definition ChildPidOf :: "string \<Rightarrow> 'w supervisor_scheme \<Rightarrow> int option" where
  "ChildPidOf m s = module_to_pid s m"

definition ReapChildProcess :: "int \<Rightarrow> 'w supervisor_scheme \<Rightarrow> bool \<times> 'w supervisor_scheme" where
  "ReapChildProcess pid s =
     (case pid_to_module s pid of
        None \<Rightarrow> (False, s)
      | Some m \<Rightarrow>
          let s1 = (if module_to_pid s m = Some pid then s\<lparr>module_to_pid := (module_to_pid s)(m := None)\<rparr> else s)
          in (True, s1\<lparr>pid_to_module := (pid_to_module s1)(pid := None)\<rparr>))"

definition HandleAbnormalChildExit ::
    "string \<Rightarrow> RestartPolicyConfig \<Rightarrow> int \<Rightarrow> 'w supervisor_scheme \<Rightarrow> RestartDecision \<times> 'w supervisor_scheme" where
  "HandleAbnormalChildExit m policy now_ms s =
     (let s1 = TransitionToFailed m ''abnormal child exit'' s; o1 = observability s1;
          s2 = s1\<lparr>observability := o1\<lparr>restart_evaluations :=
                    (restart_evaluations o1)(m := restart_evaluations o1 m + 1)\<rparr>\<rparr>;
          (decision, tab) = EvaluateAbnormalExit m policy now_ms (policy_state s2);
          s3 = s2\<lparr>policy_state := tab\<rparr>; o3 = observability s3;
          s4 = (if fuse_open decision
                then s3\<lparr>observability := o3\<lparr>fuse_open_events := (fuse_open_events o3)(m := fuse_open_events o3 m + 1)\<rparr>\<rparr>
                else s3)
      in (decision, s4\<lparr>master_alive := True\<rparr>))"

section \<open>The monitor loop\<close>

datatype exit_status = ExitedWith int | KilledBy int

datatype wait_result = NoChildYet | Interrupted | WaitFailed | ChildExit int exit_status

text \<open>
  What one iteration observes: the shutdown flag at the loop test and again in the log-module
  branch, the result of \<^verbatim>\<open>waitpid\<close>, and the steady clock in milliseconds.
\<close>

record monitor_obs =
  shutdown_at_test :: bool
  waited :: wait_result
  shutdown_at_log :: bool
  now_ms_obs :: int

datatype monitor_action =
    SleepIdle
  | TakeConsumersOffline u32
  | SleepBackoff int
  | RestartLogModule "string + unit"
  | RestartBusinessModule string "string + unit"
  | CloseLogPipe string

text \<open>
  \<^verbatim>\<open>MonitorDeps\<close>: each call-back is optional. The two restart call-backs fork through the
  supervisor, so they return it changed; the log restart also returns the new log process.
\<close>

record 'w monitor_deps =
  module_entries :: "(string \<Rightarrow> RestartPolicyConfig option) option"
  has_take_offline :: bool
  has_log_module :: bool
  restart_log_module :: "('w supervisor_scheme \<Rightarrow> int option \<Rightarrow> (string + unit) \<times> 'w supervisor_scheme \<times> int option) option"
  restart_business_module :: "(string \<Rightarrow> 'w supervisor_scheme \<Rightarrow> (string + unit) \<times> 'w supervisor_scheme) option"
  has_close_log_pipe :: bool

datatype loop_end = GoOn | ShutDown | LeftOnError | Fatal string

definition restart_module ::
    "'w monitor_deps \<Rightarrow> string \<Rightarrow> int \<Rightarrow> RestartPolicyConfig \<Rightarrow> 'w supervisor_scheme \<Rightarrow> monitor_action list \<times> 'w supervisor_scheme" where
  "restart_module deps m now_ms policy s =
     (let (decision, s1) = HandleAbnormalChildExit m policy now_ms s in
      if should_restart decision
      then let naps = (if restart_delay_ms decision > 0 then [SleepBackoff (restart_delay_ms decision)] else []) in
        (case restart_business_module deps of
           None \<Rightarrow> (naps, s1)
         | Some restart \<Rightarrow> (case restart m s1 of (res, s2) \<Rightarrow> (naps @ [RestartBusinessModule m res], s2)))
      else if fuse_open decision \<and> has_close_log_pipe deps then ([CloseLogPipe m], s1)
      else ([], s1))"

definition business_exit ::
    "'w monitor_deps \<Rightarrow> int \<Rightarrow> exit_status \<Rightarrow> int \<Rightarrow> 'w supervisor_scheme \<Rightarrow> monitor_action list \<times> 'w supervisor_scheme" where
  "business_exit deps pid status now_ms s =
     (case pid_to_module s pid of
        None \<Rightarrow> ([], s)
      | Some m \<Rightarrow>
          let offline = (if has_take_offline deps then [TakeConsumersOffline (word_of_int pid)] else []);
              s1 = snd (ReapChildProcess pid s) in
          if status = ExitedWith 0 then (offline, s1)
          else case module_entries deps of
                 None \<Rightarrow> (offline, s1)
               | Some entries \<Rightarrow>
                   (case entries m of
                      None \<Rightarrow> (offline, s1)
                    | Some policy \<Rightarrow>
                        (case restart_module deps m now_ms policy s1 of (acts, s2) \<Rightarrow> (offline @ acts, s2))))"

definition monitor_iteration ::
    "'w monitor_deps \<Rightarrow> monitor_obs \<Rightarrow> 'w supervisor_scheme \<times> int option
     \<Rightarrow> loop_end \<times> monitor_action list \<times> ('w supervisor_scheme \<times> int option)" where
  "monitor_iteration deps obs st =
     (if shutdown_at_test obs then (ShutDown, [], st)
      else case waited obs of
             NoChildYet \<Rightarrow> (GoOn, [SleepIdle], st)
           | Interrupted \<Rightarrow> (GoOn, [], st)
           | WaitFailed \<Rightarrow> (LeftOnError, [], st)
           | ChildExit pid status \<Rightarrow>
               if has_log_module deps \<and> snd st = Some pid
               then let s1 = snd (ReapChildProcess pid (fst st)) in
                 (case restart_log_module deps of
                    None \<Rightarrow> (GoOn, [], (s1, snd st))
                  | Some restart \<Rightarrow>
                      if shutdown_at_log obs then (GoOn, [], (s1, snd st))
                      else (case restart s1 (snd st) of
                              (Inl err, st2) \<Rightarrow> (Fatal err, [RestartLogModule (Inl err)], st2)
                            | (Inr u, st2) \<Rightarrow> (GoOn, [RestartLogModule (Inr u)], st2)))
               else (case business_exit deps pid status (now_ms_obs obs) (fst st) of
                       (acts, s1) \<Rightarrow> (GoOn, acts, (s1, snd st))))"

fun RunMonitorLoop ::
    "'w monitor_deps \<Rightarrow> monitor_obs list \<Rightarrow> 'w supervisor_scheme \<times> int option
     \<Rightarrow> loop_end \<times> monitor_action list \<times> ('w supervisor_scheme \<times> int option)" where
  "RunMonitorLoop deps [] st = (GoOn, [], st)"
| "RunMonitorLoop deps (ob # obs) st =
     (case monitor_iteration deps ob st of
        (GoOn, acts, st1) \<Rightarrow>
          (case RunMonitorLoop deps obs st1 of (res, acts2, st2) \<Rightarrow> (res, acts @ acts2, st2))
      | (other, acts, st1) \<Rightarrow> (other, acts, st1))"

section \<open>The process table\<close>

text \<open>The two maps are inverse to each other: one live process per module.\<close>

definition table_inv :: "'w supervisor_scheme \<Rightarrow> bool" where
  "table_inv s \<longleftrightarrow> (\<forall>m pid. module_to_pid s m = Some pid \<longleftrightarrow> pid_to_module s pid = Some m)"

lemma table_inv_fresh: "table_inv fresh_supervisor"
  by (simp add: table_inv_def fresh_supervisor_def)

lemma set_lifecycle_simps [simp]:
  "module_to_pid (set_lifecycle m st r s) = module_to_pid s"
  "pid_to_module (set_lifecycle m st r s) = pid_to_module s"
  "policy_state (set_lifecycle m st r s) = policy_state s"
  "observability (set_lifecycle m st r s) = observability s"
  "LifecycleOf k (set_lifecycle m st r s) =
     (if k = m then Some \<lparr>lstate = st, failure_reason = r\<rparr> else LifecycleOf k s)"
  by (simp_all add: set_lifecycle_def LifecycleOf_def)

lemmas transition_defs = TransitionToForked_def TransitionToIniting_def TransitionToReady_def
  TransitionToRunning_def TransitionToFailed_def Let_def

lemma table_inv_cong:
  "module_to_pid s' = module_to_pid s \<Longrightarrow> pid_to_module s' = pid_to_module s \<Longrightarrow> table_inv s' = table_inv s"
  by (simp add: table_inv_def)

text \<open>The kernel never hands out the number of a child that has not been waited for.\<close>

lemma table_inv_fork:
  assumes "table_inv s" "pid_to_module s pid = None"
  shows "table_inv (snd (ForkModuleProcess m e pid s))"
  using assms by (auto simp: ForkModuleProcess_def table_inv_def transition_defs)

lemma table_inv_reap: "table_inv s \<Longrightarrow> table_inv (snd (ReapChildProcess pid s))"
  by (auto simp: ReapChildProcess_def table_inv_def Let_def split: option.splits) (metis option.inject)

lemma reap_forgets:
  assumes "table_inv s"
  shows "pid_to_module (snd (ReapChildProcess pid s)) pid = None"
    and "pid_to_module s pid = Some m \<Longrightarrow> module_to_pid (snd (ReapChildProcess pid s)) m = None"
    and "q \<noteq> pid \<Longrightarrow> pid_to_module (snd (ReapChildProcess pid s)) q = pid_to_module s q"
  using assms by (auto simp: ReapChildProcess_def table_inv_def Let_def split: option.splits)

lemma HandleAbnormal_simps:
  "module_to_pid (snd (HandleAbnormalChildExit m p t s)) = module_to_pid s"
  "pid_to_module (snd (HandleAbnormalChildExit m p t s)) = pid_to_module s"
  "master_alive (snd (HandleAbnormalChildExit m p t s))"
  "LifecycleOf m (snd (HandleAbnormalChildExit m p t s)) =
     Some \<lparr>lstate = kFailed, failure_reason = ''abnormal child exit''\<rparr>"
  by (simp_all add: HandleAbnormalChildExit_def transition_defs case_prod_beta)
    (simp add: LifecycleOf_def set_lifecycle_def)

section \<open>The contract of the call-backs\<close>

text \<open>
  What the loop needs of the call-backs it is given: a property \<open>known\<close> of the supervisor that a
  restart keeps, and that judging an exit keeps. Then it is kept by every round in which forgetting
  the dead child keeps it; where the dead child is not in the table, nothing is forgotten.
\<close>

locale monitor_hooks =
  fixes deps :: "'w monitor_deps"
    and known :: "'w supervisor_scheme \<Rightarrow> bool"
  assumes judging_keeps: "known s \<Longrightarrow> known (snd (HandleAbnormalChildExit m policy t s))"
    and restart_keeps: "restart_business_module deps = Some restart \<Longrightarrow> known s \<Longrightarrow> known (snd (restart m s))"
    and log_restart_keeps: "has_log_module deps \<Longrightarrow> restart_log_module deps = Some restart_log \<Longrightarrow> known s \<Longrightarrow>
      known (fst (snd (restart_log s log_pid)))"
begin

lemma restart_module_keeps: "known s \<Longrightarrow> known (snd (restart_module deps m t policy s))"
  using judging_keeps restart_keeps by (simp add: restart_module_def Let_def case_prod_beta split: option.split)

lemma business_exit_keeps:
  assumes "known (snd (ReapChildProcess pid s))" "pid_to_module s pid = None \<Longrightarrow> known s"
  shows "known (snd (business_exit deps pid status t s))"
  using assms restart_module_keeps by (auto simp: business_exit_def Let_def case_prod_beta split: option.split)

lemma iteration_keeps:
  assumes "\<And>pid status. \<not> shutdown_at_test obs \<Longrightarrow> waited obs = ChildExit pid status \<Longrightarrow>
      known (snd (ReapChildProcess pid s)) \<and> (pid_to_module s pid = None \<longrightarrow> known s)"
    and "shutdown_at_test obs \<or> (\<forall>pid status. waited obs \<noteq> ChildExit pid status) \<Longrightarrow> known s"
  shows "known (fst (snd (snd (monitor_iteration deps obs (s, log_pid)))))"
proof (cases "\<not> shutdown_at_test obs \<and> (\<exists>pid status. waited obs = ChildExit pid status)")
  case True
  then obtain pid status where w: "waited obs = ChildExit pid status" and go: "\<not> shutdown_at_test obs" by blast
  have reaped: "known (snd (ReapChildProcess pid s))" and unknown: "pid_to_module s pid = None \<Longrightarrow> known s"
    using assms(1) [OF go w] by simp_all
  show ?thesis
    using business_exit_keeps [OF reaped unknown] log_restart_keeps [OF _ _ reaped, of _ log_pid] reaped go
    by (fastforce simp: monitor_iteration_def w Let_def case_prod_beta split: option.split sum.split prod.split)
next
  case False
  then show ?thesis
    using assms(2) by (auto simp: monitor_iteration_def split: wait_result.split)
qed

lemma loop_keeps:
  assumes "known (fst st)" "\<And>pid s. known s \<Longrightarrow> known (snd (ReapChildProcess pid s))"
  shows "known (fst (snd (snd (RunMonitorLoop deps obs st))))"
  using assms(1)
proof (induction obs arbitrary: st)
  case (Cons ob obs)
  have "known (fst (snd (snd (monitor_iteration deps ob st))))"
    using iteration_keeps [of ob "fst st" "snd st"] assms(2) Cons.prems by simp
  then show ?case
    using Cons.IH by (fastforce simp: case_prod_beta split: prod.split loop_end.split)
qed simp

end

section \<open>Startup batches\<close>

lemma startup_batches_step:
  "startup_batches shuffle modules (p # ps) g s =
     (fst (shuffle g (filter (\<lambda>m. startup_priority m = p) modules))
        # fst (startup_batches shuffle modules ps (snd (shuffle g (filter (\<lambda>m. startup_priority m = p) modules)))
            (trace_startup (fst (shuffle g (filter (\<lambda>m. startup_priority m = p) modules))) s)),
      snd (startup_batches shuffle modules ps (snd (shuffle g (filter (\<lambda>m. startup_priority m = p) modules)))
            (trace_startup (fst (shuffle g (filter (\<lambda>m. startup_priority m = p) modules))) s)))"
  by (simp add: case_prod_beta Let_def)

declare startup_batches.simps(2) [simp del]
declare startup_batches_step [simp]

lemma startup_batches_list:
  assumes "\<And>g xs. mset (fst (shuffle g xs)) = mset xs"
  shows "list_all2 (\<lambda>p b. mset b = mset (filter (\<lambda>m. startup_priority m = p) modules)) ps
           (fst (startup_batches shuffle modules ps g s))"
  by (induction ps arbitrary: g s) (simp_all add: assms)

lemma startup_batches_trace:
  "startup_order_trace (observability (snd (snd (startup_batches shuffle modules ps g s)))) =
   startup_order_trace (observability s) @ map spec_name (concat (fst (startup_batches shuffle modules ps g s)))"
  by (induction ps arbitrary: g s) (simp_all add: trace_startup_def)

lemma mset_concat_batches:
  assumes "list_all2 (\<lambda>p b. mset b = mset (filter (\<lambda>m. startup_priority m = p) xs)) ps bs" "distinct ps"
  shows "mset (concat bs) = mset (filter (\<lambda>m. startup_priority m \<in> set ps) xs)"
  using assms
proof (induction ps bs rule: list_all2_induct)
  case (Cons p ps b bs)
  have disj: "filter (\<lambda>m. startup_priority m = p \<or> startup_priority m \<in> set ps) xs =
      filter (\<lambda>m. startup_priority m \<in> set (p # ps)) xs"
    by simp
  have "mset (filter (\<lambda>m. startup_priority m = p) xs) + mset (filter (\<lambda>m. startup_priority m \<in> set ps) xs)
      = mset (filter (\<lambda>m. startup_priority m = p \<or> startup_priority m \<in> set ps) xs)"
    using Cons.prems by (induction xs) auto
  then show ?case
    using Cons by simp
qed simp

section \<open>Properties\<close>

text \<open>
  Startup order. With any shuffle that permutes its list, the startup batches together are a
  permutation of the modules, one non-empty batch per priority, all of one priority, priorities
  strictly increasing from batch to batch; the recorded trace is the batches in order.
\<close>

lemma startup_batches_correct:
  assumes "\<And>g xs. mset (fst (shuffle g xs)) = mset xs"
    and "BuildInitialStartupBatches shuffle modules g s = (batches, g', s')"
  shows "mset (concat batches) = mset modules \<and>
    (\<exists>ps. length ps = length batches \<and> sorted ps \<and> distinct ps \<and>
       (\<forall>i < length batches. batches ! i \<noteq> [] \<and> (\<forall>m \<in> set (batches ! i). startup_priority m = ps ! i))) \<and>
    startup_order_trace (observability s') =
      startup_order_trace (observability s) @ map spec_name (concat batches)"
proof (intro conjI)
  let ?ps = "sort (remdups (map startup_priority modules))"
  have bs: "batches = fst (startup_batches shuffle modules ?ps g s)"
    and s': "s' = snd (snd (startup_batches shuffle modules ?ps g s))"
    using assms(2) by (simp_all add: BuildInitialStartupBatches_def)
  have all2: "list_all2 (\<lambda>p b. mset b = mset (filter (\<lambda>m. startup_priority m = p) modules)) ?ps batches"
    unfolding bs by (rule startup_batches_list [OF assms(1)])
  have "filter (\<lambda>m. startup_priority m \<in> set ?ps) modules = modules"
    by (rule filter_True) simp
  then show "mset (concat batches) = mset modules"
    using mset_concat_batches [OF all2] by simp
  have "batches ! i \<noteq> [] \<and> (\<forall>m \<in> set (batches ! i). startup_priority m = ?ps ! i)" if "i < length batches" for i
  proof -
    have i: "i < length ?ps" using that list_all2_lengthD [OF all2] by simp
    have m: "mset (batches ! i) = mset (filter (\<lambda>m. startup_priority m = ?ps ! i) modules)"
      using all2 i by (rule list_all2_nthD)
    have "?ps ! i \<in> set ?ps" using i by (rule nth_mem)
    then have "\<exists>x \<in> set modules. startup_priority x = ?ps ! i" by auto
    then have "filter (\<lambda>m. startup_priority m = ?ps ! i) modules \<noteq> []"
      by (auto simp: filter_empty_conv)
    moreover have "set (batches ! i) = set (filter (\<lambda>m. startup_priority m = ?ps ! i) modules)"
      using m by (rule mset_eq_setD)
    ultimately show ?thesis by auto
  qed
  then show "\<exists>ps. length ps = length batches \<and> sorted ps \<and> distinct ps \<and>
      (\<forall>i < length batches. batches ! i \<noteq> [] \<and> (\<forall>m \<in> set (batches ! i). startup_priority m = ps ! i))"
    using list_all2_lengthD [OF all2] by (intro exI [of _ ?ps]) simp
  show "startup_order_trace (observability s') =
      startup_order_trace (observability s) @ map spec_name (concat batches)"
    unfolding bs s' by (rule startup_batches_trace)
qed

definition demo_modules :: "SupervisorModuleSpec list" where
  "demo_modules = [\<lparr>spec_name = ''b'', startup_priority = 2\<rparr>, \<lparr>spec_name = ''a'', startup_priority = 1\<rparr>,
                   \<lparr>spec_name = ''c'', startup_priority = 2\<rparr>]"

text \<open>
  One process per module. The two process maps stay inverse to each other through forks and
  reaps (the kernel gives a new child a number no unreaped child has); a second fork of a module
  that has a live child is refused and changes nothing, and after the child is reaped the module
  can be forked again.
\<close>

lemma one_process_per_module:
  assumes "table_inv s" "0 < pid" "pid_to_module s pid = None" "m \<noteq> []"
  shows "table_inv (snd (ForkModuleProcess m True pid s)) \<and>
    (\<forall>q. table_inv (snd (ReapChildProcess q s))) \<and>
    (if HasChildProcess m s
     then snd (ForkModuleProcess m True pid s) = s \<and> isl (fst (ForkModuleProcess m True pid s))
     else ChildPidOf m (snd (ForkModuleProcess m True pid s)) = Some pid \<and>
          LifecycleOf m (snd (ForkModuleProcess m True pid s)) = Some \<lparr>lstate = kForked, failure_reason = []\<rparr> \<and>
          \<not> HasChildProcess m (snd (ReapChildProcess pid (snd (ForkModuleProcess m True pid s)))))"
proof -
  have fork: "table_inv (snd (ForkModuleProcess m True pid s))"
    by (rule table_inv_fork [OF assms(1,3)])
  have "\<not> HasChildProcess m (snd (ReapChildProcess pid (snd (ForkModuleProcess m True pid s))))"
    if "\<not> HasChildProcess m s"
  proof -
    have "pid_to_module (snd (ForkModuleProcess m True pid s)) pid = Some m"
      using that assms by (simp add: ForkModuleProcess_def HasChildProcess_def transition_defs)
    then show ?thesis
      using reap_forgets(2) [OF fork] by (simp add: HasChildProcess_def)
  qed
  with fork table_inv_reap [OF assms(1)] show ?thesis
    using assms by (auto simp: ForkModuleProcess_def HasChildProcess_def ChildPidOf_def transition_defs)
qed

lemma restart_module_no_offline:
  "\<forall>a \<in> set (fst (restart_module deps m t p s)). \<forall>q. a \<noteq> TakeConsumersOffline q"
  by (auto simp: restart_module_def Let_def split: prod.splits option.splits if_splits)


definition demo_deps :: "unit monitor_deps" where
  "demo_deps = \<lparr>module_entries = Some (\<lambda>m. Some demo_policy), has_take_offline = True, has_log_module = False,
     restart_log_module = None,
     restart_business_module = Some (\<lambda>m s. ForkModuleProcess m True 43 s), has_close_log_pipe = True\<rparr>"


text \<open>Call-backs that keep the process table consistent, such as those that fork through the supervisor, keep the contract.\<close>

definition keeps_table :: "'w monitor_deps \<Rightarrow> bool" where
  "keeps_table deps \<longleftrightarrow>
     (\<forall>restart m s. restart_business_module deps = Some restart \<longrightarrow> table_inv s \<longrightarrow> table_inv (snd (restart m s))) \<and>
     (\<forall>restart_log s pid. has_log_module deps \<longrightarrow> restart_log_module deps = Some restart_log \<longrightarrow> table_inv s \<longrightarrow>
        table_inv (fst (snd (restart_log s pid))))"

lemma table_inv_judged: "table_inv (snd (HandleAbnormalChildExit m p t s)) = table_inv s"
  by (rule table_inv_cong) (simp_all add: HandleAbnormal_simps)

interpretation table_hooks: monitor_hooks deps "\<lambda>s. keeps_table deps \<and> table_inv s" for deps
  by unfold_locales (auto simp: table_inv_judged keeps_table_def)

text \<open>
  Non-fast-fail. The monitor loop ends only on a shutdown request, on a \<^verbatim>\<open>waitpid\<close> error or
  when the log module cannot be restarted; with the log module left out, no exit of any module,
  in any order and with any status, ends it, and the process table stays consistent as long as
  the restart call-back keeps it so.
\<close>

lemma monitor_goes_on:
  assumes "\<not> has_log_module deps" "\<forall>ob \<in> set obs. \<not> shutdown_at_test ob \<and> waited ob \<noteq> WaitFailed"
  shows "fst (RunMonitorLoop deps obs st) = GoOn"
  using assms(2)
proof (induction obs arbitrary: st)
  case (Cons ob obs)
  then have "fst (monitor_iteration deps ob st) = GoOn"
    using assms(1) by (simp add: monitor_iteration_def case_prod_beta split: wait_result.split)
  then show ?case
    using Cons by (simp add: case_prod_beta split: prod.split loop_end.split)
qed simp

lemma monitor_survives_module_exits:
  assumes "\<not> has_log_module deps" "table_inv (fst st)"
    and "\<forall>ob \<in> set obs. \<not> shutdown_at_test ob \<and> waited ob \<noteq> WaitFailed"
    and "\<And>restart m s. restart_business_module deps = Some restart \<Longrightarrow> table_inv s \<Longrightarrow> table_inv (snd (restart m s))"
  shows "\<exists>acts st'. RunMonitorLoop deps obs st = (GoOn, acts, st') \<and> table_inv (fst st')"
proof -
  have "keeps_table deps"
    using assms(1,4) by (simp add: keeps_table_def)
  then show ?thesis
    using monitor_goes_on [OF assms(1,3), of st] table_hooks.loop_keeps [of deps st obs] assms(2) table_inv_reap
    by (cases "RunMonitorLoop deps obs st") auto
qed

end
