(* ===== verification/Text.thy ===== *)
theory Text
  imports Prelude Complex_Main "HOL-Library.Char_ord" "HOL-Library.List_Lexorder"
begin

text \<open>
  What the program uses of the C++ string library: character classes, trimming, splitting,
  decimal conversion (\<^verbatim>\<open>std::to_string\<close>, \<^verbatim>\<open>std::stoll\<close>, \<^verbatim>\<open>std::stoull\<close>, \<^verbatim>\<open>std::stod\<close>) and
  the default formatting of a \<^verbatim>\<open>double\<close> by an output stream. Strings are lists of bytes;
  a \<^verbatim>\<open>double\<close> is the rational its decimal text denotes, so the rounding to 53 bits and the
  sign of zero are not modelled.
\<close>

section \<open>Characters\<close>

abbreviation quote_char :: char where "quote_char \<equiv> CHR 0x22"
abbreviation backslash :: char where "backslash \<equiv> CHR 0x5C"
abbreviation newline :: char where "newline \<equiv> CHR 0x0A"
abbreviation nul :: char where "nul \<equiv> CHR 0x00"

definition is_digit :: "char \<Rightarrow> bool" where
  "is_digit c \<longleftrightarrow> 48 \<le> (of_char c :: nat) \<and> (of_char c :: nat) \<le> 57"

definition is_space :: "char \<Rightarrow> bool" where
  "is_space c \<longleftrightarrow> c = CHR 0x20 \<or> (9 \<le> (of_char c :: nat) \<and> (of_char c :: nat) \<le> 13)"

definition is_lower :: "char \<Rightarrow> bool" where
  "is_lower c \<longleftrightarrow> 97 \<le> (of_char c :: nat) \<and> (of_char c :: nat) \<le> 122"

definition is_upper :: "char \<Rightarrow> bool" where
  "is_upper c \<longleftrightarrow> 65 \<le> (of_char c :: nat) \<and> (of_char c :: nat) \<le> 90"

definition to_lower :: "char \<Rightarrow> char" where
  "to_lower c = (if is_upper c then char_of ((of_char c :: nat) + 32) else c)"

definition digit_value :: "char \<Rightarrow> nat" where
  "digit_value c = (of_char c :: nat) - 48"

definition digit_char :: "nat \<Rightarrow> char" where
  "digit_char d = char_of (48 + d)"

lemma digit_char_facts: "d < 10 \<Longrightarrow> is_digit (digit_char d) \<and> digit_value (digit_char d) = d"
  by (simp add: is_digit_def digit_value_def digit_char_def)

section \<open>Trimming and splitting\<close>

definition trim :: "string \<Rightarrow> string" where
  "trim s = rev (dropWhile is_space (rev (dropWhile is_space s)))"

text \<open>\<open>split_at c s\<close> is what repeated \<^verbatim>\<open>std::getline(stream, token, c)\<close> yields.\<close>

fun split_at :: "char \<Rightarrow> string \<Rightarrow> string list" where
  "split_at c [] = []"
| "split_at c (x # xs) =
     (if x = c then [] # split_at c xs
      else case split_at c xs of
             [] \<Rightarrow> [[x]]
           | t # ts \<Rightarrow> (x # t) # ts)"

text \<open>The white-space separated words \<^verbatim>\<open>stream >> token\<close> reads.\<close>

fun words_acc :: "string \<Rightarrow> string \<Rightarrow> string list" where
  "words_acc acc [] = (if acc = [] then [] else [acc])"
| "words_acc acc (c # cs) =
     (if is_space c then (if acc = [] then words_acc [] cs else acc # words_acc [] cs)
      else words_acc (acc @ [c]) cs)"

definition words_of :: "string \<Rightarrow> string list" where
  "words_of s = words_acc [] s"

text \<open>A text between single quotes, as the error messages print names.\<close>

definition quoted :: "string \<Rightarrow> string" where
  "quoted s = CHR 0x27 # s @ [CHR 0x27]"

definition starts_with :: "string \<Rightarrow> string \<Rightarrow> bool" where
  "starts_with p s \<longleftrightarrow> take (length p) s = p"

fun contains_text :: "string \<Rightarrow> string \<Rightarrow> bool" where
  "contains_text p [] = (p = [])"
| "contains_text p (c # cs) = (starts_with p (c # cs) \<or> contains_text p cs)"

section \<open>Decimal numbers\<close>

fun nat_digits :: "nat \<Rightarrow> string" where
  "nat_digits n = (if n < 10 then [digit_char n] else nat_digits (n div 10) @ [digit_char (n mod 10)])"

declare nat_digits.simps [simp del]

definition digits_value :: "string \<Rightarrow> nat" where
  "digits_value s = foldl (\<lambda>n c. 10 * n + digit_value c) 0 s"

definition int_to_string :: "int \<Rightarrow> string" where
  "int_to_string i = (if i < 0 then CHR ''-'' # nat_digits (nat (- i)) else nat_digits (nat i))"

lemma digits_value_snoc: "digits_value (s @ [c]) = 10 * digits_value s + digit_value c"
  by (simp add: digits_value_def)

lemma nat_digits_digits: "list_all is_digit (nat_digits n)"
proof (induction n rule: nat_digits.induct)
  case (1 n)
  then show ?case
    by (subst nat_digits.simps) (simp add: digit_char_facts)
qed

lemma nat_digits_nonempty: "nat_digits n \<noteq> []"
  by (subst nat_digits.simps) simp

lemma digits_value_nat_digits [simp]: "digits_value (nat_digits n) = n"
proof (induction n rule: nat_digits.induct)
  case (1 n)
  show ?case
  proof (cases "n < 10")
    case True
    then show ?thesis
      by (subst nat_digits.simps) (simp add: digits_value_def digit_char_facts)
  next
    case False
    then show ?thesis
      using 1 by (subst nat_digits.simps) (simp add: digits_value_snoc digit_char_facts)
  qed
qed

lemma nat_digits_inject: "nat_digits m = nat_digits n \<longleftrightarrow> m = n"
  by (metis digits_value_nat_digits)

section \<open>Parsing numbers\<close>

datatype num_error = InvalidArgument string | OutOfRange string

text \<open>The optional sign, and whether it is a minus.\<close>

fun split_sign :: "string \<Rightarrow> bool \<times> string" where
  "split_sign (c # cs) = (if c = CHR ''-'' then (True, cs) else if c = CHR ''+'' then (False, cs) else (False, c # cs))"
| "split_sign [] = (False, [])"

text \<open>
  \<^verbatim>\<open>std::stoll(s, &consumed, 10)\<close>: leading white space, a sign, the longest run of digits; the
  value and the rest of the text.
\<close>

definition stoll :: "string \<Rightarrow> num_error + int \<times> string" where
  "stoll s =
     (let (neg, t) = split_sign (dropWhile is_space s); ds = takeWhile is_digit t; v = int (digits_value ds);
          i = (if neg then - v else v) in
      if ds = [] then Inl (InvalidArgument ''stoll'')
      else if i < - (2 ^ 63) \<or> i \<ge> 2 ^ 63 then Inl (OutOfRange ''stoll'')
      else Inr (i, dropWhile is_digit t))"

text \<open>\<^verbatim>\<open>std::stoull\<close> of a text of digits only, as its one caller guarantees.\<close>

definition stoull_digits :: "string \<Rightarrow> num_error + nat" where
  "stoull_digits ds = (if digits_value ds \<ge> 2 ^ 64 then Inl (OutOfRange ''stoull'') else Inr (digits_value ds))"

text \<open>
  \<^verbatim>\<open>std::stoull(s, &consumed, 10)\<close> in general: a minus sign negates the value modulo \<open>2 ^ 64\<close>.
\<close>

definition stoull :: "string \<Rightarrow> num_error + nat \<times> string" where
  "stoull s =
     (let (neg, t) = split_sign (dropWhile is_space s); ds = takeWhile is_digit t; v = digits_value ds in
      if ds = [] then Inl (InvalidArgument ''stoull'')
      else if v \<ge> 2 ^ 64 then Inl (OutOfRange ''stoull'')
      else Inr (if neg then (2 ^ 64 - v) mod 2 ^ 64 else v, dropWhile is_digit t))"

definition scale10 :: "int \<Rightarrow> rat" where
  "scale10 e = (if e \<ge> 0 then 10 ^ nat e else 1 / 10 ^ nat (- e))"

text \<open>
  \<^verbatim>\<open>std::stod\<close> of a number token: digits, an optional fraction and an optional exponent; what
  follows the longest prefix that is a number is ignored. A magnitude outside the range of a
  \<^verbatim>\<open>double\<close> raises.
\<close>

definition stod :: "string \<Rightarrow> num_error + rat" where
  "stod s =
     (let (neg, t) = split_sign (dropWhile is_space s);
          whole = takeWhile is_digit t; t1 = dropWhile is_digit t;
          (frac, t2) = (case t1 of c # cs \<Rightarrow> if c = CHR ''.'' then (takeWhile is_digit cs, dropWhile is_digit cs)
                                             else ([], t1)
                        | [] \<Rightarrow> ([], []));
          e = (case t2 of
                 c # cs \<Rightarrow>
                   if c = CHR ''e'' \<or> c = CHR ''E''
                   then (let (eneg, u) = split_sign cs; ed = takeWhile is_digit u in
                         if ed = [] then 0 else if eneg then - int (digits_value ed) else int (digits_value ed))
                   else 0
               | [] \<Rightarrow> 0);
          m = rat_of_nat (digits_value (whole @ frac));
          v = m * scale10 (e - int (length frac)) in
      if whole = [] \<and> frac = [] then Inl (InvalidArgument ''stod'')
      else if v \<noteq> 0 \<and> (v < scale10 (-308) * 2225073858507201 / 10 ^ 15 \<or> v \<ge> 2 ^ 1024) then Inl (OutOfRange ''stod'')
      else Inr (if neg then - v else v))"

lemma takeWhile_digits: "list_all is_digit ds \<Longrightarrow> (rest = [] \<or> \<not> is_digit (hd rest)) \<Longrightarrow>
    takeWhile is_digit (ds @ rest) = ds \<and> dropWhile is_digit (ds @ rest) = rest"
  by (induction ds) (cases rest; auto)+

lemma digit_not_space_sign:
  "is_digit c \<Longrightarrow> \<not> is_space c \<and> c \<noteq> CHR ''-'' \<and> c \<noteq> CHR ''+''"
  by (auto simp: is_digit_def is_space_def)

lemma nat_digits_Cons: "\<exists>c cs. nat_digits n = c # cs \<and> is_digit c"
  using nat_digits_digits [of n] nat_digits_nonempty [of n] by (cases "nat_digits n") auto

lemma stoll_int_to_string:
  assumes "- (2 ^ 63) \<le> i" "i < 2 ^ 63" "rest = [] \<or> \<not> is_digit (hd rest)"
  shows "stoll (int_to_string i @ rest) = Inr (i, rest)"
proof -
  obtain c cs where c: "nat_digits (nat \<bar>i\<bar>) = c # cs" "is_digit c"
    using nat_digits_Cons by blast
  note d = takeWhile_digits [OF nat_digits_digits assms(3), of "nat \<bar>i\<bar>"]
  have sign: "split_sign (nat_digits (nat \<bar>i\<bar>) @ rest) = (False, nat_digits (nat \<bar>i\<bar>) @ rest)"
    "dropWhile is_space (nat_digits (nat \<bar>i\<bar>) @ rest) = nat_digits (nat \<bar>i\<bar>) @ rest"
    using digit_not_space_sign [OF c(2)] by (simp_all add: c(1))
  have minus: "\<not> is_space (CHR ''-'')"
    by (simp add: is_space_def)
  have val: "digits_value (c # cs) = nat \<bar>i\<bar>"
    by (metis c(1) digits_value_nat_digits)
  show ?thesis
    using assms(1,2) d sign c minus val
    by (cases "i < 0") (simp_all add: stoll_def int_to_string_def Let_def nat_digits_nonempty)
qed

section \<open>Default output of a floating-point number\<close>

text \<open>
  \<^verbatim>\<open>oss << std::setprecision(p) << x\<close>: \<open>p\<close> significant digits, trailing zeros dropped, the exponent
  form when the decimal exponent is below -4 or not below \<open>p\<close>; \<open>p\<close> is 6 by default. \<open>decimal_exponent\<close> needs as
  many steps as the exponent has units; 700 cover the range of a \<^verbatim>\<open>double\<close>.
\<close>

fun decimal_exponent :: "nat \<Rightarrow> int \<Rightarrow> rat \<Rightarrow> int" where
  "decimal_exponent 0 e x = e"
| "decimal_exponent (Suc n) e x =
     (if x \<ge> 10 then decimal_exponent n (e + 1) (x / 10)
      else if x < 1 then decimal_exponent n (e - 1) (x * 10)
      else e)"

definition round_half_even :: "rat \<Rightarrow> nat" where
  "round_half_even x =
     (let n = nat \<lfloor>x\<rfloor>; r = x - rat_of_nat n in
      if r < 1 / 2 then n else if r > 1 / 2 then n + 1 else if even n then n else n + 1)"

definition drop_zeros :: "string \<Rightarrow> string" where
  "drop_zeros s = rev (dropWhile (\<lambda>c. c = CHR ''0'') (rev s))"

definition with_point :: "string \<Rightarrow> string \<Rightarrow> string" where
  "with_point whole decimals = whole @ (let z = drop_zeros decimals in if z = [] then [] else CHR ''.'' # z)"

definition format_general :: "nat \<Rightarrow> rat \<Rightarrow> string" where
  "format_general p x =
     (if x = 0 then ''0''
      else
        (let a = \<bar>x\<bar>; e0 = decimal_exponent 700 0 a; n0 = round_half_even (a * scale10 (int p - 1 - e0));
             e = (if n0 = 10 ^ p then e0 + 1 else e0); n = (if n0 = 10 ^ p then 10 ^ (p - 1) else n0);
             ds = nat_digits n;
             ae = nat_digits (nat \<bar>e\<bar>);
             body = (if e < -4 \<or> e \<ge> int p
                     then with_point (take 1 ds) (drop 1 ds) @ CHR ''e'' #
                            (if e < 0 then CHR ''-'' else CHR ''+'') # (if length ae < 2 then CHR ''0'' # ae else ae)
                     else if e \<ge> 0 then with_point (take (nat e + 1) ds) (drop (nat e + 1) ds)
                     else with_point ''0'' (replicate (nat (- e) - 1) (CHR ''0'') @ ds))
         in (if x < 0 then CHR ''-'' # body else body)))"

definition format_double :: "rat \<Rightarrow> string" where
  "format_double x = format_general 6 x"

text \<open>
  \<^verbatim>\<open>std::atoll\<close> saturates as in the GNU library; \<^verbatim>\<open>std::atoi\<close> is its value cast to 32 bits.
\<close>

definition atoll :: "string \<Rightarrow> int" where
  "atoll s =
     (let (neg, t) = split_sign (dropWhile is_space s); v = int (digits_value (takeWhile is_digit t)) in
      if neg then max (- (2 ^ 63)) (- v) else min (2 ^ 63 - 1) v)"

definition atoi :: "string \<Rightarrow> int" where
  "atoi s = (atoll s + 2 ^ 31) mod 2 ^ 32 - 2 ^ 31"

lemma atoll_nat_digits: "n < 2 ^ 63 \<Longrightarrow> atoll (nat_digits n) = int n"
proof -
  assume n: "n < 2 ^ 63"
  obtain c cs where c: "nat_digits n = c # cs" "is_digit c"
    using nat_digits_Cons by blast
  have d: "takeWhile is_digit (nat_digits n) = nat_digits n"
    using takeWhile_digits [OF nat_digits_digits, of "[]" n] by simp
  have sign: "split_sign (dropWhile is_space (nat_digits n)) = (False, nat_digits n)"
    using digit_not_space_sign [OF c(2)] c(1) by simp
  have "int n < 2 ^ 63"
    using n by (metis of_nat_less_iff of_nat_numeral of_nat_power)
  then show ?thesis
    by (simp add: atoll_def sign d)
qed

lemma atoi_nat_digits: "n < 2 ^ 31 \<Longrightarrow> atoi (nat_digits n) = int n"
proof -
  assume n: "n < 2 ^ 31"
  then have "int n < 2 ^ 31"
    by (metis of_nat_less_iff of_nat_numeral of_nat_power)
  then show ?thesis
    using n by (simp add: atoi_def atoll_nat_digits)
qed

section \<open>Paths\<close>

text \<open>
  \<^verbatim>\<open>std::filesystem::path\<close> on POSIX; a run of separators counts as one.
\<close>

definition is_absolute_path :: "string \<Rightarrow> bool" where
  "is_absolute_path p \<longleftrightarrow> starts_with ''/'' p"

definition parent_path :: "string \<Rightarrow> string" where
  "parent_path p =
     (let dir = rev (dropWhile (\<lambda>c. c \<noteq> CHR ''/'') (rev p)); d = rev (dropWhile (\<lambda>c. c = CHR ''/'') (rev dir))
      in if d = [] \<and> dir \<noteq> [] then ''/'' else d)"

definition join_path :: "string \<Rightarrow> string \<Rightarrow> string" where
  "join_path dir p =
     (if is_absolute_path p then p
      else if dir = [] \<or> last dir = CHR ''/'' then dir @ p
      else dir @ CHR ''/'' # p)"

text \<open>
  The components of a path after its root, then the normal form: \<open>.\<close> goes, a name followed by
  \<open>..\<close> goes, \<open>..\<close> directly below the root goes; a separator at the end stays when the last
  component was one of these. The flag of the accumulator says whether it does.
\<close>

definition path_components :: "string \<Rightarrow> string list" where
  "path_components p = filter (\<lambda>c. c \<noteq> []) (split_at (CHR ''/'') p)"

definition normal_step :: "bool \<Rightarrow> string \<Rightarrow> string list \<times> bool \<Rightarrow> string list \<times> bool" where
  "normal_step absolute c acc =
     (let stack = fst acc in
      if c = ''.'' then (stack, True)
      else if c = ''..''
      then (if stack \<noteq> [] \<and> last stack \<noteq> ''..'' then (butlast stack, True)
            else if absolute \<and> stack = [] then (stack, True)
            else (stack @ [c], False))
      else (stack @ [c], False))"

definition join_with :: "string \<Rightarrow> string list \<Rightarrow> string" where
  "join_with sep xs = (case xs of [] \<Rightarrow> [] | x # ys \<Rightarrow> x @ concat (map (\<lambda>y. sep @ y) ys))"

definition lexically_normal :: "string \<Rightarrow> string" where
  "lexically_normal p =
     (if p = [] then []
      else
        (let absolute = is_absolute_path p;
             (stack, slash0) = fold (normal_step absolute) (path_components p) ([], False);
             slash = (slash0 \<or> last p = CHR ''/'') \<and> stack \<noteq> [] \<and> last stack \<noteq> ''..'';
             body = (if absolute then ''/'' else []) @ join_with ''/'' stack @ (if slash then ''/'' else [])
         in if body = [] then ''.'' else body))"

lemma split_at_single: "c \<notin> set x \<Longrightarrow> x \<noteq> [] \<Longrightarrow> split_at c x = [x]"
proof (induction x)
  case (Cons a x)
  then show ?case
    by (cases "x = []") auto
qed simp

lemma split_at_step: "c \<notin> set x \<Longrightarrow> split_at c (x @ c # rest) = x # split_at c rest"
  by (induction x) auto

lemma join_with_Cons: "join_with sep (x # xs) = (if xs = [] then x else x @ sep @ join_with sep xs)"
  by (cases xs) (simp_all add: join_with_def)

lemma split_at_join:
  "list_all (\<lambda>x. c \<notin> set x \<and> x \<noteq> []) xs \<Longrightarrow> split_at c (join_with [c] xs) = xs"
proof (induction xs)
  case (Cons x xs)
  then show ?case
    by (cases "xs = []") (simp_all add: join_with_Cons split_at_single split_at_step)
qed (simp add: join_with_def)

lemma join_with_empty: "join_with sep xs = [] \<Longrightarrow> x \<in> set xs \<Longrightarrow> x = []"
proof (induction xs)
  case (Cons y ys)
  then show ?case
    by (cases "ys = []") (auto simp: join_with_Cons)
qed simp

lemma stoull_nat_digits: "n < 2 ^ 64 \<Longrightarrow> stoull (nat_digits n) = Inr (n, [])"
proof -
  assume n: "n < 2 ^ 64"
  obtain c cs where c: "nat_digits n = c # cs" "is_digit c"
    using nat_digits_Cons by blast
  have d: "takeWhile is_digit (nat_digits n) = nat_digits n" "dropWhile is_digit (nat_digits n) = []"
    using takeWhile_digits [OF nat_digits_digits, of "[]" n] by simp_all
  have sign: "split_sign (dropWhile is_space (nat_digits n)) = (False, nat_digits n)"
    using digit_not_space_sign [OF c(2)] by (simp add: c(1))
  show ?thesis
    using n by (simp only: stoull_def sign prod.case Let_def d nat_digits_nonempty if_False digits_value_nat_digits not_le [symmetric] simp_thms)
qed

section \<open>Searching\<close>

text \<open>\<^verbatim>\<open>std::string::find\<close>.\<close>

fun find_text :: "string \<Rightarrow> string \<Rightarrow> nat option" where
  "find_text p [] = (if p = [] then Some 0 else None)"
| "find_text p (c # cs) = (if starts_with p (c # cs) then Some 0 else map_option Suc (find_text p cs))"

abbreviation CR :: char where "CR \<equiv> CHR 0x0D"
abbreviation LF :: char where "LF \<equiv> CHR 0x0A"

lemma starts_with_self [simp]: "starts_with d (d @ r)"
  by (simp add: starts_with_def)

lemma starts_with_hd: "starts_with d (c # cs) \<Longrightarrow> d \<noteq> [] \<Longrightarrow> hd d = c"
  by (cases d) (auto simp: starts_with_def)

lemma find_here: "d \<noteq> [] \<Longrightarrow> find_text d (d @ r) = Some 0"
  by (cases d) (simp_all add: starts_with_def)

lemma starts_with_append: "starts_with p s \<Longrightarrow> starts_with p (s @ t)"
  by (auto simp: starts_with_def) (metis append_take_drop_id length_append nle_le take_all_iff take_append length_take)

lemma starts_with_length: "starts_with p s \<Longrightarrow> length p \<le> length s"
  by (metis length_take min.cobounded2 nle_le starts_with_def take_all_iff)

lemma starts_with_short: "starts_with p (s @ t) \<Longrightarrow> length p \<le> length s \<Longrightarrow> starts_with p s"
  by (simp add: starts_with_def)

lemma find_length: "find_text p s = Some i \<Longrightarrow> i + length p \<le> length s"
proof (induction s arbitrary: i)
  case (Cons c cs)
  then show ?case
    using starts_with_length [of p "c # cs"] by (auto split: if_splits)
qed (simp split: if_splits)

lemma find_append: "find_text p s = Some i \<Longrightarrow> p \<noteq> [] \<Longrightarrow> find_text p (s @ t) = Some i"
proof (induction s arbitrary: i)
  case (Cons c cs)
  show ?case
  proof (cases "starts_with p (c # cs)")
    case True
    then show ?thesis
      using Cons.prems(1) starts_with_append [of p "c # cs" t] by simp
  next
    case False
    then obtain j where j: "find_text p cs = Some j" "i = Suc j"
      using Cons.prems(1) by auto
    have "\<not> starts_with p (c # cs @ t)"
      using False find_length [OF j(1)] starts_with_short [of p "c # cs" t] by auto
    then show ?thesis
      using Cons.IH [OF j(1) Cons.prems(2)] j(2) by simp
  qed
qed simp

end
