(* ===== verification/Log_Files.thy ===== *)
theory Log_Files
  imports Text "HOL-Library.List_Lexorder" "HOL-Library.Char_ord"
begin

text \<open>
  The files of the log dump manager, \<^verbatim>\<open>logging/src/log_dump_manager.cpp\<close>: names, the choice of a
  free name, rolling, trimming, the write loop and the start-up scan. The file system is a map from
  paths to contents; what the kernel answers to a call (and the clock, the pid and the local time
  text) is in the environment of the call.
\<close>

section \<open>Names\<close>

text \<open>One \<^verbatim>\<open>_\d\<close> field of the patterns: the rest of the name after it.\<close>

definition digits_field :: "(nat \<Rightarrow> bool) \<Rightarrow> string \<Rightarrow> string option" where
  "digits_field len_ok s =
     (case s of
        [] \<Rightarrow> None
      | c # t \<Rightarrow> if c = CHR ''_'' \<and> len_ok (length (takeWhile is_digit t)) then Some (dropWhile is_digit t) else None)"

text \<open>What follows \<^verbatim>\<open>prefix_<pid>_<YYYYMMDD>_<HHMMSS>_<ffffff>\<close>.\<close>

definition after_stem :: "string \<Rightarrow> string \<Rightarrow> string option" where
  "after_stem prefix name =
     (if \<not> starts_with prefix name then None
      else Option.bind (digits_field (\<lambda>n. n > 0) (drop (length prefix) name))
        (\<lambda>s1. Option.bind (digits_field (\<lambda>n. n = 8) s1)
          (\<lambda>s2. Option.bind (digits_field (\<lambda>n. n = 6) s2) (digits_field (\<lambda>n. n = 6)))))"

definition IsValidHistFile :: "string \<Rightarrow> string \<Rightarrow> bool" where
  "IsValidHistFile prefix name \<longleftrightarrow> after_stem prefix name = Some [] \<or> after_stem prefix name = Some ''.gz''"

definition IsValidTmpFile :: "string \<Rightarrow> string \<Rightarrow> bool" where
  "IsValidTmpFile prefix name \<longleftrightarrow> after_stem prefix name = Some ''.tmp''"

text \<open>The time is microseconds since the epoch; \<open>local_text\<close> is \<^verbatim>\<open>strftime\<close> of \<^verbatim>\<open>localtime_r\<close>.\<close>

definition pad6 :: "nat \<Rightarrow> string" where
  "pad6 n = replicate (6 - length (nat_digits n)) (CHR ''0'') @ nat_digits n"

definition FormatLogStem :: "(nat \<Rightarrow> string) \<Rightarrow> string \<Rightarrow> nat \<Rightarrow> nat \<Rightarrow> string" where
  "FormatLogStem local_text prefix pid now_us =
     prefix @ ''_'' @ nat_digits pid @ ''_'' @ local_text (now_us div 1000000) @ ''_'' @ pad6 (now_us mod 1000000)"

section \<open>State\<close>

record dump_config =
  dc_log_dir :: string
  dc_log_tmp_dir :: string
  dc_queue_size :: nat
  dc_drop_newest :: bool
  dc_max_file_size :: nat
  dc_max_file_count :: nat
  dc_prefix :: string
  dc_compression :: bool

datatype write_result = Wrote nat | Interrupted | WriteError

record dump_env =
  en_pid :: nat
  en_local :: "nat \<Rightarrow> string"
  en_final_clock :: "nat \<Rightarrow> nat"
  en_tmp_clock :: "nat \<Rightarrow> nat"
  en_open_ok :: bool
  en_rename_ok :: bool
  en_copy_ok :: bool
  en_writes :: "write_result list"

record dumper =
  du_fs :: "string \<Rightarrow> string option"
  du_fd :: "string option"
  du_path :: string
  du_size :: nat
  du_hist :: "string list"
  du_compress :: "string list"
  du_written :: nat

definition StemIsAvailable :: "dump_config \<Rightarrow> (string \<Rightarrow> string option) \<Rightarrow> string \<Rightarrow> bool" where
  "StemIsAvailable cfg fs stem \<longleftrightarrow>
     (if fs (join_path (dc_log_dir cfg) stem) \<noteq> None then False
      else if fs (join_path (dc_log_dir cfg) (stem @ ''.gz'')) \<noteq> None then False
      else if dc_log_tmp_dir cfg \<noteq> [] \<and> fs (join_path (dc_log_tmp_dir cfg) (stem @ ''.tmp'')) \<noteq> None then False
      else True)"

text \<open>The clock is read anew in each round, \<open>bump\<close> microseconds are added.\<close>

function alloc_from :: "(nat \<Rightarrow> string) \<Rightarrow> (string \<Rightarrow> bool) \<Rightarrow> nat \<Rightarrow> string option" where
  "alloc_from candidate available bump =
     (if bump < 1000000
      then if available (candidate bump) then Some (candidate bump) else alloc_from candidate available (bump + 1)
      else None)"
  by pat_completeness auto
termination by (relation "measure (\<lambda>(c, a, bump). 1000000 - bump)") auto

declare alloc_from.simps [simp del]

definition AllocUniqueStem :: "dump_config \<Rightarrow> dump_env \<Rightarrow> (nat \<Rightarrow> nat) \<Rightarrow> (string \<Rightarrow> string option) \<Rightarrow> string" where
  "AllocUniqueStem cfg en clock fs =
     (let stem_at = (\<lambda>us. FormatLogStem (en_local en) (dc_prefix cfg) (en_pid en) us) in
      case alloc_from (\<lambda>bump. stem_at (clock bump + bump)) (StemIsAvailable cfg fs) 0 of
        Some stem \<Rightarrow> stem
      | None \<Rightarrow> stem_at (clock 1000000))"

definition GenFinalFilePath :: "dump_config \<Rightarrow> dump_env \<Rightarrow> (nat \<Rightarrow> nat) \<Rightarrow> (string \<Rightarrow> string option) \<Rightarrow> string" where
  "GenFinalFilePath cfg en clock fs = join_path (dc_log_dir cfg) (AllocUniqueStem cfg en clock fs)"

definition GenTempFilePath :: "dump_config \<Rightarrow> dump_env \<Rightarrow> (nat \<Rightarrow> nat) \<Rightarrow> (string \<Rightarrow> string option) \<Rightarrow> string" where
  "GenTempFilePath cfg en clock fs =
     (if dc_log_tmp_dir cfg = [] then GenFinalFilePath cfg en clock fs
      else join_path (dc_log_tmp_dir cfg) (AllocUniqueStem cfg en clock fs @ ''.tmp''))"

section \<open>Rolling\<close>

definition ShouldRoll :: "dump_config \<Rightarrow> dumper \<Rightarrow> bool" where
  "ShouldRoll cfg d \<longleftrightarrow> du_size d \<ge> dc_max_file_size cfg"

definition OpenNewFile :: "dump_config \<Rightarrow> dump_env \<Rightarrow> dumper \<Rightarrow> dumper" where
  "OpenNewFile cfg en d =
     (let p = GenTempFilePath cfg en (en_tmp_clock en) (du_fs d); d1 = d\<lparr>du_fd := None, du_path := p, du_size := 0\<rparr> in
      if \<not> en_open_ok en then d1 else d1\<lparr>du_fd := Some p, du_fs := (du_fs d)(p \<mapsto> [])\<rparr>)"

definition EnqueueCompress :: "string \<Rightarrow> dumper \<Rightarrow> dumper" where
  "EnqueueCompress path d =
     (if length path > 3 \<and> drop (length path - 3) path = ''.gz'' then d else d\<lparr>du_compress := du_compress d @ [path]\<rparr>)"

text \<open>The loop that removes the oldest files.\<close>

fun trim_hist :: "nat \<Rightarrow> (string \<Rightarrow> string option) \<Rightarrow> string list \<Rightarrow> (string \<Rightarrow> string option) \<times> string list" where
  "trim_hist max_count fs [] = (fs, [])"
| "trim_hist max_count fs (h # hs) = (if length (h # hs) > max_count then trim_hist max_count (fs(h := None)) hs else (fs, h # hs))"

definition RenameToFinal :: "dump_config \<Rightarrow> dump_env \<Rightarrow> string \<Rightarrow> dumper \<Rightarrow> dumper" where
  "RenameToFinal cfg en tmp_path d =
     (let final = GenFinalFilePath cfg en (en_final_clock en) (du_fs d);
          fs1 = (if en_rename_ok en \<or> en_copy_ok en then (du_fs d)(final := du_fs d tmp_path) else du_fs d)(tmp_path := None);
          d1 = d\<lparr>du_fs := fs1, du_hist := du_hist d @ [final]\<rparr>;
          d2 = (if dc_compression cfg then EnqueueCompress final d1 else d1);
          (fs2, hist2) = trim_hist (dc_max_file_count cfg) (du_fs d2) (du_hist d2)
      in d2\<lparr>du_fs := fs2, du_hist := hist2\<rparr>)"

definition DoRoll :: "dump_config \<Rightarrow> dump_env \<Rightarrow> dumper \<Rightarrow> dumper" where
  "DoRoll cfg en d =
     (if du_fd d = None then d
      else OpenNewFile cfg en (RenameToFinal cfg en (du_path d) (d\<lparr>du_fd := None\<rparr>)))"

section \<open>Writing\<close>

definition format_item :: "string \<times> string \<Rightarrow> string" where
  "format_item item =
     (let formatted = fst item @ [CHR 0x09] @ ''>> '' @ snd item in
      if last formatted \<noteq> LF then formatted @ [LF] else formatted)"

text \<open>The bytes one record leaves in the file; after the answers given, a call takes everything.\<close>

fun write_loop :: "write_result list \<Rightarrow> string \<Rightarrow> string" where
  "write_loop rs [] = []"
| "write_loop [] (c # cs) = c # cs"
| "write_loop (Wrote n # rs) (c # cs) = take n (c # cs) @ write_loop rs (drop n (c # cs))"
| "write_loop (Interrupted # rs) (c # cs) = write_loop rs (c # cs)"
| "write_loop (WriteError # rs) (c # cs) = []"

definition write_item :: "dump_config \<Rightarrow> dump_env \<Rightarrow> string \<times> string \<Rightarrow> dumper \<Rightarrow> dumper" where
  "write_item cfg en item d =
     (let d1 = (if ShouldRoll cfg d then DoRoll cfg en d else d) in
      case du_fd d1 of
        None \<Rightarrow> d1
      | Some p \<Rightarrow>
          (let bytes = write_loop (en_writes en) (format_item item) in
           d1\<lparr>du_fs := (du_fs d1)(p := map_option (\<lambda>content. content @ bytes) (du_fs d1 p)), du_size := du_size d1 + length bytes,
              du_written := du_written d1 + length bytes\<rparr>))"

text \<open>A batch of the write thread, with the stop flag as each item sees it; the flush after the loop does not look at it.\<close>

fun write_batch :: "dump_config \<Rightarrow> (dump_env \<times> bool \<times> (string \<times> string)) list \<Rightarrow> dumper \<Rightarrow> dumper" where
  "write_batch cfg [] d = d"
| "write_batch cfg ((en, stopped, item) # rest) d = (if stopped then d else write_batch cfg rest (write_item cfg en item d))"

fun flush_remaining :: "dump_config \<Rightarrow> (dump_env \<times> (string \<times> string)) list \<Rightarrow> dumper \<Rightarrow> dumper" where
  "flush_remaining cfg [] d = d"
| "flush_remaining cfg ((en, item) # rest) d = flush_remaining cfg rest (write_item cfg en item d)"

section \<open>Compression\<close>

text \<open>
  One round of a compression thread, in the build with zlib: what \<^verbatim>\<open>gzopen\<close> and \<^verbatim>\<open>open\<close> answer, the
  chunks read and how many of them \<^verbatim>\<open>gzwrite\<close> takes. \<open>gzip\<close> is the file zlib leaves for a text.
\<close>

record compress_env =
  ce_gz_open :: bool
  ce_src_open :: bool
  ce_chunks :: "string list"
  ce_accepted :: nat

fun replace_first :: "string \<Rightarrow> string \<Rightarrow> string list \<Rightarrow> string list" where
  "replace_first a b [] = []"
| "replace_first a b (h # hs) = (if h = a then b # hs else h # replace_first a b hs)"

definition compress_file :: "(string \<Rightarrow> string) \<Rightarrow> compress_env \<Rightarrow> string \<Rightarrow> dumper \<Rightarrow> dumper" where
  "compress_file gzip ce file_path d =
     (let gz_path = file_path @ ''.gz'' in
      if \<not> ce_gz_open ce then d
      else if \<not> ce_src_open ce then d\<lparr>du_fs := (du_fs d)(gz_path \<mapsto> gzip [])\<rparr>
      else
        (let gz = gzip (concat (take (ce_accepted ce) (ce_chunks ce))); fs1 = (du_fs d)(gz_path \<mapsto> gz) in
         if length gz > 0
         then d\<lparr>du_fs := fs1(file_path := None), du_hist := replace_first file_path gz_path (du_hist d)\<rparr>
         else d\<lparr>du_fs := fs1\<rparr>))"

definition compress_step :: "(string \<Rightarrow> string) \<Rightarrow> compress_env \<Rightarrow> dumper \<Rightarrow> dumper" where
  "compress_step gzip ce d =
     (case du_compress d of [] \<Rightarrow> d | p # ps \<Rightarrow> compress_file gzip ce p (d\<lparr>du_compress := ps\<rparr>))"

text \<open>\<^verbatim>\<open>Stop\<close>: the write thread flushes what is queued and the open file is closed; it keeps its \<^verbatim>\<open>.tmp\<close> name.\<close>

definition dump_Stop :: "dump_config \<Rightarrow> (dump_env \<times> (string \<times> string)) list \<Rightarrow> dumper \<Rightarrow> dumper" where
  "dump_Stop cfg queued d = (flush_remaining cfg queued d)\<lparr>du_fd := None\<rparr>"

section \<open>Start\<close>

text \<open>\<open>names\<close> are the regular files of a directory, in the order the directory is read.\<close>

fun CleanInvalidDumpFilesByFormat :: "dump_config \<Rightarrow> string list \<Rightarrow> (string \<Rightarrow> string option) \<Rightarrow> string \<Rightarrow> string option" where
  "CleanInvalidDumpFilesByFormat cfg [] fs = fs"
| "CleanInvalidDumpFilesByFormat cfg (n # names) fs =
     CleanInvalidDumpFilesByFormat cfg names
       (if IsValidHistFile (dc_prefix cfg) n then fs else fs(join_path (dc_log_dir cfg) n := None))"

definition ScanHistFiles :: "dump_config \<Rightarrow> string list \<Rightarrow> string list" where
  "ScanHistFiles cfg names = sort (map (join_path (dc_log_dir cfg)) (filter (IsValidHistFile (dc_prefix cfg)) names))"

fun archive_files :: "dump_config \<Rightarrow> (dump_env \<times> string) list \<Rightarrow> (string \<Rightarrow> string option) \<Rightarrow> string \<Rightarrow> string option" where
  "archive_files cfg [] fs = fs"
| "archive_files cfg ((en, n) # names) fs =
     (if \<not> IsValidTmpFile (dc_prefix cfg) n then archive_files cfg names fs
      else
        (let dest0 = join_path (dc_log_dir cfg) (take (length n - 4) n);
             dest = (if fs dest0 \<noteq> None then GenFinalFilePath cfg en (en_final_clock en) fs else dest0);
             src = join_path (dc_log_tmp_dir cfg) n
         in archive_files cfg names (if en_rename_ok en then (fs(dest := fs src))(src := None) else fs)))"

definition ArchiveTmpLeftovers :: "dump_config \<Rightarrow> (dump_env \<times> string) list \<Rightarrow> (string \<Rightarrow> string option) \<Rightarrow> string \<Rightarrow> string option" where
  "ArchiveTmpLeftovers cfg names fs =
     (if dc_log_tmp_dir cfg = [] \<or> dc_log_tmp_dir cfg = dc_log_dir cfg then fs else archive_files cfg names fs)"

text \<open>\<open>list_dir\<close> reads a directory; the directories exist.\<close>

definition dump_Init :: "dump_config \<Rightarrow> dump_env \<Rightarrow> ((string \<Rightarrow> string option) \<Rightarrow> string \<Rightarrow> string list) \<Rightarrow> (string \<Rightarrow> string option) \<Rightarrow> dumper" where
  "dump_Init cfg en list_dir fs =
     (let fs1 = CleanInvalidDumpFilesByFormat cfg (list_dir fs (dc_log_dir cfg)) fs;
          fs2 = ArchiveTmpLeftovers cfg (map (\<lambda>n. (en, n)) (list_dir fs1 (dc_log_tmp_dir cfg))) fs1
      in OpenNewFile cfg en
           \<lparr>du_fs = fs2, du_fd = None, du_path = [], du_size = 0, du_hist = ScanHistFiles cfg (list_dir fs2 (dc_log_dir cfg)),
            du_compress = [], du_written = 0\<rparr>)"

section \<open>Names are recognised\<close>

lemma digits_field_digits:
  "list_all is_digit ds \<Longrightarrow> len_ok (length ds) \<Longrightarrow> rest = [] \<or> \<not> is_digit (hd rest) \<Longrightarrow>
   digits_field len_ok (CHR ''_'' # ds @ rest) = Some rest"
  using takeWhile_digits [of ds rest] by (simp add: digits_field_def)

lemma nat_digits_length: "n < 10 ^ k \<Longrightarrow> 0 < k \<Longrightarrow> length (nat_digits n) \<le> k"
proof (induction k arbitrary: n)
  case (Suc k)
  show ?case
  proof (cases "n < 10")
    case True
    then show ?thesis by (subst nat_digits.simps) simp
  next
    case False
    then have "0 < k" "n div 10 < 10 ^ k"
      using Suc.prems(1) by (cases k; simp; linarith)+
    then have "length (nat_digits (n div 10)) \<le> k"
      by (rule Suc.IH [rotated])
    then show ?thesis
      using False by (subst nat_digits.simps) simp
  qed
qed simp

lemma pad6_digits: "n < 1000000 \<Longrightarrow> length (pad6 n) = 6 \<and> list_all is_digit (pad6 n)"
  using nat_digits_length [of n 6] nat_digits_digits [of n] by (auto simp: pad6_def is_digit_def list_all_iff)

definition local_text_ok :: "string \<Rightarrow> bool" where
  "local_text_ok t \<longleftrightarrow> (\<exists>d h. t = d @ CHR ''_'' # h \<and> length d = 8 \<and> length h = 6 \<and> list_all is_digit d \<and> list_all is_digit h)"

lemma after_formatted:
  assumes "local_text_ok (local_text (now div 1000000))" "ext = [] \<or> hd ext = CHR ''.''"
  shows "after_stem prefix (FormatLogStem local_text prefix pid now @ ext) = Some ext"
proof -
  obtain d h where dh: "local_text (now div 1000000) = d @ CHR ''_'' # h" "length d = 8" "length h = 6" "list_all is_digit d" "list_all is_digit h"
    using assms(1) by (auto simp: local_text_ok_def)
  have under: "\<not> is_digit (CHR ''_'')" "\<not> is_digit (CHR ''.'')"
    by (simp_all add: is_digit_def)
  have p: "length (pad6 (now mod 1000000)) = 6" "list_all is_digit (pad6 (now mod 1000000))"
    using pad6_digits [of "now mod 1000000"] by simp_all
  have name: "FormatLogStem local_text prefix pid now @ ext = prefix @ CHR ''_'' # nat_digits pid @
      CHR ''_'' # d @ CHR ''_'' # h @ CHR ''_'' # pad6 (now mod 1000000) @ ext"
    by (simp add: FormatLogStem_def dh(1))
  have pid: "length (nat_digits pid) > 0"
    using nat_digits_nonempty by simp
  show ?thesis
    unfolding name after_stem_def
    using assms(2) under p dh pid nat_digits_digits [of pid]
    by (auto simp: starts_with_def digits_field_digits digits_field_digits [where rest = "[]", simplified])
qed

text \<open>
  The names the manager makes are the names it recognises: with a date text of eight and six
  digits, a finished file and its compressed form are history files and not working files, and
  the working file is one and no history file, so a start keeps and lists exactly the finished ones.
\<close>

lemma stems_recognised:
  assumes "local_text_ok (local_text (now div 1000000))"
  shows "IsValidHistFile prefix (FormatLogStem local_text prefix pid now) \<and>
    IsValidHistFile prefix (FormatLogStem local_text prefix pid now @ ''.gz'') \<and>
    IsValidTmpFile prefix (FormatLogStem local_text prefix pid now @ ''.tmp'') \<and>
    \<not> IsValidTmpFile prefix (FormatLogStem local_text prefix pid now) \<and>
    \<not> IsValidHistFile prefix (FormatLogStem local_text prefix pid now @ ''.tmp'')"
  using after_formatted [where local_text = local_text and now = now, OF assms, of "[]" prefix pid]
    after_formatted [where local_text = local_text and now = now, OF assms, of "''.gz''" prefix pid]
    after_formatted [where local_text = local_text and now = now, OF assms, of "''.tmp''" prefix pid]
  by (simp add: IsValidHistFile_def IsValidTmpFile_def)

section \<open>The files hold the log\<close>

lemma write_loop_complete: "list_all (\<lambda>r. r \<noteq> WriteError) rs \<Longrightarrow> write_loop rs data = data"
  by (induction rs data rule: write_loop.induct) simp_all

definition last_n :: "nat \<Rightarrow> 'a list \<Rightarrow> 'a list" where
  "last_n n xs = drop (length xs - n) xs"

lemma last_n_last_n: "last_n n (last_n n xs @ ys) = last_n n (xs @ ys)"
  by (cases "length xs \<le> n") (simp_all add: last_n_def add.commute)

lemma trim_hist_eq:
  "trim_hist m fs hs = (\<lambda>q. if q \<in> set (take (length hs - m) hs) then None else fs q, last_n m hs)"
proof (induction m fs hs rule: trim_hist.induct)
  case (2 m fs h hs)
  show ?case
  proof (cases "length (h # hs) > m")
    case True
    then have k: "length (h # hs) - m = Suc (length hs - m)"
      by simp
    have "last_n m (h # hs) = last_n m hs"
      unfolding last_n_def k by simp
    then show ?thesis
      unfolding trim_hist.simps if_P [OF True] 2 [OF True] k by (auto simp: fun_eq_iff)
  next
    case False
    then show ?thesis
      by (simp add: last_n_def)
  qed
qed (simp add: last_n_def)

text \<open>An open file with its content, and the contents of the finished files in order.\<close>

definition holds :: "dumper \<Rightarrow> string list \<Rightarrow> string \<Rightarrow> bool" where
  "holds d finished cur \<longleftrightarrow> du_fd d = Some (du_path d) \<and> du_fs d (du_path d) = Some cur \<and> du_size d = length cur \<and>
     map (du_fs d) (du_hist d) = map Some finished \<and> distinct (du_path d # du_hist d)"

text \<open>A call in which nothing goes wrong: writes get through, and a roll finds free names and can move and open files.\<close>

definition good_step :: "dump_config \<Rightarrow> dump_env \<Rightarrow> dumper \<Rightarrow> bool" where
  "good_step cfg en d \<longleftrightarrow> list_all (\<lambda>r. r \<noteq> WriteError) (en_writes en) \<and>
     (ShouldRoll cfg d \<longrightarrow> en_open_ok en \<and> (en_rename_ok en \<or> en_copy_ok en) \<and>
        du_fs d (GenFinalFilePath cfg en (en_final_clock en) (du_fs d)) = None \<and>
        (let fs = du_fs (RenameToFinal cfg en (du_path d) (d\<lparr>du_fd := None\<rparr>)) in
         fs (GenTempFilePath cfg en (en_tmp_clock en) fs) = None))"

fun good_run :: "dump_config \<Rightarrow> (dump_env \<times> (string \<times> string)) list \<Rightarrow> dumper \<Rightarrow> bool" where
  "good_run cfg [] d \<longleftrightarrow> True"
| "good_run cfg ((en, item) # rest) d \<longleftrightarrow> good_step cfg en d \<and> good_run cfg rest (write_item cfg en item d)"

lemma EnqueueCompress_fields [simp]:
  "du_fs (EnqueueCompress q d) = du_fs d" "du_hist (EnqueueCompress q d) = du_hist d"
  by (simp_all add: EnqueueCompress_def)

lemma last_n_subset: "set (last_n n xs) \<subseteq> set xs" "distinct xs \<Longrightarrow> distinct (last_n n xs)"
  by (simp_all add: last_n_def set_drop_subset)

lemma rename_holds:
  assumes "holds d finished cur" "good_step cfg en d" "ShouldRoll cfg d"
  shows "map (du_fs (RenameToFinal cfg en (du_path d) (d\<lparr>du_fd := None\<rparr>)))
      (du_hist (RenameToFinal cfg en (du_path d) (d\<lparr>du_fd := None\<rparr>))) =
      map Some (last_n (dc_max_file_count cfg) (finished @ [cur]))"
    "distinct (du_hist (RenameToFinal cfg en (du_path d) (d\<lparr>du_fd := None\<rparr>)))"
proof -
  let ?final = "GenFinalFilePath cfg en (en_final_clock en) (du_fs d)"
  let ?fs1 = "((du_fs d)(?final := Some cur))(du_path d := None)"
  let ?m = "dc_max_file_count cfg"
  let ?hs = "du_hist d @ [?final]"
  have d: "du_fs d (du_path d) = Some cur" "map (du_fs d) (du_hist d) = map Some finished" "distinct (du_path d # du_hist d)"
    using assms(1) by (simp_all add: holds_def)
  have free: "du_fs d ?final = None" "en_rename_ok en \<or> en_copy_ok en"
    using assms(2,3) by (simp_all add: good_step_def)
  have new: "?final \<noteq> du_path d" "?final \<notin> set (du_hist d)"
  proof -
    show "?final \<noteq> du_path d"
      using d(1) free(1) by auto
    show "?final \<notin> set (du_hist d)"
    proof
      assume "?final \<in> set (du_hist d)"
      then have "du_fs d ?final \<in> set (map (du_fs d) (du_hist d))"
        by simp
      then show False
        unfolding d(2) free(1) by auto
    qed
  qed
  have res: "du_fs (RenameToFinal cfg en (du_path d) (d\<lparr>du_fd := None\<rparr>)) =
      (\<lambda>q. if q \<in> set (take (length ?hs - ?m) ?hs) then None else ?fs1 q)"
    "du_hist (RenameToFinal cfg en (du_path d) (d\<lparr>du_fd := None\<rparr>)) = last_n ?m ?hs"
    using free(2) d(1) by (simp_all add: RenameToFinal_def Let_def trim_hist_eq cong: if_cong)
  have dist: "distinct ?hs"
    using d(3) new(2) by simp
  then show "distinct (du_hist (RenameToFinal cfg en (du_path d) (d\<lparr>du_fd := None\<rparr>)))"
    unfolding res by (rule last_n_subset)
  have kept: "q \<notin> set (take (length ?hs - ?m) ?hs)" if "q \<in> set (last_n ?m ?hs)" for q
    using that dist set_take_disj_set_drop_if_distinct [of ?hs "length ?hs - ?m" "length ?hs - ?m"] by (auto simp: last_n_def)
  have "map (du_fs (RenameToFinal cfg en (du_path d) (d\<lparr>du_fd := None\<rparr>))) (last_n ?m ?hs) = map ?fs1 (last_n ?m ?hs)"
    unfolding res using kept by (intro map_cong refl) simp
  also have "\<dots> = last_n ?m (map ?fs1 ?hs)"
    unfolding last_n_def drop_map length_map ..
  also have "map ?fs1 ?hs = map Some (finished @ [cur])"
  proof -
    have "map ?fs1 (du_hist d) = map (du_fs d) (du_hist d)"
      using d(3) new(2) by (intro map_cong refl) auto
    then show ?thesis
      using d(2) new(1) by simp
  qed
  also have "last_n ?m (map Some (finished @ [cur])) = map Some (last_n ?m (finished @ [cur]))"
    unfolding last_n_def drop_map length_map ..
  finally show "map (du_fs (RenameToFinal cfg en (du_path d) (d\<lparr>du_fd := None\<rparr>)))
      (du_hist (RenameToFinal cfg en (du_path d) (d\<lparr>du_fd := None\<rparr>))) = map Some (last_n ?m (finished @ [cur]))"
    unfolding res(2) .
qed

lemma roll_holds:
  assumes "holds d finished cur" "good_step cfg en d" "ShouldRoll cfg d"
  shows "holds (DoRoll cfg en d) (last_n (dc_max_file_count cfg) (finished @ [cur])) []"
proof -
  let ?d1 = "RenameToFinal cfg en (du_path d) (d\<lparr>du_fd := None\<rparr>)"
  let ?p = "GenTempFilePath cfg en (en_tmp_clock en) (du_fs ?d1)"
  note r = rename_holds [OF assms]
  have open_new: "en_open_ok en" "du_fs ?d1 ?p = None" "du_fd d \<noteq> None"
    using assms by (simp_all add: good_step_def Let_def holds_def)
  have new: "?p \<notin> set (du_hist ?d1)"
  proof
    assume "?p \<in> set (du_hist ?d1)"
    then have "du_fs ?d1 ?p \<in> set (map (du_fs ?d1) (du_hist ?d1))"
      by simp
    then show False
      unfolding r(1) open_new(2) by auto
  qed
  then have "map ((du_fs ?d1)(?p \<mapsto> [])) (du_hist ?d1) = map (du_fs ?d1) (du_hist ?d1)"
    by (intro map_cong refl) auto
  moreover have "DoRoll cfg en d = ?d1\<lparr>du_fd := Some ?p, du_path := ?p, du_size := 0, du_fs := (du_fs ?d1)(?p \<mapsto> [])\<rparr>"
    using open_new(1) unfolding DoRoll_def if_not_P [OF open_new(3)] by (simp add: OpenNewFile_def Let_def)
  ultimately show ?thesis
    using r new by (simp add: holds_def)
qed

lemma item_holds:
  assumes "holds d finished cur" "good_step cfg en d"
  shows "if ShouldRoll cfg d
    then holds (write_item cfg en item d) (last_n (dc_max_file_count cfg) (finished @ [cur])) (format_item item)
    else holds (write_item cfg en item d) finished (cur @ format_item item)"
proof -
  have all: "write_loop (en_writes en) (format_item item) = format_item item"
    using assms(2) by (simp add: good_step_def write_loop_complete)
  have append: "holds (write_item cfg en item d) f (c @ format_item item)"
    if h: "holds (if ShouldRoll cfg d then DoRoll cfg en d else d) f c" for f c
  proof -
    let ?d1 = "if ShouldRoll cfg d then DoRoll cfg en d else d"
    have h1: "du_fd ?d1 = Some (du_path ?d1)" "du_fs ?d1 (du_path ?d1) = Some c" "du_size ?d1 = length c"
        "map (du_fs ?d1) (du_hist ?d1) = map Some f" "distinct (du_path ?d1 # du_hist ?d1)"
      using h unfolding holds_def by blast+
    have w: "write_item cfg en item d = ?d1\<lparr>du_fs := (du_fs ?d1)(du_path ?d1 \<mapsto> c @ format_item item),
        du_size := length c + length (format_item item), du_written := du_written ?d1 + length (format_item item)\<rparr>"
      unfolding write_item_def Let_def h1(1) option.case all by (simp only: h1(2,3) option.map)
    have "map ((du_fs ?d1)(du_path ?d1 \<mapsto> c @ format_item item)) (du_hist ?d1) = map (du_fs ?d1) (du_hist ?d1)"
      using h1(5) by (intro map_cong refl) auto
    then show ?thesis
      unfolding w holds_def using h1 by simp
  qed
  show ?thesis
  proof (cases "ShouldRoll cfg d")
    case True
    then show ?thesis
      using append [of "last_n (dc_max_file_count cfg) (finished @ [cur])" "[]"] roll_holds [OF assms True] by simp
  next
    case False
    then show ?thesis
      using append [of finished cur] assms(1) by simp
  qed
qed

text \<open>What the files hold after \<open>done_files\<close> files were finished: of the old and the new, the last ones.\<close>

definition kept_files :: "nat \<Rightarrow> string list \<Rightarrow> string list \<Rightarrow> string list" where
  "kept_files n old done_files = (if done_files = [] then old else last_n n (old @ done_files))"

lemma run_holds:
  assumes "holds d finished cur" "good_run cfg items d"
  shows "\<exists>done_files cur'. concat done_files @ cur' = cur @ concat (map (\<lambda>e. format_item (snd e)) items) \<and>
    list_all (\<lambda>f. dc_max_file_size cfg \<le> length f) done_files \<and>
    holds (flush_remaining cfg items d) (kept_files (dc_max_file_count cfg) finished done_files) cur'"
  using assms
proof (induction items arbitrary: d finished cur)
  case Nil
  then show ?case
    by (intro exI [of _ "[]"] exI [of _ cur]) (simp add: kept_files_def)
next
  case (Cons entry items)
  obtain en item where e: "entry = (en, item)" by (cases entry)
  have step: "good_step cfg en d" "good_run cfg items (write_item cfg en item d)"
    using Cons.prems(2) by (simp_all add: e)
  note h = item_holds [OF Cons.prems(1) step(1), of item]
  show ?case
  proof (cases "ShouldRoll cfg d")
    case True
    let ?n = "dc_max_file_count cfg"
    obtain done_files cur' where c: "concat done_files @ cur' = format_item item @ concat (map (\<lambda>e. format_item (snd e)) items)"
        "list_all (\<lambda>f. dc_max_file_size cfg \<le> length f) done_files"
        "holds (flush_remaining cfg items (write_item cfg en item d)) (kept_files ?n (last_n ?n (finished @ [cur])) done_files) cur'"
      using Cons.IH [OF _ step(2)] h True by (metis (no_types, lifting))
    have "kept_files ?n (last_n ?n (finished @ [cur])) done_files = kept_files ?n finished (cur # done_files)"
      using last_n_last_n [of ?n "finished @ [cur]" done_files] by (simp add: kept_files_def)
    moreover have "dc_max_file_size cfg \<le> length cur"
      using True Cons.prems(1) by (simp add: ShouldRoll_def holds_def)
    ultimately show ?thesis
      using c by (intro exI [of _ "cur # done_files"] exI [of _ cur']) (simp add: e)
  next
    case False
    then obtain done_files cur' where c: "concat done_files @ cur' = (cur @ format_item item) @ concat (map (\<lambda>e. format_item (snd e)) items)"
        "list_all (\<lambda>f. dc_max_file_size cfg \<le> length f) done_files"
        "holds (flush_remaining cfg items (write_item cfg en item d)) (kept_files (dc_max_file_count cfg) finished done_files) cur'"
      using Cons.IH [OF _ step(2)] h by (metis (no_types, lifting))
    then show ?thesis
      by (intro exI [of _ done_files] exI [of _ cur']) (simp add: e)
  qed
qed


definition small_files :: dump_config where
  "small_files = \<lparr>dc_log_dir = ''/l'', dc_log_tmp_dir = ''/t'', dc_queue_size = 4, dc_drop_newest = False, dc_max_file_size = 5,
     dc_max_file_count = 1, dc_prefix = ''m'', dc_compression = False\<rparr>"

definition good_env :: dump_env where
  "good_env = \<lparr>en_pid = 7, en_local = (\<lambda>s. ''20260508_103000''), en_final_clock = (\<lambda>k. 5), en_tmp_clock = (\<lambda>k. 6), en_open_ok = True,
     en_rename_ok = True, en_copy_ok = True, en_writes = [Wrote 1, Interrupted]\<rparr>"

definition opened :: dumper where
  "opened = \<lparr>du_fs = [''/t/a'' \<mapsto> []], du_fd = Some ''/t/a'', du_path = ''/t/a'', du_size = 0, du_hist = [], du_compress = [], du_written = 0\<rparr>"

lemma alloc_first: "available (candidate 0) \<Longrightarrow> alloc_from candidate available 0 = Some (candidate 0)"
  by (subst alloc_from.simps) simp

lemma small_stems:
  "FormatLogStem (\<lambda>s. ''20260508_103000'') ''m'' 7 5 = ''m_7_20260508_103000_000005''"
  "FormatLogStem (\<lambda>s. ''20260508_103000'') ''m'' 7 6 = ''m_7_20260508_103000_000006''"
proof -
  have "nat_digits 7 = ''7''" "pad6 5 = ''000005''" "pad6 6 = ''000006''"
    by code_simp+
  then show "FormatLogStem (\<lambda>s. ''20260508_103000'') ''m'' 7 5 = ''m_7_20260508_103000_000005''"
    "FormatLogStem (\<lambda>s. ''20260508_103000'') ''m'' 7 6 = ''m_7_20260508_103000_000006''"
    by (simp_all add: FormatLogStem_def)
qed

lemma small_good_run:
  "good_run small_files [(good_env, (''m'', ''a'')), (good_env, (''m'', ''b''))] opened" "holds opened [] []"
  by (simp_all add: good_step_def write_item_def ShouldRoll_def format_item_def RenameToFinal_def GenFinalFilePath_def GenTempFilePath_def
      AllocUniqueStem_def alloc_first StemIsAvailable_def small_stems Let_def small_files_def good_env_def opened_def
      join_path_def is_absolute_path_def starts_with_def holds_def)


section \<open>Where records are lost\<close>

lemma write_item_closed:
  "du_fd d = None \<Longrightarrow> du_size d < dc_max_file_size cfg \<Longrightarrow> write_item cfg en item d = d"
  by (simp add: write_item_def ShouldRoll_def Let_def)

text \<open>
  A failed open is never repaired: once the manager has no open file, whose size it then takes
  as 0, it writes no later record and never tries to open a file again, whatever the calls would
  answer.
\<close>

lemma failed_open_is_final:
  assumes "0 < dc_max_file_size cfg" "\<not> en_open_ok en"
  shows "flush_remaining cfg items (OpenNewFile cfg en d) = OpenNewFile cfg en d \<and> du_fd (OpenNewFile cfg en d) = None"
proof -
  have closed: "du_fd (OpenNewFile cfg en d) = None" "du_size (OpenNewFile cfg en d) = 0"
    using assms(2) by (simp_all add: OpenNewFile_def Let_def)
  have "flush_remaining cfg items (OpenNewFile cfg en d) = OpenNewFile cfg en d"
    by (induction items) (auto simp: write_item_closed closed assms(1))
  then show ?thesis
    using closed(1) by simp
qed

text \<open>A complete compression keeps the text and the history; a write of zlib that fails loses the rest of the file.\<close>

lemma compression_keeps_text:
  assumes "du_fs d p = Some content" "concat (ce_chunks ce) = content" "ce_gz_open ce" "ce_src_open ce"
    "length (ce_chunks ce) \<le> ce_accepted ce" "gzip content \<noteq> []"
  shows "du_fs (compress_file gzip ce p d) (p @ ''.gz'') = Some (gzip content) \<and> du_fs (compress_file gzip ce p d) p = None \<and>
    length (du_hist (compress_file gzip ce p d)) = length (du_hist d)"
proof -
  have "length (replace_first a b hs) = length hs" for a b hs
    by (induction hs) auto
  then show ?thesis
    using assms by (simp add: compress_file_def Let_def)
qed

lemma failed_compression_loses_text:
  assumes "ce_gz_open ce" "ce_src_open ce" "ce_accepted ce = 0" "gzip [] \<noteq> []"
  shows "du_fs (compress_file gzip ce p d) p = None \<and> du_fs (compress_file gzip ce p d) (p @ ''.gz'') = Some (gzip [])"
  using assms by (simp add: compress_file_def Let_def)

text \<open>Where neither the rename nor the copy succeeds, the finished file is removed all the same.\<close>

lemma failed_copy_loses_file:
  assumes "\<not> en_rename_ok en" "\<not> en_copy_ok en" "du_hist d = []" "0 < dc_max_file_count cfg" "\<not> dc_compression cfg"
  shows "du_fs (RenameToFinal cfg en p d) = (du_fs d)(p := None)"
  using assms by (simp add: RenameToFinal_def Let_def)

text \<open>The history is sorted by name, so by the text of the process id before the date: the older file of process 99 comes last.\<close>

lemma history_not_by_time:
  "ScanHistFiles small_files [''m_100_20260102_000000_000000'', ''m_99_20260101_000000_000000''] =
     [''/l/m_100_20260102_000000_000000'', ''/l/m_99_20260101_000000_000000'']"
  by code_simp

text \<open>With one directory for both kinds of files, a start deletes the file an earlier process was writing.\<close>

lemma same_directory_deletes:
  assumes "\<not> IsValidHistFile (dc_prefix cfg) n"
  shows "CleanInvalidDumpFilesByFormat cfg [n] fs (join_path (dc_log_dir cfg) n) = None"
  using assms by simp

end
