(* ===== verification/Log_Queue.thy ===== *)
theory Log_Queue
  imports Log_Files "HOL-Library.Sublist"
begin

text \<open>
  The queue of the log dump manager: \<^verbatim>\<open>AddLog\<close> with its two drop policies and the drop counters, and
  the batch the write thread takes (\<^verbatim>\<open>logging/src/log_dump_manager.cpp\<close>). Each holds the queue mutex,
  so each is a step.
\<close>

section \<open>Operations\<close>

record log_queue =
  lq_items :: "(string \<times> string) list"
  lq_stopped :: bool
  lq_drop_counts :: "(string \<times> u64) list"
  lq_total_dropped :: u64

definition empty_queue :: log_queue where
  "empty_queue = \<lparr>lq_items = [], lq_stopped = False, lq_drop_counts = [], lq_total_dropped = 0\<rparr>"

definition DroppedCount :: "string \<Rightarrow> log_queue \<Rightarrow> u64" where
  "DroppedCount module_name q = (case map_of (lq_drop_counts q) module_name of Some n \<Rightarrow> n | None \<Rightarrow> 0)"

definition IncrementDropCount :: "string \<Rightarrow> log_queue \<Rightarrow> log_queue" where
  "IncrementDropCount module_name q =
     q\<lparr>lq_drop_counts := assign module_name (DroppedCount module_name q + 1) (lq_drop_counts q),
       lq_total_dropped := lq_total_dropped q + 1\<rparr>"

definition DropOne :: "bool \<Rightarrow> log_queue \<Rightarrow> log_queue" where
  "DropOne newest q =
     (if lq_items q = [] then q
      else if newest
      then (IncrementDropCount (fst (last (lq_items q))) q)\<lparr>lq_items := butlast (lq_items q)\<rparr>
      else (IncrementDropCount (fst (hd (lq_items q))) q)\<lparr>lq_items := tl (lq_items q)\<rparr>)"

definition AddLog :: "dump_config \<Rightarrow> string \<times> string \<Rightarrow> log_queue \<Rightarrow> log_queue" where
  "AddLog cfg item q =
     (if lq_stopped q then q
      else
        (let q1 = (if length (lq_items q) \<ge> dc_queue_size cfg then DropOne (dc_drop_newest cfg) q else q)
         in q1\<lparr>lq_items := lq_items q1 @ [item]\<rparr>))"

text \<open>What the write thread does under the mutex: the batch, and the queue it leaves.\<close>

definition take_batch :: "log_queue \<Rightarrow> (string \<times> string) list \<times> log_queue" where
  "take_batch q = (lq_items q, q\<lparr>lq_items := []\<rparr>)"

definition QueueSize :: "log_queue \<Rightarrow> nat" where
  "QueueSize q = length (lq_items q)"

text \<open>The test of \<^verbatim>\<open>FlushBarrier\<close>.\<close>

definition barrier_passed :: "nat \<Rightarrow> log_queue \<Rightarrow> bool" where
  "barrier_passed barrier_before q \<longleftrightarrow> lq_items q = [] \<and> (barrier_before = 0 \<or> length (lq_items q) < barrier_before)"

section \<open>Every record is accounted for\<close>

datatype queue_op = Add "string \<times> string" | Take

text \<open>The records taken so far, with the queue.\<close>

fun queue_run :: "dump_config \<Rightarrow> queue_op list \<Rightarrow> (string \<times> string) list \<times> log_queue \<Rightarrow> (string \<times> string) list \<times> log_queue" where
  "queue_run cfg [] s = s"
| "queue_run cfg (Add item # ops) s = queue_run cfg ops (fst s, AddLog cfg item (snd s))"
| "queue_run cfg (Take # ops) s = (case take_batch (snd s) of (batch, q) \<Rightarrow> queue_run cfg ops (fst s @ batch, q))"

fun added :: "queue_op list \<Rightarrow> (string \<times> string) list" where
  "added [] = []"
| "added (Add item # ops) = item # added ops"
| "added (Take # ops) = added ops"

definition of_module :: "string \<Rightarrow> (string \<times> string) list \<Rightarrow> nat" where
  "of_module m items = length (filter (\<lambda>i. fst i = m) items)"

lemma of_module_simps [simp]:
  "of_module m [] = 0" "of_module m (i # is) = of_bool (fst i = m) + of_module m is"
  "of_module m (is @ js) = of_module m is + of_module m js"
  by (simp_all add: of_module_def)

lemma IncrementDropCount_counts:
  "DroppedCount m (IncrementDropCount m' q) = DroppedCount m q + of_bool (m = m')"
  "lq_total_dropped (IncrementDropCount m' q) = lq_total_dropped q + 1"
  "lq_items (IncrementDropCount m' q) = lq_items q" "lq_stopped (IncrementDropCount m' q) = lq_stopped q"
  by (auto simp: DroppedCount_def IncrementDropCount_def)

lemma DroppedCount_items [simp]: "DroppedCount m (q\<lparr>lq_items := is\<rparr>) = DroppedCount m q"
  by (simp add: DroppedCount_def)

definition queue_inv :: "dump_config \<Rightarrow> (string \<times> string) list \<Rightarrow> (string \<times> string) list \<times> log_queue \<Rightarrow> bool" where
  "queue_inv cfg seen s \<longleftrightarrow>
     \<not> lq_stopped (snd s) \<and>
     length (lq_items (snd s)) \<le> max 1 (dc_queue_size cfg) \<and>
     subseq (fst s @ lq_items (snd s)) seen \<and>
     of_nat (length seen) = of_nat (length (fst s @ lq_items (snd s))) + lq_total_dropped (snd s) \<and>
     (\<forall>m. of_nat (of_module m seen) = of_nat (of_module m (fst s @ lq_items (snd s))) + DroppedCount m (snd s))"

lemma subseq_remove: "subseq (xs @ y # zs) ws \<Longrightarrow> subseq (xs @ zs) ws"
proof -
  have "subseq zs (y # zs)"
    by (intro list_emb_Cons) simp
  then have "subseq (xs @ zs) (xs @ y # zs)"
    by (intro list_emb_append_mono) simp
  then show "subseq (xs @ y # zs) ws \<Longrightarrow> subseq (xs @ zs) ws"
    using subseq_order.order_trans by blast
qed

lemma DropOne_effect:
  assumes "lq_items q \<noteq> []"
  obtains front i behind where "lq_items q = front @ i # behind" "lq_items (DropOne newest q) = front @ behind"
    "lq_total_dropped (DropOne newest q) = lq_total_dropped q + 1" "lq_stopped (DropOne newest q) = lq_stopped q"
    "\<And>m. DroppedCount m (DropOne newest q) = DroppedCount m q + of_bool (m = fst i)"
proof (cases newest)
  case True
  then show ?thesis
    using that [of "butlast (lq_items q)" "last (lq_items q)" "[]"] assms
    by (simp add: DropOne_def IncrementDropCount_counts)
next
  case False
  then show ?thesis
    using that [of "[]" "hd (lq_items q)" "tl (lq_items q)"] assms
    by (simp add: DropOne_def IncrementDropCount_counts)
qed

lemma append_item_inv:
  assumes "queue_inv cfg seen (t, q)" "length (lq_items q) < max 1 (dc_queue_size cfg)"
  shows "queue_inv cfg (seen @ [item]) (t, q\<lparr>lq_items := lq_items q @ [item]\<rparr>)"
proof -
  have "subseq ((t @ lq_items q) @ [item]) (seen @ [item])"
    using assms(1) by (intro list_emb_append_mono) (simp_all add: queue_inv_def)
  then show ?thesis
    using assms by (auto simp: queue_inv_def algebra_simps)
qed

lemma drop_inv:
  assumes "queue_inv cfg seen (t, q)" "lq_items q \<noteq> []"
  shows "queue_inv cfg seen (t, DropOne newest q)" "length (lq_items (DropOne newest q)) < length (lq_items q)"
proof -
  obtain front i behind where d: "lq_items q = front @ i # behind" "lq_items (DropOne newest q) = front @ behind"
    "lq_total_dropped (DropOne newest q) = lq_total_dropped q + 1" "lq_stopped (DropOne newest q) = lq_stopped q"
    "\<And>m. DroppedCount m (DropOne newest q) = DroppedCount m q + of_bool (m = fst i)"
    using DropOne_effect [OF assms(2)] by metis
  have "subseq ((t @ front) @ behind) seen"
    using assms(1) d(1) by (intro subseq_remove [of "t @ front" i behind]) (simp add: queue_inv_def)
  moreover have "length (front @ behind) \<le> max 1 (dc_queue_size cfg)"
    using assms(1) d(1) by (simp add: queue_inv_def)
  moreover have "of_nat (length seen) = of_nat (length (t @ front @ behind)) + lq_total_dropped (DropOne newest q)"
    using assms(1) d(1,3) by (simp add: queue_inv_def)
  moreover have "of_nat (of_module m seen) = of_nat (of_module m (t @ front @ behind)) + DroppedCount m (DropOne newest q)" for m
    using assms(1) d(1,5) by (simp add: queue_inv_def)
  ultimately show "queue_inv cfg seen (t, DropOne newest q)"
    using assms(1) d(2,4) by (simp add: queue_inv_def)
  show "length (lq_items (DropOne newest q)) < length (lq_items q)"
    by (simp add: d)
qed

lemma AddLog_inv:
  assumes "queue_inv cfg seen (t, q)"
  shows "queue_inv cfg (seen @ [item]) (t, AddLog cfg item q)"
proof (cases "length (lq_items q) \<ge> dc_queue_size cfg")
  case True
  have run: "\<not> lq_stopped q" "length (lq_items q) \<le> max 1 (dc_queue_size cfg)"
    using assms by (simp_all add: queue_inv_def)
  show ?thesis
  proof (cases "lq_items q = []")
    case True
    then show ?thesis
      using append_item_inv [OF assms, of item] run by (simp add: AddLog_def DropOne_def Let_def)
  next
    case False
    then show ?thesis
      using append_item_inv [OF drop_inv(1) [OF assms False, of "dc_drop_newest cfg"], of item]
        drop_inv(2) [OF assms False, of "dc_drop_newest cfg"] run True by (simp add: AddLog_def Let_def)
  qed
next
  case False
  then show ?thesis
    using append_item_inv [OF assms, of item] assms by (simp add: AddLog_def queue_inv_def)
qed

lemma queue_run_inv: "queue_inv cfg seen s \<Longrightarrow> queue_inv cfg (seen @ added ops) (queue_run cfg ops s)"
proof (induction ops arbitrary: seen s)
  case (Cons op ops)
  show ?case
  proof (cases op)
    case (Add item)
    then show ?thesis
      using Cons.IH [OF AddLog_inv [of cfg seen "fst s" "snd s" item]] Cons.prems by simp
  next
    case Take
    have "queue_inv cfg seen (fst s @ lq_items (snd s), (snd s)\<lparr>lq_items := []\<rparr>)"
      using Cons.prems by (simp add: queue_inv_def)
    then show ?thesis
      using Cons.IH by (simp add: Take take_batch_def)
  qed
qed simp

text \<open>
  C25: Whatever records are added and whenever the writer takes batches, under either drop policy:
  the queue never exceeds its size (or one); the records taken and queued are records added, in
  their order; and in total and for every module, the records added are those taken, those queued
  and those the counters report as dropped (modulo 2^64).
\<close>

theorem queue_accounts:
  "case queue_run cfg ops ([], empty_queue) of (taken, q) \<Rightarrow>
     QueueSize q \<le> max 1 (dc_queue_size cfg) \<and> subseq (taken @ lq_items q) (added ops) \<and>
     of_nat (length (added ops)) = of_nat (length (taken @ lq_items q)) + lq_total_dropped q \<and>
     of_nat (of_module m (added ops)) = of_nat (of_module m (taken @ lq_items q)) + DroppedCount m q"
proof -
  have "queue_inv cfg [] ([], empty_queue)"
    by (simp add: queue_inv_def empty_queue_def DroppedCount_def)
  then have "queue_inv cfg (added ops) (queue_run cfg ops ([], empty_queue))"
    using queue_run_inv [of cfg "[]" _ ops] by simp
  then show ?thesis
    by (cases "queue_run cfg ops ([], empty_queue)") (simp add: queue_inv_def QueueSize_def)
qed

text \<open>The barrier passes as soon as a batch is taken, before any record of it is written.\<close>

lemma barrier_passes_before_write: "lq_items q \<noteq> [] \<Longrightarrow> barrier_passed (QueueSize q) (snd (take_batch q))"
  by (simp add: barrier_passed_def take_batch_def QueueSize_def)

text \<open>A batch cut short by the stop flag is dropped without being counted.\<close>

lemma stopped_batch_lost: "write_batch cfg [(en, True, item), (en', True, item')] d = d"
  by simp

end
