(* ===== verification/Log_Collector.thy ===== *)
theory Log_Collector
  imports Log_Queue
begin

text \<open>
  The log collector of \<^verbatim>\<open>logging/src/log_collector.cpp\<close> (sources, reads, lines, hang-ups), the pipe
  sets of \<^verbatim>\<open>logging/src/log_pipe_manager.cpp\<close> and the sources and configuration the logging module
  reads from its flags. epoll, reads and pipes answer as the arguments say; a source is known by
  its address, a number here.
\<close>

section \<open>Lines\<close>

text \<open>The inner loop: complete lines, and the partial line that stays in the buffer.\<close>

function lines_of :: "string \<Rightarrow> string list \<times> string" where
  "lines_of buf =
     (if LF \<notin> set buf then ([], buf)
      else (case lines_of (tl (dropWhile (\<lambda>c. c \<noteq> LF) buf)) of
              (ls, rest) \<Rightarrow> (takeWhile (\<lambda>c. c \<noteq> LF) buf # ls, rest)))"
  by pat_completeness auto
termination
proof (relation "measure length")
  fix buf :: string assume "\<not> LF \<notin> set buf"
  then have "dropWhile (\<lambda>c. c \<noteq> LF) buf \<noteq> []"
    by (auto simp: dropWhile_eq_Nil_conv)
  then show "(tl (dropWhile (\<lambda>c. c \<noteq> LF) buf), buf) \<in> measure length"
    using length_dropWhile_le [of "\<lambda>c. c \<noteq> LF" buf] by (cases "dropWhile (\<lambda>c. c \<noteq> LF) buf") auto
qed simp

declare lines_of.simps [simp del]

section \<open>Sources\<close>

record source_state =
  so_id :: nat
  so_fd :: int
  so_module_name :: string
  so_buffer :: string

definition AddSource :: "nat \<Rightarrow> int \<Rightarrow> string \<Rightarrow> bool \<Rightarrow> source_state list \<Rightarrow> (string + source_state list)" where
  "AddSource address read_fd module_name epoll_ok sources =
     (if read_fd < 0 then Inl ''invalid read fd''
      else if module_name = [] then Inl ''module name required for pipe source''
      else if \<not> epoll_ok then Inl ''epoll_ctl ADD failed''
      else Inr (sources @ [\<lparr>so_id = address, so_fd = read_fd, so_module_name = module_name, so_buffer = []\<rparr>]))"

text \<open>The first source of the module goes; the file descriptor that is closed with it, if any.\<close>

fun RemoveSource :: "string \<Rightarrow> source_state list \<Rightarrow> bool \<times> int option \<times> source_state list" where
  "RemoveSource module_name [] = (False, None, [])"
| "RemoveSource module_name (s # ss) =
     (if so_module_name s = module_name then (True, if so_fd s \<ge> 0 then Some (so_fd s) else None, ss)
      else (case RemoveSource module_name ss of (found, fd, rest) \<Rightarrow> (found, fd, s # rest)))"

fun FindStateIndex :: "nat \<Rightarrow> source_state list \<Rightarrow> nat option" where
  "FindStateIndex address [] = None"
| "FindStateIndex address (s # ss) = (if so_id s = address then Some 0 else map_option Suc (FindStateIndex address ss))"

text \<open>Handlers return the source and the lines passed to \<^verbatim>\<open>AddLog\<close>, each with its module.\<close>

definition HandleHangup :: "source_state \<Rightarrow> source_state \<times> (string \<times> string) list" where
  "HandleHangup s =
     (let out = (if so_buffer s \<noteq> [] then [(so_module_name s, so_buffer s)] else []);
          s1 = s\<lparr>so_buffer := []\<rparr>
      in (if so_fd s \<ge> 0 then s1\<lparr>so_fd := -1\<rparr> else s1, out))"

datatype read_result = ReadData string | ReadAgain | ReadInterrupted | ReadFailed

text \<open>An empty read is the end of the stream. Without further answers the stop flag was seen.\<close>

fun HandleRead :: "read_result list \<Rightarrow> source_state \<Rightarrow> source_state \<times> (string \<times> string) list" where
  "HandleRead [] s = (s, [])"
| "HandleRead (ReadAgain # rs) s = (s, [])"
| "HandleRead (ReadInterrupted # rs) s = HandleRead rs s"
| "HandleRead (ReadFailed # rs) s = HandleHangup s"
| "HandleRead (ReadData data # rs) s =
     (if data = [] then HandleHangup s
      else (case lines_of (so_buffer s @ data) of
              (ls, rest) \<Rightarrow>
                (case HandleRead rs (s\<lparr>so_buffer := rest\<rparr>) of
                   (s2, out) \<Rightarrow> (s2, map (\<lambda>l. (so_module_name s, l)) ls @ out))))"

text \<open>One event of \<^verbatim>\<open>PollLoop\<close>: the address, whether hang-up and input are reported, and the reads.\<close>

record poll_event =
  pe_address :: nat
  pe_hangup :: bool
  pe_input :: bool
  pe_reads :: "read_result list"

definition poll_one :: "poll_event \<Rightarrow> source_state list \<Rightarrow> source_state list \<times> (string \<times> string) list" where
  "poll_one ev sources =
     (case FindStateIndex (pe_address ev) sources of
        None \<Rightarrow> (sources, [])
      | Some i \<Rightarrow>
          if pe_hangup ev then (case HandleHangup (sources ! i) of (s, out) \<Rightarrow> (sources[i := s], out))
          else if pe_input ev then (case HandleRead (pe_reads ev) (sources ! i) of (s, out) \<Rightarrow> (sources[i := s], out))
          else (sources, []))"

fun poll_loop :: "poll_event list \<Rightarrow> source_state list \<Rightarrow> source_state list \<times> (string \<times> string) list" where
  "poll_loop [] sources = (sources, [])"
| "poll_loop (ev # evs) sources =
     (case poll_one ev sources of (ss, out) \<Rightarrow> (case poll_loop evs ss of (ss2, out2) \<Rightarrow> (ss2, out @ out2)))"

section \<open>Pipes and flags\<close>

record ModulePipeSet =
  mp_read_fd :: int
  mp_write_fd :: int

text \<open>\<^verbatim>\<open>pipe()\<close> answers the two descriptors or an error number.\<close>

definition CreateLogPipe :: "nat + int \<times> int \<Rightarrow> string + ModulePipeSet" where
  "CreateLogPipe pipe_result =
     (case pipe_result of
        Inl errno \<Rightarrow> Inl (''pipe() failed errno='' @ nat_digits errno)
      | Inr (r, w) \<Rightarrow> Inr \<lparr>mp_read_fd = r, mp_write_fd = w\<rparr>)"

text \<open>The descriptors that are closed.\<close>

definition CloseOtherWriteFds :: "string \<Rightarrow> (string \<times> ModulePipeSet) list \<Rightarrow> int list" where
  "CloseOtherWriteFds keep_module pipes =
     map (\<lambda>(n, ps). mp_write_fd ps) (filter (\<lambda>(n, ps). n \<noteq> keep_module \<and> mp_write_fd ps \<ge> 0) pipes)"

definition CloseAllPipeFds :: "(string \<times> ModulePipeSet) list \<Rightarrow> int list \<times> (string \<times> ModulePipeSet) list" where
  "CloseAllPipeFds pipes =
     (concat (map (\<lambda>(n, ps). (if mp_read_fd ps \<ge> 0 then [mp_read_fd ps] else []) @ (if mp_write_fd ps \<ge> 0 then [mp_write_fd ps] else [])) pipes), [])"

text \<open>The flag \<^verbatim>\<open>log_pipe_sources\<close> as the launcher writes it, and as the logging module reads it.\<close>

definition pipe_sources_text :: "(string \<times> ModulePipeSet) list \<Rightarrow> string" where
  "pipe_sources_text pipes = join_with '','' (map (\<lambda>(n, ps). n @ '':'' @ int_to_string (mp_read_fd ps)) pipes)"

definition pipe_source_of :: "string \<Rightarrow> (string \<times> int) list" where
  "pipe_source_of token =
     (let name = takeWhile (\<lambda>c. c \<noteq> CHR '':'') token; rest = dropWhile (\<lambda>c. c \<noteq> CHR '':'') token in
      if rest = [] \<or> name = [] \<or> length name = length token - 1 then []
      else (let fd = atoi (tl rest) in if fd < 0 then [] else [(name, fd)]))"

definition pipe_sources_of :: "string \<Rightarrow> (string \<times> int) list" where
  "pipe_sources_of csv = (if csv = [] then [] else concat (map pipe_source_of (split_at (CHR '','') csv)))"

record logging_flags =
  lf_log_archive_dir :: string
  lf_log_tmp_dir :: string
  lf_log_queue_size :: int
  lf_log_max_file_size :: int
  lf_log_max_file_count :: int
  lf_log_compression_enabled :: bool

definition LoadConfigFromFlags :: "logging_flags \<Rightarrow> dump_config" where
  "LoadConfigFromFlags fl =
     \<lparr>dc_log_dir = lf_log_archive_dir fl, dc_log_tmp_dir = lf_log_tmp_dir fl,
      dc_queue_size = (if lf_log_queue_size fl > 0 then nat (lf_log_queue_size fl) else 4096),
      dc_drop_newest = False,
      dc_max_file_size = (if lf_log_max_file_size fl > 0 then nat (lf_log_max_file_size fl) else 10 * 1024 * 1024),
      dc_max_file_count = (if lf_log_max_file_count fl > 0 then nat (lf_log_max_file_count fl) else 10),
      dc_prefix = ''mould_log'', dc_compression = lf_log_compression_enabled fl\<rparr>"

text \<open>The glog sink.\<close>

definition sink_send :: "dump_config \<Rightarrow> string \<Rightarrow> string option \<Rightarrow> log_queue \<Rightarrow> log_queue" where
  "sink_send cfg module_name message q =
     (case message of None \<Rightarrow> q | Some m \<Rightarrow> if m = [] then q else AddLog cfg (module_name, m) q)"

section \<open>Lines come out whole\<close>

lemma lines_of_line: "LF \<notin> set l \<Longrightarrow> lines_of (l @ LF # r) = (l # fst (lines_of r), snd (lines_of r))"
  by (subst lines_of.simps) (auto simp: takeWhile_append takeWhile_tail dropWhile_append split: prod.splits)

lemma lines_of_partial: "LF \<notin> set l \<Longrightarrow> lines_of l = ([], l)"
  by (subst lines_of.simps) simp

lemma lines_of_append:
  "lines_of (a @ b) = (fst (lines_of a) @ fst (lines_of (snd (lines_of a) @ b)), snd (lines_of (snd (lines_of a) @ b)))"
proof (induction a rule: length_induct)
  case (1 a)
  show ?case
  proof (cases "LF \<in> set a")
    case True
    then obtain l r where a: "a = l @ LF # r" "LF \<notin> set l"
      using split_list_first by metis
    then show ?thesis
      using 1 [rule_format, of r] lines_of_line [OF a(2), of r] lines_of_line [OF a(2), of "r @ b"] by simp
  next
    case False
    then show ?thesis
      by (simp add: lines_of_partial)
  qed
qed

text \<open>Every byte of the text is in a line, in order.\<close>

lemma lines_of_text: "concat (map (\<lambda>l. l @ [LF]) (fst (lines_of buf))) @ snd (lines_of buf) = buf"
proof (induction buf rule: length_induct)
  case (1 buf)
  show ?case
  proof (cases "LF \<in> set buf")
    case True
    then obtain l r where b: "buf = l @ LF # r" "LF \<notin> set l"
      using split_list_first by metis
    then show ?thesis
      using 1 [rule_format, of r] lines_of_line [OF b(2), of r] by simp
  qed (simp add: lines_of_partial)
qed

lemma lines_of_no_newline: "list_all (\<lambda>l. LF \<notin> set l) (fst (lines_of buf)) \<and> LF \<notin> set (snd (lines_of buf))"
proof (induction buf rule: length_induct)
  case (1 buf)
  show ?case
  proof (cases "LF \<in> set buf")
    case True
    then obtain l r where b: "buf = l @ LF # r" "LF \<notin> set l"
      using split_list_first by metis
    then show ?thesis
      using 1 [rule_format, of r] lines_of_line [OF b(2), of r] by simp
  qed (simp add: lines_of_partial)
qed

text \<open>Reads of nonempty chunks until the pipe is empty.\<close>

definition chunk_reads :: "string list \<Rightarrow> read_result list" where
  "chunk_reads cs = map ReadData cs @ [ReadAgain]"

lemma HandleRead_chunks:
  "list_all (\<lambda>c. c \<noteq> []) cs \<Longrightarrow> LF \<notin> set (so_buffer s) \<Longrightarrow>
   HandleRead (chunk_reads cs) s =
     (s\<lparr>so_buffer := snd (lines_of (so_buffer s @ concat cs))\<rparr>,
      map (\<lambda>l. (so_module_name s, l)) (fst (lines_of (so_buffer s @ concat cs))))"
proof (induction cs arbitrary: s)
  case Nil
  then show ?case by (simp add: chunk_reads_def lines_of_partial)
next
  case (Cons c cs)
  let ?b = "so_buffer s @ c"
  have "HandleRead (chunk_reads cs) (s\<lparr>so_buffer := snd (lines_of ?b)\<rparr>) =
      (s\<lparr>so_buffer := snd (lines_of (snd (lines_of ?b) @ concat cs))\<rparr>,
       map (\<lambda>l. (so_module_name s, l)) (fst (lines_of (snd (lines_of ?b) @ concat cs))))"
    using Cons.IH [of "s\<lparr>so_buffer := snd (lines_of ?b)\<rparr>"] Cons.prems lines_of_no_newline [of ?b] by simp
  then show ?case
    using Cons.prems lines_of_append [of ?b "concat cs"] by (cases "lines_of ?b") (simp add: chunk_reads_def)
qed

definition input_event :: "nat \<Rightarrow> string list \<Rightarrow> poll_event" where
  "input_event address cs = \<lparr>pe_address = address, pe_hangup = False, pe_input = True, pe_reads = chunk_reads cs\<rparr>"

definition hangup_event :: "nat \<Rightarrow> read_result list \<Rightarrow> poll_event" where
  "hangup_event address rs = \<lparr>pe_address = address, pe_hangup = True, pe_input = True, pe_reads = rs\<rparr>"

lemma FindStateIndex_update:
  "FindStateIndex address ss = Some i \<Longrightarrow> so_id s = so_id (ss ! i) \<Longrightarrow> FindStateIndex address (ss[i := s]) = Some i"
  by (induction ss arbitrary: i) (auto split: if_splits nat.splits)

lemma FindStateIndex_bound: "FindStateIndex address ss = Some i \<Longrightarrow> i < length ss"
  by (induction ss arbitrary: i) (auto split: if_splits)

definition lines_out :: "string \<Rightarrow> string list \<times> string \<Rightarrow> (string \<times> string) list" where
  "lines_out m L = map (\<lambda>l. (m, l)) (fst L @ (if snd L = [] then [] else [snd L]))"

lemma poll_loop_lines:
  assumes "FindStateIndex address ss = Some i" "LF \<notin> set (so_buffer (ss ! i))" "list_all (list_all (\<lambda>c. c \<noteq> [])) css"
  shows "\<exists>ss'. poll_loop (map (input_event address) css @ [hangup_event address rs]) ss =
    (ss', lines_out (so_module_name (ss ! i)) (lines_of (so_buffer (ss ! i) @ concat (concat css))))"
  using assms
proof (induction css arbitrary: ss)
  case Nil
  then show ?case
    by (simp add: poll_one_def hangup_event_def HandleHangup_def lines_of_partial lines_out_def Let_def)
next
  case (Cons cs css)
  let ?s = "ss ! i" and ?b = "so_buffer (ss ! i) @ concat cs"
  let ?s1 = "?s\<lparr>so_buffer := snd (lines_of ?b)\<rparr>"
  have i: "i < length ss"
    using Cons.prems(1) by (rule FindStateIndex_bound)
  have one: "poll_one (input_event address cs) ss = (ss[i := ?s1], map (\<lambda>l. (so_module_name ?s, l)) (fst (lines_of ?b)))"
    using Cons.prems HandleRead_chunks [of cs ?s] by (simp add: poll_one_def input_event_def)
  have "FindStateIndex address (ss[i := ?s1]) = Some i"
    using Cons.prems(1) by (rule FindStateIndex_update) simp
  then obtain ss' where "poll_loop (map (input_event address) css @ [hangup_event address rs]) (ss[i := ?s1]) =
      (ss', lines_out (so_module_name ?s) (lines_of (snd (lines_of ?b) @ concat (concat css))))"
    using Cons.IH [of "ss[i := ?s1]"] Cons.prems(3) lines_of_no_newline [of ?b] i by auto
  then show ?case
    using lines_of_append [of ?b "concat (concat css)"] by (simp add: one lines_out_def)
qed


definition one_source :: source_state where
  "one_source = \<lparr>so_id = 1, so_fd = 5, so_module_name = ''m'', so_buffer = []\<rparr>"


text \<open>A hang-up reported together with input closes the pipe without reading it: what was unread is lost.\<close>

lemma hangup_drops_unread:
  "poll_loop [hangup_event 1 [ReadData ''last words'']] [one_source] = ([one_source\<lparr>so_fd := -1\<rparr>], [])"
  by (simp add: poll_one_def hangup_event_def HandleHangup_def one_source_def)

text \<open>A closed source stays in the table, so removing a module that was added again removes the dead entry.\<close>

lemma remove_finds_dead_entry:
  "RemoveSource ''m'' [one_source\<lparr>so_fd := -1\<rparr>, one_source\<lparr>so_id := 2, so_fd := 6\<rparr>] = (True, None, [one_source\<lparr>so_id := 2, so_fd := 6\<rparr>])"
  by (simp add: one_source_def)

section \<open>The sources flag is read back\<close>

definition source_name_ok :: "string \<Rightarrow> bool" where
  "source_name_ok n \<longleftrightarrow> n \<noteq> [] \<and> CHR '','' \<notin> set n \<and> CHR '':'' \<notin> set n"

lemma int_text_plain: "CHR '','' \<notin> set (nat_digits k)"
  using nat_digits_digits [of k] by (auto simp: list_all_iff is_digit_def)

lemma source_token:
  assumes "source_name_ok n" "0 \<le> fd" "fd < 2 ^ 31"
  shows "pipe_source_of (n @ '':'' @ int_to_string fd) = [(n, fd)]"
proof -
  have parts: "takeWhile (\<lambda>c. c \<noteq> CHR '':'') (n @ CHR '':'' # d) = n" "dropWhile (\<lambda>c. c \<noteq> CHR '':'') (n @ CHR '':'' # d) = CHR '':'' # d" for d
    using assms(1) by (auto simp: source_name_ok_def takeWhile_tail takeWhile_append dropWhile_append)
  have "atoi (nat_digits (nat fd)) = fd"
    using assms(2,3) by (subst atoi_nat_digits) (simp_all add: nat_less_iff)
  then show ?thesis
    using assms nat_digits_nonempty [of "nat fd"] by (simp add: pipe_source_of_def parts int_to_string_def source_name_ok_def Let_def)
qed

text \<open>
  The logging module reads from its flag exactly the modules and descriptors that the launcher
  put into it, for module names without comma and colon.
\<close>

lemma pipe_sources_round_trip:
  assumes "list_all (\<lambda>(n, ps). source_name_ok n \<and> 0 \<le> mp_read_fd ps \<and> mp_read_fd ps < 2 ^ 31) pipes"
  shows "pipe_sources_of (pipe_sources_text pipes) = map (\<lambda>(n, ps). (n, mp_read_fd ps)) pipes"
proof -
  let ?token = "\<lambda>(n, ps). n @ '':'' @ int_to_string (mp_read_fd ps)"
  have tokens: "list_all (\<lambda>t. CHR '','' \<notin> set t \<and> t \<noteq> []) (map ?token pipes)"
    using assms int_text_plain by (auto simp: list_all_iff source_name_ok_def int_to_string_def)
  have sources: "concat (map pipe_source_of (map ?token pipes)) = map (\<lambda>(n, ps). (n, mp_read_fd ps)) pipes"
    using assms by (induction pipes) (auto simp: source_token [simplified])
  show ?thesis
  proof (cases "pipes = []")
    case True
    then show ?thesis by (simp add: pipe_sources_of_def pipe_sources_text_def join_with_def)
  next
    case False
    then have "pipe_sources_text pipes \<noteq> []"
      using tokens by (cases pipes) (auto simp: pipe_sources_text_def join_with_def)
    then show ?thesis
      using split_at_join [OF tokens] sources by (simp add: pipe_sources_of_def pipe_sources_text_def)
  qed
qed

end
