(* ===== verification/Ring_Layout.thy ===== *)
theory Ring_Layout
  imports Prelude
begin

text \<open>
  The process-shared ring of \<^verbatim>\<open>common/comm/include/shm_ring_buffer.hpp\<close>: the header, the
  consumer table, the slot table and the payload region, the packed slot control word, the
  size of the layout, and the two ways to obtain a view: \<open>Initialize\<close> (the control plane
  formats a segment) and \<open>Attach\<close> (a process maps a formatted segment).

  A view of the C++ code is a bundle of pointers into one segment; here the segment's content
  is the value of type \<open>ring\<close> and a view is that value. Views come from \<open>Initialize\<close> and
  \<open>Attach\<close> only, so the null-pointer guards of the methods have no counterpart.
\<close>

unbundle bit_operations_syntax

section \<open>Data\<close>

definition kRingLayoutMagic :: u32 where "kRingLayoutMagic = 0x52494e47"
definition kRingLayoutVersion :: u16 where "kRingLayoutVersion = 8"

datatype SlotState = kEmpty | kReserved | kCommitted

datatype ConsumerState = kOffline | kOnline | kRegistering

record RingHeader =
  magic :: u32
  version :: u16
  slot_count :: u32
  consumer_capacity :: u32
  notification_capacity :: u32
  payload_region_bytes :: u64
  next_sequence :: u64
  reclaim_sequence :: u64
  membership_generation :: u64
  committed_slots :: u64
  reclaim_count :: u64
  membership_change_count :: u64
  consumer_online_events :: u64
  consumer_offline_events :: u64
  producer_block_total_ns :: u64
  producer_payload_slot_ticket :: u64

record ConsumerCursor =
  read_sequence :: u64
  cstate :: ConsumerState
  owner_pid :: u32
  owner_start_epoch :: u32

record SlotMeta =
  state_sequence :: u64
  payload_size :: u32
  claimed :: u32
  payload_offset :: u64

record RingSlotReservation =
  res_sequence :: u64
  res_payload_offset :: u64
  res_payload_size :: u32

record RingHealthMetrics =
  occupancy_slots :: u64
  slot_capacity :: u64
  m_producer_block_total_ns :: u64
  max_consumer_lag :: u64
  m_reclaim_count :: u64
  m_membership_change_count :: u64
  m_consumer_online_events :: u64
  m_consumer_offline_events :: u64

record ring =
  header :: RingHeader
  consumers :: "ConsumerCursor list"
  notification_mappings :: "int list"
  slots :: "SlotMeta list"
  payload_region :: "u8 list"

section \<open>The packed control word\<close>

text \<open>The numeric values of the enumerators, as \<^verbatim>\<open>static_cast\<close> gives them.\<close>

fun slot_state_code :: "SlotState \<Rightarrow> u32" where
  "slot_state_code kEmpty = 0"
| "slot_state_code kReserved = 1"
| "slot_state_code kCommitted = 2"

definition PackSlotControl :: "SlotState \<Rightarrow> u64 \<Rightarrow> u64" where
  "PackSlotControl st sequence = (push_bit 32 sequence) OR ucast (slot_state_code st)"

text \<open>A bit pattern that is no enumerator compares unequal to all of them: \<open>None\<close>.\<close>

definition UnpackSlotState :: "u64 \<Rightarrow> SlotState option" where
  "UnpackSlotState control =
     (let code = (ucast (control AND 0xFFFFFFFF) :: u32)
      in if code = 0 then Some kEmpty
         else if code = 1 then Some kReserved
         else if code = 2 then Some kCommitted
         else None)"

definition UnpackSlotSequence :: "u64 \<Rightarrow> u64" where
  "UnpackSlotSequence control = drop_bit 32 control"

section \<open>Layout size\<close>

text \<open>
  \<^verbatim>\<open>sizeof\<close> of the four structures on the platforms the build targets (LP64): the header
  is 32 bytes of fixed fields and ten 64-bit atomics, a cursor is 20 bytes padded to 24.
\<close>

definition sizeof_RingHeader :: u64 where "sizeof_RingHeader = 112"
definition sizeof_ConsumerCursor :: u64 where "sizeof_ConsumerCursor = 24"
definition sizeof_NotificationMappingEntry :: u64 where "sizeof_NotificationMappingEntry = 8"
definition sizeof_SlotMeta :: u64 where "sizeof_SlotMeta = 24"

definition Align8 :: "u64 \<Rightarrow> u64" where
  "Align8 value = (value + 7) AND NOT 7"

definition ComputeRingLayoutSizeBytes :: "u32 \<Rightarrow> u32 \<Rightarrow> u64" where
  "ComputeRingLayoutSizeBytes n_slots n_consumers =
     (let header_bytes = sizeof_RingHeader;
          consumer_table_bytes = sizeof_ConsumerCursor * ucast n_consumers;
          notification_table_bytes = sizeof_NotificationMappingEntry * ucast n_consumers;
          slot_bytes = sizeof_SlotMeta * ucast n_slots
      in Align8 (header_bytes + consumer_table_bytes + notification_table_bytes + slot_bytes))"

section \<open>Initialize and Attach\<close>

definition zero_cursor :: ConsumerCursor where
  "zero_cursor = \<lparr>read_sequence = 0, cstate = kOffline, owner_pid = 0, owner_start_epoch = 0\<rparr>"

definition zero_slot :: SlotMeta where
  "zero_slot = \<lparr>state_sequence = 0, payload_size = 0, claimed = 0, payload_offset = 0\<rparr>"

definition fresh_header :: "u32 \<Rightarrow> u32 \<Rightarrow> u64 \<Rightarrow> RingHeader" where
  "fresh_header n_slots n_consumers region_bytes =
     \<lparr>magic = kRingLayoutMagic, version = kRingLayoutVersion, slot_count = n_slots,
      consumer_capacity = n_consumers, notification_capacity = n_consumers,
      payload_region_bytes = region_bytes, next_sequence = 1, reclaim_sequence = 1,
      membership_generation = 1, committed_slots = 0, reclaim_count = 0,
      membership_change_count = 0, consumer_online_events = 0, consumer_offline_events = 0,
      producer_block_total_ns = 0, producer_payload_slot_ticket = 0\<rparr>"

text \<open>
  The loop that opens one eventfd per consumer slot. \<open>open_fd i\<close> is what the \<open>i\<close>-th call
  of \<^verbatim>\<open>eventfd(2)\<close> returns. \<open>Inl\<close> are the descriptors closed again after a failure.
\<close>

fun open_event_fds :: "(nat \<Rightarrow> int) \<Rightarrow> nat \<Rightarrow> nat \<Rightarrow> int list \<Rightarrow> int list + int list" where
  "open_event_fds open_fd i 0 opened = Inr opened"
| "open_event_fds open_fd i (Suc k) opened =
     (if open_fd i < 0 then Inl opened
      else open_event_fds open_fd (Suc i) k (opened @ [open_fd i]))"

definition Initialize :: "(nat \<Rightarrow> int) \<Rightarrow> u64 \<Rightarrow> u32 \<Rightarrow> u32 \<Rightarrow> u64 \<Rightarrow> int list + ring" where
  "Initialize open_fd total_size n_slots n_consumers region_bytes =
     (if n_slots = 0 \<or> region_bytes = 0 then Inl []
      else if total_size < ComputeRingLayoutSizeBytes n_slots n_consumers + region_bytes then Inl []
      else case open_event_fds open_fd 0 (unat n_consumers) [] of
             Inl closed \<Rightarrow> Inl closed
           | Inr fds \<Rightarrow>
               Inr \<lparr>header = fresh_header n_slots n_consumers region_bytes,
                    consumers = replicate (unat n_consumers) zero_cursor,
                    notification_mappings = fds,
                    slots = replicate (unat n_slots) zero_slot,
                    payload_region = replicate (unat region_bytes) 0\<rparr>)"

definition Attach :: "u64 \<Rightarrow> u16 \<Rightarrow> ring \<Rightarrow> ring option" where
  "Attach total_size expected_version mem =
     (if total_size < sizeof_RingHeader then None
      else if magic (header mem) \<noteq> kRingLayoutMagic \<or> version (header mem) \<noteq> expected_version then None
      else if total_size < ComputeRingLayoutSizeBytes (slot_count (header mem)) (consumer_capacity (header mem))
                             + payload_region_bytes (header mem) then None
      else Some mem)"

section \<open>Facts about the control word\<close>

lemma control_mask: "control AND 0xFFFFFFFF = take_bit 32 (control :: u64)"
  by (simp add: take_bit_eq_mask mask_eq_exp_minus_1)

lemma control_low: "PackSlotControl st s AND 0xFFFFFFFF = ucast (slot_state_code st)"
  by (cases st) (simp_all add: PackSlotControl_def control_mask take_bit_push_bit)

lemma UnpackSlotState_Pack [simp]: "UnpackSlotState (PackSlotControl st s) = Some st"
  by (cases st) (simp_all add: UnpackSlotState_def control_low)

lemma drop_push_u64: "drop_bit 32 (push_bit 32 s :: u64) = take_bit 32 s"
  by (rule bit_word_eqI) (auto simp: bit_drop_bit_eq bit_push_bit_iff bit_take_bit_iff)

lemma UnpackSlotSequence_Pack: "UnpackSlotSequence (PackSlotControl st s) = take_bit 32 s"
  by (cases st) (simp_all add: UnpackSlotSequence_def PackSlotControl_def drop_bit_or drop_push_u64)

lemma take_bit_32_id: "unat (s :: u64) < 2 ^ 32 \<Longrightarrow> take_bit 32 s = s"
  by (simp add: word_unat_eq_iff unsigned_take_bit_eq take_bit_nat_eq_self)

lemma UnpackSlotSequence_Pack_small [simp]:
  "unat s < 2 ^ 32 \<Longrightarrow> UnpackSlotSequence (PackSlotControl st s) = s"
  by (simp add: UnpackSlotSequence_Pack take_bit_32_id)

lemma PackSlotControl_state: "PackSlotControl a s = PackSlotControl b t \<Longrightarrow> a = b"
  by (metis UnpackSlotState_Pack option.inject)

lemma PackSlotControl_inject:
  "unat s < 2 ^ 32 \<Longrightarrow> unat t < 2 ^ 32 \<Longrightarrow>
   PackSlotControl a s = PackSlotControl b t \<longleftrightarrow> a = b \<and> s = t"
  by (metis UnpackSlotSequence_Pack_small PackSlotControl_state)

lemma PackSlotControl_empty [simp]: "PackSlotControl kEmpty 0 = 0"
  by (simp add: PackSlotControl_def)

lemma UnpackSlotState_0 [simp]: "UnpackSlotState 0 = Some kEmpty"
  by (simp add: UnpackSlotState_def)

section \<open>Facts about the layout\<close>

text \<open>The sum of the four tables never wraps in \<^verbatim>\<open>size_t\<close>, for any slot and consumer count.\<close>

lemma unat_mult_small:
  "unat (a :: u64) * unat b < 2 ^ 64 \<Longrightarrow> unat (a * b) = unat a * unat b"
  by (simp add: unat_word_ariths)

lemma unat_add_small:
  "unat (a :: u64) + unat b < 2 ^ 64 \<Longrightarrow> unat (a + b) = unat a + unat b"
  by (simp add: unat_word_ariths)

lemma and_not_mask_3: "v AND NOT (mask 3) = push_bit 3 (drop_bit 3 (v :: u64))"
  by (rule bit_word_eqI)
    (auto simp: bit_and_iff bit_not_iff bit_mask_iff bit_push_bit_iff bit_drop_bit_eq)

lemma and_not_7: "v AND NOT 7 = push_bit 3 (drop_bit 3 (v :: u64))"
proof -
  have "(7 :: u64) = mask 3"
    by (simp add: mask_eq_exp_minus_1)
  then show ?thesis
    by (simp only: and_not_mask_3)
qed

lemma unat_Align8:
  assumes "unat v + 7 < 2 ^ 64"
  shows "unat (Align8 v) = (unat v + 7) div 8 * 8"
proof -
  have v7: "unat (v + 7) = unat v + 7"
    using assms by (simp add: unat_word_ariths)
  have d: "unat (drop_bit 3 (v + 7)) = (unat v + 7) div 8"
    by (simp add: drop_bit_eq_div unat_div v7)
  have "unat (drop_bit 3 (v + 7) * 8) = (unat v + 7) div 8 * 8"
    using assms by (subst unat_mult_small) (simp_all add: d)
  moreover have "Align8 v = drop_bit 3 (v + 7) * 8"
    unfolding Align8_def and_not_7 by (simp add: push_bit_eq_mult)
  ultimately show ?thesis
    by simp
qed

lemma unat_ComputeRingLayoutSizeBytes:
  "unat (ComputeRingLayoutSizeBytes n c) = (112 + 32 * unat c + 24 * unat n + 7) div 8 * 8"
proof -
  have n: "unat n < 4294967296" and c: "unat c < 4294967296"
    using unat_u32_less [of n] unat_u32_less [of c] by simp_all
  have c24: "unat (24 * ucast c :: u64) = 24 * unat c"
    using c by (simp add: unat_word_ariths)
  have c8: "unat (8 * ucast c :: u64) = 8 * unat c"
    using c by (simp add: unat_word_ariths)
  have n24: "unat (24 * ucast n :: u64) = 24 * unat n"
    using n by (simp add: unat_word_ariths)
  have s1: "unat (112 + 24 * ucast c :: u64) = 112 + 24 * unat c"
    using c by (subst unat_add_small) (simp_all add: c24)
  have s2: "unat (112 + 24 * ucast c + 8 * ucast c :: u64) = 112 + 32 * unat c"
    using c s1 by (subst unat_add_small) (simp_all add: c8)
  have s3: "unat (112 + 24 * ucast c + 8 * ucast c + 24 * ucast n :: u64)
      = 112 + 32 * unat c + 24 * unat n"
    using n c s2 by (subst unat_add_small) (simp_all add: n24)
  show ?thesis
    unfolding ComputeRingLayoutSizeBytes_def Let_def sizeof_RingHeader_def
      sizeof_ConsumerCursor_def sizeof_NotificationMappingEntry_def sizeof_SlotMeta_def
    using n c by (subst unat_Align8) (simp_all only: s3, simp)
qed

end
