(* ===== verification/Ring_Ops.thy ===== *)
theory Ring_Ops
  imports Ring_Layout
begin

text \<open>
  The methods of \<^verbatim>\<open>RingLayoutView\<close> (\<^verbatim>\<open>common/comm/src/shm_ring_buffer.cpp\<close>), each as a
  function on the shared ring that returns its result and the ring it leaves. A call runs
  here without interference, except that the publish call takes what the others do during its
  yields as an argument. Out-parameters are results, a failed call is \<open>None\<close> or \<open>False\<close>.
\<close>

section \<open>Accessors used by the methods\<close>

definition slot :: "ring \<Rightarrow> nat \<Rightarrow> SlotMeta" where
  "slot r i = slots r ! i"

definition consumer :: "ring \<Rightarrow> nat \<Rightarrow> ConsumerCursor" where
  "consumer r c = consumers r ! c"

definition set_slot :: "nat \<Rightarrow> SlotMeta \<Rightarrow> ring \<Rightarrow> ring" where
  "set_slot i m r = r\<lparr>slots := (slots r)[i := m]\<rparr>"

definition set_consumer :: "nat \<Rightarrow> ConsumerCursor \<Rightarrow> ring \<Rightarrow> ring" where
  "set_consumer c m r = r\<lparr>consumers := (consumers r)[c := m]\<rparr>"

definition set_header :: "RingHeader \<Rightarrow> ring \<Rightarrow> ring" where
  "set_header h r = r\<lparr>header := h\<rparr>"

definition IsSlotIndexValid :: "u32 \<Rightarrow> ring \<Rightarrow> bool" where
  "IsSlotIndexValid slot_index r \<longleftrightarrow> slot_index < slot_count (header r)"

text \<open>The physical slot of a global sequence number: \<^verbatim>\<open>(s - 1) mod slot_count\<close>.\<close>

definition slot_index_of :: "u32 \<Rightarrow> u64 \<Rightarrow> u32" where
  "slot_index_of n s = ucast ((s - 1) mod ucast n)"

definition per_slot_capacity :: "RingHeader \<Rightarrow> u64" where
  "per_slot_capacity h = payload_region_bytes h div ucast (max (slot_count h) 1)"

section \<open>Reserve and commit\<close>

text \<open>
  \<open>reserve_target\<close> is the guard part of \<^verbatim>\<open>ReservePublishSlotRingOrdered\<close>, up to the first
  access to the slot table: the sequence number, its slot and its payload offset.
\<close>

definition reserve_target :: "u32 \<Rightarrow> RingHeader \<Rightarrow> (u64 \<times> u32 \<times> u64) option" where
  "reserve_target len h =
     (if len = 0 then None
      else if slot_count h = 0 then None
      else let per = per_slot_capacity h in
        if per = 0 \<or> ucast len > per then None
        else let s = next_sequence h in
          if s = 0 then None
          else let i = slot_index_of (slot_count h) s; off = ucast i * per in
            if off + ucast len > payload_region_bytes h then None
            else Some (s, i, off))"

definition ReservePublishSlotRingOrdered ::
    "u32 \<Rightarrow> ring \<Rightarrow> (RingSlotReservation \<times> u32) option \<times> ring" where
  "ReservePublishSlotRingOrdered len r =
     (case reserve_target len (header r) of
        None \<Rightarrow> (None, r)
      | Some (s, i, off) \<Rightarrow>
          let m = slot r (unat i); control = state_sequence m in
          if UnpackSlotState control \<noteq> Some kEmpty then (None, r)
          else let (taken, cell) = cas (state_sequence m) control (PackSlotControl kReserved s);
                   r1 = set_slot (unat i) (m\<lparr>state_sequence := cell\<rparr>) r in
            if \<not> taken then (None, r1)
            else let (bumped, nxt) = cas (next_sequence (header r1)) s (s + 1) in
              if \<not> bumped
              then (None, set_slot (unat i)
                            ((slot r1 (unat i))\<lparr>state_sequence := PackSlotControl kEmpty 0\<rparr>) r1)
              else let r2 = set_header ((header r1)\<lparr>next_sequence := nxt\<rparr>) r1;
                       r3 = set_slot (unat i)
                              ((slot r2 (unat i))\<lparr>payload_size := len, payload_offset := off\<rparr>) r2
                in (Some (\<lparr>res_sequence = s, res_payload_offset = off, res_payload_size = len\<rparr>, i), r3))"

definition CommitSlot :: "u32 \<Rightarrow> ring \<Rightarrow> bool \<times> ring" where
  "CommitSlot slot_index r =
     (if \<not> IsSlotIndexValid slot_index r then (False, r)
      else let m = slot r (unat slot_index); expected = state_sequence m in
        if UnpackSlotState expected \<noteq> Some kReserved then (False, r)
        else let (ok, cell) = cas (state_sequence m) expected
                                (PackSlotControl kCommitted (UnpackSlotSequence expected));
                 r1 = set_slot (unat slot_index) (m\<lparr>state_sequence := cell\<rparr>) r in
          if \<not> ok then (False, r1)
          else (True, set_header ((header r1)\<lparr>committed_slots := committed_slots (header r1) + 1\<rparr>) r1))"

section \<open>Reading\<close>

text \<open>
  The body of \<^verbatim>\<open>TryReadCommitted\<close> reads the control word, the two plain fields and the
  control word again, and accepts when both control words agree. \<open>try_read_obs\<close> is the loop
  over what successive attempts observe (control, size, offset, control again).
\<close>

fun try_read_obs :: "(u64 \<times> u32 \<times> u64 \<times> u64) list \<Rightarrow> RingSlotReservation option" where
  "try_read_obs [] = None"
| "try_read_obs ((control1, len, off, control2) # rest) =
     (if UnpackSlotState control1 \<noteq> Some kCommitted then None
      else if control2 \<noteq> control1 then try_read_obs rest
      else Some \<lparr>res_sequence = UnpackSlotSequence control1, res_payload_offset = off,
                 res_payload_size = len\<rparr>)"

definition kMaxAttempts :: nat where "kMaxAttempts = 16"

definition TryReadCommitted :: "u32 \<Rightarrow> ring \<Rightarrow> RingSlotReservation option" where
  "TryReadCommitted slot_index r =
     (if \<not> IsSlotIndexValid slot_index r then None
      else let m = slot r (unat slot_index)
        in try_read_obs (replicate kMaxAttempts
             (state_sequence m, payload_size m, payload_offset m, state_sequence m)))"

definition TryReadNextForConsumer :: "u32 \<Rightarrow> ring \<Rightarrow> (RingSlotReservation \<times> u32) option" where
  "TryReadNextForConsumer consumer_index r =
     (if consumer_index \<ge> consumer_capacity (header r) then None
      else let c = consumer r (unat consumer_index) in
        if cstate c \<noteq> kOnline then None
        else let expected = read_sequence c in
          if expected = 0 \<or> slot_count (header r) = 0 then None
          else let i = slot_index_of (slot_count (header r)) expected in
            case TryReadCommitted i r of
              None \<Rightarrow> None
            | Some res \<Rightarrow> if res_sequence res \<noteq> expected then None else Some (res, i))"

definition TryClaimSlot :: "u32 \<Rightarrow> ring \<Rightarrow> bool \<times> ring" where
  "TryClaimSlot slot_index r =
     (if \<not> IsSlotIndexValid slot_index r then (False, r)
      else let m = slot r (unat slot_index); (ok, cell) = cas (claimed m) 0 1
        in (ok, set_slot (unat slot_index) (m\<lparr>claimed := cell\<rparr>) r))"

definition ResetSlot :: "u32 \<Rightarrow> ring \<Rightarrow> bool \<times> ring" where
  "ResetSlot slot_index r =
     (if \<not> IsSlotIndexValid slot_index r then (False, r)
      else (True, set_slot (unat slot_index)
              ((slot r (unat slot_index))\<lparr>payload_size := 0, payload_offset := 0,
                 state_sequence := PackSlotControl kEmpty 0, claimed := 0\<rparr>) r))"

section \<open>Reclaim\<close>

text \<open>
  \<^verbatim>\<open>MinActiveReadSequence\<close> scans the online cursors and retries while the membership
  generation changes under it; one undisturbed pass is the fold below. With nobody online it
  answers the ring head.
\<close>

fun min_cursor :: "ConsumerCursor list \<Rightarrow> u64 option \<Rightarrow> u64 option" where
  "min_cursor [] acc = acc"
| "min_cursor (c # cs) acc =
     (if cstate c \<noteq> kOnline then min_cursor cs acc
      else case acc of
             None \<Rightarrow> min_cursor cs (Some (read_sequence c))
           | Some m \<Rightarrow> min_cursor cs (Some (if read_sequence c < m then read_sequence c else m)))"

definition MinActiveReadSequence :: "ring \<Rightarrow> u64" where
  "MinActiveReadSequence r =
     (case min_cursor (take (unat (consumer_capacity (header r))) (consumers r)) None of
        None \<Rightarrow> (if next_sequence (header r) = 0 then 1 else next_sequence (header r))
      | Some m \<Rightarrow> m)"

definition TryReclaimSlotIfSafe :: "u32 \<Rightarrow> ring \<Rightarrow> bool \<times> ring" where
  "TryReclaimSlotIfSafe slot_index r =
     (if \<not> IsSlotIndexValid slot_index r then (False, r)
      else let m = slot r (unat slot_index); control = state_sequence m in
        if UnpackSlotState control \<noteq> Some kCommitted then (False, r)
        else let committed = UnpackSlotSequence control in
          if committed \<ge> MinActiveReadSequence r then (False, r)
          else let (ok, cell) = cas (state_sequence m) control (PackSlotControl kEmpty 0);
                   r1 = set_slot (unat slot_index) (m\<lparr>state_sequence := cell\<rparr>) r in
            if \<not> ok then (False, r1)
            else let r2 = set_slot (unat slot_index) ((slot r1 (unat slot_index))\<lparr>claimed := 0\<rparr>) r1;
                     h = header r2
              in (True, set_header (h\<lparr>reclaim_count := reclaim_count h + 1,
                                      committed_slots := committed_slots h - 1,
                                      reclaim_sequence := max (reclaim_sequence h) committed\<rparr>) r2))"

text \<open>\<open>reclaim_range i k r\<close> is the loop over the \<open>k\<close> slots from \<open>i\<close> on, counting successes.\<close>

fun reclaim_range :: "nat \<Rightarrow> nat \<Rightarrow> ring \<Rightarrow> nat \<times> ring" where
  "reclaim_range i 0 r = (0, r)"
| "reclaim_range i (Suc k) r =
     (let (ok, r1) = TryReclaimSlotIfSafe (of_nat i) r; (n, r2) = reclaim_range (Suc i) k r1
      in (if ok then Suc n else n, r2))"

definition ReclaimCommittedSlots :: "ring \<Rightarrow> nat \<times> ring" where
  "ReclaimCommittedSlots r = reclaim_range 0 (unat (slot_count (header r))) r"

section \<open>Consumer membership\<close>

text \<open>\<open>pid\<close> is what \<^verbatim>\<open>getpid()\<close> returns in the calling process.\<close>

definition RegisterConsumer :: "u32 \<Rightarrow> u32 \<Rightarrow> u64 \<Rightarrow> ring \<Rightarrow> bool \<times> ring" where
  "RegisterConsumer pid consumer_index initial_read_sequence r =
     (if initial_read_sequence = 0 \<or> consumer_index \<ge> consumer_capacity (header r) then (False, r)
      else let ci = unat consumer_index; c = consumer r ci;
               (ok, st) = cas (cstate c) kOffline kRegistering in
        if \<not> ok then (False, r)
        else let c1 = c\<lparr>cstate := st, read_sequence := initial_read_sequence\<rparr>;
                 (published, st2) = cas (cstate c1) kRegistering kOnline in
          if \<not> published
          then (False, set_consumer ci (c1\<lparr>read_sequence := 0,
                         cstate := snd (cas (cstate c1) kRegistering kOffline)\<rparr>) r)
          else let generation = membership_generation (header r) + 1; h = header r
            in (True, set_header (h\<lparr>membership_generation := generation,
                                    membership_change_count := membership_change_count h + 1,
                                    consumer_online_events := consumer_online_events h + 1\<rparr>)
                        (set_consumer ci (c1\<lparr>cstate := st2, owner_pid := pid,
                                             owner_start_epoch := ucast generation\<rparr>) r)))"

definition UnregisterConsumer :: "u32 \<Rightarrow> ring \<Rightarrow> bool \<times> ring" where
  "UnregisterConsumer consumer_index r =
     (if consumer_index \<ge> consumer_capacity (header r) then (False, r)
      else let ci = unat consumer_index; c = consumer r ci;
               r1 = set_consumer ci (c\<lparr>cstate := kOffline\<rparr>) r in
        if cstate c \<noteq> kOnline \<and> cstate c \<noteq> kRegistering then (False, r1)
        else let h = header r1;
                 r2 = set_header (h\<lparr>membership_generation := membership_generation h + 1,
                                    membership_change_count := membership_change_count h + 1,
                                    consumer_offline_events := consumer_offline_events h + 1\<rparr>)
                        (set_consumer ci (c\<lparr>cstate := kOffline, owner_pid := 0,
                                            owner_start_epoch := 0, read_sequence := 0\<rparr>) r1)
          in (True, snd (ReclaimCommittedSlots r2)))"

definition AddConsumerOnline :: "u32 \<Rightarrow> u32 \<Rightarrow> ring \<Rightarrow> bool \<times> ring" where
  "AddConsumerOnline pid consumer_index r =
     (if consumer_index \<ge> consumer_capacity (header r) then (False, r)
      else let initial = next_sequence (header r)
        in RegisterConsumer pid consumer_index (if initial = 0 then 1 else initial) r)"

definition RemoveConsumerOnline :: "u32 \<Rightarrow> ring \<Rightarrow> bool \<times> ring" where
  "RemoveConsumerOnline consumer_index r = UnregisterConsumer consumer_index r"

text \<open>One round of the slot scan: the first index in \<open>[i, i + k)\<close> that can be taken.\<close>

fun acquire_scan :: "u32 \<Rightarrow> nat \<Rightarrow> nat \<Rightarrow> ring \<Rightarrow> u32 option \<times> ring" where
  "acquire_scan pid i 0 r = (None, r)"
| "acquire_scan pid i (Suc k) r =
     (let (ok, r1) = AddConsumerOnline pid (of_nat i) r
      in if ok then (Some (of_nat i), r1) else acquire_scan pid (Suc i) k r1)"

fun acquire_rounds :: "u32 \<Rightarrow> nat \<Rightarrow> ring \<Rightarrow> u32 option \<times> ring" where
  "acquire_rounds pid 0 r = (None, r)"
| "acquire_rounds pid (Suc rounds) r =
     (case acquire_scan pid 0 (unat (consumer_capacity (header r))) r of
        (Some i, r1) \<Rightarrow> (Some i, r1)
      | (None, r1) \<Rightarrow> acquire_rounds pid rounds r1)"

definition kSlotClaimRounds :: nat where "kSlotClaimRounds = 16"

definition TryAcquireConsumerOnlineSlot :: "u32 \<Rightarrow> ring \<Rightarrow> u32 option \<times> ring" where
  "TryAcquireConsumerOnlineSlot pid r =
     (if consumer_capacity (header r) = 0 then (None, r)
      else acquire_rounds pid kSlotClaimRounds r)"

definition ConsumerOwnerMatches :: "u32 \<Rightarrow> u32 \<Rightarrow> u32 \<Rightarrow> ring \<Rightarrow> bool" where
  "ConsumerOwnerMatches consumer_index pid epoch r \<longleftrightarrow>
     consumer_index < consumer_capacity (header r) \<and>
     cstate (consumer r (unat consumer_index)) = kOnline \<and>
     owner_pid (consumer r (unat consumer_index)) = pid \<and>
     owner_start_epoch (consumer r (unat consumer_index)) = epoch"

definition TakeConsumerOfflineIfOwner :: "u32 \<Rightarrow> u32 \<Rightarrow> u32 \<Rightarrow> ring \<Rightarrow> bool \<times> ring" where
  "TakeConsumerOfflineIfOwner consumer_index pid epoch r =
     (if \<not> ConsumerOwnerMatches consumer_index pid epoch r then (False, r)
      else UnregisterConsumer consumer_index r)"

section \<open>Cursors\<close>

definition LoadConsumerCursor :: "u32 \<Rightarrow> ring \<Rightarrow> u64 option" where
  "LoadConsumerCursor consumer_index r =
     (if consumer_index \<ge> consumer_capacity (header r) then None
      else if cstate (consumer r (unat consumer_index)) \<noteq> kOnline then None
      else Some (read_sequence (consumer r (unat consumer_index))))"

definition kCursorAdvanceFallbackReclaimInterval :: u64 where
  "kCursorAdvanceFallbackReclaimInterval = 64"

text \<open>
  \<open>count\<close> is the process-wide \<^verbatim>\<open>cursor_advance_counter\<close>: every 64th successful advance
  runs a full reclaim pass.
\<close>

definition AdvanceConsumerCursor :: "u32 \<Rightarrow> u64 \<Rightarrow> u64 \<Rightarrow> ring \<Rightarrow> bool \<times> u64 \<times> ring" where
  "AdvanceConsumerCursor consumer_index next_read count r =
     (if next_read = 0 \<or> consumer_index \<ge> consumer_capacity (header r) then (False, count, r)
      else let ci = unat consumer_index; c = consumer r ci; current = read_sequence c in
        if cstate c \<noteq> kOnline then (False, count, r)
        else if current > next_read then (False, count, r)
        else if current = next_read then (True, count, r)
        else let (ok, cell) = cas (read_sequence c) current next_read;
                 r1 = set_consumer ci (c\<lparr>read_sequence := cell\<rparr>) r;
                 value = count + 1 in
          if ok
          then (True, value, if value mod kCursorAdvanceFallbackReclaimInterval = 0
                             then snd (ReclaimCommittedSlots r1) else r1)
          else (cell \<ge> next_read, count, r1))"

definition CompleteConsumerSlot :: "u32 \<Rightarrow> u32 \<Rightarrow> u64 \<Rightarrow> u64 \<Rightarrow> ring \<Rightarrow> bool \<times> u64 \<times> ring" where
  "CompleteConsumerSlot consumer_index slot_index next_read count r =
     (case AdvanceConsumerCursor consumer_index next_read count r of
        (False, count1, r1) \<Rightarrow> (False, count1, r1)
      | (True, count1, r1) \<Rightarrow> (True, count1, snd (TryReclaimSlotIfSafe slot_index r1)))"

definition ConsumerLag :: "u32 \<Rightarrow> ring \<Rightarrow> u64 option" where
  "ConsumerLag consumer_index r =
     (case LoadConsumerCursor consumer_index r of
        None \<Rightarrow> None
      | Some cursor \<Rightarrow> Some (if next_sequence (header r) \<le> cursor then 0
                            else next_sequence (header r) - cursor))"

section \<open>Metrics, notification descriptors, tickets\<close>

definition MembershipGeneration :: "ring \<Rightarrow> u64" where
  "MembershipGeneration r = membership_generation (header r)"

fun max_lag :: "nat \<Rightarrow> nat \<Rightarrow> ring \<Rightarrow> u64 \<Rightarrow> u64" where
  "max_lag i 0 r acc = acc"
| "max_lag i (Suc k) r acc =
     max_lag (Suc i) k r (case ConsumerLag (of_nat i) r of
                            None \<Rightarrow> acc | Some lag \<Rightarrow> if lag > acc then lag else acc)"

definition ObserveHealthMetrics :: "ring \<Rightarrow> RingHealthMetrics" where
  "ObserveHealthMetrics r =
     (let h = header r in
      \<lparr>occupancy_slots = committed_slots h, slot_capacity = ucast (slot_count h),
       m_producer_block_total_ns = producer_block_total_ns h,
       max_consumer_lag = max_lag 0 (unat (consumer_capacity h)) r 0,
       m_reclaim_count = reclaim_count h,
       m_membership_change_count = membership_change_count h,
       m_consumer_online_events = consumer_online_events h,
       m_consumer_offline_events = consumer_offline_events h\<rparr>)"

definition RecordProducerBlockDuration :: "u64 \<Rightarrow> ring \<Rightarrow> bool \<times> ring" where
  "RecordProducerBlockDuration blocked_ns r =
     (True, set_header ((header r)\<lparr>producer_block_total_ns :=
                                    producer_block_total_ns (header r) + blocked_ns\<rparr>) r)"

definition SetConsumerNotificationFd :: "u32 \<Rightarrow> int \<Rightarrow> ring \<Rightarrow> bool \<times> ring" where
  "SetConsumerNotificationFd consumer_index event_fd r =
     (if consumer_index \<ge> notification_capacity (header r) then (False, r)
      else (True, r\<lparr>notification_mappings :=
                      (notification_mappings r)[unat consumer_index := event_fd]\<rparr>))"

definition LoadConsumerNotificationFd :: "u32 \<Rightarrow> ring \<Rightarrow> int option" where
  "LoadConsumerNotificationFd consumer_index r =
     (if consumer_index \<ge> notification_capacity (header r) then None
      else Some (notification_mappings r ! unat consumer_index))"

definition TakeNextProducerPayloadSlotIndex :: "ring \<Rightarrow> u32 \<times> ring" where
  "TakeNextProducerPayloadSlotIndex r =
     (let h = header r in
      if slot_count h = 0 then (0, r)
      else (ucast (producer_payload_slot_ticket h mod ucast (slot_count h)),
            set_header (h\<lparr>producer_payload_slot_ticket := producer_payload_slot_ticket h + 1\<rparr>) r))"

section \<open>Publish\<close>

datatype publish_error =
    RingHeaderInvalid
  | PayloadEmptyOrExceedsCapacity
  | PayloadExceedsPerSlotCapacity
  | CommitSlotFailed

text \<open>
  The retry loop of \<^verbatim>\<open>PublishCommittedPayload\<close>: a failed reservation runs a reclaim pass and
  yields. \<open>yields\<close> lists what the other processes do to the ring during each yield; a
  producer that still waits when the list is used up has not returned (\<open>None\<close>).
\<close>

fun reserve_loop ::
    "(ring \<Rightarrow> ring) list \<Rightarrow> u32 \<Rightarrow> ring \<Rightarrow> ((RingSlotReservation \<times> u32) \<times> ring) option" where
  "reserve_loop [] len r =
     (case ReservePublishSlotRingOrdered len r of
        (Some res, r1) \<Rightarrow> Some (res, r1) | (None, r1) \<Rightarrow> None)"
| "reserve_loop (y # ys) len r =
     (case ReservePublishSlotRingOrdered len r of
        (Some res, r1) \<Rightarrow> Some (res, r1)
      | (None, r1) \<Rightarrow> reserve_loop ys len (y (snd (ReclaimCommittedSlots r1))))"

text \<open>The \<^verbatim>\<open>memcpy\<close> into the payload region.\<close>

definition write_payload :: "nat \<Rightarrow> u8 list \<Rightarrow> ring \<Rightarrow> ring" where
  "write_payload off bytes r =
     r\<lparr>payload_region := take off (payload_region r) @ bytes
                          @ drop (off + length bytes) (payload_region r)\<rparr>"

definition read_payload :: "nat \<Rightarrow> nat \<Rightarrow> ring \<Rightarrow> u8 list" where
  "read_payload off n r = take n (drop off (payload_region r))"

text \<open>
  \<open>blocked_ns\<close> is the measured duration of the reservation loop. The result is the sequence
  number, which the code stores in the envelope as both \<^verbatim>\<open>sequence\<close> and \<^verbatim>\<open>delivery_id\<close>.
\<close>

definition PublishCommittedPayload ::
    "(ring \<Rightarrow> ring) list \<Rightarrow> u64 \<Rightarrow> u8 list \<Rightarrow> ring \<Rightarrow> ((publish_error + u64) \<times> ring) option" where
  "PublishCommittedPayload yields blocked_ns payload r =
     (if slot_count (header r) = 0 then Some (Inl RingHeaderInvalid, r)
      else if payload = [] \<or> length payload > unat (payload_region_bytes (header r))
      then Some (Inl PayloadEmptyOrExceedsCapacity, r)
      else if per_slot_capacity (header r) = 0 \<or> length payload > unat (per_slot_capacity (header r))
      then Some (Inl PayloadExceedsPerSlotCapacity, r)
      else case reserve_loop yields (of_nat (length payload)) r of
             None \<Rightarrow> None
           | Some ((res, i), r1) \<Rightarrow>
               let r2 = (if blocked_ns > 0 then snd (RecordProducerBlockDuration blocked_ns r1) else r1);
                   r3 = write_payload (unat (res_payload_offset res)) payload r2;
                   (ok, r4) = CommitSlot i r3
               in Some (if ok then Inr (res_sequence res) else Inl CommitSlotFailed, r4))"

end
