(* ===== verification/Ring_Invariant.thy ===== *)
theory Ring_Invariant
  imports Ring_Ops
begin

text \<open>
  The representation invariant of the ring and its preservation by every operation of
  \<open>Ring_Ops\<close>: the shape of the tables, where a sequence number may sit, that every message
  an online consumer has not yet passed is still in its slot, and that the occupancy counter
  counts the committed slots. Slot contents are read through \<open>slot_state\<close> and \<open>slot_seq\<close>.
\<close>

section \<open>Reading slots as numbers\<close>

definition slot_state :: "SlotMeta \<Rightarrow> SlotState option" where
  "slot_state m = UnpackSlotState (state_sequence m)"

definition slot_seq :: "SlotMeta \<Rightarrow> nat" where
  "slot_seq m = unat (UnpackSlotSequence (state_sequence m))"

abbreviation n_slots :: "ring \<Rightarrow> nat" where
  "n_slots r \<equiv> unat (slot_count (header r))"

abbreviation n_consumers :: "ring \<Rightarrow> nat" where
  "n_consumers r \<equiv> unat (consumer_capacity (header r))"

abbreviation head_seq :: "ring \<Rightarrow> nat" where
  "head_seq r \<equiv> unat (next_sequence (header r))"

abbreviation cursor :: "ring \<Rightarrow> nat \<Rightarrow> nat" where
  "cursor r c \<equiv> unat (read_sequence (consumer r c))"

definition online :: "ring \<Rightarrow> nat \<Rightarrow> bool" where
  "online r c \<longleftrightarrow> c < n_consumers r \<and> cstate (consumer r c) = kOnline"

definition is_committed :: "SlotMeta \<Rightarrow> bool" where
  "is_committed m \<longleftrightarrow> slot_state m = Some kCommitted"

lemma slot_state_upd [simp]:
  "slot_state (m\<lparr>state_sequence := PackSlotControl st s\<rparr>) = Some st"
  "slot_state (m\<lparr>state_sequence := 0\<rparr>) = Some kEmpty"
  "slot_state (m\<lparr>payload_size := a\<rparr>) = slot_state m"
  "slot_state (m\<lparr>payload_offset := b\<rparr>) = slot_state m"
  "slot_state (m\<lparr>claimed := k\<rparr>) = slot_state m"
  by (simp_all add: slot_state_def)

lemma slot_seq_upd [simp]:
  "unat s < 2 ^ 32 \<Longrightarrow> slot_seq (m\<lparr>state_sequence := PackSlotControl st s\<rparr>) = unat s"
  "slot_seq (m\<lparr>payload_size := a\<rparr>) = slot_seq m"
  "slot_seq (m\<lparr>payload_offset := b\<rparr>) = slot_seq m"
  "slot_seq (m\<lparr>claimed := k\<rparr>) = slot_seq m"
  by (simp_all add: slot_seq_def)

lemma unat_slot_index_of:
  "n \<noteq> 0 \<Longrightarrow> s \<noteq> 0 \<Longrightarrow> unat (slot_index_of n s) = (unat s - 1) mod unat n"
proof -
  assume n: "n \<noteq> 0" and s: "s \<noteq> 0"
  have "unat ((s - 1) mod ucast n) = (unat s - 1) mod unat n"
    using s by (simp add: unat_mod unat_minus_1)
  moreover have "(unat s - 1) mod unat n < 2 ^ 32"
    using n unat_u32_less [of n] by (meson less_trans mod_less_divisor unat_gt_0)
  ultimately show ?thesis
    by (simp add: slot_index_of_def unat_ucast_u64_u32)
qed

lemma slot_index_of_less: "n \<noteq> 0 \<Longrightarrow> s \<noteq> 0 \<Longrightarrow> slot_index_of n s < n"
  by (simp add: word_less_nat_alt unat_slot_index_of unat_gt_0)

section \<open>The invariant\<close>

definition ring_shape :: "ring \<Rightarrow> bool" where
  "ring_shape r \<longleftrightarrow>
     slot_count (header r) \<noteq> 0 \<and> length (slots r) = n_slots r \<and>
     length (consumers r) = n_consumers r \<and>
     length (notification_mappings r) = unat (notification_capacity (header r)) \<and>
     length (payload_region r) = unat (payload_region_bytes (header r))"

text \<open>A sequence number sits in its own slot only, and is one that has been handed out.\<close>

definition slots_placed :: "ring \<Rightarrow> bool" where
  "slots_placed r \<longleftrightarrow>
     (\<forall>i < n_slots r. case slot_state (slot r i) of
        None \<Rightarrow> False
      | Some kEmpty \<Rightarrow> True
      | Some _ \<Rightarrow> 1 \<le> slot_seq (slot r i) \<and> slot_seq (slot r i) < head_seq r \<and>
                 (slot_seq (slot r i) - 1) mod n_slots r = i)"

text \<open>Nothing an online consumer still has to read has left the ring.\<close>

definition holds_seq :: "ring \<Rightarrow> nat \<Rightarrow> bool" where
  "holds_seq r s \<longleftrightarrow>
     slot_state (slot r ((s - 1) mod n_slots r)) \<in> {Some kReserved, Some kCommitted} \<and>
     slot_seq (slot r ((s - 1) mod n_slots r)) = s"

definition cursors_covered :: "ring \<Rightarrow> bool" where
  "cursors_covered r \<longleftrightarrow>
     (\<forall>c. online r c \<longrightarrow> 1 \<le> cursor r c \<and> cursor r c \<le> head_seq r \<and>
        (\<forall>s. cursor r c \<le> s \<and> s < head_seq r \<longrightarrow> holds_seq r s))"

definition occupancy_exact :: "ring \<Rightarrow> bool" where
  "occupancy_exact r \<longleftrightarrow>
     committed_slots (header r) = of_nat (length (filter is_committed (slots r)))"

definition slices_in_place :: "ring \<Rightarrow> bool" where
  "slices_in_place r \<longleftrightarrow>
     (\<forall>i < n_slots r. slot_state (slot r i) \<in> {Some kReserved, Some kCommitted} \<longrightarrow>
        unat (payload_offset (slot r i)) = i * unat (per_slot_capacity (header r)) \<and>
        0 < unat (payload_size (slot r i)) \<and>
        unat (payload_size (slot r i)) \<le> unat (per_slot_capacity (header r)))"

definition ring_inv :: "ring \<Rightarrow> bool" where
  "ring_inv r \<longleftrightarrow> ring_shape r \<and> 1 \<le> head_seq r \<and> slots_placed r \<and> cursors_covered r \<and>
                occupancy_exact r \<and> slices_in_place r"

lemmas ring_inv_defs = ring_inv_def ring_shape_def slots_placed_def cursors_covered_def
  occupancy_exact_def slices_in_place_def

lemma ring_invD:
  assumes "ring_inv r"
  shows "ring_shape r" "1 \<le> head_seq r" "slots_placed r" "cursors_covered r"
    "occupancy_exact r" "slices_in_place r"
  using assms by (simp_all add: ring_inv_def)

text \<open>An online consumer can lag by at most one lap: two pending numbers never share a slot.\<close>

lemma mod_pigeonhole:
  fixes a b n :: nat
  assumes "a \<le> b" "b - a < n" "a mod n = b mod n"
  shows "a = b"
proof -
  have "n dvd b - a"
    using assms(1,3) by (metis mod_eq_dvd_iff_nat)
  then show ?thesis
    using assms(1,2) by (auto dest: dvd_imp_le)
qed

lemma lag_bounded:
  assumes inv: "ring_inv r" and on: "online r c"
  shows "head_seq r \<le> cursor r c + n_slots r"
proof (rule ccontr)
  let ?n = "n_slots r" and ?c = "cursor r c"
  assume "\<not> ?thesis"
  then have lt: "?c + ?n < head_seq r" by simp
  from inv on have c1: "1 \<le> ?c" and
    cov: "\<And>s. ?c \<le> s \<Longrightarrow> s < head_seq r \<Longrightarrow> holds_seq r s"
    by (auto simp: ring_inv_def cursors_covered_def)
  have "holds_seq r ?c" "holds_seq r (?c + ?n)"
    using lt by (auto intro: cov)
  moreover have "(?c + ?n - 1) mod ?n = (?c - 1) mod ?n"
    using c1 by (metis Nat.add_diff_assoc2 mod_add_self2)
  ultimately have "?c = ?c + ?n"
    by (simp add: holds_seq_def)
  moreover have "0 < ?n"
    using inv by (simp add: ring_inv_def ring_shape_def unat_gt_0)
  ultimately show False by simp
qed

section \<open>The minimum cursor\<close>

lemma min_cursor_acc_None:
  "min_cursor cs acc = None \<longleftrightarrow> acc = None \<and> (\<forall>c \<in> set cs. cstate c \<noteq> kOnline)"
  by (induction cs acc rule: min_cursor.induct) (auto split: option.splits)

lemma min_cursor_le:
  "min_cursor cs acc = Some m \<Longrightarrow>
   (\<forall>c \<in> set cs. cstate c = kOnline \<longrightarrow> m \<le> read_sequence c) \<and> (\<forall>a. acc = Some a \<longrightarrow> m \<le> a)"
proof (induction cs acc rule: min_cursor.induct)
  case (2 c cs acc)
  then show ?case
    by (cases acc) (fastforce split: if_splits)+
qed simp

lemma min_cursor_mem:
  "min_cursor cs acc = Some m \<Longrightarrow>
   acc = Some m \<or> (\<exists>c \<in> set cs. cstate c = kOnline \<and> read_sequence c = m)"
proof (induction cs acc rule: min_cursor.induct)
  case (2 c cs acc)
  then show ?case
    by (cases acc) (fastforce split: if_splits)+
qed simp

lemma MinActiveReadSequence_le:
  assumes "ring_shape r" "online r c"
  shows "MinActiveReadSequence r \<le> read_sequence (consumer r c)"
proof -
  let ?cs = "take (n_consumers r) (consumers r)"
  have mem: "consumer r c \<in> set ?cs" and on: "cstate (consumer r c) = kOnline"
    using assms by (auto simp: online_def ring_shape_def consumer_def)
  then obtain m where "min_cursor ?cs None = Some m"
    by (cases "min_cursor ?cs None") (auto simp: min_cursor_acc_None)
  with mem on show ?thesis
    by (auto simp: MinActiveReadSequence_def dest: min_cursor_le)
qed

lemma MinActiveReadSequence_cases:
  assumes "ring_shape r"
  shows "(\<forall>c. \<not> online r c) \<and>
         MinActiveReadSequence r = (if next_sequence (header r) = 0 then 1 else next_sequence (header r))
       \<or> (\<exists>c. online r c \<and> MinActiveReadSequence r = read_sequence (consumer r c))"
proof (cases "min_cursor (take (n_consumers r) (consumers r)) None")
  case None
  then have "\<forall>c \<in> set (consumers r). cstate c \<noteq> kOnline"
    using assms by (simp add: min_cursor_acc_None ring_shape_def)
  then have "\<forall>c. \<not> online r c"
    using assms by (auto simp: online_def consumer_def ring_shape_def)
  with None show ?thesis
    by (simp add: MinActiveReadSequence_def)
next
  case (Some m)
  then obtain c where "c \<in> set (consumers r)" "cstate c = kOnline" "read_sequence c = m"
    using assms by (auto dest: min_cursor_mem simp: ring_shape_def)
  then obtain j where "j < length (consumers r)" "consumers r ! j = c"
    by (auto simp: in_set_conv_nth)
  with Some assms \<open>cstate c = kOnline\<close> \<open>read_sequence c = m\<close> show ?thesis
    by (auto simp: MinActiveReadSequence_def online_def consumer_def ring_shape_def)
qed

lemma MinActiveReadSequence_le_head:
  assumes "ring_inv r"
  shows "unat (MinActiveReadSequence r) \<le> head_seq r"
proof -
  have "next_sequence (header r) \<noteq> 0"
    using assms by (auto simp: ring_inv_def)
  with MinActiveReadSequence_cases [of r] assms show ?thesis
    by (auto simp: ring_inv_def cursors_covered_def)
qed

section \<open>What a reclaim pass does\<close>

text \<open>The slot after a pass with minimum cursor \<open>M\<close>, and the header after \<open>k\<close> reclaims.\<close>

definition reclaim_slot :: "u64 \<Rightarrow> SlotMeta \<Rightarrow> SlotMeta" where
  "reclaim_slot M m =
     (if is_committed m \<and> UnpackSlotSequence (state_sequence m) < M
      then m\<lparr>state_sequence := 0, claimed := 0\<rparr> else m)"

definition reclaimable :: "u64 \<Rightarrow> SlotMeta \<Rightarrow> bool" where
  "reclaimable M m \<longleftrightarrow> is_committed m \<and> UnpackSlotSequence (state_sequence m) < M"

lemma reclaim_slot_simps [simp]:
  "payload_size (reclaim_slot M m) = payload_size m"
  "payload_offset (reclaim_slot M m) = payload_offset m"
  by (simp_all add: reclaim_slot_def)

lemma set_slot_simps [simp]:
  "header (set_slot i m r) = header r" "consumers (set_slot i m r) = consumers r"
  "notification_mappings (set_slot i m r) = notification_mappings r"
  "payload_region (set_slot i m r) = payload_region r"
  "slots (set_slot i m r) = (slots r)[i := m]"
  "consumer (set_slot i m r) c = consumer r c"
  "online (set_slot i m r) c = online r c"
  by (simp_all add: set_slot_def consumer_def online_def)

lemma set_header_simps [simp]:
  "header (set_header h r) = h" "consumers (set_header h r) = consumers r"
  "notification_mappings (set_header h r) = notification_mappings r"
  "payload_region (set_header h r) = payload_region r"
  "slots (set_header h r) = slots r" "slot (set_header h r) i = slot r i"
  "consumer (set_header h r) c = consumer r c"
  by (simp_all add: set_header_def slot_def consumer_def)

lemma set_consumer_simps [simp]:
  "header (set_consumer i m r) = header r" "consumers (set_consumer i m r) = (consumers r)[i := m]"
  "notification_mappings (set_consumer i m r) = notification_mappings r"
  "payload_region (set_consumer i m r) = payload_region r"
  "slots (set_consumer i m r) = slots r" "slot (set_consumer i m r) j = slot r j"
  by (simp_all add: set_consumer_def slot_def)

lemma slot_set_slot: "i < length (slots r) \<Longrightarrow> slot (set_slot i m r) j = (if j = i then m else slot r j)"
  by (simp add: slot_def)

lemma consumer_set_consumer:
  "i < length (consumers r) \<Longrightarrow> consumer (set_consumer i m r) j = (if j = i then m else consumer r j)"
  by (simp add: consumer_def)

lemma Min_cong:
  "consumers r' = consumers r \<Longrightarrow> consumer_capacity (header r') = consumer_capacity (header r) \<Longrightarrow>
   next_sequence (header r') = next_sequence (header r) \<Longrightarrow>
   MinActiveReadSequence r' = MinActiveReadSequence r"
  by (simp add: MinActiveReadSequence_def cong: option.case_cong)

text \<open>\<open>same_but_slots r r'\<close>: \<open>r'\<close> differs from \<open>r\<close> in slots and reclaim counters only.\<close>

definition same_but_slots :: "ring \<Rightarrow> ring \<Rightarrow> bool" where
  "same_but_slots r r' \<longleftrightarrow>
     consumers r' = consumers r \<and> notification_mappings r' = notification_mappings r \<and>
     payload_region r' = payload_region r \<and> length (slots r') = length (slots r) \<and>
     slot_count (header r') = slot_count (header r) \<and>
     consumer_capacity (header r') = consumer_capacity (header r) \<and>
     notification_capacity (header r') = notification_capacity (header r) \<and>
     payload_region_bytes (header r') = payload_region_bytes (header r) \<and>
     next_sequence (header r') = next_sequence (header r) \<and>
     membership_generation (header r') = membership_generation (header r)"

lemma same_but_slots_refl [simp]: "same_but_slots r r"
  by (simp add: same_but_slots_def)

lemma same_but_slots_trans: "same_but_slots a b \<Longrightarrow> same_but_slots b c \<Longrightarrow> same_but_slots a c"
  by (simp add: same_but_slots_def)

lemma same_but_slots_simps:
  assumes "same_but_slots r r'"
  shows "slot_count (header r') = slot_count (header r)"
    "consumer_capacity (header r') = consumer_capacity (header r)"
    "notification_capacity (header r') = notification_capacity (header r)"
    "payload_region_bytes (header r') = payload_region_bytes (header r)"
    "next_sequence (header r') = next_sequence (header r)"
    "membership_generation (header r') = membership_generation (header r)"
    "consumers r' = consumers r" "consumer r' c = consumer r c" "online r' c = online r c"
    "payload_region r' = payload_region r" "length (slots r') = length (slots r)"
    "notification_mappings r' = notification_mappings r"
    "per_slot_capacity (header r') = per_slot_capacity (header r)"
    "MinActiveReadSequence r' = MinActiveReadSequence r"
  using assms
  by (simp_all add: same_but_slots_def per_slot_capacity_def consumer_def online_def
      MinActiveReadSequence_def cong: option.case_cong)

lemma TryReclaimSlotIfSafe_char:
  assumes "ring_shape r"
  shows "fst (TryReclaimSlotIfSafe i r) \<longleftrightarrow>
           unat i < n_slots r \<and> reclaimable (MinActiveReadSequence r) (slot r (unat i))"
    and "same_but_slots r (snd (TryReclaimSlotIfSafe i r))"
    and "slot (snd (TryReclaimSlotIfSafe i r)) j =
           (if j = unat i \<and> j < n_slots r
            then reclaim_slot (MinActiveReadSequence r) (slot r j) else slot r j)"
    and "committed_slots (header (snd (TryReclaimSlotIfSafe i r))) =
           committed_slots (header r) - of_bool (fst (TryReclaimSlotIfSafe i r))"
  using assms
  by (auto simp: TryReclaimSlotIfSafe_def Let_def IsSlotIndexValid_def reclaimable_def
      is_committed_def slot_state_def reclaim_slot_def same_but_slots_def word_less_nat_alt
      word_le_nat_alt slot_set_slot ring_shape_def)

lemma same_but_slots_shape: "same_but_slots r r' \<Longrightarrow> ring_shape r \<Longrightarrow> ring_shape r'"
  by (simp add: ring_shape_def same_but_slots_simps)

lemma filter_is_committed_update:
  assumes "i < length ms"
  shows "length (filter is_committed (ms[i := m])) + of_bool (is_committed (ms ! i))
       = length (filter is_committed ms) + of_bool (is_committed m)"
proof -
  have split: "ms = take i ms @ ms ! i # drop (Suc i) ms"
    using assms by (rule id_take_nth_drop)
  have upd: "ms[i := m] = take i ms @ m # drop (Suc i) ms"
    using assms by (rule upd_conv_take_nth_drop)
  show ?thesis
    by (subst (2) split, simp only: upd) simp
qed

lemma TryReclaimSlotIfSafe_slots:
  assumes "ring_shape r" "i < n_slots r"
  shows "slots (snd (TryReclaimSlotIfSafe (of_nat i) r)) =
         (slots r)[i := reclaim_slot (MinActiveReadSequence r) (slot r i)]"
proof (rule nth_equalityI)
  have i: "unat (of_nat i :: u32) = i"
    using assms(2) unat_u32_less [of "slot_count (header r)"]
    by (simp add: unat_of_nat take_bit_nat_eq_self)
  note same = TryReclaimSlotIfSafe_char(2) [OF assms(1), of "of_nat i"]
  show "length (slots (snd (TryReclaimSlotIfSafe (of_nat i) r))) =
      length ((slots r)[i := reclaim_slot (MinActiveReadSequence r) (slot r i)])"
    using same by (simp add: same_but_slots_simps)
  fix j assume "j < length (slots (snd (TryReclaimSlotIfSafe (of_nat i) r)))"
  then show "slots (snd (TryReclaimSlotIfSafe (of_nat i) r)) ! j =
      (slots r)[i := reclaim_slot (MinActiveReadSequence r) (slot r i)] ! j"
    using TryReclaimSlotIfSafe_char(3) [OF assms(1), of "of_nat i" j] same assms
    by (auto simp: slot_def i same_but_slots_simps ring_shape_def nth_list_update split: if_splits)
qed

lemma reclaim_slot_committed:
  "is_committed (reclaim_slot M m) \<longleftrightarrow> is_committed m \<and> \<not> reclaimable M m"
  by (auto simp: reclaim_slot_def reclaimable_def is_committed_def)

lemma TryReclaimSlotIfSafe_occupancy:
  assumes "ring_shape r" "occupancy_exact r"
  shows "occupancy_exact (snd (TryReclaimSlotIfSafe i r))"
proof (cases "unat i < n_slots r")
  case True
  let ?M = "MinActiveReadSequence r" and ?m = "slot r (unat i)"
  have slots': "slots (snd (TryReclaimSlotIfSafe i r)) = (slots r)[unat i := reclaim_slot ?M ?m]"
    using TryReclaimSlotIfSafe_slots [OF assms(1) True] by simp
  have len: "unat i < length (slots r)"
    using True assms(1) by (simp add: ring_shape_def)
  have "length (filter is_committed ((slots r)[unat i := reclaim_slot ?M ?m]))
          + of_bool (reclaimable ?M ?m) = length (filter is_committed (slots r))"
    using filter_is_committed_update [OF len, of "reclaim_slot ?M ?m"]
    by (auto simp: reclaim_slot_committed slot_def reclaimable_def)
  then have "of_nat (length (filter is_committed ((slots r)[unat i := reclaim_slot ?M ?m]))) =
      (of_nat (length (filter is_committed (slots r))) - of_bool (reclaimable ?M ?m) :: u64)"
    by (metis add_diff_cancel_right' of_nat_add of_nat_of_bool)
  then show ?thesis
    using assms(2) True
    by (simp add: occupancy_exact_def slots' TryReclaimSlotIfSafe_char(1,4) [OF assms(1)])
next
  case False
  then show ?thesis
    using assms(2) by (simp add: TryReclaimSlotIfSafe_def IsSlotIndexValid_def word_less_nat_alt)
qed

lemma reclaim_range_char:
  assumes "ring_shape r" "i + k \<le> n_slots r"
  shows "same_but_slots r (snd (reclaim_range i k r))
       \<and> (\<forall>j. slot (snd (reclaim_range i k r)) j =
              (if i \<le> j \<and> j < i + k then reclaim_slot (MinActiveReadSequence r) (slot r j)
               else slot r j))
       \<and> (occupancy_exact r \<longrightarrow> occupancy_exact (snd (reclaim_range i k r)))"
  using assms
proof (induction k arbitrary: i r)
  case (Suc k)
  let ?r1 = "snd (TryReclaimSlotIfSafe (of_nat i) r)"
  have i: "unat (of_nat i :: u32) = i"
    using Suc.prems unat_u32_less [of "slot_count (header r)"]
    by (simp add: unat_of_nat take_bit_nat_eq_self)
  have same: "same_but_slots r ?r1"
    by (rule TryReclaimSlotIfSafe_char(2) [OF Suc.prems(1)])
  note eqs = same_but_slots_simps [OF same]
  have IH: "same_but_slots ?r1 (snd (reclaim_range (Suc i) k ?r1))
       \<and> (\<forall>j. slot (snd (reclaim_range (Suc i) k ?r1)) j =
              (if Suc i \<le> j \<and> j < Suc i + k then reclaim_slot (MinActiveReadSequence ?r1) (slot ?r1 j)
               else slot ?r1 j))
       \<and> (occupancy_exact ?r1 \<longrightarrow> occupancy_exact (snd (reclaim_range (Suc i) k ?r1)))"
    using Suc.prems by (intro Suc.IH same_but_slots_shape [OF same]) (simp_all add: eqs)
  have step: "snd (reclaim_range i (Suc k) r) = snd (reclaim_range (Suc i) k ?r1)"
    by (simp add: case_prod_beta Let_def)
  have slot1: "slot ?r1 j = (if j = i \<and> j < n_slots r
      then reclaim_slot (MinActiveReadSequence r) (slot r j) else slot r j)" for j
    using TryReclaimSlotIfSafe_char(3) [OF Suc.prems(1), of "of_nat i" j] by (simp add: i)
  show ?case
    unfolding step
  proof (intro conjI allI impI)
    show "same_but_slots r (snd (reclaim_range (Suc i) k ?r1))"
      using same IH by (blast intro: same_but_slots_trans)
    show "slot (snd (reclaim_range (Suc i) k ?r1)) j =
        (if i \<le> j \<and> j < i + Suc k then reclaim_slot (MinActiveReadSequence r) (slot r j)
         else slot r j)" for j
      using IH Suc.prems(2) by (auto simp: eqs slot1)
    assume "occupancy_exact r"
    then show "occupancy_exact (snd (reclaim_range (Suc i) k ?r1))"
      using IH TryReclaimSlotIfSafe_occupancy [OF Suc.prems(1)] by blast
  qed
qed auto

lemma ReclaimCommittedSlots_char:
  assumes "ring_shape r"
  shows "same_but_slots r (snd (ReclaimCommittedSlots r))"
    and "slot (snd (ReclaimCommittedSlots r)) j =
         (if j < n_slots r then reclaim_slot (MinActiveReadSequence r) (slot r j) else slot r j)"
    and "occupancy_exact r \<Longrightarrow> occupancy_exact (snd (ReclaimCommittedSlots r))"
  using reclaim_range_char [OF assms, of 0 "n_slots r"]
  by (auto simp: ReclaimCommittedSlots_def)

section \<open>Reclaiming keeps the invariant\<close>

lemma reclaim_slot_state:
  "slot_state (reclaim_slot M m) = (if reclaimable M m then Some kEmpty else slot_state m)"
  by (simp add: reclaim_slot_def reclaimable_def slot_state_def)

lemma reclaim_slot_seq: "\<not> reclaimable M m \<Longrightarrow> slot_seq (reclaim_slot M m) = slot_seq m"
  by (auto simp: reclaim_slot_def reclaimable_def)

lemma not_reclaimable_ahead:
  "unat M \<le> slot_seq m \<Longrightarrow> \<not> reclaimable M m"
  by (simp add: reclaimable_def slot_seq_def word_less_nat_alt)

lemma ring_inv_reclaim:
  assumes inv: "ring_inv r" and same: "same_but_slots r r'"
    and slots': "\<And>j. slot r' j = slot r j \<or> slot r' j = reclaim_slot (MinActiveReadSequence r) (slot r j)"
    and occ: "occupancy_exact r'"
  shows "ring_inv r'"
proof -
  let ?M = "MinActiveReadSequence r"
  note eqs = same_but_slots_simps [OF same]
  note shape = ring_invD(1) [OF inv]
  have state: "slot_state (slot r' j) = slot_state (slot r j) \<and> slot_seq (slot r' j) = slot_seq (slot r j)
      \<or> slot_state (slot r' j) = Some kEmpty \<and> reclaimable ?M (slot r j)" for j
    using slots' [of j] by (cases "reclaimable ?M (slot r j)") (auto simp: reclaim_slot_state reclaim_slot_seq)
  have "slots_placed r'"
    unfolding slots_placed_def
  proof (intro allI impI)
    fix i assume "i < n_slots r'"
    with ring_invD(3) [OF inv] have "case slot_state (slot r i) of None \<Rightarrow> False | Some kEmpty \<Rightarrow> True
      | Some _ \<Rightarrow> 1 \<le> slot_seq (slot r i) \<and> slot_seq (slot r i) < head_seq r \<and>
                 (slot_seq (slot r i) - 1) mod n_slots r = i"
      by (simp add: slots_placed_def eqs)
    with state [of i] show "case slot_state (slot r' i) of None \<Rightarrow> False | Some kEmpty \<Rightarrow> True
      | Some _ \<Rightarrow> 1 \<le> slot_seq (slot r' i) \<and> slot_seq (slot r' i) < head_seq r' \<and>
                 (slot_seq (slot r' i) - 1) mod n_slots r' = i"
      by (cases "slot_state (slot r i)") (auto simp: eqs split: SlotState.splits)
  qed
  moreover have "cursors_covered r'"
    unfolding cursors_covered_def
  proof (intro allI impI conjI)
    fix c assume on: "online r' c"
    then have on': "online r c" by (simp add: eqs)
    with inv have cov: "1 \<le> cursor r c" "cursor r c \<le> head_seq r"
      "\<And>s. cursor r c \<le> s \<Longrightarrow> s < head_seq r \<Longrightarrow> holds_seq r s"
      by (auto simp: ring_inv_def cursors_covered_def)
    then show "1 \<le> cursor r' c" "cursor r' c \<le> head_seq r'"
      by (simp_all add: eqs)
    fix s assume "cursor r' c \<le> s \<and> s < head_seq r'"
    then have s: "cursor r c \<le> s" "s < head_seq r" by (simp_all add: eqs)
    then have h: "holds_seq r s" by (rule cov(3))
    have "unat ?M \<le> s"
      using MinActiveReadSequence_le [OF shape on'] s(1) by (simp add: word_le_nat_alt)
    then have "\<not> reclaimable ?M (slot r ((s - 1) mod n_slots r))"
      using h by (intro not_reclaimable_ahead) (simp add: holds_seq_def)
    with h state [of "(s - 1) mod n_slots r"] show "holds_seq r' s"
      by (auto simp: holds_seq_def eqs)
  qed
  moreover have "slices_in_place r'"
    using ring_invD(6) [OF inv] state slots'
    unfolding slices_in_place_def eqs
    by (metis SlotState.distinct(1,3) insertE option.inject reclaim_slot_simps singletonD)
  ultimately show ?thesis
    using same_but_slots_shape [OF same shape] occ ring_invD(2) [OF inv]
    by (simp add: ring_inv_def eqs)
qed

lemma TryReclaimSlotIfSafe_inv [inv_intros]:
  assumes "ring_inv r"
  shows "ring_inv (snd (TryReclaimSlotIfSafe i r))"
proof -
  note shape = ring_invD(1) [OF assms]
  show ?thesis
  proof (rule ring_inv_reclaim [OF assms TryReclaimSlotIfSafe_char(2) [OF shape]])
    show "slot (snd (TryReclaimSlotIfSafe i r)) j = slot r j \<or>
        slot (snd (TryReclaimSlotIfSafe i r)) j = reclaim_slot (MinActiveReadSequence r) (slot r j)" for j
      using TryReclaimSlotIfSafe_char(3) [OF shape, of i j] by auto
    show "occupancy_exact (snd (TryReclaimSlotIfSafe i r))"
      by (rule TryReclaimSlotIfSafe_occupancy [OF shape ring_invD(5) [OF assms]])
  qed
qed

lemma ReclaimCommittedSlots_inv [inv_intros]:
  assumes "ring_inv r"
  shows "ring_inv (snd (ReclaimCommittedSlots r))"
proof -
  note shape = ring_invD(1) [OF assms]
  show ?thesis
  proof (rule ring_inv_reclaim [OF assms ReclaimCommittedSlots_char(1) [OF shape]])
    show "slot (snd (ReclaimCommittedSlots r)) j = slot r j \<or>
        slot (snd (ReclaimCommittedSlots r)) j = reclaim_slot (MinActiveReadSequence r) (slot r j)" for j
      using ReclaimCommittedSlots_char(2) [OF shape, of j] by auto
    show "occupancy_exact (snd (ReclaimCommittedSlots r))"
      by (rule ReclaimCommittedSlots_char(3) [OF shape ring_invD(5) [OF assms]])
  qed
qed

end
