(* ===== verification/Ring_Publish.thy ===== *)
theory Ring_Publish
  imports Ring_Invariant
begin

text \<open>
  Publishing: what a reservation, a commit and the whole publish call do to the ring, branch
  by branch, and that the invariant survives them. The sequence number of a message is kept
  in 32 bits of the slot control word, so the lemmas ask for a head below \<open>2 ^ 32\<close>
  (\<open>ring_good\<close>).
\<close>

definition ring_good :: "ring \<Rightarrow> bool" where
  "ring_good r \<longleftrightarrow> ring_inv r \<and> head_seq r < 2 ^ 32"

text \<open>The slot the next publication must take, and the payload sizes that fit a slot.\<close>

definition target_slot :: "ring \<Rightarrow> nat" where
  "target_slot r = (head_seq r - 1) mod n_slots r"

definition fits :: "ring \<Rightarrow> nat \<Rightarrow> bool" where
  "fits r len \<longleftrightarrow> 0 < len \<and> len < 2 ^ 32 \<and> len \<le> unat (per_slot_capacity (header r))"

section \<open>Congruence: fields the invariant does not read\<close>

lemma ring_inv_cong:
  assumes "consumers r' = consumers r" "slots r' = slots r"
    "length (notification_mappings r') = length (notification_mappings r)"
    "length (payload_region r') = length (payload_region r)"
    "slot_count (header r') = slot_count (header r)"
    "consumer_capacity (header r') = consumer_capacity (header r)"
    "notification_capacity (header r') = notification_capacity (header r)"
    "payload_region_bytes (header r') = payload_region_bytes (header r)"
    "next_sequence (header r') = next_sequence (header r)"
    "committed_slots (header r') = committed_slots (header r)"
  shows "ring_inv r' = ring_inv r"
  unfolding ring_inv_defs holds_seq_def online_def slot_def consumer_def per_slot_capacity_def assms ..

lemma shape_slots: "ring_inv r \<Longrightarrow> length (slots r) = n_slots r"
  by (simp add: ring_inv_def ring_shape_def)

lemma shape_n_pos: "ring_inv r \<Longrightarrow> 0 < n_slots r"
  by (simp add: ring_inv_def ring_shape_def unat_gt_0)

lemma target_slot_less: "ring_inv r \<Longrightarrow> target_slot r < n_slots r"
  by (simp add: target_slot_def shape_n_pos)

section \<open>The guards of a reservation\<close>

lemma unat_per_slot_capacity:
  "slot_count (header r) \<noteq> 0 \<Longrightarrow>
   unat (per_slot_capacity (header r)) = unat (payload_region_bytes (header r)) div n_slots r"
proof -
  assume "slot_count (header r) \<noteq> 0"
  then have "1 \<le> slot_count (header r)"
    by (simp add: word_le_nat_alt Suc_le_eq unat_gt_0)
  then show ?thesis
    by (simp add: per_slot_capacity_def unat_div max_absorb1)
qed

lemma slice_fits:
  assumes "i < n" "l \<le> B div n"
  shows "i * (B div n) + l \<le> (B :: nat)"
proof -
  have "i * (B div n) + l \<le> Suc i * (B div n)"
    using assms(2) by simp
  also have "\<dots> \<le> n * (B div n)"
    using assms(1) by (intro mult_le_mono1) simp
  also have "\<dots> \<le> B"
    by simp
  finally show ?thesis .
qed

lemma of_nat_unat_u64: "of_nat (unat (w :: u64)) = w"
  by simp

lemma unat_of_nat_len: "len < 2 ^ 32 \<Longrightarrow> unat (of_nat len :: u32) = len"
  by (simp add: unat_of_nat take_bit_nat_eq_self)

lemma reserve_target_Some:
  assumes inv: "ring_inv r" and fits: "fits r len"
  obtains i off where
    "reserve_target (of_nat len) (header r) = Some (next_sequence (header r), i, off)"
    "unat i = target_slot r" "unat off = target_slot r * unat (per_slot_capacity (header r))"
    "unat off + len \<le> unat (payload_region_bytes (header r))"
proof -
  let ?h = "header r" and ?per = "per_slot_capacity (header r)"
  define i where "i = slot_index_of (slot_count ?h) (next_sequence ?h)"
  define off where "off = (ucast i :: u64) * ?per"
  have n0: "slot_count ?h \<noteq> 0" and s0: "next_sequence ?h \<noteq> 0"
    using inv by (auto simp: ring_inv_def ring_shape_def)
  have len: "0 < len" "len < 2 ^ 32" "len \<le> unat ?per"
    using fits by (simp_all add: fits_def)
  have i: "unat i = target_slot r"
    by (simp add: i_def target_slot_def unat_slot_index_of n0 s0)
  note per = unat_per_slot_capacity [OF n0]
  have bound: "target_slot r * unat ?per + len \<le> unat (payload_region_bytes ?h)"
    unfolding per using len(3) target_slot_less [OF inv] by (intro slice_fits) (simp_all add: per)
  have off: "unat off = target_slot r * unat ?per"
    using bound unat_u64_less [of "payload_region_bytes ?h"]
    unfolding off_def by (subst unat_mult_small) (simp_all add: i)
  have sum: "unat (off + ucast (of_nat len :: u32)) = unat off + len"
    using bound off unat_u64_less [of "payload_region_bytes ?h"]
    by (subst unat_add_small) (simp_all add: unat_of_nat_len [OF len(2)])
  have g1: "(of_nat len :: u32) \<noteq> 0"
    using len unat_of_nat_len [OF len(2)] by (metis less_numeral_extra(3) unat_0)
  have g2: "?per \<noteq> 0"
    using len by (metis not_less unat_0)
  have g3: "\<not> ucast (of_nat len :: u32) > ?per"
    using len by (simp add: word_less_nat_alt unat_of_nat_len)
  have g4: "\<not> off + ucast (of_nat len :: u32) > payload_region_bytes ?h"
    using bound by (simp add: word_less_nat_alt sum off)
  have "reserve_target (of_nat len) ?h = Some (next_sequence ?h, i, off)"
    using n0 s0 g1 g2 g3 g4
    by (simp add: reserve_target_def Let_def i_def [symmetric] off_def [symmetric])
  then show thesis
    using i off bound by (intro that [of i off]) simp_all
qed

text \<open>A reservation that meets an occupied slot changes nothing.\<close>

lemma reserve_occupied:
  assumes "ring_inv r" "fits r len" "slot_state (slot r (target_slot r)) \<noteq> Some kEmpty"
  shows "ReservePublishSlotRingOrdered (of_nat len) r = (None, r)"
proof -
  obtain i off where "reserve_target (of_nat len) (header r) = Some (next_sequence (header r), i, off)"
    "unat i = target_slot r"
    using reserve_target_Some [OF assms(1,2)] by metis
  with assms(3) show ?thesis
    by (simp add: ReservePublishSlotRingOrdered_def Let_def slot_state_def)
qed

definition reserved :: "nat \<Rightarrow> ring \<Rightarrow> ring" where
  "reserved len r =
     set_slot (target_slot r)
       ((slot r (target_slot r))\<lparr>state_sequence := PackSlotControl kReserved (next_sequence (header r)),
          payload_size := of_nat len,
          payload_offset := of_nat (target_slot r) * per_slot_capacity (header r)\<rparr>)
       (set_header ((header r)\<lparr>next_sequence := next_sequence (header r) + 1\<rparr>) r)"

lemma set_slot_twice: "set_slot i m (set_slot i m' r) = set_slot i m r"
  by (simp add: set_slot_def)

lemma set_slot_set_header: "set_slot i m (set_header h r) = set_header h (set_slot i m r)"
  by (simp add: set_slot_def set_header_def)

lemma reserve_free:
  assumes inv: "ring_inv r" and fits: "fits r len"
    and free: "slot_state (slot r (target_slot r)) = Some kEmpty"
  obtains i res where
    "ReservePublishSlotRingOrdered (of_nat len) r = (Some (res, i), reserved len r)"
    "unat i = target_slot r" "res_sequence res = next_sequence (header r)"
    "unat (res_payload_offset res) = target_slot r * unat (per_slot_capacity (header r))"
    "unat (res_payload_offset res) + len \<le> unat (payload_region_bytes (header r))"
proof -
  obtain i off where t: "reserve_target (of_nat len) (header r) = Some (next_sequence (header r), i, off)"
    and i: "unat i = target_slot r"
    and off: "unat off = target_slot r * unat (per_slot_capacity (header r))"
      "unat off + len \<le> unat (payload_region_bytes (header r))"
    using reserve_target_Some [OF inv fits] by metis
  have "off = of_nat (target_slot r) * per_slot_capacity (header r)"
    using arg_cong [OF off(1), where f = "of_nat :: nat \<Rightarrow> u64"] by simp
  moreover have "target_slot r < length (slots r)"
    using target_slot_less [OF inv] shape_slots [OF inv] by simp
  ultimately have "ReservePublishSlotRingOrdered (of_nat len) r =
      (Some (\<lparr>res_sequence = next_sequence (header r), res_payload_offset = off,
              res_payload_size = of_nat len\<rparr>, i), reserved len r)"
    using t i free
    by (simp add: ReservePublishSlotRingOrdered_def Let_def slot_state_def reserved_def
        set_slot_set_header set_slot_twice slot_set_slot)
  from that [OF this i] off show thesis
    by simp
qed

lemma slots_placed_iff:
  "slots_placed r \<longleftrightarrow>
     (\<forall>i < n_slots r. slot_state (slot r i) \<noteq> None \<and>
        (slot_state (slot r i) \<in> {Some kReserved, Some kCommitted} \<longrightarrow>
           1 \<le> slot_seq (slot r i) \<and> slot_seq (slot r i) < head_seq r \<and>
           (slot_seq (slot r i) - 1) mod n_slots r = i))"
  unfolding slots_placed_def by (fastforce split: option.splits SlotState.splits)

section \<open>A reservation keeps the invariant\<close>

lemma reserved_header [simp]:
  "header (reserved len r) = (header r)\<lparr>next_sequence := next_sequence (header r) + 1\<rparr>"
  "consumers (reserved len r) = consumers r" "payload_region (reserved len r) = payload_region r"
  "consumer (reserved len r) c = consumer r c" "online (reserved len r) c = online r c"
  "notification_mappings (reserved len r) = notification_mappings r"
  "length (slots (reserved len r)) = length (slots r)"
  by (simp_all add: reserved_def online_def)

lemma per_slot_capacity_next [simp]:
  "per_slot_capacity (h\<lparr>next_sequence := s\<rparr>) = per_slot_capacity h"
  "per_slot_capacity (h\<lparr>committed_slots := k\<rparr>) = per_slot_capacity h"
  "per_slot_capacity (h\<lparr>producer_block_total_ns := s\<rparr>) = per_slot_capacity h"
  by (simp_all add: per_slot_capacity_def)

lemma slot_reserved:
  assumes "ring_inv r"
  shows "slot (reserved len r) j =
    (if j = target_slot r
     then (slot r j)\<lparr>state_sequence := PackSlotControl kReserved (next_sequence (header r)),
            payload_size := of_nat len,
            payload_offset := of_nat (target_slot r) * per_slot_capacity (header r)\<rparr>
     else slot r j)"
  using target_slot_less [OF assms] shape_slots [OF assms]
  by (simp add: reserved_def slot_set_slot)

lemma head_reserved:
  assumes "ring_good r"
  shows "unat (next_sequence (header r) + 1) = head_seq r + 1"
  using assms by (simp add: ring_good_def unat_plus_1)

lemma reserved_slots_committed:
  assumes inv: "ring_inv r" and free: "slot_state (slot r (target_slot r)) = Some kEmpty"
  shows "length (filter is_committed (slots (reserved len r))) = length (filter is_committed (slots r))"
proof -
  let ?i = "target_slot r"
  have len: "?i < length (slots r)"
    using target_slot_less [OF inv] shape_slots [OF inv] by simp
  have "slots (reserved len r) = (slots r)[?i := slot (reserved len r) ?i]"
    using len by (simp add: reserved_def slot_def)
  moreover have "slot_state (slot (reserved len r) ?i) = Some kReserved"
    by (simp add: slot_reserved [OF inv])
  ultimately show ?thesis
    using filter_is_committed_update [OF len, of "slot (reserved len r) ?i"] free
    by (simp add: is_committed_def slot_def)
qed

lemma ring_inv_reserved:
  assumes good: "ring_good r" and fits: "fits r len"
    and free: "slot_state (slot r (target_slot r)) = Some kEmpty"
  shows "ring_inv (reserved len r)"
proof -
  let ?r = "reserved len r"
  have inv: "ring_inv r" and small: "head_seq r < 2 ^ 32"
    using good by (simp_all add: ring_good_def)
  note head = head_reserved [OF good] and slot = slot_reserved [OF inv, of len]
  have n_pos: "0 < n_slots r" and h1: "1 \<le> head_seq r"
    using shape_n_pos [OF inv] ring_invD(2) [OF inv] by simp_all
  have "slots_placed ?r"
    using ring_invD(3) [OF inv] small h1
    by (auto simp: slots_placed_iff slot head target_slot_def)
  moreover have "cursors_covered ?r"
    unfolding cursors_covered_def
  proof (intro allI impI conjI)
    fix c assume "online ?r c"
    with inv have c: "1 \<le> cursor r c" "cursor r c \<le> head_seq r"
      "\<And>s. cursor r c \<le> s \<Longrightarrow> s < head_seq r \<Longrightarrow> holds_seq r s"
      by (auto simp: ring_inv_def cursors_covered_def)
    then show "1 \<le> cursor ?r c" "cursor ?r c \<le> head_seq ?r"
      by (simp_all add: head)
    fix s assume "cursor ?r c \<le> s \<and> s < head_seq ?r"
    then consider "s = head_seq r" | "holds_seq r s"
      using c(3) [of s] by (fastforce simp: head)
    then show "holds_seq ?r s"
    proof cases
      case 1
      then show ?thesis
        using small by (simp add: holds_seq_def slot target_slot_def)
    next
      case 2
      then have "(s - 1) mod n_slots r \<noteq> target_slot r"
        using free by (auto simp: holds_seq_def)
      with 2 show ?thesis
        by (simp add: holds_seq_def slot)
    qed
  qed
  moreover have "slices_in_place ?r"
  proof -
    have mult: "unat (of_nat (target_slot r) * per_slot_capacity (header r)) =
        target_slot r * unat (per_slot_capacity (header r))"
      by (rule reserve_target_Some [OF inv fits]) (metis of_nat_mult of_nat_unat_u64)
    then show ?thesis
      using ring_invD(6) [OF inv] fits
      by (auto simp: slices_in_place_def slot fits_def unat_of_nat_len)
  qed
  moreover have "occupancy_exact ?r"
    using ring_invD(5) [OF inv] reserved_slots_committed [OF inv free] by (simp add: occupancy_exact_def)
  ultimately show ?thesis
    using ring_invD(1) [OF inv] h1 by (simp add: ring_inv_def head ring_shape_def)
qed

section \<open>The copy and the commit\<close>

lemma write_payload_simps [simp]:
  "header (write_payload off bytes r) = header r" "consumers (write_payload off bytes r) = consumers r"
  "slots (write_payload off bytes r) = slots r" "slot (write_payload off bytes r) i = slot r i"
  "notification_mappings (write_payload off bytes r) = notification_mappings r"
  "consumer (write_payload off bytes r) c = consumer r c"
  "online (write_payload off bytes r) c = online r c"
  by (simp_all add: write_payload_def slot_def consumer_def online_def)

lemma length_write_payload:
  "off + length bytes \<le> length (payload_region r) \<Longrightarrow>
   length (payload_region (write_payload off bytes r)) = length (payload_region r)"
  by (simp add: write_payload_def)

lemma write_payload_inv:
  "ring_inv r \<Longrightarrow> off + length bytes \<le> length (payload_region r) \<Longrightarrow>
   ring_inv (write_payload off bytes r)"
  by (subst ring_inv_cong [of _ r]) (simp_all add: length_write_payload)

lemma read_write_same:
  "off + length bytes \<le> length (payload_region r) \<Longrightarrow>
   read_payload off (length bytes) (write_payload off bytes r) = bytes"
  by (simp add: read_payload_def write_payload_def)

lemma read_write_disjoint:
  assumes "off + length bytes \<le> length (payload_region r)"
    and "off' + n \<le> off \<or> off + length bytes \<le> off'"
  shows "read_payload off' n (write_payload off bytes r) = read_payload off' n r"
  using assms(2)
proof
  let ?m = "payload_region r"
  assume le: "off' + n \<le> off"
  then have "take n (drop off' (take off ?m @ bytes @ drop (off + length bytes) ?m))
      = take n (drop off' (take off ?m))"
    using assms(1) by simp
  also have "\<dots> = take n (drop off' ?m)"
    using le by (simp add: drop_take min_absorb1)
  finally show ?thesis
    by (simp add: read_payload_def write_payload_def)
next
  let ?m = "payload_region r"
  assume "off + length bytes \<le> off'"
  then have "drop off' (take off ?m @ bytes @ drop (off + length bytes) ?m) = drop off' ?m"
    using assms(1) by simp
  then show ?thesis
    by (simp add: read_payload_def write_payload_def)
qed

definition committed_at :: "nat \<Rightarrow> ring \<Rightarrow> ring" where
  "committed_at i r =
     set_header ((header r)\<lparr>committed_slots := committed_slots (header r) + 1\<rparr>)
       (set_slot i ((slot r i)\<lparr>state_sequence :=
          PackSlotControl kCommitted (UnpackSlotSequence (state_sequence (slot r i)))\<rparr>) r)"

lemma CommitSlot_effect:
  "CommitSlot i r =
     (if unat i < n_slots r \<and> slot_state (slot r (unat i)) = Some kReserved
      then (True, committed_at (unat i) r) else (False, r))"
  by (auto simp: CommitSlot_def IsSlotIndexValid_def word_less_nat_alt Let_def slot_state_def
      committed_at_def)

lemma unpack_small: "unat (UnpackSlotSequence w) < 2 ^ 32"
proof -
  have "unat w div 2 ^ 32 < 2 ^ 32"
    using unat_u64_less [of w] by (simp add: less_mult_imp_div_less)
  then show ?thesis
    by (simp add: UnpackSlotSequence_def drop_bit_eq_div unat_div)
qed

lemma slot_committed_at:
  assumes "i < length (slots r)"
  shows "slot (committed_at i r) j =
    (if j = i then (slot r i)\<lparr>state_sequence :=
         PackSlotControl kCommitted (UnpackSlotSequence (state_sequence (slot r i)))\<rparr> else slot r j)"
  using assms by (simp add: committed_at_def slot_set_slot)

lemma committed_at_simps [simp]:
  "consumers (committed_at i r) = consumers r" "consumer (committed_at i r) c = consumer r c"
  "online (committed_at i r) c = online r c" "payload_region (committed_at i r) = payload_region r"
  "notification_mappings (committed_at i r) = notification_mappings r"
  "header (committed_at i r) = (header r)\<lparr>committed_slots := committed_slots (header r) + 1\<rparr>"
  "length (slots (committed_at i r)) = length (slots r)"
  by (simp_all add: committed_at_def online_def)

lemma slot_seq_commit:
  "slot_seq (m\<lparr>state_sequence := PackSlotControl st (UnpackSlotSequence (state_sequence m))\<rparr>) = slot_seq m"
  using unpack_small [of "state_sequence m"] by (simp add: slot_seq_def)

lemma committed_at_inv:
  assumes inv: "ring_inv r" and i: "i < n_slots r" and st: "slot_state (slot r i) = Some kReserved"
  shows "ring_inv (committed_at i r)"
proof -
  let ?r = "committed_at i r"
  have len: "i < length (slots r)"
    using i shape_slots [OF inv] by simp
  have state: "slot_state (slot ?r j) = (if j = i then Some kCommitted else slot_state (slot r j))"
    and seq: "slot_seq (slot ?r j) = slot_seq (slot r j)"
    and rest: "payload_offset (slot ?r j) = payload_offset (slot r j)"
      "payload_size (slot ?r j) = payload_size (slot r j)" for j
    by (simp_all add: slot_committed_at [OF len] slot_seq_commit)
  have "slots ?r = (slots r)[i := slot ?r i]"
    using len by (simp add: committed_at_def slot_def)
  moreover have "is_committed (slot ?r i)" "\<not> is_committed (slots r ! i)"
    using st by (simp_all add: is_committed_def state) (simp add: slot_def)
  ultimately have "length (filter is_committed (slots ?r)) = length (filter is_committed (slots r)) + 1"
    using filter_is_committed_update [OF len, of "slot ?r i"] by simp
  then have "occupancy_exact ?r"
    using ring_invD(5) [OF inv] by (simp add: occupancy_exact_def)
  moreover have "slots_placed ?r"
    using ring_invD(3) [OF inv] st by (auto simp: slots_placed_iff state seq)
  moreover have "cursors_covered ?r"
    using ring_invD(4) [OF inv] by (auto simp: cursors_covered_def holds_seq_def state seq)
  moreover have "slices_in_place ?r"
    using ring_invD(6) [OF inv] st i by (auto simp: slices_in_place_def state rest)
  ultimately show ?thesis
    using ring_invD(1,2) [OF inv] by (simp add: ring_inv_def ring_shape_def)
qed

lemma CommitSlot_inv [inv_intros]: "ring_inv r \<Longrightarrow> ring_inv (snd (CommitSlot i r))"
  by (simp add: CommitSlot_effect committed_at_inv)

lemma RecordProducerBlockDuration_inv [inv_intros]:
  "ring_inv r \<Longrightarrow> ring_inv (snd (RecordProducerBlockDuration ns r))"
  by (subst ring_inv_cong [of _ r]) (simp_all add: RecordProducerBlockDuration_def)

section \<open>The publish call\<close>

text \<open>
  What other processes may do while a producer yields: anything that keeps the ring good and
  leaves its geometry alone.
\<close>

definition env_ok :: "(ring \<Rightarrow> ring) \<Rightarrow> bool" where
  "env_ok y \<longleftrightarrow> (\<forall>r. ring_good r \<longrightarrow> ring_good (y r) \<and>
     slot_count (header (y r)) = slot_count (header r) \<and>
     payload_region_bytes (header (y r)) = payload_region_bytes (header r))"

text \<open>A yield during which nobody touches the ring.\<close>

definition idle :: "ring \<Rightarrow> ring" where
  "idle r = r"

lemma env_ok_idle [simp]: "env_ok idle"
  by (simp add: env_ok_def idle_def)

lemma fits_cong:
  "slot_count (header r') = slot_count (header r) \<Longrightarrow>
   payload_region_bytes (header r') = payload_region_bytes (header r) \<Longrightarrow> fits r' len = fits r len"
  by (simp add: fits_def per_slot_capacity_def)

lemma ring_good_reclaim:
  assumes "ring_good r"
  shows "ring_good (snd (ReclaimCommittedSlots r))"
    "slot_count (header (snd (ReclaimCommittedSlots r))) = slot_count (header r)"
    "payload_region_bytes (header (snd (ReclaimCommittedSlots r))) = payload_region_bytes (header r)"
proof -
  note inv = assms [unfolded ring_good_def, THEN conjunct1]
  note eqs = same_but_slots_simps [OF ReclaimCommittedSlots_char(1) [OF ring_invD(1) [OF inv]]]
  show "ring_good (snd (ReclaimCommittedSlots r))"
    using assms ReclaimCommittedSlots_inv [OF inv] by (simp add: ring_good_def eqs)
  show "slot_count (header (snd (ReclaimCommittedSlots r))) = slot_count (header r)"
    "payload_region_bytes (header (snd (ReclaimCommittedSlots r))) = payload_region_bytes (header r)"
    by (simp_all add: eqs)
qed

text \<open>The ring on which the reservation finally succeeded, and the reservation.\<close>

definition reserved_from :: "nat \<Rightarrow> ring \<Rightarrow> RingSlotReservation \<times> u32 \<Rightarrow> ring \<Rightarrow> bool" where
  "reserved_from len r0 res_i r1 \<longleftrightarrow>
     ring_good r0 \<and> fits r0 len \<and> slot_state (slot r0 (target_slot r0)) = Some kEmpty \<and>
     r1 = reserved len r0 \<and> unat (snd res_i) = target_slot r0 \<and>
     res_sequence (fst res_i) = next_sequence (header r0) \<and>
     unat (res_payload_offset (fst res_i)) = target_slot r0 * unat (per_slot_capacity (header r0)) \<and>
     unat (res_payload_offset (fst res_i)) + len \<le> unat (payload_region_bytes (header r0))"

lemma reserve_once:
  assumes good: "ring_good r" and fits: "fits r len"
  shows "case ReservePublishSlotRingOrdered (of_nat len) r of
           (Some res_i, r1) \<Rightarrow> reserved_from len r res_i r1
         | (None, r1) \<Rightarrow> r1 = r \<and> slot_state (slot r (target_slot r)) \<noteq> Some kEmpty"
proof (cases "slot_state (slot r (target_slot r)) = Some kEmpty")
  case True
  have inv: "ring_inv r" using good by (simp add: ring_good_def)
  show ?thesis
    by (rule reserve_free [OF inv fits True]) (use good fits True in \<open>simp add: reserved_from_def\<close>)
next
  case False
  with good fits show ?thesis
    by (simp add: reserve_occupied ring_good_def)
qed

lemma reserve_loop_result:
  assumes "ring_good r" "fits r len" "\<forall>y \<in> set ys. env_ok y"
    and "reserve_loop ys (of_nat len) r = Some (res_i, r1)"
  shows "\<exists>r0. reserved_from len r0 res_i r1"
  using assms
proof (induction ys arbitrary: r)
  case Nil
  then show ?case
    using reserve_once [OF Nil(1,2)] by (auto split: prod.splits option.splits)
next
  case (Cons y ys)
  show ?case
  proof (cases "fst (ReservePublishSlotRingOrdered (of_nat len) r)")
    case None
    let ?r = "snd (ReclaimCommittedSlots r)"
    have same: "snd (ReservePublishSlotRingOrdered (of_nat len) r) = r"
      using reserve_once [OF Cons(2,3)] None by (simp split: prod.splits)
    have env: "env_ok y" using Cons(4) by simp
    note re = ring_good_reclaim [OF Cons(2)]
    have good: "ring_good (y ?r)"
      using env re(1) by (simp add: env_ok_def)
    have "slot_count (header (y ?r)) = slot_count (header r)"
      "payload_region_bytes (header (y ?r)) = payload_region_bytes (header r)"
      using env re by (simp_all add: env_ok_def)
    then have fits': "fits (y ?r) len"
      using Cons(3) fits_cong by blast
    have "ReservePublishSlotRingOrdered (of_nat len) r = (None, r)"
      using None same by (metis prod.collapse)
    then have "reserve_loop ys (of_nat len) (y ?r) = Some (res_i, r1)"
      using Cons(5) by simp
    with Cons.IH [OF good fits'] Cons(4) show ?thesis
      by (meson list.set_intros(2))
  next
    case (Some res)
    then obtain r2 where r2: "ReservePublishSlotRingOrdered (of_nat len) r = (Some res, r2)"
      by (metis prod.collapse)
    then have "res = res_i" "r2 = r1"
      using Cons(5) by simp_all
    with reserve_once [OF Cons(2,3)] r2 show ?thesis
      by auto
  qed
qed

definition block_time :: "u64 \<Rightarrow> ring \<Rightarrow> ring" where
  "block_time ns r = (if ns > 0 then snd (RecordProducerBlockDuration ns r) else r)"

lemma block_time_simps [simp]:
  "slots (block_time ns r) = slots r" "consumers (block_time ns r) = consumers r"
  "slot (block_time ns r) i = slot r i" "consumer (block_time ns r) c = consumer r c"
  "payload_region (block_time ns r) = payload_region r"
  "notification_mappings (block_time ns r) = notification_mappings r"
  "slot_count (header (block_time ns r)) = slot_count (header r)"
  "consumer_capacity (header (block_time ns r)) = consumer_capacity (header r)"
  "notification_capacity (header (block_time ns r)) = notification_capacity (header r)"
  "payload_region_bytes (header (block_time ns r)) = payload_region_bytes (header r)"
  "next_sequence (header (block_time ns r)) = next_sequence (header r)"
  "committed_slots (header (block_time ns r)) = committed_slots (header r)"
  "per_slot_capacity (header (block_time ns r)) = per_slot_capacity (header r)"
  "online (block_time ns r) c = online r c"
  by (simp_all add: block_time_def RecordProducerBlockDuration_def online_def)

lemma block_time_inv: "ring_inv (block_time ns r) = ring_inv r"
  by (rule ring_inv_cong) simp_all

definition published :: "u64 \<Rightarrow> u8 list \<Rightarrow> ring \<Rightarrow> ring" where
  "published ns payload r0 =
     committed_at (target_slot r0)
       (write_payload (target_slot r0 * unat (per_slot_capacity (header r0))) payload
         (block_time ns (reserved (length payload) r0)))"

definition publishable :: "ring \<Rightarrow> u8 list \<Rightarrow> bool" where
  "publishable r payload \<longleftrightarrow> fits r (length payload)"

lemma publish_guards:
  assumes "ring_inv r" "publishable r payload"
  shows "PublishCommittedPayload ys ns payload r =
    (case reserve_loop ys (of_nat (length payload)) r of
       None \<Rightarrow> None
     | Some ((res, i), r1) \<Rightarrow>
         let (ok, r4) = CommitSlot i (write_payload (unat (res_payload_offset res)) payload (block_time ns r1))
         in Some (if ok then Inr (res_sequence res) else Inl CommitSlotFailed, r4))"
proof -
  have n0: "slot_count (header r) \<noteq> 0"
    using assms(1) by (simp add: ring_inv_def ring_shape_def)
  have len: "length payload \<le> unat (per_slot_capacity (header r))" "payload \<noteq> []"
    using assms(2) by (auto simp: publishable_def fits_def)
  moreover have "unat (per_slot_capacity (header r)) \<le> unat (payload_region_bytes (header r))"
    by (simp add: unat_per_slot_capacity [OF n0])
  ultimately have "\<not> length payload > unat (payload_region_bytes (header r))"
    "per_slot_capacity (header r) \<noteq> 0"
    by auto
  with n0 len show ?thesis
    by (auto simp: PublishCommittedPayload_def block_time_def Let_def split: option.splits prod.splits)
qed

lemma publish_commit:
  assumes "reserved_from (length payload) r0 (res, i) r1"
  shows "CommitSlot i (write_payload (unat (res_payload_offset res)) payload (block_time ns r1))
       = (True, published ns payload r0)"
  using assms target_slot_less [of r0]
  by (auto simp: reserved_from_def CommitSlot_effect published_def slot_reserved ring_good_def)

lemma publish_result:
  assumes "ring_good r" "publishable r payload" "\<forall>y \<in> set ys. env_ok y"
    and "PublishCommittedPayload ys ns payload r = Some (res, r')"
  shows "\<exists>r0. ring_good r0 \<and> publishable r0 payload \<and>
     slot_state (slot r0 (target_slot r0)) = Some kEmpty \<and>
     res = Inr (next_sequence (header r0)) \<and> r' = published ns payload r0"
proof -
  have inv: "ring_inv r" using assms(1) by (simp add: ring_good_def)
  obtain rs i r1 where loop: "reserve_loop ys (of_nat (length payload)) r = Some ((rs, i), r1)"
    using assms(4) publish_guards [OF inv assms(2)] by (auto split: option.splits prod.splits)
  then obtain r0 where r0: "reserved_from (length payload) r0 (rs, i) r1"
    using reserve_loop_result [OF assms(1) assms(2) [unfolded publishable_def] assms(3)] by blast
  show ?thesis
    using assms(4) publish_guards [OF inv assms(2)] loop publish_commit [OF r0] r0
    by (auto simp: reserved_from_def publishable_def)
qed

section \<open>What a publication leaves behind\<close>

lemma published_simps [simp]:
  "consumers (published ns p r) = consumers r" "consumer (published ns p r) c = consumer r c"
  "online (published ns p r) c = online r c"
  "next_sequence (header (published ns p r)) = next_sequence (header r) + 1"
  "slot_count (header (published ns p r)) = slot_count (header r)"
  "consumer_capacity (header (published ns p r)) = consumer_capacity (header r)"
  "per_slot_capacity (header (published ns p r)) = per_slot_capacity (header r)"
  "payload_region_bytes (header (published ns p r)) = payload_region_bytes (header r)"
  by (simp_all add: published_def)

lemma slice_in_region:
  assumes "ring_inv r" "publishable r p"
  shows "target_slot r * unat (per_slot_capacity (header r)) + length p \<le> length (payload_region r)"
  using reserve_target_Some [OF assms(1) assms(2) [unfolded publishable_def]] assms(1)
  by (metis ring_inv_def ring_shape_def)

lemma slot_published:
  assumes "ring_good r"
  shows "slot (published ns p r) j =
    (if j = target_slot r
     then (slot r j)\<lparr>state_sequence := PackSlotControl kCommitted (next_sequence (header r)),
            payload_size := of_nat (length p),
            payload_offset := of_nat (target_slot r) * per_slot_capacity (header r)\<rparr>
     else slot r j)"
proof -
  have inv: "ring_inv r" and small: "head_seq r < 2 ^ 32"
    using assms by (simp_all add: ring_good_def)
  have "target_slot r < length (slots r)"
    using target_slot_less [OF inv] shape_slots [OF inv] by simp
  then show ?thesis
    using small by (simp add: published_def slot_committed_at slot_reserved [OF inv])
qed

lemma published_inv:
  assumes good: "ring_good r" and fits: "publishable r p"
    and free: "slot_state (slot r (target_slot r)) = Some kEmpty"
  shows "ring_inv (published ns p r)"
proof -
  have inv: "ring_inv r" using good by (simp add: ring_good_def)
  have "ring_inv (block_time ns (reserved (length p) r))"
    using ring_inv_reserved [OF good fits [unfolded publishable_def] free] by (simp add: block_time_inv)
  then have "ring_inv (write_payload (target_slot r * unat (per_slot_capacity (header r))) p
      (block_time ns (reserved (length p) r)))"
    using slice_in_region [OF inv fits] by (intro write_payload_inv) simp_all
  then show ?thesis
    unfolding published_def
    by (rule committed_at_inv) (simp_all add: target_slot_less [OF inv] slot_reserved [OF inv])
qed

lemma PublishCommittedPayload_inv:
  assumes "ring_good r" "publishable r p" "\<forall>y \<in> set ys. env_ok y"
    and "PublishCommittedPayload ys ns p r = Some (res, r')"
  shows "ring_inv r'"
  using publish_result [OF assms] by (auto intro: published_inv)

text \<open>The bytes: the new message is in its slice, every other slice keeps its bytes.\<close>

lemma slot_payload_published:
  assumes good: "ring_good r" and fits: "publishable r p"
  shows "read_payload (target_slot r * unat (per_slot_capacity (header r))) (length p)
           (published ns p r) = p"
    and "j \<noteq> target_slot r \<Longrightarrow> n \<le> unat (per_slot_capacity (header r)) \<Longrightarrow>
         read_payload (j * unat (per_slot_capacity (header r))) n (published ns p r) =
         read_payload (j * unat (per_slot_capacity (header r))) n r"
proof -
  let ?per = "unat (per_slot_capacity (header r))" and ?t = "target_slot r"
  have inv: "ring_inv r" using good by (simp add: ring_good_def)
  note region = slice_in_region [OF inv fits]
  have rd: "read_payload a b (published ns p r) = read_payload a b (write_payload (?t * ?per) p r)" for a b
    by (simp add: read_payload_def published_def write_payload_def)
  show "read_payload (?t * ?per) (length p) (published ns p r) = p"
    unfolding rd using region by (rule read_write_same)
  assume j: "j \<noteq> ?t" and n: "n \<le> ?per"
  have lp: "length p \<le> ?per"
    using fits by (simp add: publishable_def fits_def)
  have "j * ?per + n \<le> ?t * ?per \<or> ?t * ?per + length p \<le> j * ?per"
  proof (cases "j < ?t")
    case True
    then have "(j + 1) * ?per \<le> ?t * ?per" by (intro mult_le_mono1) simp
    with n show ?thesis by simp
  next
    case False
    with j have "(?t + 1) * ?per \<le> j * ?per" by (intro mult_le_mono1) simp
    with lp show ?thesis by simp
  qed
  then show "read_payload (j * ?per) n (published ns p r) = read_payload (j * ?per) n r"
    unfolding rd by (rule read_write_disjoint [OF region])
qed

section \<open>Backpressure\<close>

lemma reserve_loop_blocked:
  assumes "ring_inv r" "fits r len" "slot_state (slot r (target_slot r)) \<noteq> Some kEmpty"
    and "\<not> reclaimable (MinActiveReadSequence r) (slot r (target_slot r))"
  shows "reserve_loop (replicate k idle) (of_nat len) r = None"
  using assms
proof (induction k arbitrary: r)
  case 0
  then show ?case
    by (simp add: reserve_occupied)
next
  case (Suc k)
  let ?r = "snd (ReclaimCommittedSlots r)"
  note shape = ring_invD(1) [OF Suc(2)]
  note same = ReclaimCommittedSlots_char(1) [OF shape]
  note eqs = same_but_slots_simps [OF same]
  have t: "target_slot ?r = target_slot r"
    by (simp add: target_slot_def eqs)
  have slot: "slot ?r (target_slot r) = slot r (target_slot r)"
    using ReclaimCommittedSlots_char(2) [OF shape, of "target_slot r"] Suc(5)
    by (auto simp: reclaim_slot_def reclaimable_def)
  have "reserve_loop (replicate k idle) (of_nat len) ?r = None"
    using Suc by (intro Suc.IH ReclaimCommittedSlots_inv) (simp_all add: t slot eqs fits_def)
  with reserve_occupied [OF Suc(2-4)] show ?case
    by (simp only: replicate_Suc reserve_loop.simps prod.case option.case idle_def [of ?r])
qed

lemma reserve_loop_free:
  assumes "ring_inv r" "fits r len"
    and "slot_state (slot r (target_slot r)) = Some kEmpty \<or>
         reclaimable (MinActiveReadSequence r) (slot r (target_slot r))"
  shows "reserve_loop (replicate (Suc k) idle) (of_nat len) r \<noteq> None"
proof (cases "slot_state (slot r (target_slot r)) = Some kEmpty")
  case True
  show ?thesis
    by (rule reserve_free [OF assms(1,2) True]) (simp split: prod.splits)
next
  case False
  let ?r = "snd (ReclaimCommittedSlots r)"
  note shape = ring_invD(1) [OF assms(1)]
  note eqs = same_but_slots_simps [OF ReclaimCommittedSlots_char(1) [OF shape]]
  have t: "target_slot ?r = target_slot r"
    by (simp add: target_slot_def eqs)
  have "slot_state (slot ?r (target_slot ?r)) = Some kEmpty"
    using ReclaimCommittedSlots_char(2) [OF shape] target_slot_less [OF assms(1)] False assms(3)
    by (auto simp: t reclaim_slot_state)
  moreover have "ring_inv ?r" "fits ?r len"
    using assms(1,2) ReclaimCommittedSlots_inv by (auto simp: fits_def eqs)
  ultimately obtain res i where
    "ReservePublishSlotRingOrdered (of_nat len) ?r = (Some (res, i), reserved len ?r)"
    using reserve_free by metis
  then have "reserve_loop (replicate k idle) (of_nat len) ?r \<noteq> None"
    by (cases k) simp_all
  then have "reserve_loop (replicate k idle) (of_nat len) (idle ?r) \<noteq> None"
    by (simp add: idle_def [of ?r])
  with False assms(1,2) show ?thesis
    by (simp add: reserve_occupied)
qed

text \<open>No reservation is pending: the state between complete calls.\<close>

definition quiescent :: "ring \<Rightarrow> bool" where
  "quiescent r \<longleftrightarrow> (\<forall>i < n_slots r. slot_state (slot r i) \<noteq> Some kReserved)"

lemma target_is_old:
  assumes inv: "ring_inv r" and st: "slot_state (slot r (target_slot r)) \<in> {Some kReserved, Some kCommitted}"
  shows "slot_seq (slot r (target_slot r)) + n_slots r \<le> head_seq r"
proof -
  let ?q = "slot_seq (slot r (target_slot r))"
  have q: "1 \<le> ?q" "?q < head_seq r" "(?q - 1) mod n_slots r = target_slot r"
    using ring_invD(3) [OF inv] st target_slot_less [OF inv] by (auto simp: slots_placed_iff)
  moreover have "?q - 1 \<le> head_seq r - 1" "?q - 1 \<noteq> head_seq r - 1"
    using q(1,2) by linarith+
  ultimately have "\<not> (head_seq r - 1) - (?q - 1) < n_slots r"
    using mod_pigeonhole [of "?q - 1" "head_seq r - 1" "n_slots r"]
    unfolding target_slot_def by blast
  with q show ?thesis by linarith
qed

lemma target_free_iff:
  assumes inv: "ring_inv r" and quiet: "quiescent r"
  shows "(slot_state (slot r (target_slot r)) = Some kEmpty \<or>
          reclaimable (MinActiveReadSequence r) (slot r (target_slot r))) \<longleftrightarrow>
         (\<forall>c. online r c \<longrightarrow> head_seq r < cursor r c + n_slots r)"
    (is "?free \<longleftrightarrow> ?room")
proof
  let ?m = "slot r (target_slot r)"
  note shape = ring_invD(1) [OF inv]
  assume free: ?free
  show ?room
  proof (intro allI impI)
    fix c assume on: "online r c"
    have le: "head_seq r \<le> cursor r c + n_slots r"
      by (rule lag_bounded [OF inv on])
    have c: "1 \<le> cursor r c" "\<And>s. cursor r c \<le> s \<Longrightarrow> s < head_seq r \<Longrightarrow> holds_seq r s"
      using inv on by (auto simp: ring_inv_def cursors_covered_def)
    show "head_seq r < cursor r c + n_slots r"
    proof (rule ccontr)
      assume "\<not> ?thesis"
      with le have eq: "head_seq r = cursor r c + n_slots r" by simp
      then have "holds_seq r (cursor r c)"
        using c shape_n_pos [OF inv] by simp
      moreover have t: "(cursor r c - 1) mod n_slots r = target_slot r"
        using c(1) by (metis Nat.add_diff_assoc2 eq mod_add_self2 target_slot_def)
      ultimately have "slot_state ?m \<in> {Some kReserved, Some kCommitted}" "slot_seq ?m = cursor r c"
        by (simp_all add: holds_seq_def)
      moreover have "unat (MinActiveReadSequence r) \<le> cursor r c"
        using MinActiveReadSequence_le [OF shape on] by (simp add: word_le_nat_alt)
      ultimately show False
        using free not_reclaimable_ahead by force
    qed
  qed
next
  let ?m = "slot r (target_slot r)"
  note shape = ring_invD(1) [OF inv]
  assume room: ?room
  show ?free
  proof (cases "slot_state ?m = Some kEmpty")
    case False
    have t: "target_slot r < n_slots r" by (rule target_slot_less [OF inv])
    then have com: "slot_state ?m = Some kCommitted"
      using False ring_invD(3) [OF inv] quiet
      by (auto simp: slots_placed_iff quiescent_def) (metis SlotState.exhaust)
    then have old: "slot_seq ?m + n_slots r \<le> head_seq r"
      by (intro target_is_old [OF inv]) simp
    have "slot_seq ?m < unat (MinActiveReadSequence r)"
      using MinActiveReadSequence_cases [OF shape] room old shape_n_pos [OF inv] ring_invD(2) [OF inv]
      by (auto split: if_splits)
    with com show ?thesis
      by (simp add: reclaimable_def is_committed_def slot_seq_def word_less_nat_alt)
  qed simp
qed

lemma publish_returns_iff:
  assumes "ring_inv r" "quiescent r" "publishable r p"
  shows "PublishCommittedPayload (replicate (Suc k) idle) ns p r \<noteq> None \<longleftrightarrow>
         (\<forall>c. online r c \<longrightarrow> head_seq r < cursor r c + n_slots r)"
proof -
  have "PublishCommittedPayload (replicate (Suc k) idle) ns p r \<noteq> None \<longleftrightarrow>
      reserve_loop (replicate (Suc k) idle) (of_nat (length p)) r \<noteq> None"
    unfolding publish_guards [OF assms(1,3)] by (auto simp: Let_def split: option.splits prod.splits)
  also have "\<dots> \<longleftrightarrow> slot_state (slot r (target_slot r)) = Some kEmpty \<or>
      reclaimable (MinActiveReadSequence r) (slot r (target_slot r))"
    using reserve_loop_free [OF assms(1) assms(3) [unfolded publishable_def], of k]
      reserve_loop_blocked [OF assms(1) assms(3) [unfolded publishable_def], of "Suc k"] by argo
  finally show ?thesis
    unfolding target_free_iff [OF assms(1,2)] .
qed

end
