(* ===== verification/Ring_Membership.thy ===== *)
theory Ring_Membership
  imports Ring_Publish
begin

text \<open>
  Joining, leaving, reading and advancing: the effect of each call on the consumer table, and
  that the invariant survives it; \<open>Initialize\<close> establishes the invariant, \<open>Attach\<close> accepts a
  formatted segment.
\<close>

section \<open>Formatting and attaching\<close>

lemma open_event_fds_length:
  "open_event_fds open_fd i k opened = Inr fds \<Longrightarrow> length fds = length opened + k"
  by (induction open_fd i k opened rule: open_event_fds.induct) (auto split: if_splits)

lemma Initialize_Inr:
  assumes "Initialize open_fd sz n c region = Inr r"
  shows "n \<noteq> 0" "region \<noteq> 0" "ComputeRingLayoutSizeBytes n c + region \<le> sz"
    "header r = fresh_header n c region" "consumers r = replicate (unat c) zero_cursor"
    "slots r = replicate (unat n) zero_slot" "payload_region r = replicate (unat region) 0"
    "length (notification_mappings r) = unat c"
  using assms
  by (auto simp: Initialize_def split: if_splits sum.splits dest: open_event_fds_length)

lemma zero_slot_empty [simp]: "slot_state zero_slot = Some kEmpty" "\<not> is_committed zero_slot"
  by (simp_all add: slot_state_def zero_slot_def is_committed_def)

lemma Initialize_inv:
  assumes "Initialize open_fd sz n c region = Inr r"
  shows "ring_good r" "quiescent r" "\<not> online r k" "head_seq r = 1"
proof -
  note eqs = Initialize_Inr [OF assms]
  have h: "slot_count (header r) = n" "consumer_capacity (header r) = c" "next_sequence (header r) = 1"
    "notification_capacity (header r) = c" "payload_region_bytes (header r) = region"
    "committed_slots (header r) = 0"
    by (simp_all add: eqs(4) fresh_header_def)
  have off: "\<not> online r k" for k
    by (auto simp: online_def consumer_def eqs(5) h zero_cursor_def)
  then show "\<not> online r k" .
  have sl: "slot r i = zero_slot" if "i < unat n" for i
    using that by (simp add: slot_def eqs(6))
  have "ring_inv r"
    using eqs(1) off by (simp add: ring_inv_defs eqs(5-8) h sl)
  then show "ring_good r" by (simp add: ring_good_def h)
  show "quiescent r" by (simp add: quiescent_def h sl)
  show "head_seq r = 1" by (simp add: h)
qed

lemma Attach_Initialize:
  assumes "Initialize open_fd sz n c region = Inr r" and "sizeof_RingHeader \<le> sz'"
    and "ComputeRingLayoutSizeBytes n c + region \<le> sz'"
  shows "Attach sz' kRingLayoutVersion r = Some r"
  using assms(2,3) by (simp add: Attach_def Initialize_Inr(4) [OF assms(1)] fresh_header_def not_less)

lemma Attach_version:
  "version (header mem) \<noteq> expected \<Longrightarrow> Attach sz expected mem = None"
  by (simp add: Attach_def)

section \<open>Changing the consumer table\<close>

lemma ring_inv_consumers:
  assumes inv: "ring_inv r"
    and same: "slots r' = slots r" "length (consumers r') = length (consumers r)"
      "length (notification_mappings r') = length (notification_mappings r)"
      "length (payload_region r') = length (payload_region r)"
      "slot_count (header r') = slot_count (header r)"
      "consumer_capacity (header r') = consumer_capacity (header r)"
      "notification_capacity (header r') = notification_capacity (header r)"
      "payload_region_bytes (header r') = payload_region_bytes (header r)"
      "next_sequence (header r') = next_sequence (header r)"
      "committed_slots (header r') = committed_slots (header r)"
    and cur: "\<And>c. online r' c \<Longrightarrow> 1 \<le> cursor r' c \<and> cursor r' c \<le> head_seq r \<and>
        (\<forall>s. cursor r' c \<le> s \<and> s < head_seq r \<longrightarrow> holds_seq r s)"
  shows "ring_inv r'"
proof -
  have "cursors_covered r'"
    using cur by (simp add: cursors_covered_def holds_seq_def slot_def same)
  moreover have "slots_placed r'" "slices_in_place r'" "occupancy_exact r'" "ring_shape r'"
    using ring_invD [OF inv]
    by (simp_all add: slots_placed_iff slices_in_place_def occupancy_exact_def ring_shape_def
        slot_def per_slot_capacity_def same)
  ultimately show ?thesis
    using ring_invD(2) [OF inv] by (simp add: ring_inv_def same)
qed

lemma coveredD:
  assumes "ring_inv r" "online r c"
  shows "1 \<le> cursor r c" "cursor r c \<le> head_seq r"
    "\<And>s. cursor r c \<le> s \<Longrightarrow> s < head_seq r \<Longrightarrow> holds_seq r s"
  using assms by (auto simp: ring_inv_def cursors_covered_def)

lemma shape_consumers: "ring_inv r \<Longrightarrow> length (consumers r) = n_consumers r"
  by (simp add: ring_inv_def ring_shape_def)

section \<open>Joining\<close>

lemma RegisterConsumer_effect:
  assumes "ring_inv r"
  shows "fst (RegisterConsumer pid c s r) \<longleftrightarrow>
           s \<noteq> 0 \<and> unat c < n_consumers r \<and> cstate (consumer r (unat c)) = kOffline"
    and "\<not> fst (RegisterConsumer pid c s r) \<Longrightarrow> snd (RegisterConsumer pid c s r) = r"
    and "fst (RegisterConsumer pid c s r) \<Longrightarrow>
         consumer (snd (RegisterConsumer pid c s r)) j =
           (if j = unat c
            then \<lparr>read_sequence = s, cstate = kOnline, owner_pid = pid,
                  owner_start_epoch = ucast (membership_generation (header r) + 1)\<rparr>
            else consumer r j)"
    and "slots (snd (RegisterConsumer pid c s r)) = slots r"
    and "payload_region (snd (RegisterConsumer pid c s r)) = payload_region r"
    and "notification_mappings (snd (RegisterConsumer pid c s r)) = notification_mappings r"
    and "length (consumers (snd (RegisterConsumer pid c s r))) = length (consumers r)"
    and "header (snd (RegisterConsumer pid c s r)) =
         (if fst (RegisterConsumer pid c s r)
          then (header r)\<lparr>membership_generation := membership_generation (header r) + 1,
                          membership_change_count := membership_change_count (header r) + 1,
                          consumer_online_events := consumer_online_events (header r) + 1\<rparr>
          else header r)"
  using shape_consumers [OF assms]
  by (auto simp: RegisterConsumer_def Let_def cas_def word_le_nat_alt not_le consumer_set_consumer)

lemma online_RegisterConsumer:
  assumes "ring_inv r" "fst (RegisterConsumer pid c s r)"
  shows "online (snd (RegisterConsumer pid c s r)) j \<longleftrightarrow> j = unat c \<or> online r j"
    and "cursor (snd (RegisterConsumer pid c s r)) j = (if j = unat c then unat s else cursor r j)"
  using RegisterConsumer_effect(1,3,8) [OF assms(1), of pid c s] assms(2)
  by (auto simp: online_def)

lemma RegisterConsumer_inv:
  assumes inv: "ring_inv r" and "unat s \<le> head_seq r"
    and "\<And>q. unat s \<le> q \<Longrightarrow> q < head_seq r \<Longrightarrow> holds_seq r q"
  shows "ring_inv (snd (RegisterConsumer pid c s r))"
proof (cases "fst (RegisterConsumer pid c s r)")
  case True
  note eff = RegisterConsumer_effect [OF inv, of pid c s]
  have "s \<noteq> 0" using True eff(1) by simp
  then show ?thesis
    using assms(2,3) coveredD [OF inv] True
    by (intro ring_inv_consumers [OF inv])
      (auto simp: eff(4-8) online_RegisterConsumer [OF inv True] unat_gt_0 Suc_le_eq)
next
  case False
  then show ?thesis
    using inv RegisterConsumer_effect(2) [OF inv] by simp
qed

lemma AddConsumerOnline_Register:
  "ring_inv r \<Longrightarrow> fst (AddConsumerOnline pid c r) = fst (RegisterConsumer pid c (next_sequence (header r)) r)"
  "ring_inv r \<Longrightarrow> snd (AddConsumerOnline pid c r) = snd (RegisterConsumer pid c (next_sequence (header r)) r)"
  by (auto simp: AddConsumerOnline_def RegisterConsumer_def ring_inv_def Let_def)

lemma AddConsumerOnline_inv [inv_intros]:
  "ring_inv r \<Longrightarrow> ring_inv (snd (AddConsumerOnline pid c r))"
  by (simp add: AddConsumerOnline_Register RegisterConsumer_inv)

text \<open>Joining succeeds exactly on a free entry, and the new cursor is the ring head.\<close>

lemma AddConsumerOnline_effect:
  assumes "ring_inv r"
  shows "fst (AddConsumerOnline pid c r) \<longleftrightarrow> unat c < n_consumers r \<and> cstate (consumer r (unat c)) = kOffline"
    and "\<not> fst (AddConsumerOnline pid c r) \<Longrightarrow> snd (AddConsumerOnline pid c r) = r"
    and "fst (AddConsumerOnline pid c r) \<Longrightarrow>
         online (snd (AddConsumerOnline pid c r)) j \<longleftrightarrow> j = unat c \<or> online r j"
    and "fst (AddConsumerOnline pid c r) \<Longrightarrow>
         cursor (snd (AddConsumerOnline pid c r)) j = (if j = unat c then head_seq r else cursor r j)"
    and "slots (snd (AddConsumerOnline pid c r)) = slots r"
    and "payload_region (snd (AddConsumerOnline pid c r)) = payload_region r"
  using assms RegisterConsumer_effect [OF assms, of pid c "next_sequence (header r)"]
    online_RegisterConsumer [OF assms, of pid c "next_sequence (header r)"]
  by (auto simp: AddConsumerOnline_Register ring_inv_def)

section \<open>The slot scan of TryAcquireConsumerOnlineSlot\<close>

lemma acquire_scan_Some:
  assumes "acquire_scan pid i k r = (Some c, r')" "ring_inv r" "i + k \<le> n_consumers r"
  shows "i \<le> unat c \<and> unat c < i + k \<and> cstate (consumer r (unat c)) = kOffline \<and>
         (\<forall>j. i \<le> j \<and> j < unat c \<longrightarrow> cstate (consumer r j) \<noteq> kOffline) \<and>
         r' = snd (AddConsumerOnline pid c r)"
  using assms
proof (induction k arbitrary: i)
  case (Suc k)
  have i: "unat (of_nat i :: u32) = i"
    using Suc.prems(3) unat_u32_less [of "consumer_capacity (header r)"] by (intro unat_of_nat_len) simp
  note eff = AddConsumerOnline_effect [OF Suc.prems(2), of pid "of_nat i", unfolded i]
  show ?case
  proof (cases "fst (AddConsumerOnline pid (of_nat i) r)")
    case True
    with Suc.prems(1) have "c = of_nat i" "r' = snd (AddConsumerOnline pid (of_nat i) r)"
      by (auto simp: Let_def split: prod.splits)
    with True eff(1) show ?thesis by (auto simp: i)
  next
    case False
    then have "snd (AddConsumerOnline pid (of_nat i) r) = r" by (rule eff(2))
    with False Suc.prems(1) have "acquire_scan pid (Suc i) k r = (Some c, r')"
      by (auto simp: Let_def split: prod.splits)
    from Suc.IH [OF this Suc.prems(2)] Suc.prems(3) False eff(1) show ?thesis
      by (auto simp: Suc_le_eq) (metis le_less_Suc_eq nat_less_le not_less_eq)
  qed
qed simp

lemma acquire_scan_None:
  assumes "acquire_scan pid i k r = (None, r')" "ring_inv r" "i + k \<le> n_consumers r"
  shows "r' = r \<and> (\<forall>j. i \<le> j \<and> j < i + k \<longrightarrow> cstate (consumer r j) \<noteq> kOffline)"
  using assms
proof (induction k arbitrary: i)
  case (Suc k)
  have i: "unat (of_nat i :: u32) = i"
    using Suc.prems(3) unat_u32_less [of "consumer_capacity (header r)"] by (intro unat_of_nat_len) simp
  note eff = AddConsumerOnline_effect [OF Suc.prems(2), of pid "of_nat i", unfolded i]
  have no: "\<not> fst (AddConsumerOnline pid (of_nat i) r)"
    using Suc.prems(1) by (auto simp: Let_def split: prod.splits)
  then have "snd (AddConsumerOnline pid (of_nat i) r) = r" by (rule eff(2))
  with no Suc.prems(1) have "acquire_scan pid (Suc i) k r = (None, r')"
    by (auto simp: Let_def split: prod.splits)
  from Suc.IH [OF this Suc.prems(2)] Suc.prems(3) no eff(1) show ?case
    by (auto simp: Suc_le_eq) (metis le_neq_implies_less)
qed auto

lemma acquire_rounds_cases:
  assumes inv: "ring_inv r"
  shows "(\<exists>c r'. acquire_scan pid 0 (n_consumers r) r = (Some c, r') \<and>
                 acquire_rounds pid (Suc k) r = (Some c, r'))
       \<or> (\<forall>j < n_consumers r. cstate (consumer r j) \<noteq> kOffline) \<and>
         acquire_rounds pid m r = (None, r)"
proof (cases "acquire_scan pid 0 (n_consumers r) r")
  case (Pair co r')
  show ?thesis
  proof (cases co)
    case None
    note scan = acquire_scan_None [OF Pair [unfolded None] inv]
    have "acquire_rounds pid m r = (None, r)"
      by (induction m) (use Pair None scan in auto)
    with scan show ?thesis by simp
  next
    case (Some c)
    with Pair show ?thesis by simp
  qed
qed

lemma TryAcquire_cases:
  assumes inv: "ring_inv r"
  obtains (got) c where "TryAcquireConsumerOnlineSlot pid r = (Some c, snd (AddConsumerOnline pid c r))"
      "unat c < n_consumers r" "cstate (consumer r (unat c)) = kOffline" "fst (AddConsumerOnline pid c r)"
      "\<forall>j < unat c. cstate (consumer r j) \<noteq> kOffline"
  | (full) "TryAcquireConsumerOnlineSlot pid r = (None, r)"
      "\<forall>j < n_consumers r. cstate (consumer r j) \<noteq> kOffline"
proof (cases "consumer_capacity (header r) = 0")
  case True
  then show thesis by (intro full) (simp_all add: TryAcquireConsumerOnlineSlot_def)
next
  case False
  then have eq: "TryAcquireConsumerOnlineSlot pid r = acquire_rounds pid (Suc 15) r"
    by (simp add: TryAcquireConsumerOnlineSlot_def kSlotClaimRounds_def numeral_eq_Suc)
  from acquire_rounds_cases [OF inv, of pid 15 "Suc 15"] show thesis
  proof (elim disjE exE conjE)
    fix c r' assume scan: "acquire_scan pid 0 (n_consumers r) r = (Some c, r')"
      and rounds: "acquire_rounds pid (Suc 15) r = (Some c, r')"
    from acquire_scan_Some [OF scan inv] rounds AddConsumerOnline_effect(1) [OF inv, of pid c]
    show thesis by (intro got [of c]) (simp_all add: eq)
  next
    assume "\<forall>j < n_consumers r. cstate (consumer r j) \<noteq> kOffline"
      "acquire_rounds pid (Suc 15) r = (None, r)"
    then show thesis by (intro full) (simp_all add: eq)
  qed
qed

section \<open>Leaving\<close>

lemma cleared_cursor:
  "(c :: ConsumerCursor)\<lparr>cstate := kOffline, owner_pid := 0, owner_start_epoch := 0, read_sequence := 0\<rparr>
   = zero_cursor"
  by (cases c) (simp add: zero_cursor_def)

lemma UnregisterConsumer_cases:
  assumes inv: "ring_inv r"
  obtains (refused) "UnregisterConsumer c r = (False, r)"
      "\<not> (unat c < n_consumers r \<and> cstate (consumer r (unat c)) \<in> {kOnline, kRegistering})"
  | (left) r2 where "UnregisterConsumer c r = (True, snd (ReclaimCommittedSlots r2))" "ring_inv r2"
      "unat c < n_consumers r" "cstate (consumer r (unat c)) \<in> {kOnline, kRegistering}"
      "slots r2 = slots r" "payload_region r2 = payload_region r"
      "next_sequence (header r2) = next_sequence (header r)"
      "slot_count (header r2) = slot_count (header r)"
      "consumer_capacity (header r2) = consumer_capacity (header r)"
      "payload_region_bytes (header r2) = payload_region_bytes (header r)"
      "\<And>j. online r2 j \<longleftrightarrow> j \<noteq> unat c \<and> online r j"
      "\<And>j. j \<noteq> unat c \<Longrightarrow> consumer r2 j = consumer r j" "consumer r2 (unat c) = zero_cursor"
proof (cases "unat c < n_consumers r \<and> cstate (consumer r (unat c)) \<in> {kOnline, kRegistering}")
  case False
  have "consumers (set_consumer (unat c) ((consumer r (unat c))\<lparr>cstate := kOffline\<rparr>) r) = consumers r"
    if "cstate (consumer r (unat c)) = kOffline"
    using that by (simp add: consumer_def) (metis ConsumerCursor.surjective ConsumerCursor.update_convs(2) list_update_id)
  then have "set_consumer (unat c) ((consumer r (unat c))\<lparr>cstate := kOffline\<rparr>) r = r"
    if "cstate (consumer r (unat c)) = kOffline"
    using that by (simp add: set_consumer_def)
  moreover have "cstate (consumer r (unat c)) = kOffline" if "unat c < n_consumers r"
    using False that by (cases "cstate (consumer r (unat c))") auto
  ultimately have "UnregisterConsumer c r = (False, r)"
    using False by (auto simp: UnregisterConsumer_def Let_def word_le_nat_alt not_le)
  then show thesis using False by (rule refused)
next
  case True
  let ?h = "header r"
  define r2 where "r2 = set_header (?h\<lparr>membership_generation := membership_generation ?h + 1,
      membership_change_count := membership_change_count ?h + 1,
      consumer_offline_events := consumer_offline_events ?h + 1\<rparr>)
    (set_consumer (unat c) zero_cursor r)"
  have len: "unat c < length (consumers r)"
    using True shape_consumers [OF inv] by simp
  have cons: "consumer r2 j = (if j = unat c then zero_cursor else consumer r j)" for j
    using len by (simp add: r2_def consumer_set_consumer)
  have on: "online r2 j \<longleftrightarrow> j \<noteq> unat c \<and> online r j" for j
    unfolding online_def cons by (auto simp: r2_def zero_cursor_def)
  have res: "UnregisterConsumer c r = (True, snd (ReclaimCommittedSlots r2))"
    using True
    by (auto simp: UnregisterConsumer_def Let_def word_le_nat_alt r2_def cleared_cursor set_consumer_def
        set_header_def)
  have "1 \<le> cursor r2 j \<and> cursor r2 j \<le> head_seq r \<and>
      (\<forall>s. cursor r2 j \<le> s \<and> s < head_seq r \<longrightarrow> holds_seq r s)" if "online r2 j" for j
    using that coveredD [OF inv, of j] by (simp add: on cons)
  then have "ring_inv r2"
    by (intro ring_inv_consumers [OF inv]) (simp_all add: r2_def)
  then show thesis
    using res True on cons by (intro left [of r2]) (auto simp: r2_def)
qed

lemma UnregisterConsumer_inv [inv_intros]:
  assumes "ring_inv r"
  shows "ring_inv (snd (UnregisterConsumer c r))"
  by (rule UnregisterConsumer_cases [OF assms, of c]) (simp_all add: assms ReclaimCommittedSlots_inv)

section \<open>Advancing\<close>

definition moved :: "nat \<Rightarrow> u64 \<Rightarrow> ring \<Rightarrow> ring" where
  "moved c s r = set_consumer c ((consumer r c)\<lparr>read_sequence := s\<rparr>) r"

lemma moved_simps [simp]:
  "header (moved c s r) = header r" "slots (moved c s r) = slots r" "slot (moved c s r) i = slot r i"
  "payload_region (moved c s r) = payload_region r"
  "notification_mappings (moved c s r) = notification_mappings r"
  "length (consumers (moved c s r)) = length (consumers r)"
  by (simp_all add: moved_def)

lemma consumer_moved:
  "c < length (consumers r) \<Longrightarrow>
   consumer (moved c s r) j = (if j = c then (consumer r c)\<lparr>read_sequence := s\<rparr> else consumer r j)"
  by (simp add: moved_def consumer_set_consumer)

lemma online_moved: "ring_inv r \<Longrightarrow> online r c \<Longrightarrow> online (moved c s r) j = online r j"
  by (simp add: online_def consumer_moved shape_consumers)

lemma AdvanceConsumerCursor_effect:
  assumes "ring_inv r" "next \<noteq> 0"
  shows "AdvanceConsumerCursor c next k r =
    (if \<not> online r (unat c) \<or> cursor r (unat c) > unat next then (False, k, r)
     else if cursor r (unat c) = unat next then (True, k, r)
     else (True, k + 1, if (k + 1) mod 64 = 0 then snd (ReclaimCommittedSlots (moved (unat c) next r))
                        else moved (unat c) next r))"
  using assms
  by (auto simp: AdvanceConsumerCursor_def online_def word_le_nat_alt word_less_nat_alt Let_def
      moved_def kCursorAdvanceFallbackReclaimInterval_def not_le word_unat_eq_iff)

lemma moved_inv:
  assumes inv: "ring_inv r" and on: "online r c"
    and "cursor r c \<le> unat s" "unat s \<le> head_seq r"
  shows "ring_inv (moved c s r)"
proof -
  have len: "c < length (consumers r)"
    using on shape_consumers [OF inv] by (simp add: online_def)
  have "1 \<le> cursor (moved c s r) j \<and> cursor (moved c s r) j \<le> head_seq r \<and>
      (\<forall>q. cursor (moved c s r) j \<le> q \<and> q < head_seq r \<longrightarrow> holds_seq r q)"
    if "online (moved c s r) j" for j
    using that assms coveredD [OF inv, of j] coveredD [OF inv on]
    by (auto simp: online_moved consumer_moved len)
  then show ?thesis
    by (intro ring_inv_consumers [OF inv]) simp_all
qed

lemma AdvanceConsumerCursor_inv [inv_intros]:
  assumes inv: "ring_inv r" and le: "unat next \<le> head_seq r"
  shows "ring_inv (snd (snd (AdvanceConsumerCursor c next k r)))"
proof (cases "next = 0")
  case True
  then show ?thesis using inv by (simp add: AdvanceConsumerCursor_def)
next
  case False
  show ?thesis
    using inv le by (auto simp: AdvanceConsumerCursor_effect [OF inv False] moved_inv ReclaimCommittedSlots_inv)
qed

lemma CompleteConsumerSlot_inv [inv_intros]:
  assumes inv: "ring_inv r" and le: "unat next \<le> head_seq r"
  shows "ring_inv (snd (snd (CompleteConsumerSlot c i next k r)))"
  using AdvanceConsumerCursor_inv [OF assms, of c k]
  by (auto simp: CompleteConsumerSlot_def TryReclaimSlotIfSafe_inv split: prod.splits bool.splits)

section \<open>Claims\<close>

lemma TryClaimSlot_effect:
  "TryClaimSlot i r =
     (unat i < n_slots r \<and> claimed (slot r (unat i)) = 0,
      if unat i < n_slots r \<and> claimed (slot r (unat i)) = 0
      then set_slot (unat i) ((slot r (unat i))\<lparr>claimed := 1\<rparr>) r else r)"
  by (auto simp: TryClaimSlot_def IsSlotIndexValid_def word_less_nat_alt cas_def Let_def set_slot_def slot_def)

lemma claim_once: "fst (TryClaimSlot i r) \<Longrightarrow> length (slots r) = n_slots r \<Longrightarrow>
    \<not> fst (TryClaimSlot i (snd (TryClaimSlot i r)))"
  by (auto simp: TryClaimSlot_effect slot_set_slot)

lemma set_claimed_inv:
  assumes "ring_inv r" "i < n_slots r"
  shows "ring_inv (set_slot i ((slot r i)\<lparr>claimed := k\<rparr>) r)"
proof -
  let ?r = "set_slot i ((slot r i)\<lparr>claimed := k\<rparr>) r"
  have len: "i < length (slots r)"
    using assms shape_slots by simp
  have sl: "slot_state (slot ?r j) = slot_state (slot r j)" "slot_seq (slot ?r j) = slot_seq (slot r j)"
    "payload_offset (slot ?r j) = payload_offset (slot r j)" "payload_size (slot ?r j) = payload_size (slot r j)" for j
    by (simp_all add: slot_set_slot [OF len])
  have "length (filter is_committed (slots ?r)) = length (filter is_committed (slots r))"
    using filter_is_committed_update [OF len, of "(slot r i)\<lparr>claimed := k\<rparr>"]
    by (simp add: is_committed_def slot_def)
  then show ?thesis
    using ring_invD [OF assms(1)]
    by (simp add: ring_inv_def ring_shape_def slots_placed_iff cursors_covered_def holds_seq_def
        occupancy_exact_def slices_in_place_def sl)
qed

lemma TryClaimSlot_inv [inv_intros]: "ring_inv r \<Longrightarrow> ring_inv (snd (TryClaimSlot i r))"
  by (simp add: TryClaimSlot_effect set_claimed_inv)

lemma TakeNextProducerPayloadSlotIndex_inv [inv_intros]:
  "ring_inv r \<Longrightarrow> ring_inv (snd (TakeNextProducerPayloadSlotIndex r))"
  unfolding TakeNextProducerPayloadSlotIndex_def Let_def
  by (auto simp: ring_inv_cong [of "set_header _ r" r])

lemma SetConsumerNotificationFd_inv [inv_intros]:
  "ring_inv r \<Longrightarrow> ring_inv (snd (SetConsumerNotificationFd c fd r))"
  by (subst ring_inv_cong [of _ r]) (simp_all add: SetConsumerNotificationFd_def)

lemma TryAcquire_inv [inv_intros]:
  assumes "ring_inv r"
  shows "ring_inv (snd (TryAcquireConsumerOnlineSlot pid r))"
  by (rule TryAcquire_cases [OF assms, of pid]) (simp_all add: assms AddConsumerOnline_inv)

lemma TakeConsumerOfflineIfOwner_inv [inv_intros]:
  "ring_inv r \<Longrightarrow> ring_inv (snd (TakeConsumerOfflineIfOwner c pid ep r))"
  by (simp add: TakeConsumerOfflineIfOwner_def UnregisterConsumer_inv)

end
