(* ===== verification/Ring_Spec.thy ===== *)
theory Ring_Spec
  imports Ring_Membership
begin

text \<open>
  What the ring promises, without slots and cursors: every consumer that is online has a queue
  of the messages published since it joined and not yet completed. Publishing appends to every
  queue, reading shows the head of one queue, completing removes it. The ring operations refine
  these four operations through the abstraction \<open>abs_bus\<close>.
\<close>

section \<open>The specification\<close>

type_synonym bus = "nat \<Rightarrow> u8 list list option"

definition spec_publish :: "u8 list \<Rightarrow> bus \<Rightarrow> bus" where
  "spec_publish m b = (\<lambda>c. map_option (\<lambda>q. q @ [m]) (b c))"

definition spec_join :: "nat \<Rightarrow> bus \<Rightarrow> bus" where
  "spec_join c b = b(c \<mapsto> [])"

definition spec_leave :: "nat \<Rightarrow> bus \<Rightarrow> bus" where
  "spec_leave c b = b(c := None)"

definition spec_peek :: "nat \<Rightarrow> bus \<Rightarrow> u8 list option" where
  "spec_peek c b = (case b c of Some (m # _) \<Rightarrow> Some m | _ \<Rightarrow> None)"

definition spec_complete :: "nat \<Rightarrow> bus \<Rightarrow> bus" where
  "spec_complete c b = b(c := map_option tl (b c))"

section \<open>The abstraction\<close>

definition slot_bytes :: "ring \<Rightarrow> nat \<Rightarrow> u8 list" where
  "slot_bytes r i = read_payload (unat (payload_offset (slot r i))) (unat (payload_size (slot r i))) r"

definition message :: "ring \<Rightarrow> nat \<Rightarrow> u8 list" where
  "message r s = slot_bytes r ((s - 1) mod n_slots r)"

definition pending :: "ring \<Rightarrow> nat \<Rightarrow> u8 list list" where
  "pending r c = map (message r) [cursor r c ..< head_seq r]"

definition abs_bus :: "ring \<Rightarrow> bus" where
  "abs_bus r = (\<lambda>c. if online r c then Some (pending r c) else None)"

definition bus_inv :: "ring \<Rightarrow> bool" where
  "bus_inv r \<longleftrightarrow> ring_inv r \<and> quiescent r"

lemma bus_invD: "bus_inv r \<Longrightarrow> ring_inv r" "bus_inv r \<Longrightarrow> quiescent r"
  by (simp_all add: bus_inv_def)

section \<open>Steps that move no message\<close>

text \<open>
  A step keeps the queue of a consumer when it keeps its cursor, the head and the content of
  every slot that still holds one of the consumer's messages.
\<close>

lemma pending_frame:
  assumes "cursor r' c = cursor r c" "head_seq r' = head_seq r" "n_slots r' = n_slots r"
    and "\<And>s. cursor r c \<le> s \<Longrightarrow> s < head_seq r \<Longrightarrow> message r' s = message r s"
  shows "pending r' c = pending r c"
  using assms by (simp add: pending_def cong: map_cong)

lemma message_frame:
  assumes "slot_count (header r') = slot_count (header r)" "payload_region r' = payload_region r"
    and "payload_size (slot r' ((s - 1) mod n_slots r)) = payload_size (slot r ((s - 1) mod n_slots r))"
    and "payload_offset (slot r' ((s - 1) mod n_slots r)) = payload_offset (slot r ((s - 1) mod n_slots r))"
  shows "message r' s = message r s"
  using assms by (simp add: message_def slot_bytes_def read_payload_def)

lemma reclaim_bus:
  assumes "ring_inv r"
  shows "abs_bus (snd (ReclaimCommittedSlots r)) = abs_bus r"
    and "quiescent r \<Longrightarrow> quiescent (snd (ReclaimCommittedSlots r))"
proof -
  let ?r = "snd (ReclaimCommittedSlots r)"
  note shape = ring_invD(1) [OF assms]
  note eqs = same_but_slots_simps [OF ReclaimCommittedSlots_char(1) [OF shape]]
  note sl = ReclaimCommittedSlots_char(2) [OF shape]
  have "message ?r s = message r s" for s
    by (rule message_frame) (simp_all add: eqs sl)
  then have "pending ?r c = pending r c" for c
    by (intro pending_frame) (simp_all add: eqs)
  then show "abs_bus ?r = abs_bus r"
    by (simp add: abs_bus_def eqs fun_eq_iff)
  assume "quiescent r"
  then show "quiescent ?r"
    by (auto simp: quiescent_def eqs sl reclaim_slot_state)
qed

lemma try_reclaim_bus:
  assumes "ring_inv r"
  shows "abs_bus (snd (TryReclaimSlotIfSafe i r)) = abs_bus r"
    and "quiescent r \<Longrightarrow> quiescent (snd (TryReclaimSlotIfSafe i r))"
proof -
  let ?r = "snd (TryReclaimSlotIfSafe i r)"
  note shape = ring_invD(1) [OF assms]
  note eqs = same_but_slots_simps [OF TryReclaimSlotIfSafe_char(2) [OF shape]]
  note sl = TryReclaimSlotIfSafe_char(3) [OF shape]
  have "message ?r s = message r s" for s
    by (rule message_frame) (simp_all add: eqs sl)
  then have "pending ?r c = pending r c" for c
    by (intro pending_frame) (simp_all add: eqs)
  then show "abs_bus ?r = abs_bus r"
    by (simp add: abs_bus_def eqs fun_eq_iff)
  assume "quiescent r"
  then show "quiescent ?r"
    by (auto simp: quiescent_def eqs sl reclaim_slot_state)
qed

section \<open>Joining and leaving\<close>

lemma join_bus:
  assumes "bus_inv r"
  shows "abs_bus (snd (AddConsumerOnline pid c r)) =
         (if fst (AddConsumerOnline pid c r) then spec_join (unat c) (abs_bus r) else abs_bus r)"
    and "bus_inv (snd (AddConsumerOnline pid c r))"
proof -
  let ?r = "snd (AddConsumerOnline pid c r)"
  note inv = bus_invD(1) [OF assms]
  note reg = AddConsumerOnline_Register [OF inv, of pid c]
  note eff = AddConsumerOnline_effect [OF inv, of pid c]
  have h: "n_slots ?r = n_slots r" "head_seq ?r = head_seq r"
    unfolding reg by (simp_all add: RegisterConsumer_effect(8) [OF inv])
  have sl: "slot ?r i = slot r i" for i
    by (simp add: slot_def eff(5))
  have msg: "message ?r s = message r s" for s
    by (simp add: message_def slot_bytes_def read_payload_def h sl eff(6))
  show "bus_inv ?r"
    using assms by (simp add: bus_inv_def AddConsumerOnline_inv quiescent_def h sl)
  show "abs_bus ?r = (if fst (AddConsumerOnline pid c r) then spec_join (unat c) (abs_bus r) else abs_bus r)"
  proof (cases "fst (AddConsumerOnline pid c r)")
    case True
    then show ?thesis
      by (auto simp: abs_bus_def spec_join_def eff(3,4) pending_def h msg fun_eq_iff)
  next
    case False
    then show ?thesis by (simp add: eff(2))
  qed
qed

lemma leave_bus:
  assumes "bus_inv r"
  shows "abs_bus (snd (UnregisterConsumer c r)) =
         (if fst (UnregisterConsumer c r) then spec_leave (unat c) (abs_bus r) else abs_bus r)"
    and "bus_inv (snd (UnregisterConsumer c r))"
proof (atomize (full), rule UnregisterConsumer_cases [OF bus_invD(1) [OF assms], of c])
  fix r2
  assume res: "UnregisterConsumer c r = (True, snd (ReclaimCommittedSlots r2))" and inv2: "ring_inv r2"
    and eqs: "slots r2 = slots r" "payload_region r2 = payload_region r"
      "next_sequence (header r2) = next_sequence (header r)"
      "slot_count (header r2) = slot_count (header r)"
    and on: "\<And>j. online r2 j \<longleftrightarrow> j \<noteq> unat c \<and> online r j"
    and cons: "\<And>j. j \<noteq> unat c \<Longrightarrow> consumer r2 j = consumer r j"
  have msg: "message r2 s = message r s" for s
    by (simp add: message_def slot_bytes_def read_payload_def slot_def eqs)
  have "quiescent r2"
    using assms by (simp add: bus_inv_def quiescent_def slot_def eqs)
  then have inv': "bus_inv (snd (ReclaimCommittedSlots r2))"
    using inv2 by (simp add: bus_inv_def ReclaimCommittedSlots_inv reclaim_bus(2))
  moreover have "abs_bus r2 = spec_leave (unat c) (abs_bus r)"
    by (auto simp: abs_bus_def spec_leave_def on pending_def cons eqs msg fun_eq_iff)
  ultimately show "abs_bus (snd (UnregisterConsumer c r)) =
      (if fst (UnregisterConsumer c r) then spec_leave (unat c) (abs_bus r) else abs_bus r) \<and>
      bus_inv (snd (UnregisterConsumer c r))"
    by (simp add: res reclaim_bus(1) [OF inv2])
qed (use assms in simp)

section \<open>Publishing\<close>

text \<open>A message an online consumer waits for sits, committed, in a slot other than the target.\<close>

lemma waiting_committed:
  assumes inv: "bus_inv r" and on: "online r c" and s: "cursor r c \<le> s" "s < head_seq r"
  shows "slot_state (slot r ((s - 1) mod n_slots r)) = Some kCommitted"
    and "slot_seq (slot r ((s - 1) mod n_slots r)) = s" and "(s - 1) mod n_slots r < n_slots r"
proof -
  have "holds_seq r s"
    using coveredD(3) [OF bus_invD(1) [OF inv] on] s by simp
  moreover show lt: "(s - 1) mod n_slots r < n_slots r"
    using shape_n_pos [OF bus_invD(1) [OF inv]] by simp
  ultimately show "slot_state (slot r ((s - 1) mod n_slots r)) = Some kCommitted"
    "slot_seq (slot r ((s - 1) mod n_slots r)) = s"
    using bus_invD(2) [OF inv] by (auto simp: holds_seq_def quiescent_def)
qed

lemma slot_bytes_committed:
  assumes "ring_inv r" "slot_state (slot r i) = Some kCommitted" "i < n_slots r"
  shows "slot_bytes r i =
         read_payload (i * unat (per_slot_capacity (header r))) (unat (payload_size (slot r i))) r"
    and "unat (payload_size (slot r i)) \<le> unat (per_slot_capacity (header r))"
  using ring_invD(6) [OF assms(1)] assms(2,3) by (auto simp: slices_in_place_def slot_bytes_def)

lemma published_message:
  assumes good: "ring_good r" and fits: "publishable r p"
    and free: "slot_state (slot r (target_slot r)) = Some kEmpty"
  shows "message (published ns p r) (head_seq r) = p"
proof -
  let ?r = "published ns p r" and ?t = "target_slot r"
  have inv: "ring_inv r" using good by (simp add: ring_good_def)
  note sl = slot_published [OF good, of ns p]
  have "slot_state (slot ?r ?t) = Some kCommitted" by (simp add: sl)
  then have "slot_bytes ?r ?t = read_payload (?t * unat (per_slot_capacity (header r)))
      (unat (payload_size (slot ?r ?t))) ?r"
    using slot_bytes_committed(1) [OF published_inv [OF good fits free], where i = ?t] target_slot_less [OF inv]
    by simp
  moreover have "unat (payload_size (slot ?r ?t)) = length p"
    using fits by (simp add: sl publishable_def fits_def unat_of_nat_len)
  ultimately have "slot_bytes ?r ?t = p"
    using slot_payload_published(1) [OF good fits] by simp
  then show ?thesis
    by (simp add: message_def target_slot_def)
qed

lemma published_bus:
  assumes good: "ring_good r" and quiet: "quiescent r" and fits: "publishable r p"
    and free: "slot_state (slot r (target_slot r)) = Some kEmpty"
  shows "abs_bus (published ns p r) = spec_publish p (abs_bus r)"
    and "bus_inv (published ns p r)"
proof -
  let ?r = "published ns p r" and ?t = "target_slot r"
  have inv: "ring_inv r" using good by (simp add: ring_good_def)
  have binv: "bus_inv r" using inv quiet by (simp add: bus_inv_def)
  have inv': "ring_inv ?r" by (rule published_inv [OF good fits free])
  note sl = slot_published [OF good, of ns p] and bytes = slot_payload_published [OF good fits, where ns = ns]
  note t = target_slot_less [OF inv]
  have head: "head_seq ?r = head_seq r + 1"
    using head_reserved [OF good] by simp
  have "quiescent ?r"
    using quiet by (simp add: quiescent_def sl)
  with inv' show "bus_inv ?r" by (simp add: bus_inv_def)
  have new: "message ?r (head_seq r) = p"
    by (rule published_message [OF good fits free])
  have old: "message ?r s = message r s" if on: "online r c" and s: "cursor r c \<le> s" "s < head_seq r" for c s
  proof -
    let ?i = "(s - 1) mod n_slots r"
    note w = waiting_committed [OF binv on s]
    have ne: "?i \<noteq> ?t"
      using w(1) free by auto
    then have st: "slot_state (slot ?r ?i) = Some kCommitted" "payload_size (slot ?r ?i) = payload_size (slot r ?i)"
      using w(1) by (simp_all add: sl)
    note o = slot_bytes_committed [OF inv w(1,3)]
    have "slot_bytes ?r ?i =
        read_payload (?i * unat (per_slot_capacity (header r))) (unat (payload_size (slot r ?i))) ?r"
      using slot_bytes_committed(1) [OF inv' st(1), unfolded st(2)] w(3) by simp
    then have "slot_bytes ?r ?i = slot_bytes r ?i"
      using bytes(2) [OF ne o(2)] o(1) by simp
    then show ?thesis
      by (simp add: message_def)
  qed
  have pend: "pending ?r c = pending r c @ [p]" if on: "online r c" for c
  proof -
    have le: "cursor r c \<le> head_seq r"
      using coveredD(2) [OF inv on] .
    have "map (message ?r) [cursor r c ..< head_seq r] = map (message r) [cursor r c ..< head_seq r]"
      using old [OF on] by (intro map_cong) simp_all
    with le show ?thesis
      unfolding pending_def head by (simp add: new)
  qed
  then show "abs_bus ?r = spec_publish p (abs_bus r)"
    by (simp add: abs_bus_def spec_publish_def fun_eq_iff)
qed

text \<open>
  The whole call refines one abstract publish. The environment's yields may leave the ring in
  any good state \<open>r0\<close>; alone, that state is the caller's, up to reclaimed slots.
\<close>

definition same_frame :: "ring \<Rightarrow> ring \<Rightarrow> bool" where
  "same_frame r r' \<longleftrightarrow> next_sequence (header r') = next_sequence (header r) \<and>
     slot_count (header r') = slot_count (header r) \<and>
     consumer_capacity (header r') = consumer_capacity (header r) \<and>
     payload_region_bytes (header r') = payload_region_bytes (header r)"

lemma same_frame_refl [simp]: "same_frame r r"
  by (simp add: same_frame_def)

lemma same_frame_trans: "same_frame a b \<Longrightarrow> same_frame b c \<Longrightarrow> same_frame a c"
  by (simp add: same_frame_def)

lemma same_but_slots_frame: "same_but_slots r r' \<Longrightarrow> same_frame r r'"
  by (simp add: same_but_slots_def same_frame_def)

lemmas reclaim_frame = same_but_slots_frame [OF ReclaimCommittedSlots_char(1)]

lemma reserve_loop_alone:
  assumes "ring_inv r" "fits r len" "reserve_loop (replicate k idle) (of_nat len) r = Some (res_i, r1)"
    and "quiescent r" "ring_good r"
  shows "\<exists>r0. reserved_from len r0 res_i r1 \<and> abs_bus r0 = abs_bus r \<and> quiescent r0 \<and>
              same_frame r r0"
  using assms
proof (induction k arbitrary: r)
  case 0
  then show ?case
    using reserve_once [OF 0(5,2)] by (auto split: prod.splits option.splits)
next
  case (Suc k)
  let ?r = "snd (ReclaimCommittedSlots r)"
  show ?case
  proof (cases "slot_state (slot r (target_slot r)) = Some kEmpty")
    case True
    then obtain x r2 where x: "ReservePublishSlotRingOrdered (of_nat len) r = (Some x, r2)"
      using reserve_free [OF Suc(2,3)] by metis
    then have "x = res_i" "r2 = r1"
      using Suc(4) by simp_all
    with reserve_once [OF Suc(6,3)] x have "reserved_from len r res_i r1"
      by simp
    with Suc(5) show ?thesis by (metis same_frame_refl)
  next
    case False
    from reserve_occupied [OF Suc(2,3) this]
    have "reserve_loop (replicate k idle) (of_nat len) ?r = Some (res_i, r1)"
      using Suc(4) by (simp add: idle_def [of ?r])
    moreover have "ring_inv ?r" "ring_good ?r" "quiescent ?r" "fits ?r len"
      using ring_good_reclaim [OF Suc(6)] reclaim_bus(2) [OF Suc(2,5)] Suc(3)
        ReclaimCommittedSlots_inv [OF Suc(2)] fits_cong [of ?r r len] by auto
    moreover have "same_frame r ?r"
      by (rule reclaim_frame [OF ring_invD(1) [OF Suc(2)]])
    ultimately show ?thesis
      using Suc.IH [of ?r] reclaim_bus(1) [OF Suc(2)] by (metis same_frame_trans)
  qed
qed

lemma publish_bus:
  assumes good: "ring_good r" and quiet: "quiescent r" and fits: "publishable r p"
    and res: "PublishCommittedPayload (replicate k idle) ns p r = Some (out, r')"
  shows "abs_bus r' = spec_publish p (abs_bus r)" and "bus_inv r'"
    and "out = Inr (next_sequence (header r))"
    and "same_frame r (r'\<lparr>header := (header r')\<lparr>next_sequence := next_sequence (header r)\<rparr>\<rparr>)"
    and "next_sequence (header r') = next_sequence (header r) + 1"
proof -
  have inv: "ring_inv r" using good by (simp add: ring_good_def)
  obtain rs i r1 where loop: "reserve_loop (replicate k idle) (of_nat (length p)) r = Some ((rs, i), r1)"
    using res publish_guards [OF inv fits] by (auto split: option.splits prod.splits)
  then obtain r0 where r0: "reserved_from (length p) r0 (rs, i) r1" "abs_bus r0 = abs_bus r"
      "quiescent r0" "same_frame r r0"
    using reserve_loop_alone [OF inv fits [unfolded publishable_def] loop quiet good] by blast
  have eq: "out = Inr (res_sequence rs)" "r' = published ns p r0"
    using res publish_guards [OF inv fits] loop publish_commit [OF r0(1)] by auto
  have pre: "ring_good r0" "publishable r0 p" "slot_state (slot r0 (target_slot r0)) = Some kEmpty"
    using r0(1) by (simp_all add: reserved_from_def publishable_def)
  show "abs_bus r' = spec_publish p (abs_bus r)" "bus_inv r'"
    using published_bus [OF pre(1) r0(3) pre(2,3), of ns] r0(2) by (simp_all add: eq)
  show "out = Inr (next_sequence (header r))"
    "same_frame r (r'\<lparr>header := (header r')\<lparr>next_sequence := next_sequence (header r)\<rparr>\<rparr>)"
    "next_sequence (header r') = next_sequence (header r) + 1"
    using r0(1,4) by (simp_all add: eq same_frame_def reserved_from_def)
qed

lemma publish_rejected:
  assumes "ring_inv r" "\<not> publishable r p" "unat (per_slot_capacity (header r)) < 2 ^ 32"
  shows "\<exists>e. PublishCommittedPayload ys ns p r = Some (Inl e, r)"
  using assms
  by (auto simp: PublishCommittedPayload_def publishable_def fits_def ring_inv_def ring_shape_def)

section \<open>Reading and completing\<close>

lemma TryReadCommitted_effect:
  "TryReadCommitted i r =
     (if unat i < n_slots r \<and> slot_state (slot r (unat i)) = Some kCommitted
      then Some \<lparr>res_sequence = UnpackSlotSequence (state_sequence (slot r (unat i))),
                 res_payload_offset = payload_offset (slot r (unat i)),
                 res_payload_size = payload_size (slot r (unat i))\<rparr>
      else None)"
  by (auto simp: TryReadCommitted_def IsSlotIndexValid_def word_less_nat_alt Let_def slot_state_def
      kMaxAttempts_def numeral_eq_Suc)

text \<open>A read finds a message exactly when one is waiting, and then it is the next one.\<close>

lemma read_next:
  assumes inv: "bus_inv r"
  shows "TryReadNextForConsumer c r =
    (if online r (unat c) \<and> cursor r (unat c) < head_seq r
     then let i = slot_index_of (slot_count (header r)) (read_sequence (consumer r (unat c))) in
       Some (\<lparr>res_sequence = read_sequence (consumer r (unat c)),
               res_payload_offset = payload_offset (slot r (unat i)),
               res_payload_size = payload_size (slot r (unat i))\<rparr>, i)
     else None)"
proof (cases "online r (unat c)")
  case False
  then show ?thesis
    by (auto simp: TryReadNextForConsumer_def online_def word_le_nat_alt not_le Let_def)
next
  case True
  let ?s = "read_sequence (consumer r (unat c))"
  let ?i = "slot_index_of (slot_count (header r)) ?s"
  note rinv = bus_invD(1) [OF inv]
  have n0: "slot_count (header r) \<noteq> 0"
    using rinv by (simp add: ring_inv_def ring_shape_def)
  have s0: "?s \<noteq> 0" and le: "cursor r (unat c) \<le> head_seq r"
    using coveredD(1,2) [OF rinv True] by auto
  have i: "unat ?i = (unat ?s - 1) mod n_slots r" "unat ?i < n_slots r"
    using unat_slot_index_of [OF n0 s0] shape_n_pos [OF rinv] by simp_all
  have unfold: "TryReadNextForConsumer c r =
      (case TryReadCommitted ?i r of None \<Rightarrow> None
       | Some res \<Rightarrow> if res_sequence res \<noteq> ?s then None else Some (res, ?i))"
    using True n0 s0 by (simp add: TryReadNextForConsumer_def online_def word_le_nat_alt Let_def)
  show ?thesis
  proof (cases "unat ?s < head_seq r")
    case True
    note w = waiting_committed [OF inv \<open>online r (unat c)\<close> order_refl True]
    have "UnpackSlotSequence (state_sequence (slot r (unat ?i))) = ?s"
      using w(2) by (simp add: slot_seq_def i(1) word_unat_eq_iff)
    then show ?thesis
      using w(1) i True \<open>online r (unat c)\<close> by (simp add: unfold TryReadCommitted_effect Let_def)
  next
    case False
    have "UnpackSlotSequence (state_sequence (slot r (unat ?i))) \<noteq> ?s"
      if "slot_state (slot r (unat ?i)) = Some kCommitted"
    proof -
      have "slot_seq (slot r (unat ?i)) < head_seq r"
        using ring_invD(3) [OF rinv] that i(2) by (auto simp: slots_placed_iff)
      with False show ?thesis by (auto simp: slot_seq_def)
    qed
    with False show ?thesis
      by (simp add: unfold TryReadCommitted_effect)
  qed
qed

definition read_bytes :: "RingSlotReservation \<Rightarrow> ring \<Rightarrow> u8 list" where
  "read_bytes res r = read_payload (unat (res_payload_offset res)) (unat (res_payload_size res)) r"

lemma pending_unfold:
  "cursor r c < head_seq r \<Longrightarrow>
   pending r c = message r (cursor r c) # map (message r) [Suc (cursor r c) ..< head_seq r]"
  by (simp add: pending_def upt_conv_Cons)

lemma peek_bus:
  assumes inv: "bus_inv r"
  shows "map_option (\<lambda>(res, i). read_bytes res r) (TryReadNextForConsumer c r) =
         spec_peek (unat c) (abs_bus r)"
proof (cases "online r (unat c) \<and> cursor r (unat c) < head_seq r")
  case True
  have n0: "slot_count (header r) \<noteq> 0" and s0: "read_sequence (consumer r (unat c)) \<noteq> 0"
    using bus_invD(1) [OF inv] True coveredD(1) [OF bus_invD(1) [OF inv], of "unat c"]
    by (auto simp: ring_inv_def ring_shape_def)
  show ?thesis
    using True
    by (simp add: read_next [OF inv] Let_def spec_peek_def abs_bus_def pending_unfold read_bytes_def
        message_def slot_bytes_def unat_slot_index_of [OF n0 s0])
next
  case False
  then show ?thesis
    by (auto simp: read_next [OF inv] spec_peek_def abs_bus_def pending_def)
qed

lemma moved_bus:
  assumes inv: "bus_inv r" and on: "online r c" and lt: "cursor r c < head_seq r"
    and s: "unat s = cursor r c + 1"
  shows "abs_bus (moved c s r) = spec_complete c (abs_bus r)" "bus_inv (moved c s r)"
proof -
  note rinv = bus_invD(1) [OF inv]
  have len: "c < length (consumers r)"
    using on shape_consumers [OF rinv] by (simp add: online_def)
  have msg: "message (moved c s r) q = message r q" for q
    by (simp add: message_def slot_bytes_def read_payload_def)
  have "pending (moved c s r) j = (if j = c then tl (pending r j) else pending r j)" for j
    using s lt by (simp add: pending_unfold) (simp add: pending_def msg consumer_moved [OF len])
  then show "abs_bus (moved c s r) = spec_complete c (abs_bus r)"
    using on by (auto simp: abs_bus_def spec_complete_def online_moved [OF rinv on] fun_eq_iff)
  show "bus_inv (moved c s r)"
    using inv moved_inv [OF rinv on, of s] s lt by (simp add: bus_inv_def quiescent_def)
qed

text \<open>Completing the message that was read pops it, and only it.\<close>

lemma complete_bus:
  assumes inv: "bus_inv r" and read: "TryReadNextForConsumer c r = Some (res, i)"
  shows "fst (CompleteConsumerSlot c i (res_sequence res + 1) k r)"
    and "abs_bus (snd (snd (CompleteConsumerSlot c i (res_sequence res + 1) k r))) =
         spec_complete (unat c) (abs_bus r)"
    and "bus_inv (snd (snd (CompleteConsumerSlot c i (res_sequence res + 1) k r)))"
proof -
  let ?s = "res_sequence res + 1"
  note rinv = bus_invD(1) [OF inv]
  have on: "online r (unat c)" and lt: "cursor r (unat c) < head_seq r"
    and seq: "res_sequence res = read_sequence (consumer r (unat c))"
    using read by (auto simp: read_next [OF inv] Let_def split: if_splits)
  have s: "unat ?s = cursor r (unat c) + 1"
    using lt unat_u64_less [of "next_sequence (header r)"] by (simp add: seq unat_plus_1)
  then have s0: "?s \<noteq> 0" by auto
  let ?m = "moved (unat c) ?s r"
  note m = moved_bus [OF inv on lt s]
  let ?a = "if (k + 1) mod 64 = 0 then snd (ReclaimCommittedSlots ?m) else ?m"
  have adv: "AdvanceConsumerCursor c ?s k r = (True, k + 1, ?a)"
    using on s by (simp add: AdvanceConsumerCursor_effect [OF rinv s0])
  have a: "abs_bus ?a = spec_complete (unat c) (abs_bus r)" "bus_inv ?a"
    using m reclaim_bus [OF bus_invD(1) [OF m(2)]] bus_invD [OF m(2)]
    by (simp_all add: bus_inv_def ReclaimCommittedSlots_inv)
  have fin: "CompleteConsumerSlot c i ?s k r = (True, k + 1, snd (TryReclaimSlotIfSafe i ?a))"
    by (simp add: CompleteConsumerSlot_def adv)
  show "fst (CompleteConsumerSlot c i ?s k r)" by (simp add: fin)
  show "abs_bus (snd (snd (CompleteConsumerSlot c i ?s k r))) = spec_complete (unat c) (abs_bus r)"
    "bus_inv (snd (snd (CompleteConsumerSlot c i ?s k r)))"
    using try_reclaim_bus [OF bus_invD(1) [OF a(2)], of i] a bus_invD [OF a(2)]
    by (simp_all add: fin bus_inv_def TryReclaimSlotIfSafe_inv)
qed

section \<open>Frames\<close>

lemma join_frame: "ring_inv r \<Longrightarrow> same_frame r (snd (AddConsumerOnline pid c r))"
  by (simp add: AddConsumerOnline_Register RegisterConsumer_effect(8) same_frame_def)

lemma leave_frame:
  assumes "ring_inv r"
  shows "same_frame r (snd (UnregisterConsumer c r))"
proof (rule UnregisterConsumer_cases [OF assms, of c])
  fix r2 assume "UnregisterConsumer c r = (True, snd (ReclaimCommittedSlots r2))" "ring_inv r2"
    "next_sequence (header r2) = next_sequence (header r)"
    "slot_count (header r2) = slot_count (header r)"
    "consumer_capacity (header r2) = consumer_capacity (header r)"
    "payload_region_bytes (header r2) = payload_region_bytes (header r)"
  then show ?thesis
    using same_frame_trans [OF _ reclaim_frame [OF ring_invD(1)]] by (simp add: same_frame_def)
qed simp

lemma complete_frame:
  assumes "bus_inv r" "TryReadNextForConsumer c r = Some (res, i)"
  shows "same_frame r (snd (snd (CompleteConsumerSlot c i (res_sequence res + 1) k r)))"
proof -
  let ?m = "moved (unat c) (res_sequence res + 1) r"
  have inv: "ring_inv r" by (rule bus_invD(1) [OF assms(1)])
  have on: "online r (unat c)" and lt: "cursor r (unat c) < head_seq r"
    and seq: "res_sequence res = read_sequence (consumer r (unat c))"
    using assms(2) by (auto simp: read_next [OF assms(1)] Let_def split: if_splits)
  have s: "unat (res_sequence res + 1) = cursor r (unat c) + 1"
    using lt unat_u64_less [of "next_sequence (header r)"] by (simp add: seq unat_plus_1)
  then have s0: "res_sequence res + 1 \<noteq> 0" by auto
  have m: "ring_inv ?m" "same_frame r ?m"
    using moved_bus(2) [OF assms(1) on lt s] by (auto dest: bus_invD simp: same_frame_def)
  note re = same_frame_trans [OF m(2) reclaim_frame [OF ring_invD(1) [OF m(1)]]]
  have fin: "same_frame r (snd (TryReclaimSlotIfSafe i r1))" if "same_frame r r1" "ring_inv r1" for r1
    using that same_but_slots_frame [OF TryReclaimSlotIfSafe_char(2) [OF ring_invD(1)]]
    by (metis same_frame_trans)
  show ?thesis
    using on s fin [OF m(2,1)] fin [OF re ReclaimCommittedSlots_inv [OF m(1)]]
    by (simp add: CompleteConsumerSlot_def AdvanceConsumerCursor_effect [OF inv s0])
qed

end
