(* ===== verification/Json.thy ===== *)
theory Json
  imports Text
begin

text \<open>
  The two JSON parsers of the configuration code: \<^verbatim>\<open>JsonParser\<close> of
  \<^verbatim>\<open>common/config/src/channel_topology_config.cpp\<close> and \<^verbatim>\<open>JParser\<close> of
  \<^verbatim>\<open>common/config/src/launch_plan_config.cpp\<close>. They are the same recursive descent and
  differ in their messages and in what happens to an exception of the number conversions; a
  \<open>dialect\<close> holds the difference. The recursion runs on fuel; \<open>parse_fuel\<close> shows how much is
  enough, so no input makes a parser run out.
\<close>

section \<open>Values and results\<close>

datatype json =
    JNull
  | JBool bool
  | JInt int
  | JReal rat
  | JString string
  | JObject "(string \<times> json) list"
  | JArray "json list"

text \<open>
  \<open>ParseError\<close> is the \<^verbatim>\<open>JsonParseError\<close> the callers catch; \<open>Uncaught\<close> an exception of another
  class that leaves the parser.
\<close>

datatype json_error = ParseError string | Uncaught num_error | OutOfFuel

record dialect =
  d_invalid_value :: "nat \<Rightarrow> char \<Rightarrow> string"
  d_duplicate_key :: "string \<Rightarrow> string"
  d_trailing :: string
  d_open_escape :: string
  d_bad_escape :: string
  d_number :: "num_error \<Rightarrow> json_error"

definition topology_dialect :: dialect where
  "topology_dialect =
     \<lparr>d_invalid_value = (\<lambda>pos c. ''invalid JSON value at pos '' @ nat_digits pos @ '' near '' @
                          quoted [if c = nul then CHR ''#'' else c]),
      d_duplicate_key = (\<lambda>k. ''duplicate key '' @ quoted k),
      d_trailing = ''trailing characters after JSON document'',
      d_open_escape = ''unterminated string escape'', d_bad_escape = ''unsupported string escape'',
      d_number = Uncaught\<rparr>"

definition launch_dialect :: dialect where
  "launch_dialect =
     \<lparr>d_invalid_value = (\<lambda>pos c. ''invalid JSON value''),
      d_duplicate_key = (\<lambda>k. ''duplicate key '' @ quoted k @ '' in object''),
      d_trailing = ''trailing characters after JSON value'',
      d_open_escape = ''unterminated escape in string'', d_bad_escape = ''unsupported escape in string'',
      d_number = (\<lambda>e. ParseError ''invalid number literal'')\<rparr>"

section \<open>The parsers\<close>

text \<open>A parser gets the rest of the input; \<open>Peek\<close> at the end of it is the NUL character.\<close>

definition json_space :: "char \<Rightarrow> bool" where
  "json_space c \<longleftrightarrow> c = CHR 0x20 \<or> c = newline \<or> c = CHR 0x0D \<or> c = CHR 0x09"

definition SkipWhitespace :: "string \<Rightarrow> string" where
  "SkipWhitespace s = dropWhile json_space s"

definition Peek :: "string \<Rightarrow> char" where
  "Peek s = (case s of [] \<Rightarrow> nul | c # cs \<Rightarrow> c)"

definition Expect :: "char \<Rightarrow> string \<Rightarrow> json_error + string" where
  "Expect c s = (let t = SkipWhitespace s in
     if Peek t \<noteq> c then Inl (ParseError (''expected '' @ quoted [c])) else Inr (tl t))"

definition unescape :: "char \<Rightarrow> char option" where
  "unescape e =
     (if e = quote_char \<or> e = backslash \<or> e = CHR ''/'' then Some e
      else if e = CHR ''b'' then Some (CHR 0x08)
      else if e = CHR ''f'' then Some (CHR 0x0C)
      else if e = CHR ''n'' then Some newline
      else if e = CHR ''r'' then Some (CHR 0x0D)
      else if e = CHR ''t'' then Some (CHR 0x09)
      else None)"

fun ParseString :: "dialect \<Rightarrow> string \<Rightarrow> string \<Rightarrow> json_error + string \<times> string" where
  "ParseString d out [] = Inl (ParseError ''unterminated string'')"
| "ParseString d out (c # cs) =
     (if c = quote_char then Inr (out, cs)
      else if c = backslash
      then (case cs of
              [] \<Rightarrow> Inl (ParseError (d_open_escape d))
            | e # cs' \<Rightarrow> (case unescape e of
                            None \<Rightarrow> Inl (ParseError (d_bad_escape d))
                          | Some x \<Rightarrow> ParseString d (out @ [x]) cs'))
      else ParseString d (out @ [c]) cs)"

definition ParseBool :: "string \<Rightarrow> json_error + json \<times> string" where
  "ParseBool s =
     (if take 4 s = ''true'' then Inr (JBool True, drop 4 s)
      else if take 5 s = ''false'' then Inr (JBool False, drop 5 s)
      else Inl (ParseError ''invalid boolean literal''))"

definition ParseNull :: "string \<Rightarrow> json_error + json \<times> string" where
  "ParseNull s =
     (if take 4 s \<noteq> ''null'' then Inl (ParseError ''invalid null literal'') else Inr (JNull, drop 4 s))"

text \<open>The characters \<^verbatim>\<open>ParseNumber\<close> consumes, and what follows them.\<close>

definition take_sign :: "bool \<Rightarrow> string \<Rightarrow> string \<times> string" where
  "take_sign allow_plus s = (if Peek s = CHR ''-'' \<or> allow_plus \<and> Peek s = CHR ''+'' then ([Peek s], tl s) else ([], s))"

definition number_token :: "string \<Rightarrow> string \<times> string" where
  "number_token s =
     (let (sg, s1) = take_sign False s;
          whole = takeWhile is_digit s1; s2 = dropWhile is_digit s1;
          (frac, s3) = (if Peek s2 = CHR ''.''
                        then (CHR ''.'' # takeWhile is_digit (tl s2), dropWhile is_digit (tl s2)) else ([], s2));
          (ex, s4) = (if Peek s3 = CHR ''e'' \<or> Peek s3 = CHR ''E''
                      then (let (esg, s5) = take_sign True (tl s3)
                            in (Peek s3 # esg @ takeWhile is_digit s5, dropWhile is_digit s5))
                      else ([], s3))
      in (sg @ whole @ frac @ ex, s4))"

definition ParseNumber :: "dialect \<Rightarrow> string \<Rightarrow> json_error + json \<times> string" where
  "ParseNumber d s =
     (let (token, rest) = number_token s in
      if CHR ''.'' \<in> set token \<or> CHR ''e'' \<in> set token \<or> CHR ''E'' \<in> set token
      then (case stod token of Inl e \<Rightarrow> Inl (d_number d e) | Inr x \<Rightarrow> Inr (JReal x, rest))
      else (case stoll token of Inl e \<Rightarrow> Inl (d_number d e) | Inr (i, _) \<Rightarrow> Inr (JInt i, rest)))"

text \<open>
  \<open>ParseValue\<close>, and the loops of \<^verbatim>\<open>ParseObject\<close> and \<^verbatim>\<open>ParseArray\<close> after the opening bracket and
  the test for an empty one. \<open>len\<close> is the length of the whole text, for the position.
\<close>

fun ParseValue :: "dialect \<Rightarrow> nat \<Rightarrow> nat \<Rightarrow> string \<Rightarrow> json_error + json \<times> string"
  and ParseMembers :: "dialect \<Rightarrow> nat \<Rightarrow> nat \<Rightarrow> (string \<times> json) list \<Rightarrow> string \<Rightarrow> json_error + json \<times> string"
  and ParseElements :: "dialect \<Rightarrow> nat \<Rightarrow> nat \<Rightarrow> json list \<Rightarrow> string \<Rightarrow> json_error + json \<times> string"
where
  "ParseValue d len 0 s = Inl OutOfFuel"
| "ParseValue d len (Suc f) s =
     (let t = SkipWhitespace s; c = Peek t in
      if c = CHR ''{''
      then (let u = SkipWhitespace (tl t) in
            if Peek u = CHR ''}'' then Inr (JObject [], tl u) else ParseMembers d len f [] (tl t))
      else if c = CHR ''[''
      then (let u = SkipWhitespace (tl t) in
            if Peek u = CHR '']'' then Inr (JArray [], tl u) else ParseElements d len f [] (tl t))
      else if c = quote_char
      then (case ParseString d [] (tl t) of Inl e \<Rightarrow> Inl e | Inr (str, u) \<Rightarrow> Inr (JString str, u))
      else if c = CHR ''t'' \<or> c = CHR ''f'' then ParseBool t
      else if c = CHR ''n'' then ParseNull t
      else if c = CHR ''-'' \<or> is_digit c then ParseNumber d t
      else Inl (ParseError (d_invalid_value d (len - length t) c)))"
| "ParseMembers d len 0 acc s = Inl OutOfFuel"
| "ParseMembers d len (Suc f) acc s =
     (let t = SkipWhitespace s in
      if Peek t \<noteq> quote_char then Inl (ParseError ''object key must be string'')
      else case ParseString d [] (tl t) of
             Inl e \<Rightarrow> Inl e
           | Inr (key, u) \<Rightarrow>
               (case Expect (CHR '':'') u of
                  Inl e \<Rightarrow> Inl e
                | Inr v \<Rightarrow>
                    (case ParseValue d len f v of
                       Inl e \<Rightarrow> Inl e
                     | Inr (value, w) \<Rightarrow>
                         if key \<in> set (map fst acc) then Inl (ParseError (d_duplicate_key d key))
                         else let acc' = acc @ [(key, value)]; x = SkipWhitespace w in
                           if Peek x = CHR ''}'' then Inr (JObject acc', tl x)
                           else if Peek x \<noteq> CHR '','' then Inl (ParseError (''expected '' @ quoted '','' @ '' or '' @ quoted ''}'' @ '' in object''))
                           else ParseMembers d len f acc' (tl x))))"
| "ParseElements d len 0 acc s = Inl OutOfFuel"
| "ParseElements d len (Suc f) acc s =
     (case ParseValue d len f s of
        Inl e \<Rightarrow> Inl e
      | Inr (value, w) \<Rightarrow>
          let acc' = acc @ [value]; x = SkipWhitespace w in
          if Peek x = CHR '']'' then Inr (JArray acc', tl x)
          else if Peek x \<noteq> CHR '','' then Inl (ParseError (''expected '' @ quoted '','' @ '' or '' @ quoted '']'' @ '' in array''))
          else ParseElements d len f acc' (tl x))"

definition parse_fuel :: "string \<Rightarrow> nat" where
  "parse_fuel s = 2 * length s + 1"

definition ParseDocument :: "dialect \<Rightarrow> string \<Rightarrow> json_error + json" where
  "ParseDocument d s =
     (case ParseValue d (length s) (parse_fuel s) s of
        Inl e \<Rightarrow> Inl e
      | Inr (value, rest) \<Rightarrow>
          if SkipWhitespace rest \<noteq> [] then Inl (ParseError (d_trailing d)) else Inr value)"

definition JsonParser_ParseDocument :: "string \<Rightarrow> json_error + json" where
  "JsonParser_ParseDocument = ParseDocument topology_dialect"

definition JParser_ParseDocument :: "string \<Rightarrow> json_error + json" where
  "JParser_ParseDocument = ParseDocument launch_dialect"

text \<open>\<^verbatim>\<open>FindJsonKey\<close> and \<^verbatim>\<open>FindObjectKey\<close>: the first member with the key.\<close>

definition FindJsonKey :: "(string \<times> json) list \<Rightarrow> string \<Rightarrow> json option" where
  "FindJsonKey o1 key = map_of o1 key"

section \<open>What is consumed\<close>

lemma SkipWhitespace_length: "length (SkipWhitespace s) \<le> length s"
  by (simp add: SkipWhitespace_def length_dropWhile_le)

lemma Peek_nonnul: "Peek s = c \<Longrightarrow> c \<noteq> nul \<Longrightarrow> \<exists>cs. s = c # cs"
  by (auto simp: Peek_def split: list.splits)

lemma Peek_nonempty: "Peek s \<noteq> nul \<Longrightarrow> s \<noteq> []"
  by (auto simp: Peek_def)

lemma Peek_tl_length: "Peek s = c \<Longrightarrow> c \<noteq> nul \<Longrightarrow> length (tl s) < length s"
  using Peek_nonempty [of s] by simp

lemma ParseString_length:
  "ParseString d out s = Inr (str, rest) \<Longrightarrow> length rest < length s"
proof (induction d out s rule: ParseString.induct)
  case (2 d out c cs)
  then show ?case
    by (auto split: if_splits list.splits option.splits) (meson less_SucI)+
qed simp

lemma ParseString_no_fuel: "ParseString d out s \<noteq> Inl OutOfFuel"
  by (induction d out s rule: ParseString.induct) (auto split: if_splits list.splits option.splits)

lemma Expect_length:
  assumes "Expect c s = Inr t" "c \<noteq> nul"
  shows "length t < length s"
proof -
  have "Peek (SkipWhitespace s) = c" "t = tl (SkipWhitespace s)"
    using assms(1) by (auto simp: Expect_def Let_def split: if_splits)
  then have "length t < length (SkipWhitespace s)"
    using Peek_tl_length assms(2) by blast
  then show ?thesis
    using SkipWhitespace_length [of s] by simp
qed

lemma take_sign_length: "take_sign a s = (x, t) \<Longrightarrow> length t \<le> length s"
  by (auto simp: take_sign_def split: if_splits)

lemma digits_rest_length: "length (dropWhile is_digit (tl s)) \<le> length s"
  using length_dropWhile_le [of is_digit "tl s"] by simp

lemma number_token_length:
  assumes "number_token s = (token, rest)"
  shows "length rest \<le> length s"
proof -
  obtain sg s1 where 1: "take_sign False s = (sg, s1)" by fastforce
  let ?s2 = "dropWhile is_digit s1"
  obtain frac s3 where 2: "(if Peek ?s2 = CHR ''.''
      then (CHR ''.'' # takeWhile is_digit (tl ?s2), dropWhile is_digit (tl ?s2)) else ([], ?s2)) = (frac, s3)"
    by fastforce
  obtain esg s5 where 4: "take_sign True (tl s3) = (esg, s5)" by fastforce
  have "length s1 \<le> length s" "length ?s2 \<le> length s1"
    using take_sign_length [OF 1] by (simp_all add: length_dropWhile_le)
  moreover have "length s3 \<le> length ?s2"
    using 2 digits_rest_length [of ?s2] by (auto split: if_splits)
  moreover have "length (dropWhile is_digit s5) \<le> length s3"
    using take_sign_length [OF 4] length_dropWhile_le [of is_digit s5] by simp
  moreover have "rest = s3 \<or> rest = dropWhile is_digit s5"
    using assms 1 2 4 by (auto simp: number_token_def Let_def split: if_splits prod.splits)
  ultimately show ?thesis
    by auto
qed

lemma ParseBool_length: "ParseBool s = Inr (v, rest) \<Longrightarrow> length rest \<le> length s"
  and ParseNull_length: "ParseNull s = Inr (v, rest) \<Longrightarrow> length rest \<le> length s"
  by (auto simp: ParseBool_def ParseNull_def split: if_splits)

lemma ParseNumber_length: "ParseNumber d s = Inr (v, rest) \<Longrightarrow> length rest \<le> length s"
  by (auto simp: ParseNumber_def split: prod.splits if_splits sum.splits dest: number_token_length)

text \<open>Parsers never give back more than they got, and with enough fuel never run out of it.\<close>

lemma leaf_no_fuel:
  "ParseBool s \<noteq> Inl OutOfFuel" "ParseNull s \<noteq> Inl OutOfFuel" "Expect c s \<noteq> Inl OutOfFuel"
  by (auto simp: ParseBool_def ParseNull_def Expect_def Let_def split: prod.splits sum.splits)

lemma ParseMembers_Inr:
  assumes "ParseMembers d len (Suc f) acc s = Inr (v, rest)"
  obtains key u t vl w where
    "Peek (SkipWhitespace s) = quote_char" "ParseString d [] (tl (SkipWhitespace s)) = Inr (key, u)"
    "Expect (CHR '':'') u = Inr t" "ParseValue d len f t = Inr (vl, w)" "key \<notin> set (map fst acc)"
    "Peek (SkipWhitespace w) = CHR ''}'' \<and> v = JObject (acc @ [(key, vl)]) \<and> rest = tl (SkipWhitespace w) \<or>
     Peek (SkipWhitespace w) = CHR '','' \<and>
       ParseMembers d len f (acc @ [(key, vl)]) (tl (SkipWhitespace w)) = Inr (v, rest)"
  using assms by (auto simp: Let_def split: if_splits sum.splits)

lemma ParseElements_Inr:
  assumes "ParseElements d len (Suc f) acc s = Inr (v, rest)"
  obtains vl w where "ParseValue d len f s = Inr (vl, w)"
    "Peek (SkipWhitespace w) = CHR '']'' \<and> v = JArray (acc @ [vl]) \<and> rest = tl (SkipWhitespace w) \<or>
     Peek (SkipWhitespace w) = CHR '','' \<and> ParseElements d len f (acc @ [vl]) (tl (SkipWhitespace w)) = Inr (v, rest)"
  using assms by (auto simp: Let_def split: if_splits sum.splits)

lemma ParseValue_Inr:
  assumes "ParseValue d len (Suc f) s = Inr (v, rest)"
  obtains "v = JObject []" "rest = tl (SkipWhitespace (tl (SkipWhitespace s)))"
  | "SkipWhitespace s \<noteq> []" "ParseMembers d len f [] (tl (SkipWhitespace s)) = Inr (v, rest)"
  | "v = JArray []" "rest = tl (SkipWhitespace (tl (SkipWhitespace s)))"
  | "SkipWhitespace s \<noteq> []" "ParseElements d len f [] (tl (SkipWhitespace s)) = Inr (v, rest)"
  | str where "v = JString str" "ParseString d [] (tl (SkipWhitespace s)) = Inr (str, rest)"
  | "ParseBool (SkipWhitespace s) = Inr (v, rest)" | "ParseNull (SkipWhitespace s) = Inr (v, rest)"
  | "ParseNumber d (SkipWhitespace s) = Inr (v, rest)"
proof -
  let ?t = "SkipWhitespace s"
  let ?c = "Peek ?t"
  note step = assms [unfolded ParseValue.simps Let_def]
  have ne: "?t \<noteq> []" if "?c = x" "x \<noteq> nul" for x
    using that Peek_nonempty [of ?t] by simp
  consider "?c = CHR ''{''" | "?c = CHR ''[''" | "?c = quote_char" | "?c = CHR ''t'' \<or> ?c = CHR ''f''"
    | "?c = CHR ''n''" | "?c = CHR ''-'' \<or> is_digit ?c"
      "?c \<noteq> CHR ''{''" "?c \<noteq> CHR ''[''" "?c \<noteq> quote_char" "?c \<noteq> CHR ''t''" "?c \<noteq> CHR ''f''" "?c \<noteq> CHR ''n''"
    | "?c \<noteq> CHR ''{''" "?c \<noteq> CHR ''[''" "?c \<noteq> quote_char" "?c \<noteq> CHR ''t''" "?c \<noteq> CHR ''f''" "?c \<noteq> CHR ''n''"
      "?c \<noteq> CHR ''-''" "\<not> is_digit ?c"
    by blast
  then show thesis
  proof cases
    case 1
    show thesis
    proof (cases "Peek (SkipWhitespace (tl ?t)) = CHR ''}''")
      case True
      then show thesis using step 1 by (intro that(1)) simp_all
    next
      case False
      then show thesis using step 1 ne [OF 1] by (intro that(2)) simp_all
    qed
  next
    case 2
    show thesis
    proof (cases "Peek (SkipWhitespace (tl ?t)) = CHR '']''")
      case True
      then show thesis using step 2 by (intro that(3)) simp_all
    next
      case False
      then show thesis using step 2 ne [OF 2] by (intro that(4)) simp_all
    qed
  next
    case 3
    then obtain str u where "ParseString d [] (tl ?t) = Inr (str, u)" "Inr (JString str, u) = (Inr (v, rest) :: json_error + _)"
      using step by (simp split: sum.splits prod.splits)
    then show thesis using that(5) by (metis old.sum.inject(2) prod.inject)
  next
    case 4
    then show thesis using step by (intro that(6)) auto
  next
    case 5
    then show thesis using step by (intro that(7)) simp
  next
    case 6
    then show thesis using step by (intro that(8)) simp
  next
    case 7
    then show thesis using step by simp
  qed
qed

text \<open>What a parsed document looks like: distinct keys, integers of 64 bits.\<close>

fun json_wf :: "json \<Rightarrow> bool" where
  "json_wf (JInt i) \<longleftrightarrow> - (2 ^ 63) \<le> i \<and> i < 2 ^ 63"
| "json_wf (JObject o1) \<longleftrightarrow> distinct (map fst o1) \<and> (\<forall>kv \<in> set o1. json_wf (snd kv))"
| "json_wf (JArray a) \<longleftrightarrow> (\<forall>v \<in> set a. json_wf v)"
| "json_wf _ \<longleftrightarrow> True"

lemma leaf_wf:
  "ParseBool s = Inr (v, rest) \<Longrightarrow> json_wf v" "ParseNull s = Inr (v, rest) \<Longrightarrow> json_wf v"
  "ParseNumber d s = Inr (v, rest) \<Longrightarrow> json_wf v"
  by (auto simp: ParseBool_def ParseNull_def ParseNumber_def stoll_def Let_def
      split: prod.splits if_splits sum.splits)

lemma after_skip: "length (tl (SkipWhitespace s)) \<le> length s"
  using SkipWhitespace_length [of s] by simp

lemma parse_sound:
  "(\<forall>s v rest. ParseValue d len f s = Inr (v, rest) \<longrightarrow> length rest \<le> length s \<and> json_wf v) \<and>
   (\<forall>acc s v rest. ParseMembers d len f acc s = Inr (v, rest) \<longrightarrow> json_wf (JObject acc) \<longrightarrow>
      length rest \<le> length s \<and> json_wf v) \<and>
   (\<forall>acc s v rest. ParseElements d len f acc s = Inr (v, rest) \<longrightarrow> json_wf (JArray acc) \<longrightarrow>
      length rest \<le> length s \<and> json_wf v)"
proof (induction f)
  case (Suc f)
  have V: "length rest \<le> length s" "json_wf v" if "ParseValue d len f s = Inr (v, rest)" for s v rest
    using Suc.IH that by blast+
  have M: "length rest \<le> length s \<and> json_wf v"
    if "ParseMembers d len f acc s = Inr (v, rest)" "json_wf (JObject acc)" for acc s v rest
    using Suc.IH that by blast
  have E: "length rest \<le> length s \<and> json_wf v"
    if "ParseElements d len f acc s = Inr (v, rest)" "json_wf (JArray acc)" for acc s v rest
    using Suc.IH that by blast
  show ?case
  proof (intro conjI allI impI)
    fix s v rest assume "ParseValue d len (Suc f) s = Inr (v, rest)"
    then have "length rest \<le> length s \<and> json_wf v"
    proof (cases rule: ParseValue_Inr)
      case 1
      then show ?thesis using after_skip [of "tl (SkipWhitespace s)"] after_skip [of s] by simp
    next
      case 2
      then show ?thesis using M [OF 2(2)] after_skip [of s] by auto
    next
      case 3
      then show ?thesis using after_skip [of "tl (SkipWhitespace s)"] after_skip [of s] by simp
    next
      case 4
      then show ?thesis using E [OF 4(2)] after_skip [of s] by auto
    next
      case (5 str)
      then show ?thesis using ParseString_length [OF 5(2)] after_skip [of s] by simp
    next
      case 6
      then show ?thesis using ParseBool_length [OF 6] leaf_wf(1) [OF 6] SkipWhitespace_length [of s] by simp
    next
      case 7
      then show ?thesis using ParseNull_length [OF 7] leaf_wf(2) [OF 7] SkipWhitespace_length [of s] by simp
    next
      case 8
      then show ?thesis using ParseNumber_length [OF 8] leaf_wf(3) [OF 8] SkipWhitespace_length [of s] by simp
    qed
    then show "length rest \<le> length s" "json_wf v" by simp_all
  next
    fix acc s v rest
    assume "ParseMembers d len (Suc f) acc s = Inr (v, rest)" and wf: "json_wf (JObject acc)"
    then have "length rest \<le> length s \<and> json_wf v"
    proof (cases rule: ParseMembers_Inr)
      case (1 key u t vl w)
      have "length w \<le> length s"
        using V(1) [OF 1(4)] Expect_length [OF 1(3)] ParseString_length [OF 1(2)] after_skip [of s] by simp
      then have "length (tl (SkipWhitespace w)) \<le> length s"
        using after_skip [of w] by simp
      moreover have "json_wf (JObject (acc @ [(key, vl)]))"
        using wf V(2) [OF 1(4)] 1(5) by auto
      ultimately show ?thesis
        using 1(6) M [of "acc @ [(key, vl)]" "tl (SkipWhitespace w)" v rest] by auto
    qed
    then show "length rest \<le> length s" "json_wf v" by simp_all
  next
    fix acc s v rest
    assume "ParseElements d len (Suc f) acc s = Inr (v, rest)" and wf: "json_wf (JArray acc)"
    then have "length rest \<le> length s \<and> json_wf v"
    proof (cases rule: ParseElements_Inr)
      case (1 vl w)
      have "length (tl (SkipWhitespace w)) \<le> length s"
        using V(1) [OF 1(1)] after_skip [of w] by simp
      moreover have "json_wf (JArray (acc @ [vl]))"
        using wf V(2) [OF 1(1)] by auto
      ultimately show ?thesis
        using 1(2) E [of "acc @ [vl]" "tl (SkipWhitespace w)" v rest] by auto
    qed
    then show "length rest \<le> length s" "json_wf v" by simp_all
  qed
qed simp

text \<open>What the parsers ask of a dialect: the report of a number that does not convert is not that of missing fuel.\<close>

locale json_dialect =
  fixes d :: dialect
  assumes number_error: "d_number d e \<noteq> OutOfFuel"
begin

lemma number_no_fuel: "ParseNumber d s \<noteq> Inl OutOfFuel"
  by (auto simp: ParseNumber_def number_error Let_def split: prod.splits sum.splits)

lemma parse_fuel_enough:
  "(\<forall>s. 2 * length s + 1 \<le> f \<longrightarrow> ParseValue d len f s \<noteq> Inl OutOfFuel) \<and>
   (\<forall>acc s. 2 * length s + 2 \<le> f \<longrightarrow> ParseMembers d len f acc s \<noteq> Inl OutOfFuel) \<and>
   (\<forall>acc s. 2 * length s + 2 \<le> f \<longrightarrow> ParseElements d len f acc s \<noteq> Inl OutOfFuel)"
proof (induction f)
  case (Suc f)
  have V: "ParseValue d len f s \<noteq> Inl OutOfFuel" if "2 * length s + 1 \<le> f" for s
    using Suc.IH that by blast
  have M: "ParseMembers d len f acc s \<noteq> Inl OutOfFuel" if "2 * length s + 2 \<le> f" for acc s
    using Suc.IH that by blast
  have E: "ParseElements d len f acc s \<noteq> Inl OutOfFuel" if "2 * length s + 2 \<le> f" for acc s
    using Suc.IH that by blast
  have len_w: "length w \<le> length t" if "ParseValue d len f t = Inr (vl, w)" for t vl w
    using parse_sound [of d len f] that by blast
  have next_shorter: "length (tl (SkipWhitespace w)) < length w" if "Peek (SkipWhitespace w) = CHR '',''" for w
    using Peek_tl_length [OF that] SkipWhitespace_length [of w] by simp
  show ?case
  proof (intro conjI allI impI)
    fix s :: string assume f: "2 * length s + 1 \<le> Suc f"
    have tl: "2 * length (tl (SkipWhitespace s)) + 2 \<le> f" if "Peek (SkipWhitespace s) = c" "c \<noteq> nul" for c
      using f Peek_tl_length [OF that] SkipWhitespace_length [of s] by simp
    show "ParseValue d len (Suc f) s \<noteq> Inl OutOfFuel"
      using M [OF tl] E [OF tl] leaf_no_fuel(1,2) number_no_fuel ParseString_no_fuel
      by (auto simp: Let_def split: sum.splits)
  next
    fix acc s assume f: "2 * length (s :: string) + 2 \<le> Suc f"
    have step: "ParseMembers d len f (acc @ [(key, vl)]) (tl (SkipWhitespace w)) \<noteq> Inl OutOfFuel"
      if "ParseString d [] (tl (SkipWhitespace s)) = Inr (key, u)" "Expect (CHR '':'') u = Inr t"
        "ParseValue d len f t = Inr (vl, w)" "Peek (SkipWhitespace w) = CHR '',''" for key u t vl w
      using f ParseString_length [OF that(1)] Expect_length [OF that(2)] len_w [OF that(3)]
        next_shorter [OF that(4)] after_skip [of s] by (intro M) simp
    have val: "ParseValue d len f t \<noteq> Inl OutOfFuel"
      if "ParseString d [] (tl (SkipWhitespace s)) = Inr (key, u)" "Expect (CHR '':'') u = Inr t" for key u t
      using f ParseString_length [OF that(1)] Expect_length [OF that(2)] after_skip [of s] by (intro V) simp
    show "ParseMembers d len (Suc f) acc s \<noteq> Inl OutOfFuel"
      using step val ParseString_no_fuel leaf_no_fuel(3)
      by (auto simp: Let_def split: sum.splits)
  next
    fix acc s assume f: "2 * length (s :: string) + 2 \<le> Suc f"
    have step: "ParseElements d len f (acc @ [vl]) (tl (SkipWhitespace w)) \<noteq> Inl OutOfFuel"
      if "ParseValue d len f s = Inr (vl, w)" "Peek (SkipWhitespace w) = CHR '',''" for vl w
      using f len_w [OF that(1)] next_shorter [OF that(2)] by (intro E) simp
    show "ParseElements d len (Suc f) acc s \<noteq> Inl OutOfFuel"
      using step V [of s] f by (auto simp: Let_def split: sum.splits)
  qed
qed simp

lemma document_has_fuel: "ParseDocument d s \<noteq> Inl OutOfFuel"
  using parse_fuel_enough [of "parse_fuel s" "length s"] by (auto simp: ParseDocument_def parse_fuel_def split: sum.splits)

lemma document_answer:
  "case ParseDocument d s of Inr v \<Rightarrow> json_wf v | Inl e \<Rightarrow> (\<exists>m. e = ParseError m) \<or> (\<exists>x. e = Uncaught x)"
proof (cases "ParseDocument d s")
  case (Inl e)
  then show ?thesis
    using document_has_fuel [of s] by (cases e) auto
next
  case (Inr v)
  then show ?thesis
    using parse_sound [of d "length s" "parse_fuel s"]
    by (auto simp: ParseDocument_def split: sum.splits prod.splits if_splits)
qed

end

interpretation topology_parser: json_dialect topology_dialect
  by unfold_locales (simp add: topology_dialect_def)

interpretation launch_parser: json_dialect launch_dialect
  by unfold_locales (simp add: launch_dialect_def)

section \<open>The compact text of a value\<close>

text \<open>
  The specification of the parsers: a value without real numbers has a canonical text, and the
  parsers read it back. \<open>string_text\<close> escapes the quote and the backslash only, the other
  characters stand for themselves.
\<close>

fun escaped :: "string \<Rightarrow> string" where
  "escaped [] = [quote_char]"
| "escaped (c # cs) = (if c = quote_char \<or> c = backslash then backslash # c # escaped cs else c # escaped cs)"

fun json_text :: "json \<Rightarrow> string" and members_text :: "(string \<times> json) list \<Rightarrow> string"
  and elements_text :: "json list \<Rightarrow> string" where
  "json_text JNull = ''null''"
| "json_text (JBool b) = (if b then ''true'' else ''false'')"
| "json_text (JInt i) = int_to_string i"
| "json_text (JReal x) = []"
| "json_text (JString s) = quote_char # escaped s"
| "json_text (JObject ms) = CHR ''{'' # members_text ms"
| "json_text (JArray vs) = CHR ''['' # elements_text vs"
| "members_text [] = ''}''"
| "members_text ((k, v) # ms) =
     quote_char # escaped k @ CHR '':'' # json_text v @ (if ms = [] then ''}'' else CHR '','' # members_text ms)"
| "elements_text [] = '']''"
| "elements_text (v # vs) = json_text v @ (if vs = [] then '']'' else CHR '','' # elements_text vs)"

fun json_exact :: "json \<Rightarrow> bool" where
  "json_exact (JReal x) \<longleftrightarrow> False"
| "json_exact (JObject ms) \<longleftrightarrow> (\<forall>kv \<in> set ms. json_exact (snd kv))"
| "json_exact (JArray vs) \<longleftrightarrow> (\<forall>v \<in> set vs. json_exact v)"
| "json_exact _ \<longleftrightarrow> True"

text \<open>What may follow a value: nothing that continues a number.\<close>

definition ends_value :: "string \<Rightarrow> bool" where
  "ends_value rest \<longleftrightarrow> \<not> is_digit (Peek rest) \<and> Peek rest \<noteq> CHR ''.'' \<and> Peek rest \<noteq> CHR ''e'' \<and> Peek rest \<noteq> CHR ''E''"

lemma ends_value_delims [simp]:
  "ends_value []" "ends_value (CHR '','' # r)" "ends_value (CHR ''}'' # r)" "ends_value (CHR '']'' # r)"
  by (simp_all add: ends_value_def Peek_def is_digit_def)

lemma ParseString_escaped: "ParseString d out (escaped s @ rest) = Inr (out @ s, rest)"
proof (induction s arbitrary: out)
  case (Cons c cs)
  then show ?case
    by (cases "c = quote_char"; cases "c = backslash") (simp_all add: unescape_def)
qed simp

lemma SkipWhitespace_Cons: "\<not> json_space c \<Longrightarrow> SkipWhitespace (c # cs) = c # cs"
  by (simp add: SkipWhitespace_def)

lemma not_json_space [simp]:
  "\<not> json_space CHR ''{''" "\<not> json_space CHR ''[''" "\<not> json_space quote_char" "\<not> json_space CHR ''}''"
  "\<not> json_space CHR '']''" "\<not> json_space CHR '',''" "\<not> json_space CHR '':''" "\<not> json_space CHR ''t''"
  "\<not> json_space CHR ''f''" "\<not> json_space CHR ''n''" "\<not> json_space CHR ''-''"
  by (simp_all add: json_space_def)

lemma Peek_Cons [simp]: "Peek (c # cs) = c"
  by (simp add: Peek_def)

lemma digit_facts:
  "is_digit c \<Longrightarrow> \<not> json_space c \<and> c \<notin> {CHR ''{'', CHR ''['', quote_char, CHR ''t'', CHR ''f'', CHR ''n'', CHR ''-'',
     CHR ''+'', CHR ''.'', CHR ''e'', CHR ''E'', CHR '']'', CHR ''}''}"
  by (auto simp: is_digit_def json_space_def)

lemma number_token_int:
  assumes "ends_value rest"
  shows "number_token (int_to_string i @ rest) = (int_to_string i, rest)"
proof -
  obtain c cs where c: "nat_digits (nat \<bar>i\<bar>) = c # cs" "is_digit c"
    using nat_digits_Cons by blast
  have r: "rest = [] \<or> \<not> is_digit (hd rest)"
    using assms by (cases rest) (auto simp: ends_value_def)
  note d = takeWhile_digits [OF nat_digits_digits r, of "nat \<bar>i\<bar>"]
  have "Peek (nat_digits (nat \<bar>i\<bar>) @ rest) \<noteq> CHR ''-''"
    using digit_facts [OF c(2)] by (simp add: c(1))
  then have "take_sign False (int_to_string i @ rest) =
      ((if i < 0 then ''-'' else []), nat_digits (nat \<bar>i\<bar>) @ rest)"
    by (cases "i < 0") (simp_all add: take_sign_def int_to_string_def)
  then show ?thesis
    using d assms by (simp add: number_token_def Let_def ends_value_def int_to_string_def)
qed

lemma int_to_string_head:
  obtains c cs where "int_to_string i = c # cs" "c = CHR ''-'' \<or> is_digit c"
  using nat_digits_Cons [of "nat i"] by (cases "i < 0") (auto simp: int_to_string_def)

lemma int_to_string_plain: "c \<in> set (int_to_string i) \<Longrightarrow> c = CHR ''-'' \<or> is_digit c"
  using nat_digits_digits [of "nat i"] nat_digits_digits [of "nat (- i)"]
  by (auto simp: int_to_string_def list_all_iff split: if_splits)

lemma ParseNumber_int:
  assumes "ends_value rest" "json_wf (JInt i)"
  shows "ParseNumber d (int_to_string i @ rest) = Inr (JInt i, rest)"
proof -
  have "CHR ''.'' \<notin> set (int_to_string i)" "CHR ''e'' \<notin> set (int_to_string i)" "CHR ''E'' \<notin> set (int_to_string i)"
    using int_to_string_plain [of _ i] digit_facts by fastforce+
  then show ?thesis
    using assms(2) stoll_int_to_string [of i "[]"] number_token_int [OF assms(1)]
    by (simp add: ParseNumber_def)
qed

lemma ParseValue_int:
  assumes "ends_value rest" "json_wf (JInt i)"
  shows "ParseValue d len (Suc f) (int_to_string i @ rest) = Inr (JInt i, rest)"
proof -
  obtain c cs where c: "int_to_string i = c # cs" "c = CHR ''-'' \<or> is_digit c"
    using int_to_string_head by blast
  have "\<not> json_space c" "c \<notin> {CHR ''{'', CHR ''['', quote_char, CHR ''t'', CHR ''f'', CHR ''n''}"
    using c(2) digit_facts [of c] by auto
  then show ?thesis
    using c ParseNumber_int [OF assms, of d] by (simp add: SkipWhitespace_Cons)
qed

definition value_head :: "string \<Rightarrow> bool" where
  "value_head s \<longleftrightarrow> (\<exists>c cs. s = c # cs \<and> \<not> json_space c \<and> c \<noteq> CHR '']'' \<and> c \<noteq> CHR ''}'')"

lemma int_text_head: "value_head (int_to_string i)"
proof -
  obtain c cs where c: "int_to_string i = c # cs" "c = CHR ''-'' \<or> is_digit c"
    using int_to_string_head by blast
  have "\<not> json_space c" "c \<noteq> CHR '']''" "c \<noteq> CHR ''}''"
    using c(2) digit_facts [of c] by (elim disjE; simp)+
  then show ?thesis
    unfolding value_head_def using c(1) by blast
qed

lemma json_text_head:
  "json_exact v \<Longrightarrow> value_head (json_text v)"
  by (cases v) (simp_all add: int_text_head, simp_all add: value_head_def)

lemma json_text_first:
  assumes "json_exact v"
  shows "SkipWhitespace (json_text v @ rest) = json_text v @ rest" "Peek (json_text v @ rest) \<noteq> CHR '']''"
  using json_text_head [OF assms] by (auto simp: SkipWhitespace_Cons value_head_def)

lemma ParseValue_leaf:
  "ParseValue d len (Suc f) (''null'' @ rest) = Inr (JNull, rest)"
  "ParseValue d len (Suc f) (''true'' @ rest) = Inr (JBool True, rest)"
  "ParseValue d len (Suc f) (''false'' @ rest) = Inr (JBool False, rest)"
  "ParseValue d len (Suc f) (quote_char # escaped s @ rest) = Inr (JString s, rest)"
  by (simp_all add: SkipWhitespace_Cons ParseBool_def ParseNull_def ParseString_escaped)

lemma parse_text:
  "json_wf v \<Longrightarrow> json_exact v \<Longrightarrow> ends_value rest \<Longrightarrow> length (json_text v) < f \<Longrightarrow>
     ParseValue d len f (json_text v @ rest) = Inr (v, rest)"
  "ms \<noteq> [] \<Longrightarrow> json_wf (JObject (acc @ ms)) \<Longrightarrow> json_exact (JObject ms) \<Longrightarrow> length (members_text ms) < f \<Longrightarrow>
     ParseMembers d len f acc (members_text ms @ rest) = Inr (JObject (acc @ ms), rest)"
  "vs \<noteq> [] \<Longrightarrow> json_wf (JArray vs) \<Longrightarrow> json_exact (JArray vs) \<Longrightarrow> length (elements_text vs) < f \<Longrightarrow>
     ParseElements d len f acc2 (elements_text vs @ rest) = Inr (JArray (acc2 @ vs), rest)"
proof (induction v and ms and vs arbitrary: rest f and acc rest f and acc2 rest f
    rule: json_text_members_text_elements_text.induct)
  case (6 ms)
  then obtain f' where f: "f = Suc f'" by (cases f) auto
  show ?case
  proof (cases "ms = []")
    case True
    then show ?thesis by (simp add: f SkipWhitespace_Cons)
  next
    case False
    then obtain k v ms' where ms: "ms = (k, v) # ms'" by (metis neq_Nil_conv surj_pair)
    have "ParseMembers d len f' [] (members_text ms @ rest) = Inr (JObject ms, rest)"
      using 6 False by (simp add: f)
    then show ?thesis by (simp add: f ms SkipWhitespace_Cons)
  qed
next
  case (7 vs)
  then obtain f' where f: "f = Suc f'" by (cases f) auto
  show ?case
  proof (cases "vs = []")
    case True
    then show ?thesis by (simp add: f SkipWhitespace_Cons)
  next
    case False
    then obtain v vs' where vs: "vs = v # vs'" by (metis neq_Nil_conv)
    have "ParseElements d len f' [] (elements_text vs @ rest) = Inr (JArray vs, rest)"
      using 7 False by (simp add: f)
    moreover have "SkipWhitespace (elements_text vs @ rest) = elements_text vs @ rest"
        "Peek (elements_text vs @ rest) \<noteq> CHR '']''"
      using 7(3) json_text_first [of v] by (simp_all add: vs)
    ultimately show ?thesis by (simp add: f SkipWhitespace_Cons)
  qed
next
  case (9 k v ms)
  then obtain f' where f: "f = Suc f'" by (cases f) auto
  let ?more = "if ms = [] then ''}'' else CHR '','' # members_text ms"
  have v: "ParseValue d len f' (json_text v @ ?more @ rest) = Inr (v, ?more @ rest)"
    using 9(1) [of "?more @ rest" f'] 9(4-6) by (auto simp: f)
  have ms: "ParseMembers d len f' (acc @ [(k, v)]) (members_text ms @ rest) = Inr (JObject (acc @ (k, v) # ms), rest)"
    if "ms \<noteq> []"
    using 9(2) [OF that, of "acc @ [(k, v)]" f' rest] 9(4-6) that by (simp add: f)
  have k: "k \<notin> set (map fst acc)"
    using 9(4) by auto
  show ?case
    using v ms k by (cases "ms = []") (simp_all add: f SkipWhitespace_Cons ParseString_escaped Expect_def)
next
  case (11 v vs)
  then obtain f' where f: "f = Suc f'" by (cases f) auto
  let ?more = "if vs = [] then '']'' else CHR '','' # elements_text vs"
  have v: "ParseValue d len f' (json_text v @ ?more @ rest) = Inr (v, ?more @ rest)"
    using 11(1) [of "?more @ rest" f'] 11(4-6) by (auto simp: f)
  have vs: "ParseElements d len f' (acc2 @ [v]) (elements_text vs @ rest) = Inr (JArray (acc2 @ v # vs), rest)"
    if "vs \<noteq> []"
    using 11(2) [OF that, of f' "acc2 @ [v]" rest] 11(4-6) that by (simp add: f)
  show ?case
    using v vs by (cases "vs = []") (simp_all add: f SkipWhitespace_Cons)
qed (auto simp del: ParseValue.simps simp: ParseValue_leaf [simplified] ParseValue_int dest!: Suc_lessD less_imp_Suc_add)

text \<open>Only a dialect that lets number exceptions through has a parser with \<open>Uncaught\<close> results.\<close>

lemma ParseString_caught: "ParseString d out s \<noteq> Inl (Uncaught e)"
  by (induction d out s rule: ParseString.induct) (auto split: if_splits list.splits option.splits)

lemma leaf_caught:
  "ParseBool s \<noteq> Inl (Uncaught e)" "ParseNull s \<noteq> Inl (Uncaught e)" "Expect c s \<noteq> Inl (Uncaught e)"
  "ParseNumber launch_dialect s \<noteq> Inl (Uncaught e)"
  by (auto simp: ParseBool_def ParseNull_def Expect_def ParseNumber_def launch_dialect_def Let_def
      split: prod.splits sum.splits)

lemma parse_caught:
  "(\<forall>s. ParseValue launch_dialect len f s \<noteq> Inl (Uncaught e)) \<and>
   (\<forall>acc s. ParseMembers launch_dialect len f acc s \<noteq> Inl (Uncaught e)) \<and>
   (\<forall>acc s. ParseElements launch_dialect len f acc s \<noteq> Inl (Uncaught e))"
proof (induction f)
  case (Suc f)
  have V: "ParseValue launch_dialect len f s \<noteq> Inl (Uncaught e)" for s
    using Suc.IH by blast
  have M: "ParseMembers launch_dialect len f acc s \<noteq> Inl (Uncaught e)" for acc s
    using Suc.IH by blast
  have E: "ParseElements launch_dialect len f acc s \<noteq> Inl (Uncaught e)" for acc s
    using Suc.IH by blast
  note leaves = leaf_caught ParseString_caught
  show ?case
  proof (intro conjI allI)
    show "ParseValue launch_dialect len (Suc f) s \<noteq> Inl (Uncaught e)" for s
      using M E leaves by (auto simp: Let_def split: sum.splits)
    show "ParseMembers launch_dialect len (Suc f) acc s \<noteq> Inl (Uncaught e)" for acc s
      using M V leaves by (auto simp: Let_def split: sum.splits)
    show "ParseElements launch_dialect len (Suc f) acc s \<noteq> Inl (Uncaught e)" for acc s
      using E V leaves by (auto simp: Let_def split: sum.splits)
  qed
qed simp

section \<open>What the parsers do on a document\<close>

lemma ParseDocument_text:
  assumes "json_wf v" "json_exact v"
  shows "ParseDocument d (json_text v) = Inr v"
  using parse_text(1) [OF assms, of "[]" "parse_fuel (json_text v)" d "length (json_text v)"]
  by (simp add: ParseDocument_def parse_fuel_def SkipWhitespace_def)

text \<open>
  C13: Every text is answered by both parsers. Neither recurses for ever on any input; a value
  that is returned has distinct keys in every object and integers of 64 bits; and the parser of
  the launch plan turns every failure, those of the number conversions included, into the error
  its caller catches.
\<close>

theorem json_parsers_total:
  "JsonParser_ParseDocument s \<noteq> Inl OutOfFuel \<and>
   (case JsonParser_ParseDocument s of Inr v \<Rightarrow> json_wf v | Inl _ \<Rightarrow> True) \<and>
   (case JParser_ParseDocument s of Inr v \<Rightarrow> json_wf v | Inl e \<Rightarrow> \<exists>m. e = ParseError m)"
proof -
  have "JParser_ParseDocument s \<noteq> Inl (Uncaught e)" for e
    using parse_caught [of "length s" "parse_fuel s" e]
    by (auto simp: JParser_ParseDocument_def ParseDocument_def split: sum.splits)
  then show ?thesis
    using topology_parser.document_has_fuel [of s] topology_parser.document_answer [of s] launch_parser.document_answer [of s]
    by (auto simp: JParser_ParseDocument_def JsonParser_ParseDocument_def split: sum.splits)
qed

text \<open>
  C15: Round trip: both parsers read the compact text of a value (distinct keys, integers of 64
  bits, no real numbers, any strings) back as that value, at every nesting depth.
\<close>

theorem json_round_trip:
  assumes "json_wf v" "json_exact v"
  shows "JsonParser_ParseDocument (json_text v) = Inr v \<and> JParser_ParseDocument (json_text v) = Inr v"
  using ParseDocument_text [OF assms] by (simp add: JsonParser_ParseDocument_def JParser_ParseDocument_def)

theorem json_round_trip_witness:
  "let v = JObject [(''a'', JArray [JInt 1, JBool False, JNull]), (''b'', JString [quote_char, backslash])] in
   JsonParser_ParseDocument (json_text v) = Inr v \<and> JParser_ParseDocument (json_text v) = Inr v"
  unfolding Let_def by (rule json_round_trip) simp_all

text \<open>
  The parser of the topology files has no handler for the exceptions of \<^verbatim>\<open>std::stoll\<close> and
  \<^verbatim>\<open>std::stod\<close>: a lone minus sign, which the parser accepts as the start of a number, ends the
  program instead of being reported.
\<close>

lemma topology_number_exception_escapes:
  "JsonParser_ParseDocument ''-'' = Inl (Uncaught (InvalidArgument ''stoll'')) \<and>
   JParser_ParseDocument ''-'' = Inl (ParseError ''invalid number literal'')"
  by (simp add: JsonParser_ParseDocument_def JParser_ParseDocument_def ParseDocument_def parse_fuel_def
      topology_dialect_def launch_dialect_def SkipWhitespace_def json_space_def Peek_def is_digit_def
      ParseNumber_def number_token_def take_sign_def stoll_def is_space_def eval_nat_numeral)

end
