(* ===== verification/Topology_Config.thy ===== *)
theory Topology_Config
  imports Json
begin

text \<open>
  The channel topology of \<^verbatim>\<open>common/config/src/channel_topology_config.cpp\<close>: the two file
  formats of a module's channels, the merge of all modules into one index, the checks the index
  must pass, and what the runtime resolves from a channel's parameters (slot sizes, counts,
  capacities, delivery mode, the name of its shared memory). The file system is an argument: the
  content of a path, or \<open>None\<close> where it cannot be opened.
\<close>

section \<open>Data\<close>

type_synonym params = "(string \<times> string) list"

record ChannelEndpointConfig =
  ep_channel :: string
  ep_params :: params

record ModuleChannelConfig =
  mc_module :: string
  mc_inputs :: "ChannelEndpointConfig list"
  mc_outputs :: "ChannelEndpointConfig list"

record ChannelTopologyEntry =
  te_channel :: string
  te_producers :: "string list"
  te_consumers :: "string list"
  te_consumer_count :: nat
  te_params :: params

type_synonym ChannelTopologyIndex = "(string \<times> ChannelTopologyEntry) list"

datatype ShmBusDeliveryMode = kBroadcast | kCompete

datatype ChannelPayloadType = kUnknown | kProtobuf | kImage | kBinaryBlob

text \<open>A failure is reported in \<^verbatim>\<open>out_error\<close>, or leaves the function as an exception.\<close>

datatype config_error = Reported string | Escaped num_error

section \<open>Names and parameters\<close>

definition IsAllowedChannelChar :: "char \<Rightarrow> bool" where
  "IsAllowedChannelChar c \<longleftrightarrow> is_lower c \<or> is_upper c \<or> is_digit c \<or>
     c = CHR ''_'' \<or> c = CHR ''-'' \<or> c = CHR ''/'' \<or> c = CHR ''.''"

definition IsValidChannelName :: "string \<Rightarrow> bool" where
  "IsValidChannelName channel \<longleftrightarrow> channel \<noteq> [] \<and> list_all IsAllowedChannelChar channel"

definition ParseParamToken :: "string \<Rightarrow> params \<Rightarrow> string + params" where
  "ParseParamToken token ps =
     (let key = takeWhile (\<lambda>c. c \<noteq> CHR ''='') token; rest = dropWhile (\<lambda>c. c \<noteq> CHR ''='') token in
      if rest = [] \<or> key = [] \<or> tl rest = [] then Inl (''invalid parameter token: '' @ token)
      else case map_of ps key of
             None \<Rightarrow> Inr (emplace key (tl rest) ps)
           | Some old \<Rightarrow> if old \<noteq> tl rest then Inl (''conflicting duplicate parameter '' @ quoted key) else Inr ps)"

definition ParseChannelPayloadType :: "string \<Rightarrow> ChannelPayloadType" where
  "ParseChannelPayloadType v =
     (if v = [] \<or> v = ''protobuf'' \<or> v = ''proto'' then kProtobuf
      else if v = ''image'' \<or> v = ''image_binary_meta'' then kImage
      else if v = ''binary'' \<or> v = ''binary_blob'' \<or> v = ''raw'' then kBinaryBlob
      else kUnknown)"

definition ParamOrEmpty :: "params \<Rightarrow> string \<Rightarrow> string" where
  "ParamOrEmpty ps key = (case map_of ps key of None \<Rightarrow> [] | Some v \<Rightarrow> v)"

definition ParsePositiveSizeOrZero :: "string \<Rightarrow> num_error + nat" where
  "ParsePositiveSizeOrZero v =
     (if v = [] then Inr 0 else if \<not> list_all is_digit v then Inr 0 else stoull_digits v)"

section \<open>Merging the modules\<close>

definition empty_entry :: ChannelTopologyEntry where
  "empty_entry = \<lparr>te_channel = [], te_producers = [], te_consumers = [], te_consumer_count = 0, te_params = []\<rparr>"

definition entry_of :: "ChannelTopologyIndex \<Rightarrow> string \<Rightarrow> ChannelTopologyEntry" where
  "entry_of topo channel = (case map_of topo channel of None \<Rightarrow> empty_entry | Some e \<Rightarrow> e)"

text \<open>The lambda \<^verbatim>\<open>merge_params\<close>.\<close>

definition merge_param :: "string \<Rightarrow> string \<times> string \<Rightarrow> params \<Rightarrow> config_error + params" where
  "merge_param channel kv ps =
     (case map_of ps (fst kv) of
        None \<Rightarrow> Inr (emplace (fst kv) (snd kv) ps)
      | Some old \<Rightarrow>
          if old \<noteq> snd kv
          then Inl (Reported (''parameter conflict for channel '' @ quoted channel @ '' key '' @ quoted (fst kv)))
          else Inr ps)"

definition merge_params :: "string \<Rightarrow> params \<Rightarrow> ChannelTopologyIndex \<Rightarrow> config_error + ChannelTopologyIndex" where
  "merge_params channel ps topo =
     (let e = (entry_of topo channel)\<lparr>te_channel := channel\<rparr> in
      case each (merge_param channel) ps (te_params e) of
        Inl err \<Rightarrow> Inl err
      | Inr qs \<Rightarrow> Inr (assign channel (e\<lparr>te_params := qs\<rparr>) topo))"

definition add_name :: "string \<Rightarrow> string list \<Rightarrow> string list" where
  "add_name m ms = (if m \<in> set ms then ms else ms @ [m])"

definition merge_output :: "string \<Rightarrow> ChannelEndpointConfig \<Rightarrow> ChannelTopologyIndex \<Rightarrow> config_error + ChannelTopologyIndex" where
  "merge_output m ep topo =
     (case merge_params (ep_channel ep) (ep_params ep) topo of
        Inl err \<Rightarrow> Inl err
      | Inr t \<Rightarrow> (let e = entry_of t (ep_channel ep) in
                 Inr (assign (ep_channel ep) (e\<lparr>te_producers := add_name m (te_producers e)\<rparr>) t)))"

definition merge_input :: "string \<Rightarrow> ChannelEndpointConfig \<Rightarrow> ChannelTopologyIndex \<Rightarrow> config_error + ChannelTopologyIndex" where
  "merge_input m ep topo =
     (case merge_params (ep_channel ep) (ep_params ep) topo of
        Inl err \<Rightarrow> Inl err
      | Inr t \<Rightarrow>
          (let e = entry_of t (ep_channel ep) in
           if m \<in> set (te_consumers e) then Inr t
           else Inr (assign (ep_channel ep)
                  (e\<lparr>te_consumers := te_consumers e @ [m], te_consumer_count := length (te_consumers e) + 1\<rparr>) t)))"

definition MergeModule :: "ModuleChannelConfig \<Rightarrow> ChannelTopologyIndex \<Rightarrow> config_error + ChannelTopologyIndex" where
  "MergeModule mc topo =
     (case each (merge_output (mc_module mc)) (mc_outputs mc) topo of
        Inl err \<Rightarrow> Inl err
      | Inr t \<Rightarrow> each (merge_input (mc_module mc)) (mc_inputs mc) t)"

section \<open>Checks and resolution\<close>

definition ChannelPayloadTypeName :: "ChannelPayloadType \<Rightarrow> string" where
  "ChannelPayloadTypeName pt =
     (case pt of kProtobuf \<Rightarrow> ''protobuf'' | kImage \<Rightarrow> ''image'' | kBinaryBlob \<Rightarrow> ''binary'' | kUnknown \<Rightarrow> ''unknown'')"

definition ResolveChannelPayloadType :: "ChannelTopologyEntry \<Rightarrow> ChannelPayloadType" where
  "ResolveChannelPayloadType e = ParseChannelPayloadType (ParamOrEmpty (te_params e) ''payload_type'')"

definition ValidateChannelSchemaGovernance :: "ChannelTopologyEntry \<Rightarrow> config_error + unit" where
  "ValidateChannelSchemaGovernance e =
     (let pt = ResolveChannelPayloadType e; pm = ParamOrEmpty (te_params e) ''proto_message'' in
      if pt = kUnknown
      then Inl (Reported (''unknown payload_type for channel '' @ quoted (te_channel e) @ '': '' @
                          ParamOrEmpty (te_params e) ''payload_type''))
      else if pt \<noteq> kProtobuf then Inr ()
      else if pm \<noteq> [] \<and> pm \<noteq> te_channel e
      then Inl (Reported (''channel schema mismatch: channel '' @ quoted (te_channel e) @
                          '' must equal protobuf message name '' @ quoted pm))
      else Inr ())"

definition ToLowerAscii :: "string \<Rightarrow> string" where
  "ToLowerAscii s = map to_lower s"

definition IsValidShmBusDeliveryModeParamValue :: "string \<Rightarrow> bool" where
  "IsValidShmBusDeliveryModeParamValue v \<longleftrightarrow>
     v = [] \<or> ToLowerAscii v = ''broadcast'' \<or> ToLowerAscii v = ''compete''"

text \<open>The loop of \<open>BuildChannelTopologyIndex\<close> over the finished index.\<close>

definition finish_entry :: "ChannelTopologyEntry \<Rightarrow> ChannelTopologyEntry" where
  "finish_entry e = e\<lparr>te_producers := sort (te_producers e), te_consumers := sort (te_consumers e),
     te_consumer_count := length (te_consumers e)\<rparr>"

definition check_entry :: "string \<times> ChannelTopologyEntry \<Rightarrow> ChannelTopologyIndex \<Rightarrow> config_error + ChannelTopologyIndex" where
  "check_entry ce out =
     (let channel = fst ce; e = finish_entry (snd ce); dm = ParamOrEmpty (te_params e) ''delivery_mode'' in
      if length (te_producers e) > 1
      then Inl (Reported (''channel '' @ quoted channel @ '' has multiple producers''))
      else if dm \<noteq> [] \<and> \<not> IsValidShmBusDeliveryModeParamValue dm
      then Inl (Reported (''channel '' @ quoted channel @ '': invalid delivery_mode '' @ quoted dm @
                          '' (use broadcast or compete)''))
      else case ValidateChannelSchemaGovernance e of
             Inl err \<Rightarrow> Inl err
           | Inr _ \<Rightarrow> Inr (out @ [(channel, e)]))"

definition BuildChannelTopologyIndex :: "ModuleChannelConfig list \<Rightarrow> config_error + ChannelTopologyIndex" where
  "BuildChannelTopologyIndex mcs =
     (case each MergeModule mcs [] of
        Inl err \<Rightarrow> Inl err
      | Inr topo \<Rightarrow> each check_entry topo [])"

definition ResolveShmBusDeliveryModeForChannel :: "ChannelTopologyEntry option \<Rightarrow> ShmBusDeliveryMode" where
  "ResolveShmBusDeliveryModeForChannel entry =
     (case entry of
        None \<Rightarrow> kBroadcast
      | Some e \<Rightarrow> (case map_of (te_params e) ''delivery_mode'' of
                    None \<Rightarrow> kBroadcast
                  | Some v \<Rightarrow> if v = [] then kBroadcast
                              else if ToLowerAscii v = ''compete'' then kCompete else kBroadcast))"

text \<open>Numbers configured per channel; \<open>to32\<close> is the cast to \<^verbatim>\<open>std::uint32_t\<close>.\<close>

definition to32 :: "nat \<Rightarrow> nat" where
  "to32 n = n mod 2 ^ 32"

definition configured :: "ChannelTopologyEntry \<Rightarrow> string \<Rightarrow> num_error + nat" where
  "configured e key = (case map_of (te_params e) key of None \<Rightarrow> Inr 0 | Some v \<Rightarrow> ParsePositiveSizeOrZero v)"

definition ResolveShmRingConsumerCapacity :: "ChannelTopologyEntry option \<Rightarrow> nat \<Rightarrow> num_error + nat" where
  "ResolveShmRingConsumerCapacity entry default_slots =
     (let floor_default = max 1 default_slots in
      case entry of
        None \<Rightarrow> Inr floor_default
      | Some e \<Rightarrow>
          (case configured e ''shm_consumer_slots'' of
             Inl err \<Rightarrow> Inl err
           | Inr n \<Rightarrow>
               (let resolved = (if n > 0 \<and> n \<le> 2 ^ 32 - 1 then n else floor_default) in
                if te_consumer_count e = 0 then Inr resolved
                else Inr (max resolved (to32 (te_consumer_count e))))))"

definition ResolveSlotPayloadBytesForChannel :: "ChannelTopologyEntry option \<Rightarrow> nat \<Rightarrow> num_error + nat" where
  "ResolveSlotPayloadBytesForChannel entry default_bytes =
     (case entry of
        None \<Rightarrow> Inr (max 1 default_bytes)
      | Some e \<Rightarrow> (case configured e ''slot_payload_bytes'' of
                    Inl err \<Rightarrow> Inl err
                  | Inr n \<Rightarrow> Inr (if n > 0 then n else max 1 default_bytes)))"

definition ResolveShmSlotCountForChannel :: "ChannelTopologyEntry option \<Rightarrow> nat \<Rightarrow> num_error + nat" where
  "ResolveShmSlotCountForChannel entry default_count =
     (case entry of
        None \<Rightarrow> Inr (max 1 default_count)
      | Some e \<Rightarrow> (case configured e ''shm_slot_count'' of
                    Inl err \<Rightarrow> Inl err
                  | Inr n \<Rightarrow> Inr (if n = 0 \<or> n > 2 ^ 32 - 1 then max 1 default_count else n)))"

definition CanonicalShmChannelKey :: "ChannelTopologyEntry \<Rightarrow> string" where
  "CanonicalShmChannelKey e =
     (case te_producers e of
        p # _ \<Rightarrow> p @ ''__'' @ te_channel e
      | [] \<Rightarrow> (case te_consumers e of c # _ \<Rightarrow> c @ ''__'' @ te_channel e | [] \<Rightarrow> te_channel e))"

section \<open>The files of a module\<close>

text \<open>\<^verbatim>\<open>JsonScalarToString\<close>; empty for what is no scalar.\<close>

definition JsonScalarToString :: "json \<Rightarrow> string" where
  "JsonScalarToString v =
     (case v of
        JString s \<Rightarrow> s
      | JBool b \<Rightarrow> if b then ''true'' else ''false''
      | JInt i \<Rightarrow> int_to_string i
      | JReal x \<Rightarrow> format_double x
      | _ \<Rightarrow> [])"

definition is_JString :: "json \<Rightarrow> bool" where
  "is_JString v = (case v of JString _ \<Rightarrow> True | _ \<Rightarrow> False)"

definition parse_param :: "string \<Rightarrow> string \<times> json \<Rightarrow> params \<Rightarrow> config_error + params" where
  "parse_param path kv ps =
     (let scalar = JsonScalarToString (snd kv) in
      if scalar = [] \<and> \<not> is_JString (snd kv)
      then Inl (Reported (''channel param must be scalar for key '' @ quoted (fst kv) @ '' in '' @ path))
      else Inr (assign (fst kv) scalar ps))"

text \<open>One round of the loop of the lambda \<^verbatim>\<open>parse_side\<close>; the second component is the set of output channels seen.\<close>

definition parse_channel ::
  "string \<Rightarrow> bool \<Rightarrow> string \<times> json \<Rightarrow> ModuleChannelConfig \<times> string list \<Rightarrow> config_error + ModuleChannelConfig \<times> string list" where
  "parse_channel path is_output cn st =
     (let channel_name = fst cn; parsed = fst st; seen = snd st in
      if \<not> IsValidChannelName channel_name
      then Inl (Reported (''invalid channel name '' @ quoted channel_name @ '' in '' @ path))
      else case snd cn of
        JObject members \<Rightarrow>
          (case each (parse_param path) members [] of
             Inl err \<Rightarrow> Inl err
           | Inr ps \<Rightarrow>
               (let ep = \<lparr>ep_channel = channel_name, ep_params = ps\<rparr> in
                if is_output
                then (if channel_name \<in> set seen
                      then Inl (Reported (''duplicate output channel in one module: '' @ channel_name))
                      else Inr (parsed\<lparr>mc_outputs := mc_outputs parsed @ [ep]\<rparr>, channel_name # seen))
                else Inr (parsed\<lparr>mc_inputs := mc_inputs parsed @ [ep]\<rparr>, seen)))
      | _ \<Rightarrow> Inl (Reported (''channel params must be object for channel '' @ quoted channel_name @ '' in '' @ path)))"

definition empty_module :: "string \<Rightarrow> ModuleChannelConfig" where
  "empty_module m = \<lparr>mc_module = m, mc_inputs = [], mc_outputs = []\<rparr>"

definition parse_json_module :: "string \<Rightarrow> string \<Rightarrow> json \<Rightarrow> config_error + ModuleChannelConfig" where
  "parse_json_module m path doc =
     (case doc of
        JObject members \<Rightarrow>
          (case (FindJsonKey members ''input_channel'', FindJsonKey members ''output_channel'') of
             (Some (JObject ins), Some (JObject outs)) \<Rightarrow>
               (case each (parse_channel path False) ins (empty_module m, []) of
                  Inl err \<Rightarrow> Inl err
                | Inr st \<Rightarrow> (case each (parse_channel path True) outs st of
                               Inl err \<Rightarrow> Inl err
                             | Inr st' \<Rightarrow> Inr (fst st')))
           | (Some _, Some _) \<Rightarrow> Inl (Reported (''input_channel/output_channel must be objects: '' @ path))
           | _ \<Rightarrow> Inl (Reported (''JSON config must contain input_channel and output_channel: '' @ path)))
      | _ \<Rightarrow> Inl (Reported (''root must be JSON object in '' @ path)))"

text \<open>\<open>OutOfFuel\<close> never comes back from the parser (\<open>json_parsers_total\<close>).\<close>

definition ParseModuleChannelConfigJsonFile ::
  "(string \<Rightarrow> string option) \<Rightarrow> string \<Rightarrow> string \<Rightarrow> config_error + ModuleChannelConfig" where
  "ParseModuleChannelConfigJsonFile files m path =
     (case files path of
        None \<Rightarrow> Inl (Reported (''failed to open config file: '' @ path))
      | Some text \<Rightarrow>
          (case JsonParser_ParseDocument text of
             Inl (ParseError e) \<Rightarrow> Inl (Reported (''invalid JSON in '' @ path @ '': '' @ e))
           | Inl (Uncaught e) \<Rightarrow> Inl (Escaped e)
           | Inl OutOfFuel \<Rightarrow> Inl (Reported [])
           | Inr doc \<Rightarrow> parse_json_module m path doc))"

text \<open>
  The line format. The output channels seen so far are those of the parsed outputs.
\<close>

definition strip_colon :: "string \<Rightarrow> string" where
  "strip_colon role = (if role \<noteq> [] \<and> last role = CHR '':'' then butlast role else role)"

definition at_line :: "nat \<Rightarrow> string \<Rightarrow> config_error" where
  "at_line n msg = Reported (''line '' @ nat_digits n @ '': '' @ msg)"

definition parse_line :: "nat \<times> string \<Rightarrow> ModuleChannelConfig \<Rightarrow> config_error + ModuleChannelConfig" where
  "parse_line nl parsed =
     (let n = fst nl; trimmed = trim (snd nl) in
      if trimmed = [] \<or> hd trimmed = CHR ''#'' then Inr parsed
      else case words_of trimmed of
        role0 # channel # tokens \<Rightarrow>
          (let role = strip_colon role0 in
           if role \<noteq> ''input'' \<and> role \<noteq> ''output'' then Inl (at_line n ''role must be input or output'')
           else if \<not> IsValidChannelName channel then Inl (at_line n (''invalid channel name '' @ quoted channel))
           else case each ParseParamToken tokens [] of
             Inl err \<Rightarrow> Inl (at_line n err)
           | Inr ps \<Rightarrow>
               (let ep = \<lparr>ep_channel = channel, ep_params = ps\<rparr> in
                if role = ''output''
                then (if channel \<in> ep_channel ` set (mc_outputs parsed)
                      then Inl (at_line n (''duplicate output channel in one module: '' @ channel))
                      else Inr (parsed\<lparr>mc_outputs := mc_outputs parsed @ [ep]\<rparr>))
                else Inr (parsed\<lparr>mc_inputs := mc_inputs parsed @ [ep]\<rparr>)))
      | _ \<Rightarrow> Inl (at_line n (''expected '' @ quoted ''<input|output> <channel>'')))"

definition ParseModuleChannelConfigFile ::
  "(string \<Rightarrow> string option) \<Rightarrow> string \<Rightarrow> string \<Rightarrow> config_error + ModuleChannelConfig" where
  "ParseModuleChannelConfigFile files m path =
     (case files path of
        None \<Rightarrow> Inl (Reported (''failed to open config file: '' @ path))
      | Some text \<Rightarrow>
          if Peek (SkipWhitespace text) = CHR ''{'' then ParseModuleChannelConfigJsonFile files m path
          else (let ls = split_at newline text in
                each parse_line (zip [1..<length ls + 1] ls) (empty_module m)))"

definition load_module ::
  "(string \<Rightarrow> string option) \<Rightarrow> string \<times> string \<Rightarrow> ModuleChannelConfig list \<Rightarrow> config_error + ModuleChannelConfig list" where
  "load_module files mf mcs =
     (case ParseModuleChannelConfigJsonFile files (fst mf) (snd mf) of
        Inl err \<Rightarrow> Inl err
      | Inr mc \<Rightarrow> Inr (mcs @ [mc]))"

definition BuildChannelTopologyIndexFromFiles ::
  "(string \<Rightarrow> string option) \<Rightarrow> (string \<times> string) list \<Rightarrow> config_error + ChannelTopologyIndex" where
  "BuildChannelTopologyIndexFromFiles files mfs =
     (case each (load_module files) mfs [] of
        Inl err \<Rightarrow> Inl err
      | Inr mcs \<Rightarrow> BuildChannelTopologyIndex mcs)"

text \<open>
  \<^verbatim>\<open>ValidateProtoReservedFieldNumbers\<close>: a \<^verbatim>\<open>reserved\<close> line adds its numbers, another line with a
  number after its first equals sign uses that number.
\<close>

definition stoll_value :: "string \<Rightarrow> num_error + int" where
  "stoll_value s = (case stoll s of Inl e \<Rightarrow> Inl e | Inr (i, _) \<Rightarrow> Inr i)"

definition reserve_token :: "string \<Rightarrow> int set \<Rightarrow> config_error + int set" where
  "reserve_token token reserved =
     (let t = trim token; u = (if t \<noteq> [] \<and> last t = CHR '';'' then butlast t else t) in
      if u \<noteq> [] \<and> list_all is_digit u
      then (case stoll_value u of Inl e \<Rightarrow> Inl (Escaped e) | Inr i \<Rightarrow> Inr (insert i reserved))
      else Inr reserved)"

definition field_number_text :: "string \<Rightarrow> string" where
  "field_number_text trimmed =
     takeWhile is_digit (dropWhile is_space (tl (dropWhile (\<lambda>c. c \<noteq> CHR ''='') trimmed)))"

definition proto_line :: "string \<Rightarrow> int set \<Rightarrow> config_error + int set" where
  "proto_line line reserved =
     (let trimmed = trim line in
      if starts_with ''reserved '' trimmed
      then each reserve_token (split_at (CHR '','') (drop 9 trimmed)) reserved
      else if CHR ''='' \<notin> set trimmed \<or> field_number_text trimmed = [] then Inr reserved
      else case stoll_value (field_number_text trimmed) of
             Inl e \<Rightarrow> Inl (Escaped e)
           | Inr i \<Rightarrow>
               if i \<in> reserved
               then Inl (Reported (''protobuf field number '' @ int_to_string i @ '' reuses a reserved number''))
               else Inr reserved)"

definition ValidateProtoReservedFieldNumbers :: "string \<Rightarrow> config_error + unit" where
  "ValidateProtoReservedFieldNumbers text =
     (case each proto_line (split_at newline text) {} of Inl err \<Rightarrow> Inl err | Inr _ \<Rightarrow> Inr ())"

section \<open>The specification of the index\<close>

text \<open>
  What the modules say, as a list of declarations in the order the merge reads them: is it an
  output, the module, the end point.
\<close>

type_synonym channel_use = "bool \<times> string \<times> ChannelEndpointConfig"

definition declarations :: "ModuleChannelConfig \<Rightarrow> channel_use list" where
  "declarations mc = map (\<lambda>ep. (True, mc_module mc, ep)) (mc_outputs mc) @
                     map (\<lambda>ep. (False, mc_module mc, ep)) (mc_inputs mc)"

definition all_declarations :: "ModuleChannelConfig list \<Rightarrow> channel_use list" where
  "all_declarations mcs = concat (map declarations mcs)"

definition declared_channels :: "channel_use list \<Rightarrow> string set" where
  "declared_channels ds = (\<lambda>d. ep_channel (snd (snd d))) ` set ds"

definition users :: "bool \<Rightarrow> channel_use list \<Rightarrow> string \<Rightarrow> string set" where
  "users out ds c = {m. \<exists>ep. (out, m, ep) \<in> set ds \<and> ep_channel ep = c}"

definition declared_params :: "channel_use list \<Rightarrow> string \<Rightarrow> (string \<times> string) set" where
  "declared_params ds c = (\<Union>d \<in> set ds. if ep_channel (snd (snd d)) = c then set (ep_params (snd (snd d))) else {})"

definition single_valued_params :: "(string \<times> string) set \<Rightarrow> bool" where
  "single_valued_params ps \<longleftrightarrow> (\<forall>k v w. (k, v) \<in> ps \<longrightarrow> (k, w) \<in> ps \<longrightarrow> v = w)"

text \<open>What an entry of a merged index says, before and after the final loop.\<close>

definition describes :: "channel_use list \<Rightarrow> string \<Rightarrow> ChannelTopologyEntry \<Rightarrow> bool" where
  "describes ds c e \<longleftrightarrow>
     te_channel e = c \<and> distinct (te_producers e) \<and> set (te_producers e) = users True ds c \<and>
     distinct (te_consumers e) \<and> set (te_consumers e) = users False ds c \<and>
     te_consumer_count e = length (te_consumers e) \<and>
     distinct (map fst (te_params e)) \<and> set (te_params e) = declared_params ds c"

definition covers :: "channel_use list \<Rightarrow> ChannelTopologyIndex \<Rightarrow> bool" where
  "covers ds topo \<longleftrightarrow>
     distinct (map fst topo) \<and> fst ` set topo = declared_channels ds \<and>
     (\<forall>ce \<in> set topo. describes ds (fst ce) (snd ce))"

definition merge_declaration :: "channel_use \<Rightarrow> ChannelTopologyIndex \<Rightarrow> config_error + ChannelTopologyIndex" where
  "merge_declaration d = (if fst d then merge_output else merge_input) (fst (snd d)) (snd (snd d))"

lemma merge_all: "each MergeModule mcs topo = each merge_declaration (all_declarations mcs) topo"
proof -
  have "MergeModule mc t = each merge_declaration (declarations mc) t" for mc t
    by (simp add: MergeModule_def declarations_def each_append each_map merge_declaration_def split: sum.splits)
  then show ?thesis
    by (simp add: all_declarations_def each_concat each_map cong: each_cong)
qed

lemma set_emplace: "set (emplace k v al) = (if k \<in> fst ` set al then set al else insert (k, v) (set al))"
  by (auto simp: emplace_def)

lemma distinct_emplace: "distinct (map fst al) \<Longrightarrow> distinct (map fst (emplace k v al))"
  by (auto simp: emplace_def)

lemma merge_param_Inr:
  assumes "merge_param c kv ps = Inr qs" "distinct (map fst ps)"
  shows "distinct (map fst qs) \<and> set qs = insert kv (set ps)"
proof (cases "map_of ps (fst kv)")
  case None
  have "qs = emplace (fst kv) (snd kv) ps"
    using assms(1) by (simp add: merge_param_def None)
  moreover have "fst kv \<notin> fst ` set ps"
    using None by (simp add: map_of_eq_None_iff)
  ultimately show ?thesis
    using assms distinct_emplace [of ps "fst kv" "snd kv"] by (simp add: set_emplace)
next
  case (Some old)
  then have "old = snd kv" "qs = ps"
    using assms(1) by (simp_all add: merge_param_def split: if_splits)
  moreover have "kv \<in> set ps"
    using map_of_SomeD [OF Some] \<open>old = snd kv\<close> by simp
  ultimately show ?thesis
    using assms(2) by (simp add: insert_absorb)
qed

lemma merge_params_list:
  assumes "each (merge_param c) kvs ps = Inr qs" "distinct (map fst ps)"
  shows "distinct (map fst qs) \<and> set qs = set ps \<union> set kvs"
  using assms
proof (induction kvs arbitrary: ps)
  case (Cons kv kvs)
  then obtain ps' where "merge_param c kv ps = Inr ps'" "each (merge_param c) kvs ps' = Inr qs"
    by (auto split: sum.splits)
  then show ?case
    using merge_param_Inr [of c kv ps ps'] Cons by auto
qed simp

lemma merge_params_list_ok:
  assumes "distinct (map fst ps)" "single_valued_params (set ps \<union> set kvs)"
  shows "\<exists>qs. each (merge_param c) kvs ps = Inr qs"
  using assms
proof (induction kvs arbitrary: ps)
  case (Cons kv kvs)
  have "\<exists>ps'. merge_param c kv ps = Inr ps'"
  proof (cases "map_of ps (fst kv)")
    case (Some old)
    then have "old = snd kv"
      using Cons.prems(2) map_of_SomeD [OF Some] prod.collapse [of kv]
      unfolding single_valued_params_def by (metis UnI1 UnI2 list.set_intros(1))
    then show ?thesis
      using Some by (simp add: merge_param_def)
  qed (simp add: merge_param_def)
  then obtain ps' where ps': "merge_param c kv ps = Inr ps'" by blast
  then have "distinct (map fst ps')" "set ps' = insert kv (set ps)"
    using merge_param_Inr [OF ps' Cons.prems(1)] by simp_all
  then show ?case
    using Cons.IH [of ps'] Cons.prems(2) ps' by simp
qed simp

lemma entry_of_assign [simp]: "entry_of (assign c e topo) c' = (if c' = c then e else entry_of topo c')"
  by (simp add: entry_of_def)

lemma set_assign:
  "distinct (map fst al) \<Longrightarrow> set (assign k v al) = insert (k, v) {x \<in> set al. fst x \<noteq> k}"
proof (induction k v al rule: assign.induct)
  case (2 k v k' v' al)
  then show ?case
    by (auto simp: image_iff)
qed simp

text \<open>The entry a merge starts from describes the declarations so far, also where there is none.\<close>

lemma entry_of_describes:
  assumes "covers ds topo" "c \<in> declared_channels ds"
  shows "describes ds c (entry_of topo c)"
proof -
  obtain e where "(c, e) \<in> set topo"
    using assms unfolding covers_def by (metis imageE prod.collapse)
  then have "map_of topo c = Some e" "describes ds c e"
    using assms(1) by (auto simp: covers_def)
  then show ?thesis
    by (simp add: entry_of_def)
qed

lemma entry_of_new:
  assumes "covers ds topo" "c \<notin> declared_channels ds"
  shows "entry_of topo c = empty_entry" "users out ds c = {}" "declared_params ds c = {}"
proof -
  have "map_of topo c = None"
    using assms by (simp add: covers_def map_of_eq_None_iff)
  then show "entry_of topo c = empty_entry"
    by (simp add: entry_of_def)
  show "users out ds c = {}" "declared_params ds c = {}"
    using assms(2) by (force simp: users_def declared_channels_def, force simp: declared_params_def declared_channels_def)
qed

text \<open>One declaration keeps the description, and is refused only for a parameter conflict.\<close>

lemma users_snoc: "users out (ds @ [(o1, m, ep)]) c = (if o1 = out \<and> ep_channel ep = c then insert m (users out ds c) else users out ds c)"
  by (auto simp: users_def)

lemma params_snoc: "declared_params (ds @ [(o1, m, ep)]) c =
    (if ep_channel ep = c then declared_params ds c \<union> set (ep_params ep) else declared_params ds c)"
  by (auto simp: declared_params_def)

lemma channels_snoc: "declared_channels (ds @ [(o1, m, ep)]) = insert (ep_channel ep) (declared_channels ds)"
  by (auto simp: declared_channels_def)

lemma users_empty: "c \<notin> declared_channels ds \<Longrightarrow> users out ds c = {}"
  and params_empty: "c \<notin> declared_channels ds \<Longrightarrow> declared_params ds c = {}"
  by (force simp: users_def declared_channels_def, force simp: declared_params_def declared_channels_def)

lemma start_entry:
  assumes "covers ds topo"
  shows "describes ds c ((entry_of topo c)\<lparr>te_channel := c\<rparr>)"
proof (cases "c \<in> declared_channels ds")
  case True
  then show ?thesis
    using entry_of_describes [OF assms True] by (simp add: describes_def)
next
  case False
  then show ?thesis
    using entry_of_new [OF assms False] by (simp add: describes_def empty_entry_def)
qed

definition declared_entry :: "channel_use \<Rightarrow> params \<Rightarrow> ChannelTopologyEntry \<Rightarrow> ChannelTopologyEntry" where
  "declared_entry d qs e =
     (if fst d then e\<lparr>te_params := qs, te_producers := add_name (fst (snd d)) (te_producers e)\<rparr>
      else if fst (snd d) \<in> set (te_consumers e) then e\<lparr>te_params := qs\<rparr>
      else e\<lparr>te_params := qs, te_consumers := te_consumers e @ [fst (snd d)], te_consumer_count := length (te_consumers e) + 1\<rparr>)"

lemma assign_twice [simp]: "assign k v (assign k w al) = assign k v al"
  by (induction k w al rule: assign.induct) simp_all

lemma merge_declaration_cases:
  fixes d :: channel_use
  defines "ep \<equiv> snd (snd d)"
  defines "e \<equiv> \<lambda>topo. (entry_of topo (ep_channel ep))\<lparr>te_channel := ep_channel ep\<rparr>"
  shows "merge_declaration d topo =
    (case each (merge_param (ep_channel ep)) (ep_params ep) (te_params (e topo)) of
       Inl err \<Rightarrow> Inl err
     | Inr qs \<Rightarrow> Inr (assign (ep_channel ep) (declared_entry d qs (e topo)) topo))"
  by (cases "fst d"; cases "fst (snd d) \<in> set (te_consumers (entry_of topo (ep_channel ep)))")
    (simp_all add: merge_declaration_def merge_output_def merge_input_def merge_params_def declared_entry_def
      Let_def ep_def e_def split: sum.splits)

lemma declared_entry_describes:
  assumes "describes ds c e" "ep_channel ep = c" "distinct (map fst qs)" "set qs = set (te_params e) \<union> set (ep_params ep)"
  shows "describes (ds @ [(o1, m, ep)]) c (declared_entry (o1, m, ep) qs e)"
  using assms by (auto simp: describes_def declared_entry_def users_snoc params_snoc add_name_def)

lemma merge_declaration_covers:
  assumes cov: "covers ds topo" and m: "merge_declaration d topo = Inr topo'"
  shows "covers (ds @ [d]) topo'"
proof -
  obtain o1 m1 ep where d: "d = (o1, m1, ep)" by (cases d)
  let ?c = "ep_channel ep" and ?e = "(entry_of topo (ep_channel ep))\<lparr>te_channel := ep_channel ep\<rparr>"
  have start: "describes ds ?c ?e"
    by (rule start_entry [OF cov])
  obtain qs where qs: "each (merge_param ?c) (ep_params ep) (te_params ?e) = Inr qs"
      "topo' = assign ?c (declared_entry d qs ?e) topo"
    using m by (auto simp: merge_declaration_cases d split: sum.splits)
  have new: "describes (ds @ [d]) ?c (declared_entry d qs ?e)"
    using merge_params_list [OF qs(1)] start declared_entry_describes [OF start refl]
    by (simp add: describes_def d)
  have old: "describes (ds @ [d]) c e" if "describes ds c e" "c \<noteq> ?c" for c e
    using that by (simp add: describes_def d users_snoc params_snoc)
  have dist: "distinct (map fst topo)"
    using cov by (simp add: covers_def)
  show ?thesis
    using cov new old distinct_assign [OF dist] unfolding covers_def qs(2)
    by (auto simp: set_assign [OF dist] d channels_snoc)
qed

lemma merge_declarations_cover:
  assumes "each merge_declaration es topo = Inr topo'" "covers ds topo"
  shows "covers (ds @ es) topo'"
  using assms
proof (induction es arbitrary: ds topo)
  case (Cons d es)
  then obtain t where t: "merge_declaration d topo = Inr t" "each merge_declaration es t = Inr topo'"
    by (auto split: sum.splits)
  then show ?case
    using Cons.IH [OF t(2) merge_declaration_covers [OF Cons.prems(2) t(1)]] by simp
qed simp

lemma merge_declarations_ok:
  assumes "covers ds topo" "\<forall>c. single_valued_params (declared_params (ds @ es) c)"
  shows "\<exists>topo'. each merge_declaration es topo = Inr topo'"
  using assms
proof (induction es arbitrary: ds topo)
  case (Cons d es)
  obtain o1 m1 ep where d: "d = (o1, m1, ep)" by (cases d)
  let ?c = "ep_channel ep" and ?e = "(entry_of topo (ep_channel ep))\<lparr>te_channel := ep_channel ep\<rparr>"
  have start: "describes ds ?c ?e"
    by (rule start_entry [OF Cons.prems(1)])
  have "set (te_params ?e) \<union> set (ep_params ep) \<subseteq> declared_params (ds @ d # es) ?c"
    using start by (auto simp: describes_def d declared_params_def)
  then have "single_valued_params (set (te_params ?e) \<union> set (ep_params ep))"
    using Cons.prems(2) unfolding single_valued_params_def by blast
  then obtain qs where "each (merge_param ?c) (ep_params ep) (te_params ?e) = Inr qs"
    using merge_params_list_ok start unfolding describes_def by blast
  then obtain t where t: "merge_declaration d topo = Inr t"
    by (simp add: merge_declaration_cases d)
  then show ?case
    using Cons.IH [OF merge_declaration_covers [OF Cons.prems(1) t]] Cons.prems(2) by simp
qed simp

section \<open>Which topologies are accepted\<close>

definition entry_passes :: "ChannelTopologyEntry \<Rightarrow> bool" where
  "entry_passes e \<longleftrightarrow>
     length (te_producers e) \<le> 1 \<and>
     IsValidShmBusDeliveryModeParamValue (ParamOrEmpty (te_params e) ''delivery_mode'') \<and>
     ValidateChannelSchemaGovernance e = Inr ()"

lemma governance_finish [simp]: "ValidateChannelSchemaGovernance (finish_entry e) = ValidateChannelSchemaGovernance e"
  by (simp add: ValidateChannelSchemaGovernance_def ResolveChannelPayloadType_def finish_entry_def Let_def)

lemma check_entry_Inr:
  "check_entry ce out = Inr res \<longleftrightarrow> entry_passes (snd ce) \<and> res = out @ [(fst ce, finish_entry (snd ce))]"
proof -
  have "te_params (finish_entry e) = te_params e" "length (te_producers (finish_entry e)) = length (te_producers e)" for e
    by (simp_all add: finish_entry_def)
  then show ?thesis
    by (auto simp: check_entry_def entry_passes_def Let_def IsValidShmBusDeliveryModeParamValue_def not_less
        split: sum.splits)
qed

lemma check_entries_Inr:
  "each check_entry topo out = Inr res \<longleftrightarrow>
     list_all (\<lambda>ce. entry_passes (snd ce)) topo \<and> res = out @ map (\<lambda>ce. (fst ce, finish_entry (snd ce))) topo"
proof (induction topo arbitrary: out)
  case (Cons ce topo)
  have "each check_entry (ce # topo) out = Inr res \<longleftrightarrow>
      (\<exists>r. check_entry ce out = Inr r \<and> each check_entry topo r = Inr res)"
    by (simp split: sum.splits)
  then show ?case
    by (simp add: check_entry_Inr Cons.IH)
qed auto

text \<open>
  The rules for the declarations of one channel: parameters do not conflict, at most one module
  produces, the delivery mode is one of the two, the payload type is known, and a protobuf channel
  is named after its message.
\<close>

definition acceptable_channel :: "channel_use list \<Rightarrow> string \<Rightarrow> bool" where
  "acceptable_channel ds c \<longleftrightarrow>
     (let ps = declared_params ds c in
      single_valued_params ps \<and>
      (\<forall>m n. m \<in> users True ds c \<longrightarrow> n \<in> users True ds c \<longrightarrow> m = n) \<and>
      (\<forall>v. (''delivery_mode'', v) \<in> ps \<longrightarrow> IsValidShmBusDeliveryModeParamValue v) \<and>
      (\<forall>v. (''payload_type'', v) \<in> ps \<longrightarrow> ParseChannelPayloadType v \<noteq> kUnknown) \<and>
      (\<forall>v. (''proto_message'', v) \<in> ps \<longrightarrow> v = [] \<or> v = c \<or>
           (\<exists>w. (''payload_type'', w) \<in> ps \<and> ParseChannelPayloadType w \<noteq> kProtobuf)))"

lemma ParamOrEmpty_all:
  assumes "distinct (map fst ps)" "P []"
  shows "P (ParamOrEmpty ps k) \<longleftrightarrow> (\<forall>v. (k, v) \<in> set ps \<longrightarrow> P v)"
proof -
  have "(k, v) \<in> set ps \<longleftrightarrow> map_of ps k = Some v" for v
    using assms(1) by simp
  then show ?thesis
    using assms(2) by (simp add: ParamOrEmpty_def split: option.splits)
qed

lemma payload_empty [simp]: "ParseChannelPayloadType [] = kProtobuf"
  by (simp add: ParseChannelPayloadType_def)

lemma payload_protobuf:
  assumes "distinct (map fst ps)"
  shows "ParseChannelPayloadType (ParamOrEmpty ps k) \<noteq> kProtobuf \<longleftrightarrow>
         (\<exists>w. (k, w) \<in> set ps \<and> ParseChannelPayloadType w \<noteq> kProtobuf)"
  using ParamOrEmpty_all [OF assms, of "\<lambda>v. ParseChannelPayloadType v = kProtobuf" k] by auto

lemma distinct_length_le_1: "distinct xs \<Longrightarrow> length xs \<le> 1 \<longleftrightarrow> (\<forall>x y. x \<in> set xs \<longrightarrow> y \<in> set xs \<longrightarrow> x = y)"
  by (cases xs; cases "tl xs") auto

lemma single_valued_distinct: "distinct (map fst ps) \<Longrightarrow> single_valued_params (set ps)"
  by (auto simp: single_valued_params_def dest: eq_key_imp_eq_value)

lemma entry_passes_iff:
  assumes "describes ds c e"
  shows "entry_passes e \<longleftrightarrow> acceptable_channel ds c"
proof -
  have e: "te_channel e = c" "distinct (te_producers e)" "set (te_producers e) = users True ds c"
      "distinct (map fst (te_params e))" "set (te_params e) = declared_params ds c"
    using assms by (simp_all add: describes_def)
  have delivery: "IsValidShmBusDeliveryModeParamValue (ParamOrEmpty (te_params e) k) \<longleftrightarrow>
      (\<forall>v. (k, v) \<in> declared_params ds c \<longrightarrow> IsValidShmBusDeliveryModeParamValue v)" for k
    using ParamOrEmpty_all [OF e(4), of IsValidShmBusDeliveryModeParamValue k] e(5)
    by (simp add: IsValidShmBusDeliveryModeParamValue_def)
  have known: "ParseChannelPayloadType (ParamOrEmpty (te_params e) k) \<noteq> kUnknown \<longleftrightarrow>
      (\<forall>v. (k, v) \<in> declared_params ds c \<longrightarrow> ParseChannelPayloadType v \<noteq> kUnknown)" for k
    using ParamOrEmpty_all [OF e(4), of "\<lambda>v. ParseChannelPayloadType v \<noteq> kUnknown" k] e(5) by simp
  have proto: "(ParamOrEmpty (te_params e) k = [] \<or> ParamOrEmpty (te_params e) k = c \<or> Q) \<longleftrightarrow>
      (\<forall>v. (k, v) \<in> declared_params ds c \<longrightarrow> v = [] \<or> v = c \<or> Q)" for k Q
    using ParamOrEmpty_all [OF e(4), of "\<lambda>v. v = [] \<or> v = c \<or> Q" k] e(5) by simp
  have governance: "ValidateChannelSchemaGovernance e = Inr () \<longleftrightarrow>
      ParseChannelPayloadType (ParamOrEmpty (te_params e) ''payload_type'') \<noteq> kUnknown \<and>
      (ParamOrEmpty (te_params e) ''proto_message'' = [] \<or> ParamOrEmpty (te_params e) ''proto_message'' = c \<or>
       ParseChannelPayloadType (ParamOrEmpty (te_params e) ''payload_type'') \<noteq> kProtobuf)"
    by (auto simp: ValidateChannelSchemaGovernance_def ResolveChannelPayloadType_def Let_def e(1))
  show ?thesis
    unfolding entry_passes_def acceptable_channel_def Let_def governance known proto delivery
      payload_protobuf [OF e(4)] distinct_length_le_1 [OF e(2)] e(3) e(5)
    using single_valued_distinct [OF e(4)] unfolding e(5) by blast
qed

lemma build_topology:
  "BuildChannelTopologyIndex mcs = Inr topo \<longleftrightarrow>
     (\<exists>merged. each merge_declaration (all_declarations mcs) [] = Inr merged \<and>
        list_all (\<lambda>ce. entry_passes (snd ce)) merged \<and> topo = map (\<lambda>ce. (fst ce, finish_entry (snd ce))) merged)"
  by (auto simp: BuildChannelTopologyIndex_def merge_all check_entries_Inr split: sum.splits)

lemma covers_nothing: "covers [] []"
  by (simp add: covers_def declared_channels_def)

lemma finish_describes: "describes ds c e \<Longrightarrow> describes ds c (finish_entry e)"
  by (simp add: describes_def finish_entry_def)

lemma build_covers:
  assumes "BuildChannelTopologyIndex mcs = Inr topo"
  shows "covers (all_declarations mcs) topo"
    "ce \<in> set topo \<Longrightarrow> sorted (te_producers (snd ce)) \<and> sorted (te_consumers (snd ce)) \<and> length (te_producers (snd ce)) \<le> 1"
proof -
  obtain merged where m: "each merge_declaration (all_declarations mcs) [] = Inr merged"
      "list_all (\<lambda>ce. entry_passes (snd ce)) merged" "topo = map (\<lambda>ce. (fst ce, finish_entry (snd ce))) merged"
    using assms build_topology by blast
  have "covers (all_declarations mcs) merged"
    using merge_declarations_cover [OF m(1) covers_nothing] by simp
  then show "covers (all_declarations mcs) topo"
    by (auto simp: covers_def m(3) finish_describes image_image o_def)
  show "sorted (te_producers (snd ce)) \<and> sorted (te_consumers (snd ce)) \<and> length (te_producers (snd ce)) \<le> 1"
    if "ce \<in> set topo"
    using that m(2) by (auto simp: m(3) finish_entry_def list_all_iff entry_passes_def)
qed

lemma build_never_escapes: "BuildChannelTopologyIndex mcs \<noteq> Inl (Escaped e)"
proof
  assume "BuildChannelTopologyIndex mcs = Inl (Escaped e)"
  then consider "each merge_declaration (all_declarations mcs) [] = Inl (Escaped e)"
    | topo where "each check_entry topo [] = Inl (Escaped e)"
    by (auto simp: BuildChannelTopologyIndex_def merge_all split: sum.splits)
  then show False
  proof cases
    case 1
    then obtain d topo where "merge_declaration d topo = Inl (Escaped e)"
      using each_Inl [OF 1] by blast
    then obtain kv ps c where "merge_param c kv ps = Inl (Escaped e)"
      by (auto simp: merge_declaration_cases split: sum.splits dest!: each_Inl)
    then show False
      by (auto simp: merge_param_def split: option.splits if_splits)
  next
    case 2
    then obtain ce out where "check_entry ce out = Inl (Escaped e)"
      using each_Inl [OF 2] by blast
    then show False
      by (auto simp: check_entry_def ValidateChannelSchemaGovernance_def Let_def split: sum.splits if_splits)
  qed
qed

definition topology_example :: "ModuleChannelConfig list" where
  "topology_example =
     [\<lparr>mc_module = ''camera'', mc_inputs = [],
       mc_outputs = [\<lparr>ep_channel = ''Frame'', ep_params = [(''payload_type'', ''image'')]\<rparr>]\<rparr>,
      \<lparr>mc_module = ''detect'', mc_inputs = [\<lparr>ep_channel = ''Frame'', ep_params = [(''delivery_mode'', ''Compete'')]\<rparr>],
       mc_outputs = []\<rparr>,
      \<lparr>mc_module = ''archive'', mc_inputs = [\<lparr>ep_channel = ''Frame'', ep_params = []\<rparr>], mc_outputs = []\<rparr>]"

text \<open>
  C36: An accepted index holds exactly the channels the modules declare, each once; the entry of a
  channel lists exactly the modules that output it (at most one) and exactly those that read it,
  without repetition and in order, counts its readers, and has exactly the parameters its end
  points give, each key once.
\<close>

theorem topology_index_content:
  assumes "BuildChannelTopologyIndex mcs = Inr topo"
  shows "covers (all_declarations mcs) topo \<and>
    (\<forall>ce \<in> set topo. sorted (te_producers (snd ce)) \<and> sorted (te_consumers (snd ce)) \<and> length (te_producers (snd ce)) \<le> 1)"
  using build_covers [OF assms] by blast

lemma topology_example_index:
  "BuildChannelTopologyIndex topology_example =
     Inr [(''Frame'', \<lparr>te_channel = ''Frame'', te_producers = [''camera''], te_consumers = [''archive'', ''detect''],
           te_consumer_count = 2, te_params = [(''payload_type'', ''image''), (''delivery_mode'', ''Compete'')]\<rparr>)]"
  by code_simp

theorem topology_index_content_witness:
  "\<exists>topo. BuildChannelTopologyIndex topology_example = Inr topo \<and> covers (all_declarations topology_example) topo"
  using topology_index_content [OF topology_example_index] topology_example_index by blast

text \<open>
  C14: The index is built exactly for the module sets that keep the rules: no two end points of a
  channel give a parameter different values, no channel has two producers, and every delivery
  mode, payload type and message name is valid.
\<close>

theorem topology_accepts_exactly:
  "(\<exists>topo. BuildChannelTopologyIndex mcs = Inr topo) \<longleftrightarrow>
     (\<forall>c. acceptable_channel (all_declarations mcs) c)"
proof -
  let ?ds = "all_declarations mcs"
  have elsewhere: "acceptable_channel ?ds c" if "c \<notin> declared_channels ?ds" for c
    using users_empty [OF that] params_empty [OF that]
    by (simp add: acceptable_channel_def single_valued_params_def)
  have passes: "list_all (\<lambda>ce. entry_passes (snd ce)) merged \<longleftrightarrow> (\<forall>c. acceptable_channel ?ds c)"
    if "each merge_declaration ?ds [] = Inr merged" for merged
  proof -
    have cov: "covers ?ds merged"
      using merge_declarations_cover [OF that covers_nothing] by simp
    then have "list_all (\<lambda>ce. entry_passes (snd ce)) merged \<longleftrightarrow> (\<forall>ce \<in> set merged. acceptable_channel ?ds (fst ce))"
      using entry_passes_iff [of ?ds] unfolding covers_def list_all_iff by blast
    also have "\<dots> \<longleftrightarrow> (\<forall>c \<in> declared_channels ?ds. acceptable_channel ?ds c)"
      using cov unfolding covers_def by (metis (no_types, lifting) imageE image_eqI)
    finally show ?thesis
      using elsewhere by blast
  qed
  have merges: "\<exists>merged. each merge_declaration ?ds [] = Inr merged" if "\<forall>c. acceptable_channel ?ds c"
    using merge_declarations_ok [OF covers_nothing, of ?ds] that by (simp add: acceptable_channel_def Let_def)
  show ?thesis
    unfolding build_topology using passes merges by blast
qed

section \<open>What the runtime resolves\<close>

lemma ParsePositiveSizeOrZero_bound: "ParsePositiveSizeOrZero v = Inr n \<Longrightarrow> n < 2 ^ 64"
  by (auto simp: ParsePositiveSizeOrZero_def stoull_digits_def split: if_splits)

lemma configured_bound: "configured e key = Inr n \<Longrightarrow> n < 2 ^ 64"
  by (auto simp: configured_def split: option.splits dest: ParsePositiveSizeOrZero_bound)

text \<open>
  Whatever a channel configures, the ring dimensions the runtime resolves are usable: the
  capacity for consumers and the number of slots lie between 1 and \<open>2 ^ 32 - 1\<close>, a slot holds at
  least one byte, there is a consumer place for every declared consumer, and a number that is
  configured within the bounds is the one used.
\<close>

lemma resolved_dimensions_usable:
  assumes "defaults < 2 ^ 32" "te_consumer_count e < 2 ^ 32"
    "ResolveShmRingConsumerCapacity (Some e) defaults = Inr consumers"
    "ResolveShmSlotCountForChannel (Some e) defaults = Inr slots"
    "ResolveSlotPayloadBytesForChannel (Some e) payload_default = Inr bytes"
  shows "1 \<le> consumers \<and> consumers < 2 ^ 32 \<and> te_consumer_count e \<le> consumers \<and>
    1 \<le> slots \<and> slots < 2 ^ 32 \<and> 1 \<le> bytes \<and>
    (\<forall>n. configured e ''shm_consumer_slots'' = Inr n \<longrightarrow> 0 < n \<longrightarrow> n < 2 ^ 32 \<longrightarrow>
       consumers = max n (te_consumer_count e)) \<and>
    (\<forall>n. configured e ''shm_slot_count'' = Inr n \<longrightarrow> 0 < n \<longrightarrow> n < 2 ^ 32 \<longrightarrow> slots = n) \<and>
    (\<forall>n. configured e ''slot_payload_bytes'' = Inr n \<longrightarrow> 0 < n \<longrightarrow> bytes = n)"
proof -
  have count: "to32 (te_consumer_count e) = te_consumer_count e"
    using assms(2) by (simp add: to32_def)
  have "1 \<le> consumers \<and> consumers < 2 ^ 32 \<and> te_consumer_count e \<le> consumers \<and>
    (\<forall>n. configured e ''shm_consumer_slots'' = Inr n \<longrightarrow> 0 < n \<longrightarrow> n < 2 ^ 32 \<longrightarrow>
       consumers = max n (te_consumer_count e))"
    using assms(1-3) by (auto simp: ResolveShmRingConsumerCapacity_def Let_def count split: sum.splits if_splits)
  moreover have "1 \<le> slots \<and> slots < 2 ^ 32 \<and>
    (\<forall>n. configured e ''shm_slot_count'' = Inr n \<longrightarrow> 0 < n \<longrightarrow> n < 2 ^ 32 \<longrightarrow> slots = n)"
    using assms(1,4) by (auto simp: ResolveShmSlotCountForChannel_def split: sum.splits if_splits)
  moreover have "1 \<le> bytes \<and> (\<forall>n. configured e ''slot_payload_bytes'' = Inr n \<longrightarrow> 0 < n \<longrightarrow> bytes = n)"
    using assms(5) by (auto simp: ResolveSlotPayloadBytesForChannel_def split: sum.splits if_splits)
  ultimately show ?thesis by blast
qed

definition sized_entry :: ChannelTopologyEntry where
  "sized_entry = \<lparr>te_channel = ''Frame'', te_producers = [''camera''], te_consumers = [''archive''],
     te_consumer_count = 1, te_params = [(''shm_slot_count'', ''16''), (''shm_consumer_slots'', ''4'')]\<rparr>"

lemma sized_entry_values:
  "ResolveShmRingConsumerCapacity (Some sized_entry) 8 = Inr 4"
  "ResolveShmSlotCountForChannel (Some sized_entry) 8 = Inr 16"
  "ResolveSlotPayloadBytesForChannel (Some sized_entry) 4096 = Inr 4096"
  by (simp_all add: ResolveShmRingConsumerCapacity_def ResolveShmSlotCountForChannel_def
      ResolveSlotPayloadBytesForChannel_def configured_def sized_entry_def ParsePositiveSizeOrZero_def
      stoull_digits_def digits_value_def digit_value_def is_digit_def to32_def)

text \<open>
  The name of a channel's shared memory joins module and channel by two underscores, which either
  may contain: two channels of an accepted topology can get the same memory.
\<close>

definition colliding_modules :: "ModuleChannelConfig list" where
  "colliding_modules =
     [\<lparr>mc_module = ''cam'', mc_inputs = [], mc_outputs = [\<lparr>ep_channel = ''left__frame'', ep_params = []\<rparr>]\<rparr>,
      \<lparr>mc_module = ''cam__left'', mc_inputs = [], mc_outputs = [\<lparr>ep_channel = ''frame'', ep_params = []\<rparr>]\<rparr>]"

text \<open>
  Where no module name contains an underscore, the shared-memory key of a produced channel
  determines the module and the channel, so no two channels share memory.
\<close>

lemma shm_keys_unambiguous:
  assumes "CHR ''_'' \<notin> set m" "CHR ''_'' \<notin> set n"
    "te_producers e = m # ps" "te_producers f = n # qs"
    "CanonicalShmChannelKey e = CanonicalShmChannelKey f"
  shows "m = n \<and> te_channel e = te_channel f"
proof -
  have eq: "m @ ''__'' @ te_channel e = n @ ''__'' @ te_channel f"
    using assms(3-5) by (simp add: CanonicalShmChannelKey_def)
  have split: "takeWhile (\<lambda>c. c \<noteq> CHR ''_'') (k @ ''__'' @ c) = k" if "CHR ''_'' \<notin> set k" for k c
    using that by (induction k) auto
  have "m = n"
    using split [OF assms(1), of "te_channel e"] split [OF assms(2), of "te_channel f"] eq by simp
  then show ?thesis
    using eq by simp
qed

lemma shm_keys_collide:
  "case BuildChannelTopologyIndex colliding_modules of
     Inl _ \<Rightarrow> False
   | Inr topo \<Rightarrow> map fst topo = [''left__frame'', ''frame''] \<and>
       map (\<lambda>ce. CanonicalShmChannelKey (snd ce)) topo = [''cam__left__frame'', ''cam__left__frame'']"
  by code_simp

section \<open>What the files are read as\<close>

definition module_valid :: "string \<Rightarrow> ModuleChannelConfig \<Rightarrow> bool" where
  "module_valid m mc \<longleftrightarrow>
     mc_module mc = m \<and> distinct (map ep_channel (mc_outputs mc)) \<and>
     (\<forall>ep \<in> set (mc_inputs mc @ mc_outputs mc). IsValidChannelName (ep_channel ep) \<and> distinct (map fst (ep_params ep)))"

lemma empty_module_valid: "module_valid m (empty_module m)"
  by (simp add: module_valid_def empty_module_def)

lemma parse_param_distinct: "parse_param path kv ps = Inr qs \<Longrightarrow> distinct (map fst ps) \<Longrightarrow> distinct (map fst qs)"
  by (auto simp: parse_param_def Let_def distinct_assign split: if_splits)

lemma parse_channel_valid:
  assumes "parse_channel path out cn st = Inr st'" "module_valid m (fst st)" "set (snd st) = ep_channel ` set (mc_outputs (fst st))"
  shows "module_valid m (fst st') \<and> set (snd st') = ep_channel ` set (mc_outputs (fst st'))"
proof -
  obtain members ps where "snd cn = JObject members" "each (parse_param path) members [] = Inr ps"
    using assms(1) by (auto simp: parse_channel_def Let_def split: if_splits json.splits sum.splits)
  moreover have "distinct (map fst ps)"
    by (rule each_invariant [OF calculation(2), where P = "\<lambda>ps. distinct (map fst ps)"])
      (simp_all add: parse_param_distinct)
  ultimately show ?thesis
    using assms by (auto simp: parse_channel_def module_valid_def Let_def split: if_splits)
qed

lemma parse_channels_valid:
  assumes "each (parse_channel path out) cns st = Inr st'" "module_valid m (fst st)"
    "set (snd st) = ep_channel ` set (mc_outputs (fst st))"
  shows "module_valid m (fst st') \<and> set (snd st') = ep_channel ` set (mc_outputs (fst st'))"
  by (rule each_invariant [OF assms(1), where P = "\<lambda>st. module_valid m (fst st) \<and> set (snd st) = ep_channel ` set (mc_outputs (fst st))"])
    (simp add: assms(2,3), rule parse_channel_valid, assumption, simp_all only: conj_absorb simp_thms)

lemma parse_json_module_valid:
  assumes "parse_json_module m path doc = Inr mc"
  shows "module_valid m mc"
proof -
  obtain ins outs st st' where st: "each (parse_channel path False) ins (empty_module m, []) = Inr st"
      "each (parse_channel path True) outs st = Inr st'" "mc = fst st'"
    using assms by (auto simp: parse_json_module_def split: json.splits option.splits sum.splits)
  have "module_valid m (fst st) \<and> set (snd st) = ep_channel ` set (mc_outputs (fst st))"
    by (rule parse_channels_valid [OF st(1)]) (simp add: empty_module_valid, simp add: empty_module_def)
  then show ?thesis
    using parse_channels_valid [OF st(2)] st(3) by simp
qed

lemma json_file_valid: "ParseModuleChannelConfigJsonFile files m path = Inr mc \<Longrightarrow> module_valid m mc"
  by (auto simp: ParseModuleChannelConfigJsonFile_def parse_json_module_valid
      split: option.splits sum.splits json_error.splits)

lemma ParseParamToken_distinct: "ParseParamToken tok ps = Inr qs \<Longrightarrow> distinct (map fst ps) \<Longrightarrow> distinct (map fst qs)"
  by (auto simp: ParseParamToken_def Let_def distinct_emplace split: if_splits option.splits)

lemma parse_line_valid:
  assumes "parse_line nl mc = Inr mc'" "module_valid m mc"
  shows "module_valid m mc'"
proof -
  have params: "distinct (map fst ps)" if "each ParseParamToken toks [] = Inr ps" for toks ps
    by (rule each_invariant [OF that, where P = "\<lambda>ps. distinct (map fst ps)"]) (simp_all add: ParseParamToken_distinct)
  show ?thesis
  proof (cases "trim (snd nl) = [] \<or> hd (trim (snd nl)) = CHR ''#''")
    case True
    then show ?thesis using assms by (simp add: parse_line_def)
  next
    case False
    then obtain role0 channel toks where words: "words_of (trim (snd nl)) = role0 # channel # toks"
      using assms(1) by (auto simp: parse_line_def Let_def split: list.splits)
    note line = assms(1) [unfolded parse_line_def Let_def words list.case if_not_P [OF False]]
    have valid: "IsValidChannelName channel"
      using line by (auto split: if_splits)
    obtain ps where ps: "each ParseParamToken toks [] = Inr ps"
      using line by (cases "each ParseParamToken toks []") (auto split: if_splits)
    show ?thesis
      using line assms(2) valid params [OF ps] by (auto simp: module_valid_def ps split: if_splits)
  qed
qed

definition topology_files :: "string \<Rightarrow> string option" where
  "topology_files path =
     (if path = ''cam.txt'' then Some (''output: Frame payload_type=image'' @ [newline] @ ''# done'') else None)"

text \<open>
  A module file that is accepted, in either format, declares valid channel names only, no
  output twice, and no parameter of an end point twice.
\<close>

lemma module_file_valid:
  assumes "ParseModuleChannelConfigFile files m path = Inr mc"
  shows "module_valid m mc"
proof (cases "files path")
  case None
  then show ?thesis using assms by (simp add: ParseModuleChannelConfigFile_def)
next
  case (Some content)
  show ?thesis
  proof (cases "Peek (SkipWhitespace content) = CHR ''{''")
    case True
    then show ?thesis
      using assms Some json_file_valid by (simp add: ParseModuleChannelConfigFile_def)
  next
    case False
    then have "each parse_line (zip [1..<length (split_at newline content) + 1] (split_at newline content)) (empty_module m) = Inr mc"
      using assms Some by (simp add: ParseModuleChannelConfigFile_def Let_def)
    then show ?thesis
      by (rule each_invariant) (simp_all add: empty_module_valid parse_line_valid)
  qed
qed

lemma topology_file_example:
  "ParseModuleChannelConfigFile topology_files ''camera'' ''cam.txt'' =
     Inr \<lparr>mc_module = ''camera'', mc_inputs = [],
          mc_outputs = [\<lparr>ep_channel = ''Frame'', ep_params = [(''payload_type'', ''image'')]\<rparr>]\<rparr>"
  by code_simp

text \<open>A reserved range is not understood: the field number 3 is let through.\<close>

lemma reserved_range_ignored:
  "ValidateProtoReservedFieldNumbers (''reserved 2 to 5;'' @ [newline] @ ''int32 a = 3;'') = Inr () \<and>
   ValidateProtoReservedFieldNumbers (''reserved 3;'' @ [newline] @ ''int32 a = 3;'') \<noteq> Inr ()"
  by code_simp

end
