(* ===== verification/Shm_Segment.thy ===== *)
theory Shm_Segment
  imports Ring_Spec Topology_Config
begin

text \<open>
  POSIX shared-memory segments, \<^verbatim>\<open>common/comm/src/shm_segment.cpp\<close>: the names, the segment header,
  creating and attaching. The system's objects are a map from names to objects; an object is its
  size, its segment header and the ring behind the header. What \<^verbatim>\<open>shm_open\<close>, \<^verbatim>\<open>ftruncate\<close>,
  \<^verbatim>\<open>fstat\<close> and \<^verbatim>\<open>mmap\<close> answer is an argument of the call.
\<close>

section \<open>Names\<close>

definition IsNameCharAllowed :: "char \<Rightarrow> bool" where
  "IsNameCharAllowed c \<longleftrightarrow> is_lower c \<or> is_upper c \<or> is_digit c \<or> c = CHR ''_'' \<or> c = CHR ''-''"

definition BuildDeterministicShmName :: "string \<Rightarrow> string" where
  "BuildDeterministicShmName channel =
     (let sanitized = map (\<lambda>c. if IsNameCharAllowed c then c else CHR ''_'') channel in
      ''/mould_comm_'' @ (if sanitized = [] then ''default'' else sanitized))"

section \<open>Objects\<close>

record SegmentHeader =
  seg_magic :: u32
  seg_version :: u16
  seg_payload_capacity :: u64

record ShmSegmentLayout =
  lay_magic :: u32
  lay_version :: u16
  lay_payload_capacity :: u64

definition layout_for :: "u64 \<Rightarrow> ShmSegmentLayout" where
  "layout_for capacity = \<lparr>lay_magic = 0x4d4f554c, lay_version = 1, lay_payload_capacity = capacity\<rparr>"

record shm_object =
  obj_size :: u64
  obj_header :: SegmentHeader
  obj_ring :: ring

type_synonym posix_shm = "string \<Rightarrow> shm_object option"

text \<open>Memory of zeros, as \<^verbatim>\<open>memset\<close> leaves it: no field of the ring header is set.\<close>

definition zero_memory :: ring where
  "zero_memory =
     \<lparr>header = (fresh_header 0 0 0)\<lparr>magic := 0, version := 0, next_sequence := 0, reclaim_sequence := 0, membership_generation := 0\<rparr>,
      consumers = [], notification_mappings = [], slots = [], payload_region = []\<rparr>"

record shm_answers =
  sa_create :: bool
  sa_truncate :: bool
  sa_open :: bool
  sa_stat :: bool
  sa_map :: bool

record ShmSegment =
  ss_name :: string
  ss_size_bytes :: u64
  ss_owner :: bool

definition ShmSegmentHeaderSizeBytes :: u64 where
  "ShmSegmentHeaderSizeBytes = 16"

definition ComputeSegmentSize :: "ShmSegmentLayout \<Rightarrow> u64" where
  "ComputeSegmentSize layout = ShmSegmentHeaderSizeBytes + lay_payload_capacity layout"

section \<open>Creating and attaching\<close>

text \<open>A created object that cannot be sized or mapped is unlinked again.\<close>

definition CreateOrAttach :: "shm_answers \<Rightarrow> string \<Rightarrow> ShmSegmentLayout \<Rightarrow> posix_shm \<Rightarrow> ShmSegment option \<times> posix_shm" where
  "CreateOrAttach sa channel layout shm =
     (let shm_name = BuildDeterministicShmName channel; total_size = ComputeSegmentSize layout in
      if total_size < ShmSegmentHeaderSizeBytes then (None, shm)
      else
        (case shm shm_name of
           None \<Rightarrow>
             if \<not> sa_create sa \<or> \<not> sa_truncate sa \<or> \<not> sa_map sa then (None, shm)
             else (Some \<lparr>ss_name = shm_name, ss_size_bytes = total_size, ss_owner = True\<rparr>,
                   shm(shm_name \<mapsto>
                     \<lparr>obj_size = total_size,
                      obj_header = \<lparr>seg_magic = lay_magic layout, seg_version = lay_version layout,
                                    seg_payload_capacity = lay_payload_capacity layout\<rparr>,
                      obj_ring = zero_memory\<rparr>))
         | Some obj \<Rightarrow>
             if \<not> sa_open sa \<or> \<not> sa_map sa then (None, shm)
             else if seg_magic (obj_header obj) \<noteq> lay_magic layout \<or> seg_version (obj_header obj) \<noteq> lay_version layout
             then (None, shm)
             else (Some \<lparr>ss_name = shm_name, ss_size_bytes = total_size, ss_owner = False\<rparr>, shm)))"

definition segment_Attach :: "shm_answers \<Rightarrow> string \<Rightarrow> ShmSegmentLayout \<Rightarrow> posix_shm \<Rightarrow> ShmSegment option" where
  "segment_Attach sa channel layout shm =
     (let shm_name = BuildDeterministicShmName channel; expected_total = ComputeSegmentSize layout in
      if expected_total < ShmSegmentHeaderSizeBytes then None
      else
        (case shm shm_name of
           None \<Rightarrow> None
         | Some obj \<Rightarrow>
             if \<not> sa_open sa \<or> \<not> sa_stat sa \<or> obj_size obj \<noteq> expected_total \<or> \<not> sa_map sa then None
             else if seg_magic (obj_header obj) \<noteq> lay_magic layout \<or> seg_version (obj_header obj) \<noteq> lay_version layout \<or>
                     seg_payload_capacity (obj_header obj) \<noteq> lay_payload_capacity layout
             then None
             else Some \<lparr>ss_name = shm_name, ss_size_bytes = obj_size obj, ss_owner = False\<rparr>))"

text \<open>The ring behind a mapped segment, the bytes a view of it may use, and storing it.\<close>

definition mapped_ring :: "ShmSegment \<Rightarrow> posix_shm \<Rightarrow> ring" where
  "mapped_ring seg shm = (case shm (ss_name seg) of None \<Rightarrow> zero_memory | Some obj \<Rightarrow> obj_ring obj)"

definition ring_span :: "ShmSegment \<Rightarrow> u64" where
  "ring_span seg = ss_size_bytes seg - ShmSegmentHeaderSizeBytes"

definition store_ring :: "string \<Rightarrow> ring \<Rightarrow> posix_shm \<Rightarrow> posix_shm" where
  "store_ring name r shm = shm(name := map_option (\<lambda>obj. obj\<lparr>obj_ring := r\<rparr>) (shm name))"

section \<open>Facts\<close>

definition all_answers :: shm_answers where
  "all_answers = \<lparr>sa_create = True, sa_truncate = True, sa_open = True, sa_stat = True, sa_map = True\<rparr>"

lemma all_answers_simps [simp]:
  "sa_create all_answers" "sa_truncate all_answers" "sa_open all_answers" "sa_stat all_answers" "sa_map all_answers"
  by (simp_all add: all_answers_def)

lemma store_ring_simps [simp]:
  "dom (store_ring name r shm) = dom shm"
  "n \<noteq> name \<Longrightarrow> store_ring name r shm n = shm n"
  by (auto simp: store_ring_def)

lemma CreateOrAttach_other:
  "CreateOrAttach sa channel layout shm = (res, shm') \<Longrightarrow> n \<noteq> BuildDeterministicShmName channel \<Longrightarrow> shm' n = shm n"
  by (auto simp: CreateOrAttach_def Let_def split: if_splits option.splits)

lemma CreateOrAttach_name:
  "CreateOrAttach sa channel layout shm = (Some seg, shm') \<Longrightarrow>
   ss_name seg = BuildDeterministicShmName channel \<and> ss_size_bytes seg = ComputeSegmentSize layout \<and>
   (ss_owner seg \<longleftrightarrow> shm (BuildDeterministicShmName channel) = None) \<and> shm' (BuildDeterministicShmName channel) \<noteq> None \<and>
   (\<not> ss_owner seg \<longrightarrow> shm' = shm)"
  by (auto simp: CreateOrAttach_def Let_def split: if_splits option.splits)

lemma CreateOrAttach_failed: "CreateOrAttach sa channel layout shm = (None, shm') \<Longrightarrow> shm' = shm"
  by (auto simp: CreateOrAttach_def Let_def split: if_splits option.splits)

text \<open>A name with a slash, a dot or an underscore in the same place is one name.\<close>

lemma shm_names_collide: "BuildDeterministicShmName ''cam/left'' = BuildDeterministicShmName ''cam.left''"
  by code_simp

text \<open>Names of channels are kept apart where only allowed characters occur.\<close>

lemma shm_names_differ:
  assumes "list_all IsNameCharAllowed a" "list_all IsNameCharAllowed b" "a \<noteq> []" "b \<noteq> []"
    "BuildDeterministicShmName a = BuildDeterministicShmName b"
  shows "a = b"
proof -
  have "map (\<lambda>c. if IsNameCharAllowed c then c else CHR ''_'') k = k" if "list_all IsNameCharAllowed k" for k
    using that by (induction k) auto
  then show ?thesis
    using assms by (simp add: BuildDeterministicShmName_def Let_def)
qed

text \<open>
  An existing object of any size is accepted by \<^verbatim>\<open>CreateOrAttach\<close>, which maps the size it asks for:
  with a smaller object the mapping reaches beyond its end.
\<close>

lemma existing_size_unchecked:
  assumes "shm (BuildDeterministicShmName channel) = Some obj" "seg_magic (obj_header obj) = lay_magic layout"
    "seg_version (obj_header obj) = lay_version layout" "ShmSegmentHeaderSizeBytes \<le> ComputeSegmentSize layout"
  shows "\<exists>seg. CreateOrAttach all_answers channel layout shm = (Some seg, shm) \<and> ss_size_bytes seg = ComputeSegmentSize layout"
  using assms by (auto simp: CreateOrAttach_def Let_def not_less)

end
