(* ===== verification/Reliability.thy ===== *)
theory Reliability
  imports Prelude Complex_Main
begin

text \<open>
  \<^verbatim>\<open>common/comm/src/reliability.cpp\<close>: the middleware configuration check, the publish retry
  loop and the acknowledgement counters. \<^verbatim>\<open>std::chrono\<close> durations are integers of
  milliseconds; the back-off multiplier, a \<^verbatim>\<open>double\<close>, is a rational and its product is
  exact here.
\<close>

section \<open>Data\<close>

record RetryPolicy =
  max_retries :: u32
  initial_backoff :: int
  backoff_multiplier :: rat

record MiddlewareConfig =
  slot_payload_bytes :: nat
  ttl :: int
  retry_policy :: RetryPolicy
  backlog_alarm_threshold :: nat
  default_consumer_slots_per_channel :: u32
  shm_slot_count :: u32

definition default_config :: MiddlewareConfig where
  "default_config =
     \<lparr>slot_payload_bytes = 1024, ttl = 1000,
      retry_policy = \<lparr>max_retries = 3, initial_backoff = 5, backoff_multiplier = 2\<rparr>,
      backlog_alarm_threshold = 512, default_consumer_slots_per_channel = 10, shm_slot_count = 256\<rparr>"

record ReliabilityMetrics =
  retry_attempts :: u64
  publish_failures :: u64
  delivery_duplicates :: u64
  consumer_ack_success :: u64
  consumer_ack_timeout :: u64

definition IsValid :: "MiddlewareConfig \<Rightarrow> bool" where
  "IsValid c \<longleftrightarrow>
     slot_payload_bytes c > 0 \<and> ttl c > 0 \<and> initial_backoff (retry_policy c) > 0 \<and>
     backoff_multiplier (retry_policy c) \<ge> 1 \<and> backlog_alarm_threshold c \<le> slot_payload_bytes c \<and>
     default_consumer_slots_per_channel c \<ge> 1 \<and> default_consumer_slots_per_channel c \<le> 1024 \<and>
     shm_slot_count c \<ge> 1"

section \<open>PublishWithRetry\<close>

text \<open>
  \<open>once k\<close> is what the \<open>k\<close>-th call of \<open>publish_once\<close> returns; \<open>left\<close> is
  \<open>max_retries - attempt\<close>. The result lists the sleeps taken, in order.
\<close>

fun retry_loop :: "(nat \<Rightarrow> bool) \<Rightarrow> rat \<Rightarrow> nat \<Rightarrow> nat \<Rightarrow> int \<Rightarrow> ReliabilityMetrics option
    \<Rightarrow> bool \<times> nat \<times> int list \<times> ReliabilityMetrics option" where
  "retry_loop once mult attempt left wait metrics =
     (if once attempt then (True, Suc attempt, [], metrics)
      else let m1 = map_option (\<lambda>m. m\<lparr>retry_attempts := retry_attempts m + 1\<rparr>) metrics in
        case left of
          0 \<Rightarrow> (False, Suc attempt, [], map_option (\<lambda>m. m\<lparr>publish_failures := publish_failures m + 1\<rparr>) m1)
        | Suc left' \<Rightarrow>
            (let (ok, calls, sleeps, m2) =
                   retry_loop once mult (Suc attempt) left' \<lfloor>rat_of_int wait * mult\<rfloor> m1
             in (ok, calls, wait # sleeps, m2)))"

declare retry_loop.simps [simp del]

definition PublishWithRetry :: "MiddlewareConfig \<Rightarrow> (nat \<Rightarrow> bool) option \<Rightarrow> ReliabilityMetrics option
    \<Rightarrow> bool \<times> nat \<times> int list \<times> ReliabilityMetrics option" where
  "PublishWithRetry config publish_once metrics =
     (case publish_once of
        None \<Rightarrow> (False, 0, [], metrics)
      | Some once \<Rightarrow>
          if \<not> IsValid config then (False, 0, [], metrics)
          else retry_loop once (backoff_multiplier (retry_policy config)) 0
                 (unat (max_retries (retry_policy config))) (initial_backoff (retry_policy config)) metrics)"

section \<open>Ack\<close>

definition Ack :: "u64 \<Rightarrow> bool \<Rightarrow> bool \<Rightarrow> ReliabilityMetrics option \<Rightarrow> bool \<times> ReliabilityMetrics option" where
  "Ack delivery_id is_duplicate timed_out metrics =
     (if delivery_id = 0 then (False, metrics)
      else case metrics of
             None \<Rightarrow> (True, None)
           | Some m \<Rightarrow>
               let m1 = (if is_duplicate then m\<lparr>delivery_duplicates := delivery_duplicates m + 1\<rparr> else m) in
               if timed_out then (False, Some (m1\<lparr>consumer_ack_timeout := consumer_ack_timeout m1 + 1\<rparr>))
               else (True, Some (m1\<lparr>consumer_ack_success := consumer_ack_success m1 + 1\<rparr>)))"

section \<open>The retry loop, characterised\<close>

lemma retry_loop_success:
  assumes "once (attempt + k)" "\<forall>j < k. \<not> once (attempt + j)" "k \<le> left"
  shows "\<exists>sleeps. length sleeps = k \<and>
    retry_loop once mult attempt left wait (Some m) =
      (True, attempt + k + 1, sleeps, Some (m\<lparr>retry_attempts := retry_attempts m + of_nat k\<rparr>))"
  using assms
proof (induction k arbitrary: attempt left wait m)
  case 0
  then show ?case
    by (simp add: retry_loop.simps [of _ _ attempt])
next
  case (Suc k)
  obtain left' where left: "left = Suc left'"
    using Suc.prems(3) by (cases left) auto
  have now: "\<not> once attempt"
    using Suc.prems(2) by (metis add.right_neutral zero_less_Suc)
  have later: "\<forall>j<k. \<not> once (Suc (attempt + j))"
    using Suc.prems(2) by (metis Suc_mono add_Suc_right)
  have "\<exists>sleeps. length sleeps = k \<and>
    retry_loop once mult (Suc attempt) left' \<lfloor>rat_of_int wait * mult\<rfloor>
        (Some (m\<lparr>retry_attempts := retry_attempts m + 1\<rparr>)) =
      (True, Suc attempt + k + 1, sleeps,
       Some (m\<lparr>retry_attempts := retry_attempts m + 1\<rparr>\<lparr>retry_attempts := retry_attempts m + 1 + of_nat k\<rparr>))"
    using Suc.IH [of "Suc attempt" left' "\<lfloor>rat_of_int wait * mult\<rfloor>"
        "m\<lparr>retry_attempts := retry_attempts m + 1\<rparr>"] Suc.prems left later by simp
  then obtain sleeps where "length sleeps = k" and
    rec: "retry_loop once mult (Suc attempt) left' \<lfloor>rat_of_int wait * mult\<rfloor>
        (Some (m\<lparr>retry_attempts := retry_attempts m + 1\<rparr>)) =
      (True, Suc attempt + k + 1, sleeps,
       Some (m\<lparr>retry_attempts := retry_attempts m + 1\<rparr>\<lparr>retry_attempts := retry_attempts m + 1 + of_nat k\<rparr>))"
    by blast
  then show ?case
    by (intro exI [of _ "wait # sleeps"]) (simp add: retry_loop.simps [of _ _ attempt] left now add.assoc)
qed

lemma retry_loop_failure:
  assumes "\<forall>j \<le> left. \<not> once (attempt + j)"
  shows "\<exists>sleeps. length sleeps = left \<and>
    retry_loop once mult attempt left wait (Some m) =
      (False, attempt + left + 1, sleeps,
       Some (m\<lparr>retry_attempts := retry_attempts m + of_nat (left + 1),
               publish_failures := publish_failures m + 1\<rparr>))"
  using assms
proof (induction left arbitrary: attempt wait m)
  case 0
  then show ?case
    by (simp add: retry_loop.simps [of _ _ attempt])
next
  case (Suc left)
  have now: "\<not> once attempt"
    using Suc.prems by (metis add.right_neutral zero_le)
  have "\<forall>j \<le> left. \<not> once (Suc attempt + j)"
    using Suc.prems by (metis Suc_le_mono add_Suc_shift)
  from Suc.IH [OF this, of "\<lfloor>rat_of_int wait * mult\<rfloor>" "m\<lparr>retry_attempts := retry_attempts m + 1\<rparr>"]
  obtain sleeps where "length sleeps = left" and
    rec: "retry_loop once mult (Suc attempt) left \<lfloor>rat_of_int wait * mult\<rfloor>
        (Some (m\<lparr>retry_attempts := retry_attempts m + 1\<rparr>)) =
      (False, Suc attempt + left + 1, sleeps,
       Some (m\<lparr>retry_attempts := retry_attempts m + 1\<rparr>
         \<lparr>retry_attempts := retry_attempts m + 1 + of_nat (left + 1), publish_failures := publish_failures m + 1\<rparr>))"
    by auto
  then show ?case
    by (intro exI [of _ "wait # sleeps"])
      (simp add: retry_loop.simps [of _ _ attempt] now add.assoc add.commute)
qed

text \<open>The sleeps never get shorter, because the multiplier is at least one.\<close>

lemma retry_loop_sleeps:
  assumes "0 < wait" "1 \<le> mult"
  shows "case retry_loop once mult attempt left wait metrics of
           (_, _, sleeps, _) \<Rightarrow> sorted (wait # sleeps) \<and> (sleeps = [] \<or> hd sleeps = wait)"
  using assms(1)
proof (induction left arbitrary: attempt wait metrics)
  case 0
  then show ?case
    by (simp add: retry_loop.simps [of _ _ attempt] Let_def)
next
  case (Suc left)
  let ?w = "\<lfloor>rat_of_int wait * mult\<rfloor>"
  have "rat_of_int wait * 1 \<le> rat_of_int wait * mult"
    using assms(2) Suc.prems by (intro mult_left_mono) simp_all
  then have le: "wait \<le> ?w"
    by (simp add: le_floor_iff)
  with Suc.prems have "0 < ?w" by linarith
  from Suc.IH [OF this, of "Suc attempt" "map_option (\<lambda>m. m\<lparr>retry_attempts := retry_attempts m + 1\<rparr>) metrics"] le
  show ?case
    by (simp add: retry_loop.simps [of _ _ attempt] Let_def case_prod_beta del: zero_less_floor) fastforce
qed

section \<open>Properties\<close>

text \<open>
  Retry. With a valid configuration the publisher calls the publish function until it first
  succeeds, at most \<open>max_retries + 1\<close> times; it answers success exactly when one of those calls
  succeeds, counts one retry attempt per failed call, and counts one publish failure exactly
  when all fail.
\<close>

lemma publish_with_retry_outcome:
  assumes "IsValid config"
  shows "\<exists>sleeps. PublishWithRetry config (Some once) (Some m) =
    (let n = unat (max_retries (retry_policy config)) in
     if \<exists>k \<le> n. once k
     then (True, (LEAST k. once k) + 1, sleeps,
           Some (m\<lparr>retry_attempts := retry_attempts m + of_nat (LEAST k. once k)\<rparr>))
     else (False, n + 1, sleeps,
           Some (m\<lparr>retry_attempts := retry_attempts m + of_nat (n + 1),
                   publish_failures := publish_failures m + 1\<rparr>)))"
proof (cases "\<exists>k \<le> unat (max_retries (retry_policy config)). once k")
  case True
  let ?n = "unat (max_retries (retry_policy config))"
  define k where "k = (LEAST k. once k)"
  obtain j where j: "j \<le> ?n" "once j"
    using True by blast
  have k: "once k" "k \<le> j" "\<forall>i < k. \<not> once i"
    unfolding k_def using j(2) by (auto intro: LeastI Least_le dest: not_less_Least)
  have "k \<le> ?n"
    using k(2) j(1) by simp
  then obtain sleeps where loop: "retry_loop once (backoff_multiplier (retry_policy config)) 0 ?n
      (initial_backoff (retry_policy config)) (Some m) =
      (True, k + 1, sleeps, Some (m\<lparr>retry_attempts := retry_attempts m + of_nat k\<rparr>))"
    using retry_loop_success [of once 0 k ?n] k(1,3) by (metis add_0)
  show ?thesis
    by (rule exI [of _ sleeps])
      (simp only: PublishWithRetry_def option.case assms not_True_eq_False if_False loop Let_def True if_True
        k_def [symmetric])
next
  case False
  then obtain sleeps where loop: "retry_loop once (backoff_multiplier (retry_policy config)) 0
      (unat (max_retries (retry_policy config))) (initial_backoff (retry_policy config)) (Some m) =
      (False, unat (max_retries (retry_policy config)) + 1, sleeps,
       Some (m\<lparr>retry_attempts := retry_attempts m + of_nat (unat (max_retries (retry_policy config)) + 1),
               publish_failures := publish_failures m + 1\<rparr>))"
    using retry_loop_failure [of "unat (max_retries (retry_policy config))" once 0] by fastforce
  show ?thesis
    by (rule exI [of _ sleeps])
      (simp only: PublishWithRetry_def option.case assms not_True_eq_False if_False loop Let_def False)
qed

end
