(* ===== verification/Control_Plane.thy ===== *)
theory Control_Plane
  imports Shm_Segment Reliability
begin

text \<open>
  The control plane of the bus, \<^verbatim>\<open>common/comm/src/shm_bus_control_plane.cpp\<close>: it creates and formats
  the shared memory of every channel of a topology, freezes the registry of channel keys, takes
  the consumers of dead processes offline and unlinks what it created. Parameters that do not parse
  leave a call as an exception, \<open>Inl\<close>. Each call holds the mutex where it touches the registry, so
  a call is a step.
\<close>

section \<open>State\<close>

record ShmBusControlPlane =
  cp_managed_posix_names :: "string set"
  cp_registry_frozen :: bool
  cp_allowed_shm_channel_keys :: "string set"
  cp_finalize_unlink_invocations :: u64
  cp_default_consumer_slots_per_channel :: u32
  cp_shm_slot_count :: u32

definition new_control_plane :: ShmBusControlPlane where
  "new_control_plane =
     \<lparr>cp_managed_posix_names = {}, cp_registry_frozen = False, cp_allowed_shm_channel_keys = {},
      cp_finalize_unlink_invocations = 0, cp_default_consumer_slots_per_channel = 10, cp_shm_slot_count = 256\<rparr>"

definition RegistryAllowsKey :: "string set \<Rightarrow> bool \<Rightarrow> string \<Rightarrow> bool" where
  "RegistryAllowsKey allowed frozen channel \<longleftrightarrow> \<not> frozen \<or> channel \<in> allowed"

definition SetDefaultConsumerSlotsPerChannel :: "u32 \<Rightarrow> ShmBusControlPlane \<Rightarrow> ShmBusControlPlane" where
  "SetDefaultConsumerSlotsPerChannel n cp = cp\<lparr>cp_default_consumer_slots_per_channel := max 1 n\<rparr>"

definition FreezeAllowedChannelKeys :: "string set \<Rightarrow> ShmBusControlPlane \<Rightarrow> ShmBusControlPlane" where
  "FreezeAllowedChannelKeys keys cp = cp\<lparr>cp_allowed_shm_channel_keys := keys, cp_registry_frozen := True\<rparr>"

definition ClearManagedSegmentNames :: "ShmBusControlPlane \<Rightarrow> ShmBusControlPlane" where
  "ClearManagedSegmentNames cp = cp\<lparr>cp_managed_posix_names := {}\<rparr>"

definition FinalizeUnlinkManagedSegments :: "ShmBusControlPlane \<times> posix_shm \<Rightarrow> ShmBusControlPlane \<times> posix_shm" where
  "FinalizeUnlinkManagedSegments w =
     (case w of (cp, shm) \<Rightarrow>
        (cp\<lparr>cp_finalize_unlink_invocations := cp_finalize_unlink_invocations cp + 1, cp_managed_posix_names := {}\<rparr>,
         \<lambda>n. if n \<in> cp_managed_posix_names cp then None else shm n))"

section \<open>The dimensions of a channel\<close>

record channel_dims =
  cd_slot_payload_bytes :: u64
  cd_consumer_capacity :: u32
  cd_slot_count :: u32

definition resolve_dims :: "nat \<Rightarrow> u32 \<Rightarrow> u32 \<Rightarrow> ChannelTopologyEntry option \<Rightarrow> num_error + channel_dims" where
  "resolve_dims default_bytes default_slots default_count entry =
     also_then (ResolveSlotPayloadBytesForChannel entry default_bytes) (\<lambda>bytes.
     also_then (ResolveShmRingConsumerCapacity entry (unat default_slots)) (\<lambda>consumers.
     also_then (ResolveShmSlotCountForChannel entry (unat default_count)) (\<lambda>count.
       Inr \<lparr>cd_slot_payload_bytes = of_nat bytes, cd_consumer_capacity = of_nat consumers, cd_slot_count = of_nat count\<rparr>)))"

definition region_bytes_of :: "channel_dims \<Rightarrow> u64" where
  "region_bytes_of cd = cd_slot_payload_bytes cd * ucast (cd_slot_count cd)"

definition layout_of :: "channel_dims \<Rightarrow> ShmSegmentLayout" where
  "layout_of cd = layout_for (ComputeRingLayoutSizeBytes (cd_slot_count cd) (cd_consumer_capacity cd) + region_bytes_of cd)"

section \<open>Provisioning\<close>

definition CreateOrAttachChannel ::
  "shm_answers \<Rightarrow> string \<Rightarrow> ShmSegmentLayout \<Rightarrow> ShmBusControlPlane \<times> posix_shm \<Rightarrow> ShmSegment option \<times> (ShmBusControlPlane \<times> posix_shm)" where
  "CreateOrAttachChannel sa channel layout w =
     (case w of (cp, shm) \<Rightarrow>
        if \<not> RegistryAllowsKey (cp_allowed_shm_channel_keys cp) (cp_registry_frozen cp) channel then (None, w)
        else
          (case CreateOrAttach sa channel layout shm of
             (None, shm1) \<Rightarrow> (None, (cp, shm1))
           | (Some seg, shm1) \<Rightarrow>
               (Some seg,
                (if ss_owner seg then cp\<lparr>cp_managed_posix_names := insert (ss_name seg) (cp_managed_posix_names cp)\<rparr> else cp, shm1))))"

text \<open>
  What \<^verbatim>\<open>Initialize\<close> leaves in the memory. When an eventfd cannot be opened it has already written
  the tables and the descriptors opened so far, which it then closes; the other entries are zero.
\<close>

definition formatted_memory :: "(nat \<Rightarrow> int) \<Rightarrow> u64 \<Rightarrow> channel_dims \<Rightarrow> ring \<Rightarrow> ring" where
  "formatted_memory open_fd total_size cd mem =
     (let n = cd_slot_count cd; c = cd_consumer_capacity cd; region = region_bytes_of cd in
      case Initialize open_fd total_size n c region of
        Inr r \<Rightarrow> r
      | Inl fds \<Rightarrow>
          if n = 0 \<or> region = 0 \<or> total_size < ComputeRingLayoutSizeBytes n c + region then mem
          else \<lparr>header = fresh_header n c region, consumers = replicate (unat c) zero_cursor,
                notification_mappings = fds @ replicate (unat c - length fds) 0,
                slots = replicate (unat n) zero_slot, payload_region = replicate (unat region) 0\<rparr>)"

text \<open>One round of the loop; \<open>False\<close> ends the loop.\<close>

definition provision_channel ::
  "(string \<Rightarrow> shm_answers) \<Rightarrow> (string \<Rightarrow> nat \<Rightarrow> int) \<Rightarrow> nat \<Rightarrow> ChannelTopologyEntry \<Rightarrow> ShmBusControlPlane \<times> posix_shm \<Rightarrow>
   num_error + bool \<times> (ShmBusControlPlane \<times> posix_shm)" where
  "provision_channel sa open_fd default_bytes entry w =
     also_then (resolve_dims default_bytes (cp_default_consumer_slots_per_channel (fst w)) (cp_shm_slot_count (fst w)) (Some entry))
       (\<lambda>cd. let shm_key = CanonicalShmChannelKey entry in
          case CreateOrAttachChannel (sa shm_key) shm_key (layout_of cd) w of
            (None, w1) \<Rightarrow> Inr (False, w1)
          | (Some seg, (cp1, shm1)) \<Rightarrow>
              (case Attach (ring_span seg) kRingLayoutVersion (mapped_ring seg shm1) of
                 Some r \<Rightarrow> Inr (True, (cp1, shm1))
               | None \<Rightarrow>
                   Inr (case Initialize (open_fd (ss_name seg)) (ring_span seg) (cd_slot_count cd) (cd_consumer_capacity cd) (region_bytes_of cd) of
                          Inl fds \<Rightarrow> False | Inr r \<Rightarrow> True,
                        (cp1, store_ring (ss_name seg)
                                (formatted_memory (open_fd (ss_name seg)) (ring_span seg) cd (mapped_ring seg shm1)) shm1))))"

fun provision_channels ::
  "(string \<Rightarrow> shm_answers) \<Rightarrow> (string \<Rightarrow> nat \<Rightarrow> int) \<Rightarrow> nat \<Rightarrow> ChannelTopologyIndex \<Rightarrow> ShmBusControlPlane \<times> posix_shm \<Rightarrow>
   num_error + bool \<times> (ShmBusControlPlane \<times> posix_shm)" where
  "provision_channels sa open_fd default_bytes [] w = Inr (True, w)"
| "provision_channels sa open_fd default_bytes ((channel, entry) # rest) w =
     (case provision_channel sa open_fd default_bytes entry w of
        Inl err \<Rightarrow> Inl err
      | Inr (False, w1) \<Rightarrow> Inr (False, w1)
      | Inr (True, w1) \<Rightarrow> provision_channels sa open_fd default_bytes rest w1)"

definition topology_keys :: "ChannelTopologyIndex \<Rightarrow> string set" where
  "topology_keys topology = set (map (\<lambda>ce. CanonicalShmChannelKey (snd ce)) topology)"

definition ProvisionChannelTopology ::
  "(string \<Rightarrow> shm_answers) \<Rightarrow> (string \<Rightarrow> nat \<Rightarrow> int) \<Rightarrow> ChannelTopologyIndex \<Rightarrow> MiddlewareConfig \<Rightarrow> ShmBusControlPlane \<times> posix_shm \<Rightarrow>
   num_error + bool \<times> (ShmBusControlPlane \<times> posix_shm)" where
  "ProvisionChannelTopology sa open_fd topology middleware_config w =
     (let cfg = (if IsValid middleware_config then middleware_config else default_config);
          cp = (SetDefaultConsumerSlotsPerChannel (default_consumer_slots_per_channel cfg) (fst w))
                 \<lparr>cp_shm_slot_count := max 1 (shm_slot_count cfg)\<rparr>
      in case provision_channels sa open_fd (slot_payload_bytes cfg) topology (cp, snd w) of
           Inl err \<Rightarrow> Inl err
         | Inr (False, w1) \<Rightarrow> Inr (False, w1)
         | Inr (True, (cp1, shm1)) \<Rightarrow> Inr (True, (FreezeAllowedChannelKeys (topology_keys topology) cp1, shm1)))"

definition ProvisionChannelTopologyFromModuleConfigs ::
  "(string \<Rightarrow> string option) \<Rightarrow> (string \<Rightarrow> shm_answers) \<Rightarrow> (string \<Rightarrow> nat \<Rightarrow> int) \<Rightarrow> (string \<times> string) list \<Rightarrow> MiddlewareConfig \<Rightarrow>
   ShmBusControlPlane \<times> posix_shm \<Rightarrow> config_error + bool \<times> (ShmBusControlPlane \<times> posix_shm)" where
  "ProvisionChannelTopologyFromModuleConfigs files sa open_fd module_config_files middleware_config w =
     also_then (BuildChannelTopologyIndexFromFiles files module_config_files) (\<lambda>topology.
       case ProvisionChannelTopology sa open_fd topology middleware_config w of
         Inl err \<Rightarrow> Inl (Escaped err)
       | Inr res \<Rightarrow> Inr res)"

section \<open>Hooks of the supervisor\<close>

definition AttachChannel ::
  "shm_answers \<Rightarrow> string \<Rightarrow> ShmSegmentLayout \<Rightarrow> ShmBusControlPlane \<Rightarrow> posix_shm \<Rightarrow> ShmSegment option" where
  "AttachChannel sa channel layout cp shm =
     (if \<not> RegistryAllowsKey (cp_allowed_shm_channel_keys cp) (cp_registry_frozen cp) channel then None
      else segment_Attach sa channel layout shm)"

definition AttachChannelRingForSupervisor ::
  "(string \<Rightarrow> shm_answers) \<Rightarrow> string \<Rightarrow> ChannelTopologyEntry option \<Rightarrow> nat \<Rightarrow> ShmBusControlPlane \<Rightarrow> posix_shm \<Rightarrow>
   num_error + (ShmSegment \<times> ring) option" where
  "AttachChannelRingForSupervisor sa logical_channel entry default_bytes cp shm =
     (let shm_key = (case entry of Some e \<Rightarrow> CanonicalShmChannelKey e | None \<Rightarrow> logical_channel) in
      also_then (resolve_dims default_bytes (cp_default_consumer_slots_per_channel cp) (cp_shm_slot_count cp) entry)
        (\<lambda>cd. case AttachChannel (sa shm_key) shm_key (layout_of cd) cp shm of
                None \<Rightarrow> Inr None
              | Some seg \<Rightarrow>
                  Inr (map_option (\<lambda>r. (seg, r)) (Attach (ring_span seg) kRingLayoutVersion (mapped_ring seg shm)))))"

definition ReadConsumerOwnerIdentity ::
  "(string \<Rightarrow> shm_answers) \<Rightarrow> string \<Rightarrow> ChannelTopologyEntry option \<Rightarrow> nat \<Rightarrow> u32 \<Rightarrow> ShmBusControlPlane \<Rightarrow> posix_shm \<Rightarrow>
   num_error + (u32 \<times> u32) option" where
  "ReadConsumerOwnerIdentity sa logical_channel entry default_bytes consumer_index cp shm =
     also_then (AttachChannelRingForSupervisor sa logical_channel entry default_bytes cp shm) (\<lambda>attached.
       Inr (case attached of
              None \<Rightarrow> None
            | Some (seg, r) \<Rightarrow>
                if consumer_index \<ge> consumer_capacity (header r) then None
                else if cstate (consumer r (unat consumer_index)) \<noteq> kOnline then None
                else Some (owner_pid (consumer r (unat consumer_index)), owner_start_epoch (consumer r (unat consumer_index)))))"

definition control_TakeConsumerOfflineIfOwner ::
  "(string \<Rightarrow> shm_answers) \<Rightarrow> string \<Rightarrow> ChannelTopologyEntry option \<Rightarrow> nat \<Rightarrow> u32 \<Rightarrow> u32 \<Rightarrow> u32 \<Rightarrow> ShmBusControlPlane \<Rightarrow> posix_shm \<Rightarrow>
   num_error + bool \<times> posix_shm" where
  "control_TakeConsumerOfflineIfOwner sa logical_channel entry default_bytes consumer_index pid epoch cp shm =
     also_then (AttachChannelRingForSupervisor sa logical_channel entry default_bytes cp shm) (\<lambda>attached.
       Inr (case attached of
              None \<Rightarrow> (False, shm)
            | Some (seg, r) \<Rightarrow>
                (case TakeConsumerOfflineIfOwner consumer_index pid epoch r of
                   (False, r1) \<Rightarrow> (False, store_ring (ss_name seg) r1 shm)
                 | (True, r1) \<Rightarrow> (True, store_ring (ss_name seg) (snd (ReclaimCommittedSlots r1)) shm))))"

text \<open>\<open>offline_scan pid i k r\<close> is the loop over the \<open>k\<close> consumers from \<open>i\<close> on.\<close>

fun offline_scan :: "u32 \<Rightarrow> nat \<Rightarrow> nat \<Rightarrow> ring \<Rightarrow> nat \<times> ring" where
  "offline_scan pid i 0 r = (0, r)"
| "offline_scan pid i (Suc k) r =
     (let c = consumer r i in
      if cstate c \<noteq> kOnline \<or> owner_pid c \<noteq> pid then offline_scan pid (Suc i) k r
      else (case TakeConsumerOfflineIfOwner (of_nat i) pid (owner_start_epoch c) r of
              (False, r1) \<Rightarrow> offline_scan pid (Suc i) k r1
            | (True, r1) \<Rightarrow>
                (case offline_scan pid (Suc i) k (snd (ReclaimCommittedSlots r1)) of (n, r2) \<Rightarrow> (Suc n, r2))))"

text \<open>The count is a \<^verbatim>\<open>uint32_t\<close>; a channel that does not attach is passed over.\<close>

fun TakeAllConsumersOfflineForProcessPid ::
  "(string \<Rightarrow> shm_answers) \<Rightarrow> u32 \<Rightarrow> ChannelTopologyIndex \<Rightarrow> nat \<Rightarrow> ShmBusControlPlane \<Rightarrow> posix_shm \<Rightarrow> num_error + u32 \<times> posix_shm" where
  "TakeAllConsumersOfflineForProcessPid sa pid [] default_bytes cp shm = Inr (0, shm)"
| "TakeAllConsumersOfflineForProcessPid sa pid ((channel, entry) # rest) default_bytes cp shm =
     also_then (AttachChannelRingForSupervisor sa channel (Some entry) default_bytes cp shm) (\<lambda>attached.
       case attached of
         None \<Rightarrow> TakeAllConsumersOfflineForProcessPid sa pid rest default_bytes cp shm
       | Some (seg, r) \<Rightarrow>
           (case offline_scan pid 0 (unat (consumer_capacity (header r))) r of
              (n, r1) \<Rightarrow>
                also_then (TakeAllConsumersOfflineForProcessPid sa pid rest default_bytes cp (store_ring (ss_name seg) r1 shm))
                  (\<lambda>(m, shm1). Inr (of_nat n + m, shm1))))"

end
