(* ===== verification/Bus_Runtime.thy ===== *)
theory Bus_Runtime
  imports Control_Plane
begin

text \<open>
  The data plane of the bus, \<^verbatim>\<open>common/comm/src/shm_bus_runtime.cpp\<close>: a process attaches the channels
  of its topology, subscribes to some, publishes to others and runs one pump that turns eventfd
  notifications into handler calls. The rings are those in shared memory; the eventfd counters belong
  to the kernel. Calls of a handler are recorded in order; whether a handler throws is an argument,
  as is what the other processes do while a call yields.
\<close>

section \<open>Event descriptors\<close>

text \<open>The counters of the open eventfds. A write that would overflow answers \<^verbatim>\<open>EAGAIN\<close>.\<close>

type_synonym eventfds = "int \<Rightarrow> u64 option"

definition max_event_count :: u64 where
  "max_event_count = - 2"

definition NotifyEventFd :: "int \<Rightarrow> eventfds \<Rightarrow> bool \<times> eventfds" where
  "NotifyEventFd fd efds =
     (if fd < 0 then (False, efds)
      else (case efds fd of
              None \<Rightarrow> (False, efds)
            | Some k \<Rightarrow> (True, if k = max_event_count then efds else efds(fd \<mapsto> k + 1))))"

definition ReadEventFdNotifyCount :: "int \<Rightarrow> eventfds \<Rightarrow> u64 option \<times> eventfds" where
  "ReadEventFdNotifyCount fd efds =
     (if fd < 0 then (None, efds)
      else (case efds fd of
              None \<Rightarrow> (None, efds)
            | Some k \<Rightarrow> if k = 0 then (None, efds) else (Some k, efds(fd \<mapsto> 0))))"

section \<open>State\<close>

record MessageEnvelope =
  me_channel :: string
  me_publisher_module :: string
  me_delivery_id :: u64
  me_sequence :: u64
  me_maybe_duplicate :: bool
  me_payload :: "u8 list"

record SubscriberEntry =
  su_channel :: string
  su_module_name :: string
  su_consumer_index :: u32
  su_event_fd :: int
  su_stop :: bool
  su_dedup_capacity :: nat
  su_dedup_window :: "string list"
  su_dedup_keys :: "string set"

record ChannelRuntime =
  cr_segment :: string
  cr_delivery_mode :: ShmBusDeliveryMode

record bus_runtime =
  rt_config :: MiddlewareConfig
  rt_metrics :: ReliabilityMetrics
  rt_topology_index :: ChannelTopologyIndex
  rt_topology_initialized :: bool
  rt_allowed_keys :: "string set"
  rt_registry_frozen :: bool
  rt_runtime_by_channel :: "(string \<times> ChannelRuntime) list"
  rt_subscribers_by_channel :: "(string \<times> SubscriberEntry list) list"
  rt_pump_running :: bool
  rt_pump_stop :: bool
  rt_epoll_slots :: "SubscriberEntry list"

definition no_reliability_metrics :: ReliabilityMetrics where
  "no_reliability_metrics =
     \<lparr>retry_attempts = 0, publish_failures = 0, delivery_duplicates = 0, consumer_ack_success = 0, consumer_ack_timeout = 0\<rparr>"

definition new_runtime :: "MiddlewareConfig \<Rightarrow> bus_runtime" where
  "new_runtime cfg =
     \<lparr>rt_config = (if IsValid cfg then cfg else default_config), rt_metrics = no_reliability_metrics, rt_topology_index = [],
      rt_topology_initialized = False, rt_allowed_keys = {}, rt_registry_frozen = False, rt_runtime_by_channel = [],
      rt_subscribers_by_channel = [], rt_pump_running = False, rt_pump_stop = False, rt_epoll_slots = []\<rparr>"

section \<open>Attaching the topology\<close>

text \<open>The same three parameters as in the control plane, resolved in another order.\<close>

definition resolve_runtime_dims :: "MiddlewareConfig \<Rightarrow> ChannelTopologyEntry \<Rightarrow> num_error + channel_dims" where
  "resolve_runtime_dims cfg entry =
     also_then (ResolveSlotPayloadBytesForChannel (Some entry) (slot_payload_bytes cfg)) (\<lambda>bytes.
     also_then (ResolveShmSlotCountForChannel (Some entry) (unat (shm_slot_count cfg))) (\<lambda>count.
     also_then (ResolveShmRingConsumerCapacity (Some entry) (unat (default_consumer_slots_per_channel cfg))) (\<lambda>consumers.
       Inr \<lparr>cd_slot_payload_bytes = of_nat bytes, cd_consumer_capacity = of_nat consumers, cd_slot_count = of_nat count\<rparr>)))"

definition RuntimeRegistryAllowsKey :: "string set \<Rightarrow> bool \<Rightarrow> string \<Rightarrow> bool" where
  "RuntimeRegistryAllowsKey allowed frozen channel \<longleftrightarrow> \<not> frozen \<or> channel \<in> allowed"

definition EnsureChannelMappedAttachLocked ::
  "(string \<Rightarrow> shm_answers) \<Rightarrow> posix_shm \<Rightarrow> string \<Rightarrow> bus_runtime \<Rightarrow> num_error + bool \<times> bus_runtime" where
  "EnsureChannelMappedAttachLocked sa shm channel rt =
     (case map_of (rt_topology_index rt) channel of
        None \<Rightarrow> Inr (False, rt)
      | Some entry \<Rightarrow>
          if channel \<in> fst ` set (rt_runtime_by_channel rt) then Inr (True, rt)
          else
            also_then (resolve_runtime_dims (rt_config rt) entry) (\<lambda>cd.
              let shm_key = CanonicalShmChannelKey entry in
              if \<not> RuntimeRegistryAllowsKey (rt_allowed_keys rt) (rt_registry_frozen rt) shm_key then Inr (False, rt)
              else (case segment_Attach (sa shm_key) shm_key (layout_of cd) shm of
                      None \<Rightarrow> Inr (False, rt)
                    | Some seg \<Rightarrow>
                        (case Attach (ring_span seg) kRingLayoutVersion (mapped_ring seg shm) of
                           None \<Rightarrow> Inr (False, rt)
                         | Some r \<Rightarrow>
                             Inr (True, rt\<lparr>rt_runtime_by_channel :=
                               emplace channel \<lparr>cr_segment = ss_name seg, cr_delivery_mode = ResolveShmBusDeliveryModeForChannel (Some entry)\<rparr>
                                 (rt_runtime_by_channel rt)\<rparr>)))))"

fun map_channels :: "(string \<Rightarrow> shm_answers) \<Rightarrow> posix_shm \<Rightarrow> string list \<Rightarrow> bus_runtime \<Rightarrow> num_error + bool \<times> bus_runtime" where
  "map_channels sa shm [] rt = Inr (True, rt)"
| "map_channels sa shm (c # cs) rt =
     (case EnsureChannelMappedAttachLocked sa shm c rt of
        Inl err \<Rightarrow> Inl err
      | Inr (False, rt1) \<Rightarrow> Inr (False, rt1)
      | Inr (True, rt1) \<Rightarrow> map_channels sa shm cs rt1)"

definition SetChannelTopology ::
  "(string \<Rightarrow> shm_answers) \<Rightarrow> posix_shm \<Rightarrow> ChannelTopologyIndex \<Rightarrow> bus_runtime \<Rightarrow> num_error + bool \<times> bus_runtime" where
  "SetChannelTopology sa shm topology rt =
     (if rt_runtime_by_channel rt \<noteq> [] then Inr (False, rt)
      else
        (let rt1 = rt\<lparr>rt_topology_index := topology, rt_topology_initialized := True, rt_registry_frozen := False, rt_allowed_keys := {}\<rparr>
         in case map_channels sa shm (map fst topology) rt1 of
              Inl err \<Rightarrow> Inl err
            | Inr (False, rt2) \<Rightarrow>
                Inr (False, rt2\<lparr>rt_topology_initialized := False, rt_topology_index := [], rt_runtime_by_channel := [],
                               rt_allowed_keys := {}, rt_registry_frozen := False\<rparr>)
            | Inr (True, rt2) \<Rightarrow>
                Inr (True, rt2\<lparr>rt_allowed_keys := topology_keys topology, rt_registry_frozen := True\<rparr>)))"

definition SetChannelTopologyFromModuleConfigs ::
  "(string \<Rightarrow> string option) \<Rightarrow> (string \<Rightarrow> shm_answers) \<Rightarrow> posix_shm \<Rightarrow> (string \<times> string) list \<Rightarrow> bus_runtime \<Rightarrow>
   config_error + bool \<times> bus_runtime" where
  "SetChannelTopologyFromModuleConfigs files sa shm module_config_files rt =
     also_then (BuildChannelTopologyIndexFromFiles files module_config_files) (\<lambda>topology.
       case SetChannelTopology sa shm topology rt of Inl err \<Rightarrow> Inl (Escaped err) | Inr res \<Rightarrow> Inr res)"

definition ChannelMappedLocked :: "string \<Rightarrow> bus_runtime \<Rightarrow> bool" where
  "ChannelMappedLocked channel rt \<longleftrightarrow> rt_topology_initialized rt \<and> map_of (rt_runtime_by_channel rt) channel \<noteq> None"

definition RegisterPublisher :: "string \<Rightarrow> bus_runtime \<Rightarrow> bool" where
  "RegisterPublisher channel rt = ChannelMappedLocked channel rt"

text \<open>The ring a mapped channel refers to.\<close>

definition channel_ring :: "ChannelRuntime \<Rightarrow> posix_shm \<Rightarrow> ring" where
  "channel_ring cr shm = (case shm (cr_segment cr) of None \<Rightarrow> zero_memory | Some obj \<Rightarrow> obj_ring obj)"

section \<open>Subscribing\<close>

definition subscribers_of :: "string \<Rightarrow> bus_runtime \<Rightarrow> SubscriberEntry list" where
  "subscribers_of channel rt = (case map_of (rt_subscribers_by_channel rt) channel of None \<Rightarrow> [] | Some ss \<Rightarrow> ss)"

definition Subscribe :: "u32 \<Rightarrow> string \<Rightarrow> string \<Rightarrow> bool \<Rightarrow> bus_runtime \<times> posix_shm \<Rightarrow> bool \<times> (bus_runtime \<times> posix_shm)" where
  "Subscribe pid module_name channel has_handler w =
     (case w of (rt, shm) \<Rightarrow>
        if \<not> has_handler then (False, w)
        else if rt_pump_running rt then (False, w)
        else if \<not> ChannelMappedLocked channel rt then (False, w)
        else
          (case map_of (rt_runtime_by_channel rt) channel of
             None \<Rightarrow> (False, w)
           | Some cr \<Rightarrow>
               (case TryAcquireConsumerOnlineSlot pid (channel_ring cr shm) of
                  (None, r1) \<Rightarrow> (False, (rt, store_ring (cr_segment cr) r1 shm))
                | (Some c, r1) \<Rightarrow>
                    (let fd = (case LoadConsumerNotificationFd c r1 of None \<Rightarrow> -1 | Some fd \<Rightarrow> fd) in
                     if fd < 0
                     then (False, (rt, store_ring (cr_segment cr) (snd (RemoveConsumerOnline c r1)) shm))
                     else
                       (True, (rt\<lparr>rt_subscribers_by_channel :=
                                 assign channel
                                   (subscribers_of channel rt @
                                    [\<lparr>su_channel = channel, su_module_name = module_name, su_consumer_index = c, su_event_fd = fd,
                                      su_stop = False, su_dedup_capacity = max (slot_payload_bytes (rt_config rt)) 1,
                                      su_dedup_window = [], su_dedup_keys = {}\<rparr>])
                                   (rt_subscribers_by_channel rt)\<rparr>,
                              store_ring (cr_segment cr) r1 shm))))))"

text \<open>\<open>epoll_create_ok\<close> and \<open>epoll_add_ok\<close> are the answers of the two calls.\<close>

definition StartUnifiedSubscriberPump :: "bool \<Rightarrow> (int \<Rightarrow> bool) \<Rightarrow> bus_runtime \<Rightarrow> bool \<times> bus_runtime" where
  "StartUnifiedSubscriberPump epoll_create_ok epoll_add_ok rt =
     (if rt_pump_running rt then (False, rt)
      else
        (let all_subscribers = concat (map snd (rt_subscribers_by_channel rt)) in
         if all_subscribers = [] then (True, rt)
         else if \<not> epoll_create_ok \<or> \<not> list_all (\<lambda>s. epoll_add_ok (su_event_fd s)) all_subscribers
         then (False, rt\<lparr>rt_epoll_slots := []\<rparr>)
         else (True, rt\<lparr>rt_epoll_slots := all_subscribers, rt_pump_stop := False, rt_pump_running := True\<rparr>)))"

end
