(* ===== verification/Bus_Dispatch.thy ===== *)
theory Bus_Dispatch
  imports Bus_Runtime
begin

text \<open>
  Receiving, publishing and stopping: the second half of
  \<^verbatim>\<open>common/comm/src/shm_bus_runtime.cpp\<close>. One dispatch reads the next message of a
  subscriber, calls its handler and completes the slot; a wake of the pump runs as many dispatches
  as the eventfd counted notifications.
\<close>

section \<open>One message\<close>

definition BuildDedupKey :: "string \<Rightarrow> u64 \<Rightarrow> string" where
  "BuildDedupKey channel seq = (if channel = [] \<or> seq = 0 then [] else channel @ ''#'' @ nat_digits (unat seq))"

text \<open>The loop that forgets the oldest keys.\<close>

fun trim_window :: "nat \<Rightarrow> string list \<Rightarrow> string set \<Rightarrow> string list \<times> string set" where
  "trim_window capacity [] keys = ([], keys)"
| "trim_window capacity (k # ks) keys =
     (if length (k # ks) > capacity then trim_window capacity ks (keys - {k}) else (k # ks, keys))"

definition remember_key :: "string \<Rightarrow> SubscriberEntry \<Rightarrow> SubscriberEntry" where
  "remember_key key sub =
     (if key = [] \<or> key \<in> su_dedup_keys sub then sub
      else (case trim_window (su_dedup_capacity sub) (su_dedup_window sub @ [key]) (insert key (su_dedup_keys sub)) of
              (window, keys) \<Rightarrow> sub\<lparr>su_dedup_window := window, su_dedup_keys := keys\<rparr>))"

text \<open>The ring, the subscriber and what the pump thread keeps: metrics, the advance counter, the handler calls so far.\<close>

record dispatch_state =
  ds_ring :: ring
  ds_subscriber :: SubscriberEntry
  ds_metrics :: ReliabilityMetrics
  ds_count :: u64
  ds_calls :: "MessageEnvelope list"

definition envelope_of :: "RingSlotReservation \<Rightarrow> dispatch_state \<Rightarrow> MessageEnvelope" where
  "envelope_of res d =
     \<lparr>me_channel = su_channel (ds_subscriber d), me_publisher_module = ''shm'', me_delivery_id = res_sequence res,
      me_sequence = res_sequence res,
      me_maybe_duplicate =
        (let key = BuildDedupKey (su_channel (ds_subscriber d)) (res_sequence res) in key \<noteq> [] \<and> key \<in> su_dedup_keys (ds_subscriber d)),
      me_payload = read_payload (unat (res_payload_offset res)) (unat (res_payload_size res)) (ds_ring d)\<rparr>"

text \<open>The handler runs; it is acknowledged, as timed out where it threw.\<close>

definition call_handler :: "(MessageEnvelope \<Rightarrow> bool) \<Rightarrow> MessageEnvelope \<Rightarrow> dispatch_state \<Rightarrow> dispatch_state" where
  "call_handler throws envelope d =
     d\<lparr>ds_calls := ds_calls d @ [envelope],
       ds_metrics := the (snd (Ack (me_delivery_id envelope) (me_maybe_duplicate envelope) (throws envelope) (Some (ds_metrics d))))\<rparr>"

definition dispatch_message ::
  "(MessageEnvelope \<Rightarrow> bool) \<Rightarrow> ShmBusDeliveryMode \<Rightarrow> u64 \<Rightarrow> RingSlotReservation \<Rightarrow> u32 \<Rightarrow> dispatch_state \<Rightarrow> bool \<times> dispatch_state" where
  "dispatch_message throws delivery_mode next_read res slot_index d =
     (if res_sequence res < next_read then (False, d)
      else
        (let envelope = envelope_of res d;
             d1 = d\<lparr>ds_subscriber := remember_key (BuildDedupKey (su_channel (ds_subscriber d)) (res_sequence res)) (ds_subscriber d)\<rparr>;
             d2 = (case delivery_mode of
                     kCompete \<Rightarrow>
                       (case TryClaimSlot slot_index (ds_ring d1) of
                          (won, r1) \<Rightarrow> (let d' = d1\<lparr>ds_ring := r1\<rparr> in if won then call_handler throws envelope d' else d'))
                   | kBroadcast \<Rightarrow> call_handler throws envelope d1)
         in case CompleteConsumerSlot (su_consumer_index (ds_subscriber d)) slot_index (res_sequence res + 1) (ds_count d2) (ds_ring d2) of
              (complete_ok, count, r2) \<Rightarrow> (complete_ok, d2\<lparr>ds_count := count, ds_ring := r2\<rparr>)))"

text \<open>
  The wait for a slot that is reserved but not committed: \<open>ys\<close> is what the others do during the
  yields. \<open>None\<close>: still waiting.
\<close>

fun spin_read :: "(ring \<Rightarrow> ring) list \<Rightarrow> u32 \<Rightarrow> ring \<Rightarrow> ((RingSlotReservation \<times> u32) \<times> ring) option" where
  "spin_read ys c r =
     (case TryReadNextForConsumer c r of
        Some x \<Rightarrow> Some (x, r)
      | None \<Rightarrow> (case ys of [] \<Rightarrow> None | y # rest \<Rightarrow> spin_read rest c (y r)))"

declare spin_read.simps [simp del]

definition TryDispatchOneRingMessage ::
  "(ring \<Rightarrow> ring) list \<Rightarrow> (MessageEnvelope \<Rightarrow> bool) \<Rightarrow> ShmBusDeliveryMode \<Rightarrow> dispatch_state \<Rightarrow> (bool \<times> dispatch_state) option" where
  "TryDispatchOneRingMessage ys throws delivery_mode d =
     (let r = ds_ring d; c = su_consumer_index (ds_subscriber d) in
      if su_stop (ds_subscriber d) then Some (False, d)
      else case LoadConsumerCursor c r of
             None \<Rightarrow> Some (False, d)
           | Some next_read \<Rightarrow>
               if next_read = 0 \<or> slot_count (header r) = 0 then Some (False, d)
               else
                 (case TryReadNextForConsumer c r of
                    Some (res, i) \<Rightarrow> Some (dispatch_message throws delivery_mode next_read res i d)
                  | None \<Rightarrow>
                      (let raw = state_sequence (slot r (unat (slot_index_of (slot_count (header r)) next_read))) in
                       if UnpackSlotState raw = Some kReserved \<and> UnpackSlotSequence raw = next_read
                       then (case spin_read ys c r of
                               None \<Rightarrow> None
                             | Some ((res, i), r1) \<Rightarrow> Some (dispatch_message throws delivery_mode next_read res i (d\<lparr>ds_ring := r1\<rparr>)))
                       else Some (False, d))))"

section \<open>The pump\<close>

text \<open>\<open>stopped n\<close> is the stop flag as round \<open>n\<close> of the loop reads it.\<close>

fun dispatch_loop ::
  "(nat \<Rightarrow> (ring \<Rightarrow> ring) list) \<Rightarrow> (MessageEnvelope \<Rightarrow> bool) \<Rightarrow> (nat \<Rightarrow> bool) \<Rightarrow> ShmBusDeliveryMode \<Rightarrow> nat \<Rightarrow> nat \<Rightarrow> dispatch_state \<Rightarrow>
   (nat \<times> dispatch_state) option" where
  "dispatch_loop ys throws stopped delivery_mode n 0 d = Some (n, d)"
| "dispatch_loop ys throws stopped delivery_mode n (Suc budget) d =
     (if stopped n then Some (n, d)
      else case TryDispatchOneRingMessage (ys n) throws delivery_mode d of
             None \<Rightarrow> None
           | Some (False, d1) \<Rightarrow> Some (n, d1)
           | Some (True, d1) \<Rightarrow> dispatch_loop ys throws stopped delivery_mode (Suc n) budget d1)"

text \<open>
  What the pump does for one ready event. The runtime entry of the channel is looked up after the
  counter was read; the ring of the state is that channel's.
\<close>

definition pump_event ::
  "(nat \<Rightarrow> (ring \<Rightarrow> ring) list) \<Rightarrow> (MessageEnvelope \<Rightarrow> bool) \<Rightarrow> (nat \<Rightarrow> bool) \<Rightarrow> ChannelRuntime option \<Rightarrow> dispatch_state \<times> eventfds \<Rightarrow>
   (dispatch_state \<times> eventfds) option" where
  "pump_event ys throws stopped runtime w =
     (case w of (d, efds) \<Rightarrow>
        if su_event_fd (ds_subscriber d) < 0 then Some w
        else (case ReadEventFdNotifyCount (su_event_fd (ds_subscriber d)) efds of
                (None, efds1) \<Rightarrow> Some (d, efds1)
              | (Some notify_budget, efds1) \<Rightarrow>
                  if notify_budget = 0 then Some (d, efds1)
                  else (case runtime of
                          None \<Rightarrow> Some (d, efds1)
                        | Some cr \<Rightarrow>
                            map_option (\<lambda>nd. (snd nd, efds1))
                              (dispatch_loop ys throws stopped (cr_delivery_mode cr) 0 (unat notify_budget) d))))"

section \<open>Publishing\<close>

datatype publish_status = ChannelRuntimeNotFound | ChannelTopologyNotFound | PublishFailed publish_error

text \<open>The descriptors of the online consumers, in table order; the loop runs over \<open>k\<close> entries from \<open>i\<close> on.\<close>

fun online_fds :: "nat \<Rightarrow> nat \<Rightarrow> ring \<Rightarrow> int list" where
  "online_fds i 0 r = []"
| "online_fds i (Suc k) r =
     (if cstate (consumer r i) \<noteq> kOnline then online_fds (Suc i) k r
      else (case LoadConsumerNotificationFd (of_nat i) r of
              None \<Rightarrow> online_fds (Suc i) k r
            | Some fd \<Rightarrow> if fd < 0 then online_fds (Suc i) k r else fd # online_fds (Suc i) k r))"

fun notify_all_fds :: "int list \<Rightarrow> eventfds \<Rightarrow> eventfds" where
  "notify_all_fds [] efds = efds"
| "notify_all_fds (fd # fds) efds = notify_all_fds fds (snd (NotifyEventFd fd efds))"

definition publish_and_notify ::
  "(ring \<Rightarrow> ring) list \<Rightarrow> u64 \<Rightarrow> u8 list \<Rightarrow> ring \<times> eventfds \<Rightarrow> ((publish_error + u64) \<times> (ring \<times> eventfds)) option" where
  "publish_and_notify ys ns payload w =
     (case w of (r, efds) \<Rightarrow>
        case PublishCommittedPayload ys ns payload r of
          None \<Rightarrow> None
        | Some (Inl e, r1) \<Rightarrow> Some (Inl e, (r1, efds))
        | Some (Inr s, r1) \<Rightarrow> Some (Inr s, (r1, notify_all_fds (online_fds 0 (unat (notification_capacity (header r1))) r1) efds)))"

definition PublishWithStatus ::
  "(ring \<Rightarrow> ring) list \<Rightarrow> u64 \<Rightarrow> string \<Rightarrow> u8 list \<Rightarrow> bus_runtime \<Rightarrow> posix_shm \<times> eventfds \<Rightarrow>
   ((publish_status + u64) \<times> (posix_shm \<times> eventfds)) option" where
  "PublishWithStatus ys ns channel payload rt w =
     (case w of (shm, efds) \<Rightarrow>
        case map_of (rt_runtime_by_channel rt) channel of
          None \<Rightarrow> Some (Inl ChannelRuntimeNotFound, w)
        | Some cr \<Rightarrow>
            if map_of (rt_topology_index rt) channel = None then Some (Inl ChannelTopologyNotFound, w)
            else (case publish_and_notify ys ns payload (channel_ring cr shm, efds) of
                    None \<Rightarrow> None
                  | Some (res, (r1, efds1)) \<Rightarrow>
                      Some (map_sum PublishFailed id res, (store_ring (cr_segment cr) r1 shm, efds1))))"

definition runtime_Publish ::
  "(ring \<Rightarrow> ring) list \<Rightarrow> u64 \<Rightarrow> string \<Rightarrow> u8 list \<Rightarrow> bus_runtime \<Rightarrow> posix_shm \<times> eventfds \<Rightarrow> (bool \<times> (posix_shm \<times> eventfds)) option" where
  "runtime_Publish ys ns channel payload rt w =
     map_option (\<lambda>(res, w1). (case res of Inl e \<Rightarrow> False | Inr s \<Rightarrow> True, w1)) (PublishWithStatus ys ns channel payload rt w)"

text \<open>The overload for a protobuf envelope; \<open>serialize\<close> is the generated \<^verbatim>\<open>SerializeToString\<close>.\<close>

definition runtime_Publish_envelope ::
  "('e \<Rightarrow> u8 list option) \<Rightarrow> (ring \<Rightarrow> ring) list \<Rightarrow> u64 \<Rightarrow> string \<Rightarrow> 'e \<Rightarrow> bus_runtime \<Rightarrow> posix_shm \<times> eventfds \<Rightarrow>
   (bool \<times> (posix_shm \<times> eventfds)) option" where
  "runtime_Publish_envelope serialize ys ns channel envelope rt w =
     (case serialize envelope of
        None \<Rightarrow> Some (False, w)
      | Some payload \<Rightarrow> runtime_Publish ys ns channel payload rt w)"

text \<open>The other bus of the factory is a stub: every call fails.\<close>

datatype grpc_status = GrpcUnimplemented string

definition grpc_RegisterPublisher :: "string \<Rightarrow> string \<Rightarrow> bool" where
  "grpc_RegisterPublisher module_name channel \<longleftrightarrow> False"

definition grpc_Subscribe :: "string \<Rightarrow> string \<Rightarrow> bool" where
  "grpc_Subscribe module_name channel \<longleftrightarrow> False"

definition grpc_Publish :: "string \<Rightarrow> string \<Rightarrow> u8 list \<Rightarrow> bool" where
  "grpc_Publish module_name channel payload \<longleftrightarrow> False"

definition grpc_PublishWithStatus :: "string \<Rightarrow> string \<Rightarrow> u8 list \<Rightarrow> grpc_status + u64" where
  "grpc_PublishWithStatus module_name channel payload =
     Inl (GrpcUnimplemented (''GrpcPubSubBus::PublishWithStatus is not implemented, channel='' @ channel))"

section \<open>Stopping\<close>

text \<open>The loop over the consumer table of one ring: descriptors are closed, and cleared in the shared table.\<close>

fun close_consumer_fds :: "nat \<Rightarrow> nat \<Rightarrow> ring \<Rightarrow> int list \<times> ring" where
  "close_consumer_fds i 0 r = ([], r)"
| "close_consumer_fds i (Suc k) r =
     (case LoadConsumerNotificationFd (of_nat i) r of
        None \<Rightarrow> close_consumer_fds (Suc i) k r
      | Some fd \<Rightarrow>
          if fd < 0 then close_consumer_fds (Suc i) k r
          else (case close_consumer_fds (Suc i) k (snd (SetConsumerNotificationFd (of_nat i) (-1) r)) of
                  (fds, r1) \<Rightarrow> (fd # fds, r1)))"

fun close_channels :: "(string \<times> ChannelRuntime) list \<Rightarrow> posix_shm \<Rightarrow> int list \<times> posix_shm" where
  "close_channels [] shm = ([], shm)"
| "close_channels ((channel, cr) # rest) shm =
     (case close_consumer_fds 0 (unat (consumer_capacity (header (channel_ring cr shm)))) (channel_ring cr shm) of
        (fds, r1) \<Rightarrow> (case close_channels rest (store_ring (cr_segment cr) r1 shm) of (fds2, shm1) \<Rightarrow> (fds @ fds2, shm1)))"

text \<open>The pump is told and joined. The first result lists the descriptors this process closes.\<close>

definition StopAllSubscribers :: "bus_runtime \<times> (posix_shm \<times> eventfds) \<Rightarrow> int list \<times> (bus_runtime \<times> (posix_shm \<times> eventfds))" where
  "StopAllSubscribers w =
     (case w of (rt, (shm, efds)) \<Rightarrow>
        let subs = concat (map snd (rt_subscribers_by_channel rt));
            efds1 = notify_all_fds (map su_event_fd subs) efds
        in case close_channels (rt_runtime_by_channel rt) shm of
             (fds, shm1) \<Rightarrow>
               (fds, (rt\<lparr>rt_pump_stop := True, rt_pump_running := False, rt_subscribers_by_channel := [], rt_epoll_slots := [],
                         rt_runtime_by_channel := []\<rparr>, (shm1, efds1))))"

end
