(* ===== verification/Launch_Values.thy ===== *)
theory Launch_Values
  imports Topology_Config
begin

text \<open>
  The values of a launch plan, \<^verbatim>\<open>common/config/src/launch_plan_config.cpp\<close>: scalars and their
  conversions, the resource schema of a module with its CPU set, and the comparison of scalars
  that two modules give for the same global key.
\<close>

section \<open>Scalars\<close>

datatype LaunchPlanScalar = SString string | SInt int | SReal rat | SBool bool

record ResourceSchema =
  rs_startup_priority :: int
  rs_cpu_set :: string
  rs_restart_backoff_ms :: int
  rs_restart_max_retries :: int
  rs_restart_window_ms :: int
  rs_restart_fuse_ms :: int
  rs_ready_timeout_ms :: int

definition empty_schema :: ResourceSchema where
  "empty_schema = \<lparr>rs_startup_priority = 0, rs_cpu_set = [], rs_restart_backoff_ms = 0, rs_restart_max_retries = 0,
     rs_restart_window_ms = 0, rs_restart_fuse_ms = 0, rs_ready_timeout_ms = 0\<rparr>"

type_synonym scalars = "(string \<times> LaunchPlanScalar) list"

text \<open>Sixteen digits: \<^verbatim>\<open>std::numeric_limits<double>::digits10 + 1\<close>.\<close>

definition ScalarToAssignmentString :: "LaunchPlanScalar \<Rightarrow> string" where
  "ScalarToAssignmentString v =
     (case v of
        SString s \<Rightarrow> s
      | SInt i \<Rightarrow> int_to_string i
      | SReal x \<Rightarrow> format_general 16 x
      | SBool b \<Rightarrow> if b then ''true'' else ''false'')"

definition ScalarFromJsonLeaf :: "json \<Rightarrow> string \<Rightarrow> string + LaunchPlanScalar" where
  "ScalarFromJsonLeaf node field_path =
     (case node of
        JString s \<Rightarrow> Inr (SString s)
      | JBool b \<Rightarrow> Inr (SBool b)
      | JInt i \<Rightarrow> Inr (SInt i)
      | JReal x \<Rightarrow> Inr (SReal x)
      | JNull \<Rightarrow> Inl (field_path @ '': null is not allowed for scalar field'')
      | _ \<Rightarrow> Inl (field_path @ '': expected scalar (string, number, or bool)''))"

text \<open>
  \<open>int64_of_double\<close> is the cast; at \<open>2 ^ 63\<close>, which the test before it lets through, the result is
  what the conversion instruction of x86-64 leaves.
\<close>

definition int64_of_double :: "rat \<Rightarrow> int" where
  "int64_of_double x = (if x \<ge> 2 ^ 63 then - (2 ^ 63) else \<lfloor>x\<rfloor>)"

definition TryExtractInt64 :: "LaunchPlanScalar \<Rightarrow> string \<Rightarrow> string + int" where
  "TryExtractInt64 v field_path =
     (case v of
        SInt i \<Rightarrow> Inr i
      | SReal x \<Rightarrow>
          if of_int \<lfloor>x\<rfloor> = x \<and> - (2 ^ 63) \<le> x \<and> x \<le> 2 ^ 63 then Inr (int64_of_double x)
          else Inl (field_path @ '': must be integer'')
      | SString s \<Rightarrow>
          if s = [] then Inl (field_path @ '': must be non-empty integer string'')
          else (case stoll s of
                  Inl _ \<Rightarrow> Inl (field_path @ '': must be integer string'')
                | Inr (i, rest) \<Rightarrow> if rest \<noteq> [] then Inl (field_path @ '': must be integer string'') else Inr i)
      | SBool b \<Rightarrow> Inl (field_path @ '': must be integer''))"

section \<open>CPU sets\<close>

definition cpu_token :: "string \<Rightarrow> string \<Rightarrow> int list \<Rightarrow> string + int list" where
  "cpu_token field_path token cpus =
     (if token = [] then Inl (field_path @ '': contains empty CPU token'')
      else if \<not> list_all is_digit token then Inl (field_path @ '': invalid token '' @ quoted token)
      else case TryExtractInt64 (SString token) field_path of
             Inl e \<Rightarrow> Inl e
           | Inr i \<Rightarrow>
               if i < 0 \<or> i > 4095 then Inl (field_path @ '': CPU value out of range [0,4095]'')
               else if i \<in> set cpus then Inl (field_path @ '': duplicate CPU value '' @ int_to_string i)
               else Inr (cpus @ [i]))"

definition ValidateAndNormalizeCpuSet :: "string \<Rightarrow> string \<Rightarrow> string + string" where
  "ValidateAndNormalizeCpuSet cpu_set field_path =
     (if cpu_set = [] then Inr []
      else case each (cpu_token field_path) (split_at (CHR '','') cpu_set) [] of
             Inl e \<Rightarrow> Inl e
           | Inr cpus \<Rightarrow>
               if cpus = [] then Inl (field_path @ '': must contain at least one CPU'')
               else Inr (join_with '','' (map int_to_string cpus)))"

section \<open>The resource schema\<close>

definition LookupRequiredInt :: "scalars \<Rightarrow> string \<Rightarrow> string \<Rightarrow> string + int" where
  "LookupRequiredInt resource key field_prefix =
     (case map_of resource key of
        None \<Rightarrow> Inl (field_prefix @ ''.'' @ key @ '': missing required field'')
      | Some v \<Rightarrow> TryExtractInt64 v (field_prefix @ ''.'' @ key))"

text \<open>The table with \<^verbatim>\<open>cpu_set\<close> filled in from the legacy key \<^verbatim>\<open>cpu_id\<close> where it is absent.\<close>

definition legacy_cpu_set :: "scalars \<Rightarrow> string \<Rightarrow> string + scalars" where
  "legacy_cpu_set resource field_prefix =
     (case map_of resource ''cpu_set'' of
        Some _ \<Rightarrow> Inr resource
      | None \<Rightarrow>
          (case map_of resource ''cpu_id'' of
             None \<Rightarrow> Inr resource
           | Some v \<Rightarrow> (case TryExtractInt64 v (field_prefix @ ''.cpu_id'') of
                         Inl e \<Rightarrow> Inl e
                       | Inr i \<Rightarrow> Inr (assign ''cpu_set'' (SString (int_to_string i)) resource))))"

definition LookupRequiredCpuSet :: "scalars \<Rightarrow> string \<Rightarrow> string + scalars \<times> string" where
  "LookupRequiredCpuSet resource field_prefix =
     also_then (legacy_cpu_set resource field_prefix) (\<lambda>res.
       case map_of res ''cpu_set'' of
         None \<Rightarrow> Inl (field_prefix @ ''.cpu_set: missing required field'')
       | Some (SString s) \<Rightarrow>
           also_then (ValidateAndNormalizeCpuSet s (field_prefix @ ''.cpu_set''))
             (\<lambda>normalized. Inr (assign ''cpu_set'' (SString normalized) res, normalized))
       | Some _ \<Rightarrow> Inl (field_prefix @ ''.cpu_set: must be string''))"

definition IsPerModuleResourceSchemaKey :: "string \<Rightarrow> bool" where
  "IsPerModuleResourceSchemaKey key \<longleftrightarrow>
     key \<in> {''startup_priority'', ''cpu_set'', ''cpu_id'', ''restart_backoff_ms'', ''restart_max_retries'',
            ''restart_window_ms'', ''restart_fuse_ms'', ''ready_timeout_ms''}"

definition ValidateAndNormalize :: "scalars \<Rightarrow> string \<Rightarrow> string + scalars \<times> ResourceSchema" where
  "ValidateAndNormalize resource prefix =
     also_then (LookupRequiredInt resource ''startup_priority'' prefix) (\<lambda>priority.
     also_then (LookupRequiredCpuSet resource prefix) (\<lambda>(res, cpu_set).
     also_then (LookupRequiredInt res ''restart_backoff_ms'' prefix) (\<lambda>backoff.
     also_then (LookupRequiredInt res ''restart_max_retries'' prefix) (\<lambda>retries.
     also_then (LookupRequiredInt res ''restart_window_ms'' prefix) (\<lambda>window.
     also_then (LookupRequiredInt res ''restart_fuse_ms'' prefix) (\<lambda>fuse.
     also_then (LookupRequiredInt res ''ready_timeout_ms'' prefix) (\<lambda>ready.
       Inr (res, \<lparr>rs_startup_priority = priority, rs_cpu_set = cpu_set, rs_restart_backoff_ms = backoff,
                  rs_restart_max_retries = retries, rs_restart_window_ms = window,
                  rs_restart_fuse_ms = fuse, rs_ready_timeout_ms = ready\<rparr>))))))))"

section \<open>Global keys\<close>

definition number_of :: "LaunchPlanScalar \<Rightarrow> rat option" where
  "number_of v = (case v of SInt i \<Rightarrow> Some (of_int i) | SReal x \<Rightarrow> Some x | _ \<Rightarrow> None)"

definition same_kind :: "LaunchPlanScalar \<Rightarrow> LaunchPlanScalar \<Rightarrow> bool" where
  "same_kind a b = (case (a, b) of
      (SString _, SString _) \<Rightarrow> True | (SInt _, SInt _) \<Rightarrow> True | (SReal _, SReal _) \<Rightarrow> True | (SBool _, SBool _) \<Rightarrow> True
    | _ \<Rightarrow> False)"

definition ScalarsEqualForMerge :: "LaunchPlanScalar \<Rightarrow> LaunchPlanScalar \<Rightarrow> bool" where
  "ScalarsEqualForMerge a b =
     (if same_kind a b then a = b
      else case (number_of a, number_of b) of
             (Some da, Some db) \<Rightarrow> \<bar>da - db\<bar> \<le> (1 / 10 ^ 9) * max 1 \<bar>da\<bar>
           | _ \<Rightarrow> False)"

definition RecordGlobalScalar :: "string \<times> LaunchPlanScalar \<Rightarrow> scalars \<Rightarrow> string + scalars" where
  "RecordGlobalScalar kv global =
     (case map_of global (fst kv) of
        None \<Rightarrow> Inr (emplace (fst kv) (snd kv) global)
      | Some old \<Rightarrow> if ScalarsEqualForMerge old (snd kv) then Inr global
                    else Inl (''global gflag key conflict for '' @ quoted (fst kv) @ '' across modules''))"

definition JsonKeyRequiresIntegralValue :: "string \<Rightarrow> bool" where
  "JsonKeyRequiresIntegralValue key \<longleftrightarrow> key = ''test_typecheck_int''"

definition is_JInt :: "json \<Rightarrow> bool" where
  "is_JInt v = (case v of JInt _ \<Rightarrow> True | _ \<Rightarrow> False)"

definition parse_scalar :: "string \<Rightarrow> string \<times> json \<Rightarrow> scalars \<Rightarrow> string + scalars" where
  "parse_scalar field_prefix kv out =
     (if JsonKeyRequiresIntegralValue (fst kv) \<and> \<not> is_JInt (snd kv)
      then Inl (field_prefix @ ''.'' @ fst kv @ '': JSON integer value required'')
      else also_then (ScalarFromJsonLeaf (snd kv) (field_prefix @ ''.'' @ fst kv)) (\<lambda>s. Inr (emplace (fst kv) s out)))"

definition ParseStringMapScalars :: "json \<Rightarrow> string \<Rightarrow> string + scalars" where
  "ParseStringMapScalars node field_prefix =
     (case node of
        JObject members \<Rightarrow> each (parse_scalar field_prefix) members []
      | _ \<Rightarrow> Inl (field_prefix @ '': must be object''))"

section \<open>Normalised CPU sets\<close>

definition cpus_valid :: "int list \<Rightarrow> bool" where
  "cpus_valid cpus \<longleftrightarrow> distinct cpus \<and> (\<forall>i \<in> set cpus. 0 \<le> i \<and> i \<le> 4095)"

lemma cpu_token_valid:
  assumes "cpu_token p token cpus = Inr cpus'" "cpus_valid cpus"
  shows "cpus_valid cpus'"
  using assms by (auto simp: cpu_token_def cpus_valid_def split: if_splits sum.splits)

lemma int_digits:
  assumes "0 \<le> i"
  shows "int_to_string i \<noteq> []" "list_all is_digit (int_to_string i)" "CHR '','' \<notin> set (int_to_string i)"
proof -
  show d: "list_all is_digit (int_to_string i)"
    using assms nat_digits_digits by (simp add: int_to_string_def)
  show "int_to_string i \<noteq> []"
    using assms nat_digits_nonempty by (simp add: int_to_string_def)
  have "\<not> is_digit (CHR '','')"
    by (simp add: is_digit_def)
  then show "CHR '','' \<notin> set (int_to_string i)"
    using d by (auto simp: list_all_iff)
qed

lemma cpu_token_of_number:
  assumes "0 \<le> i" "i \<le> 4095" "i \<notin> set cpus"
  shows "cpu_token p (int_to_string i) cpus = Inr (cpus @ [i])"
  using assms int_digits [OF assms(1)] stoll_int_to_string [of i "[]"]
  by (simp add: cpu_token_def TryExtractInt64_def)

lemma cpu_tokens_of_numbers:
  "cpus_valid (acc @ cpus) \<Longrightarrow> each (cpu_token p) (map int_to_string cpus) acc = Inr (acc @ cpus)"
proof (induction cpus arbitrary: acc)
  case (Cons i cpus)
  then have "cpu_token p (int_to_string i) acc = Inr (acc @ [i])"
    by (intro cpu_token_of_number) (auto simp: cpus_valid_def)
  then show ?case
    using Cons by simp
qed simp

lemma normal_cpu_set:
  assumes "cpus_valid cpus" "cpus \<noteq> []"
  shows "ValidateAndNormalizeCpuSet (join_with '','' (map int_to_string cpus)) p =
         Inr (join_with '','' (map int_to_string cpus))"
proof -
  have tokens: "list_all (\<lambda>x. CHR '','' \<notin> set x \<and> x \<noteq> []) (map int_to_string cpus)"
    using assms(1) int_digits by (auto simp: cpus_valid_def list_all_iff)
  then have "split_at (CHR '','') (join_with '','' (map int_to_string cpus)) = map int_to_string cpus"
    by (rule split_at_join)
  moreover have "join_with '','' (map int_to_string cpus) \<noteq> []"
    using join_with_empty [of "'',''" "map int_to_string cpus" "int_to_string (hd cpus)"] assms int_digits
    by (auto simp: cpus_valid_def)
  ultimately show ?thesis
    using cpu_tokens_of_numbers [of "[]" cpus p] assms by (simp add: ValidateAndNormalizeCpuSet_def)
qed

text \<open>
  An accepted CPU set is empty (no binding) or comes out as the comma-separated decimal
  numbers of distinct CPUs between 0 and 4095, and that text is a fixed point: normalising it
  again, under any field name, gives it back.
\<close>

lemma cpu_set_canonical:
  assumes "ValidateAndNormalizeCpuSet s p = Inr n"
  shows "(s = [] \<and> n = []) \<or>
    (\<exists>cpus. cpus \<noteq> [] \<and> distinct cpus \<and> (\<forall>i \<in> set cpus. 0 \<le> i \<and> i \<le> 4095) \<and>
       n = join_with '','' (map int_to_string cpus) \<and> ValidateAndNormalizeCpuSet n q = Inr n)"
proof (cases "s = []")
  case False
  then obtain cpus where cpus: "each (cpu_token p) (split_at (CHR '','') s) [] = Inr cpus" "cpus \<noteq> []"
      "n = join_with '','' (map int_to_string cpus)"
    using assms by (auto simp: ValidateAndNormalizeCpuSet_def split: sum.splits if_splits)
  have "cpus_valid cpus"
    by (rule each_invariant [OF cpus(1)]) (simp add: cpus_valid_def, rule cpu_token_valid)
  then show ?thesis
    using normal_cpu_set [of cpus q] cpus(2,3) unfolding cpus_valid_def by blast
qed (use assms in \<open>simp add: ValidateAndNormalizeCpuSet_def\<close>)

lemma cpu_set_example: "ValidateAndNormalizeCpuSet ''003,1,'' ''x'' = Inr ''3,1''"
  by code_simp

section \<open>What a validated resource says\<close>

definition schema_of_resource :: "scalars \<Rightarrow> ResourceSchema \<Rightarrow> bool" where
  "schema_of_resource res schema \<longleftrightarrow>
     map_of res ''cpu_set'' = Some (SString (rs_cpu_set schema)) \<and>
     (\<forall>(key, v) \<in> set [(''startup_priority'', rs_startup_priority schema), (''restart_backoff_ms'', rs_restart_backoff_ms schema),
        (''restart_max_retries'', rs_restart_max_retries schema), (''restart_window_ms'', rs_restart_window_ms schema),
        (''restart_fuse_ms'', rs_restart_fuse_ms schema), (''ready_timeout_ms'', rs_ready_timeout_ms schema)].
        LookupRequiredInt res key [] = Inr v)"

lemma TryExtract_path: "TryExtractInt64 v p = Inr i \<Longrightarrow> TryExtractInt64 v q = Inr i"
  by (auto simp: TryExtractInt64_def split: LaunchPlanScalar.splits if_splits sum.splits prod.splits)

lemma LookupRequiredInt_path: "LookupRequiredInt res key p = Inr i \<Longrightarrow> LookupRequiredInt res key q = Inr i"
  by (auto simp: LookupRequiredInt_def split: option.splits intro: TryExtract_path)

lemma cpu_set_lookup:
  assumes "LookupRequiredCpuSet resource p = Inr (res, cpus)"
  shows "map_of res ''cpu_set'' = Some (SString cpus)" "key \<noteq> ''cpu_set'' \<Longrightarrow> map_of res key = map_of resource key"
proof -
  obtain mid where mid0: "legacy_cpu_set resource p = Inr mid"
    using assms unfolding LookupRequiredCpuSet_def also_then_Inr by blast
  then obtain s where "map_of mid ''cpu_set'' = Some (SString s)"
    using assms by (cases "map_of mid ''cpu_set''"; cases "the (map_of mid ''cpu_set'')")
      (simp_all add: LookupRequiredCpuSet_def)
  then have mid: "legacy_cpu_set resource p = Inr mid" "res = assign ''cpu_set'' (SString cpus) mid"
    using assms mid0 by (simp_all add: LookupRequiredCpuSet_def)
  show "map_of res ''cpu_set'' = Some (SString cpus)"
    by (simp add: mid)
  show "map_of res key = map_of resource key" if "key \<noteq> ''cpu_set''"
    using mid(1) that by (auto simp: mid(2) legacy_cpu_set_def split: option.splits sum.splits)
qed

lemma ValidateAndNormalize_schema:
  assumes "ValidateAndNormalize resource p = Inr (res, schema)"
  shows "schema_of_resource res schema"
proof -
  obtain cpus where c: "LookupRequiredCpuSet resource p = Inr (res, cpus)"
    and s: "LookupRequiredInt resource ''startup_priority'' p = Inr (rs_startup_priority schema)" "rs_cpu_set schema = cpus"
      "LookupRequiredInt res ''restart_backoff_ms'' p = Inr (rs_restart_backoff_ms schema)"
      "LookupRequiredInt res ''restart_max_retries'' p = Inr (rs_restart_max_retries schema)"
      "LookupRequiredInt res ''restart_window_ms'' p = Inr (rs_restart_window_ms schema)"
      "LookupRequiredInt res ''restart_fuse_ms'' p = Inr (rs_restart_fuse_ms schema)"
      "LookupRequiredInt res ''ready_timeout_ms'' p = Inr (rs_ready_timeout_ms schema)"
    using assms by (auto simp: ValidateAndNormalize_def split: prod.splits)
  have "LookupRequiredInt res ''startup_priority'' p = Inr (rs_startup_priority schema)"
    using s(1) cpu_set_lookup(2) [OF c, of "''startup_priority''"] by (simp add: LookupRequiredInt_def)
  then show ?thesis
    using cpu_set_lookup(1) [OF c] s by (simp add: schema_of_resource_def LookupRequiredInt_path [where q = "[]"])
qed

section \<open>Agreement on the global keys\<close>

definition agrees :: "scalars \<Rightarrow> string \<times> LaunchPlanScalar \<Rightarrow> bool" where
  "agrees global kv \<longleftrightarrow> (\<exists>v. map_of global (fst kv) = Some v \<and> ScalarsEqualForMerge v (snd kv))"

lemma ScalarsEqual_refl: "ScalarsEqualForMerge v v"
  by (cases v) (simp_all add: ScalarsEqualForMerge_def same_kind_def)

lemma RecordGlobalScalar_agrees:
  assumes "RecordGlobalScalar kv global = Inr global'"
  shows "agrees global' kv" "agrees global kv' \<Longrightarrow> agrees global' kv'"
proof -
  have cases: "(fst kv \<notin> fst ` set global \<and> global' = emplace (fst kv) (snd kv) global) \<or>
      (global' = global \<and> agrees global kv)"
    using assms by (auto simp: RecordGlobalScalar_def agrees_def map_of_eq_None_iff split: option.splits if_splits)
  then show "agrees global' kv"
    by (auto simp: agrees_def map_of_emplace ScalarsEqual_refl)
  show "agrees global' kv'" if "agrees global kv'"
    using cases that by (auto simp: agrees_def map_of_emplace map_of_eq_None_iff [symmetric])
qed

lemma RecordGlobalScalars_agree:
  assumes "each RecordGlobalScalar kvs global = Inr global'"
  shows "(\<forall>kv \<in> set kvs. agrees global' kv) \<and> (\<forall>kv. agrees global kv \<longrightarrow> agrees global' kv)"
  using assms
proof (induction kvs arbitrary: global)
  case (Cons kv kvs)
  then obtain g where g: "RecordGlobalScalar kv global = Inr g" "each RecordGlobalScalar kvs g = Inr global'"
    by (auto split: sum.splits)
  show ?case
    using Cons.IH [OF g(2)] RecordGlobalScalar_agrees [OF g(1)] by (metis set_ConsD)
qed simp

end
