(* ===== verification/Launch_Plan.thy ===== *)
theory Launch_Plan
  imports Launch_Values
begin

text \<open>
  The launch plan of \<^verbatim>\<open>common/config/src/launch_plan_config.cpp\<close>: the plan file with its modules,
  the I/O file of each, the global topology; handing the scalars to gflags; and the environment
  the processes inherit. The file system is the content of a path or \<open>None\<close>. gflags is an argument:
  which flags are registered, and what setting one does to the flags.
\<close>

section \<open>Data\<close>

record LaunchPlanValidationOptions =
  enforce_strict_resource_schema :: bool
  registered_module_names :: "string list option"

record ParsedModuleLaunchEntry =
  me_modules_dict_key :: string
  me_module_name :: string
  me_resource :: scalars
  me_resource_schema :: ResourceSchema
  me_module_params :: scalars
  me_io_path :: string
  me_channels :: ModuleChannelConfig

record ParsedLaunchPlan =
  lp_path :: string
  lp_minloglevel :: "int option"
  lp_slot_count :: "nat option"
  lp_slot_payload_bytes :: "nat option"
  lp_modules :: "ParsedModuleLaunchEntry list"
  lp_topology :: ChannelTopologyIndex

section \<open>The I/O file of a module\<close>

definition io_param :: "string \<Rightarrow> string \<times> json \<Rightarrow> params \<Rightarrow> string + params" where
  "io_param channel_path kv ps =
     (let ppath = channel_path @ ''.'' @ fst kv in
      also_then (ScalarFromJsonLeaf (snd kv) ppath) (\<lambda>s.
        if fst kv \<in> fst ` set ps then Inl (ppath @ '': duplicate parameter key'')
        else Inr (emplace (fst kv) (ScalarToAssignmentString s) ps)))"

definition io_channel :: "string \<Rightarrow> bool \<Rightarrow> string \<times> json \<Rightarrow> ChannelEndpointConfig list \<times> string list \<Rightarrow>
    string + ChannelEndpointConfig list \<times> string list" where
  "io_channel field_path is_output cn st =
     (let channel = fst cn; path = field_path @ ''.'' @ channel in
      if \<not> IsValidChannelName channel then Inl (path @ '': invalid channel name'')
      else case snd cn of
        JObject members \<Rightarrow>
          also_then (each (io_param path) members []) (\<lambda>ps.
            let ep = \<lparr>ep_channel = channel, ep_params = ps\<rparr> in
            if is_output \<and> channel \<in> set (snd st) then Inl (path @ '': duplicate output channel in module'')
            else Inr (fst st @ [ep], if is_output then channel # snd st else snd st))
      | _ \<Rightarrow> Inl (path @ '': parameters must be object''))"

definition ParseChannelDict :: "json \<Rightarrow> string \<Rightarrow> bool \<Rightarrow> string + ChannelEndpointConfig list" where
  "ParseChannelDict side field_path is_output =
     (case side of
        JObject members \<Rightarrow> also_then (each (io_channel field_path is_output) members ([], [])) (\<lambda>st. Inr (fst st))
      | _ \<Rightarrow> Inl (field_path @ '': must be object''))"

definition ParseJsonTree :: "string \<Rightarrow> string + json" where
  "ParseJsonTree content =
     (case JParser_ParseDocument content of
        Inr v \<Rightarrow> Inr v
      | Inl (ParseError m) \<Rightarrow> Inl m
      | Inl _ \<Rightarrow> Inl [])"

definition io_file_error :: "string \<Rightarrow> string \<Rightarrow> string \<Rightarrow> string" where
  "io_file_error m path msg = ''module '' @ quoted m @ '' io file '' @ path @ '': '' @ msg"

definition unknown_key :: "string list \<Rightarrow> (string \<times> json) list \<Rightarrow> string option" where
  "unknown_key known members = (case filter (\<lambda>kv. fst kv \<notin> set known) members of [] \<Rightarrow> None | kv # _ \<Rightarrow> Some (fst kv))"

definition io_document :: "string \<Rightarrow> string \<Rightarrow> (string \<times> json) list \<Rightarrow> string + ModuleChannelConfig" where
  "io_document m path members =
     (case (FindJsonKey members ''input_channel'', FindJsonKey members ''output_channel'') of
        (None, _) \<Rightarrow> Inl (io_file_error m path ''missing input_channel'')
      | (_, None) \<Rightarrow> Inl (io_file_error m path ''missing output_channel'')
      | (Some ins, Some outs) \<Rightarrow>
          (case unknown_key [''input_channel'', ''output_channel''] members of
             Some k \<Rightarrow> Inl (io_file_error m path (''unknown key '' @ quoted k))
           | None \<Rightarrow>
               also_then (ParseChannelDict ins ''input_channel'' False) (\<lambda>ic.
               also_then (ParseChannelDict outs ''output_channel'' True) (\<lambda>oc.
                 Inr \<lparr>mc_module = m, mc_inputs = ic, mc_outputs = oc\<rparr>))))"

definition ParseModuleIoJsonFile :: "(string \<Rightarrow> string option) \<Rightarrow> string \<Rightarrow> string \<Rightarrow> string + ModuleChannelConfig" where
  "ParseModuleIoJsonFile files m path =
     (case files path of
        None \<Rightarrow> Inl (''failed to open file: '' @ path)
      | Some content \<Rightarrow>
          (case ParseJsonTree content of
             Inl e \<Rightarrow> Inl (path @ '': '' @ e)
           | Inr (JObject members) \<Rightarrow> io_document m path members
           | Inr _ \<Rightarrow> Inl (path @ '': root must be object'')))"

section \<open>The plan file\<close>

definition parse_minloglevel :: "json option \<Rightarrow> string + int option" where
  "parse_minloglevel node =
     (case node of
        None \<Rightarrow> Inr None
      | Some v \<Rightarrow>
          also_then (ScalarFromJsonLeaf v ''minloglevel'') (\<lambda>s.
          also_then (TryExtractInt64 s ''minloglevel'') (\<lambda>i.
            if i < 0 \<or> i > 3 then Inl ''minloglevel: out of range [0,3]'' else Inr (Some i))))"

definition parse_bounded :: "string \<Rightarrow> int \<Rightarrow> string \<Rightarrow> json option \<Rightarrow> string + nat option" where
  "parse_bounded path upper complaint node =
     (case node of
        None \<Rightarrow> Inr None
      | Some v \<Rightarrow>
          also_then (ScalarFromJsonLeaf v path) (\<lambda>s.
          also_then (TryExtractInt64 s path) (\<lambda>i.
            if i \<le> 0 \<or> i > upper then Inl (path @ complaint) else Inr (Some (nat i)))))"

definition parse_communication :: "json option \<Rightarrow> string + nat option \<times> nat option" where
  "parse_communication node =
     (case node of
        None \<Rightarrow> Inr (None, None)
      | Some (JObject members) \<Rightarrow>
          (case unknown_key [''shm_slot_count'', ''slot_payload_bytes''] members of
             Some k \<Rightarrow> Inl (''communication: unknown key '' @ quoted k)
           | None \<Rightarrow>
               also_then (parse_bounded ''communication.shm_slot_count'' (2 ^ 32 - 1) '': must be in range [1,4294967295]''
                            (FindJsonKey members ''shm_slot_count'')) (\<lambda>count.
               also_then (parse_bounded ''communication.slot_payload_bytes'' (2 ^ 63 - 1) '': must be a positive integer''
                            (FindJsonKey members ''slot_payload_bytes'')) (\<lambda>bytes.
                 Inr (count, bytes))))
      | Some _ \<Rightarrow> Inl ''communication: must be object'')"

definition ResolveIoPath :: "string \<Rightarrow> string \<Rightarrow> string" where
  "ResolveIoPath launch_dir raw = (if is_absolute_path raw then raw else join_path launch_dir raw)"

text \<open>What a module object must have, before its scalars are read: the nodes of resource and parameters, and the path.\<close>

definition module_nodes :: "string \<Rightarrow> json \<Rightarrow> string + json \<times> json \<times> string" where
  "module_nodes key node =
     (let here = ''modules.'' @ key in
      case node of
        JObject mo \<Rightarrow>
          (case (FindJsonKey mo ''module_name'', FindJsonKey mo ''resource'', FindJsonKey mo ''module_params'',
                 FindJsonKey mo ''io_channels_config_path'') of
             (None, _) \<Rightarrow> Inl (here @ '': missing module_name'')
           | (_, None, _) \<Rightarrow> Inl (here @ '': missing resource'')
           | (_, _, None, _) \<Rightarrow> Inl (here @ '': missing module_params'')
           | (_, _, _, None) \<Rightarrow> Inl (here @ '': missing io_channels_config_path'')
           | (Some name_v, Some res_v, Some par_v, Some io_v) \<Rightarrow>
               if \<not> is_JString name_v \<or> name_v = JString [] then Inl (here @ ''.module_name: must be non-empty string'')
               else if name_v \<noteq> JString key then Inl (here @ '': module_name must match modules map key'')
               else (case io_v of
                 JString raw \<Rightarrow>
                   if raw = [] then Inl (here @ ''.io_channels_config_path: must be non-empty string'')
                   else (case unknown_key [''module_name'', ''resource'', ''module_params'', ''io_channels_config_path''] mo of
                           Some k \<Rightarrow> Inl (here @ '': unknown key '' @ quoted k)
                         | None \<Rightarrow> Inr (res_v, par_v, raw))
               | _ \<Rightarrow> Inl (here @ ''.io_channels_config_path: must be non-empty string'')))
      | _ \<Rightarrow> Inl (here @ '': module entry must be object''))"

definition parse_resource :: "bool \<Rightarrow> json \<Rightarrow> string \<Rightarrow> string + scalars \<times> ResourceSchema" where
  "parse_resource strict node path =
     also_then (ParseStringMapScalars node path) (\<lambda>res.
       if strict then ValidateAndNormalize res path else Inr (res, empty_schema))"

definition record_globals :: "scalars \<Rightarrow> scalars \<Rightarrow> scalars \<Rightarrow> string + scalars" where
  "record_globals resource mparams global =
     also_then (each RecordGlobalScalar (filter (\<lambda>kv. \<not> IsPerModuleResourceSchemaKey (fst kv)) resource) global)
       (each RecordGlobalScalar mparams)"

text \<open>How the error of an I/O file is reported, from the text of the error.\<close>

definition io_error :: "string \<Rightarrow> string \<Rightarrow> string \<Rightarrow> string" where
  "io_error key path err =
     (if contains_text ''failed to open'' err then ''modules.'' @ key @ '': io file not found at '' @ path
      else if \<not> contains_text (''module '' @ [CHR 0x27]) err then ''modules.'' @ key @ '' ('' @ key @ ''): '' @ err
      else err)"

text \<open>One round of the loop over the modules; the state is the staged entries and the global scalars.\<close>

definition parse_module ::
  "(string \<Rightarrow> string option) \<Rightarrow> LaunchPlanValidationOptions \<Rightarrow> string \<Rightarrow> string \<times> json \<Rightarrow>
   ParsedModuleLaunchEntry list \<times> scalars \<Rightarrow> string + ParsedModuleLaunchEntry list \<times> scalars" where
  "parse_module files options launch_dir kn st =
     (let key = fst kn; here = ''modules.'' @ key in
      also_then (module_nodes key (snd kn)) (\<lambda>(res_v, par_v, raw).
      also_then (parse_resource (enforce_strict_resource_schema options) res_v (here @ ''.resource'')) (\<lambda>(res, schema).
      also_then (ParseStringMapScalars par_v (here @ ''.module_params'')) (\<lambda>mparams.
        if (case registered_module_names options of None \<Rightarrow> False | Some names \<Rightarrow> key \<notin> set names)
        then Inl (here @ ''.module_name: unregistered module factory '' @ quoted key)
        else also_then (record_globals res mparams (snd st)) (\<lambda>global.
          let path = lexically_normal (ResolveIoPath launch_dir raw) in
          case ParseModuleIoJsonFile files key path of
            Inl e \<Rightarrow> Inl (io_error key path e)
          | Inr channels \<Rightarrow>
              Inr (fst st @ [\<lparr>me_modules_dict_key = key, me_module_name = key, me_resource = res,
                    me_resource_schema = schema, me_module_params = mparams, me_io_path = path,
                    me_channels = channels\<rparr>], global))))))"

text \<open>\<open>Escaped\<close> never comes back from the index builder (\<open>build_never_escapes\<close>).\<close>

definition error_text :: "config_error \<Rightarrow> string" where
  "error_text e = (case e of Reported m \<Rightarrow> m | Escaped _ \<Rightarrow> [])"

definition parse_plan_document ::
  "(string \<Rightarrow> string option) \<Rightarrow> LaunchPlanValidationOptions \<Rightarrow> string \<Rightarrow> (string \<times> json) list \<Rightarrow> string + ParsedLaunchPlan" where
  "parse_plan_document files options path members =
     (case FindJsonKey members ''modules'' of
        None \<Rightarrow> Inl (path @ '': missing top-level '' @ quoted ''modules'')
      | Some (JObject mods) \<Rightarrow>
          also_then (parse_minloglevel (FindJsonKey members ''minloglevel'')) (\<lambda>level.
          also_then (parse_communication (FindJsonKey members ''communication'')) (\<lambda>(count, bytes).
            case unknown_key [''modules'', ''minloglevel'', ''communication''] members of
              Some k \<Rightarrow> Inl (path @ '': unknown top-level key '' @ quoted k)
            | None \<Rightarrow>
                also_then (each (parse_module files options (parent_path path)) mods ([], [])) (\<lambda>st.
                  case BuildChannelTopologyIndex (map me_channels (fst st)) of
                    Inl e \<Rightarrow> Inl (error_text e)
                  | Inr topo \<Rightarrow> Inr \<lparr>lp_path = path, lp_minloglevel = level, lp_slot_count = count,
                                 lp_slot_payload_bytes = bytes, lp_modules = fst st, lp_topology = topo\<rparr>)))
      | Some _ \<Rightarrow> Inl (path @ '': '' @ quoted ''modules'' @ '' must be object''))"

definition ParseLaunchPlanFile ::
  "(string \<Rightarrow> string option) \<Rightarrow> LaunchPlanValidationOptions \<Rightarrow> string \<Rightarrow> string + ParsedLaunchPlan" where
  "ParseLaunchPlanFile files options path =
     (case files path of
        None \<Rightarrow> Inl (''launch plan not found or unreadable: '' @ path)
      | Some content \<Rightarrow>
          (case ParseJsonTree content of
             Inl e \<Rightarrow> Inl (path @ '': '' @ e)
           | Inr (JObject members) \<Rightarrow> parse_plan_document files options path members
           | Inr _ \<Rightarrow> Inl (path @ '': root must be JSON object'')))"

definition ResolveLaunchPlanPath :: "string list \<Rightarrow> string" where
  "ResolveLaunchPlanPath argv = (if length argv > 1 \<and> argv ! 1 \<noteq> [] then argv ! 1 else [])"

section \<open>gflags\<close>

datatype LaunchPlanGflagMatchPolicy = kSkipUnknownKeys | kFailOnUnknownKeys

text \<open>
  \<open>registered\<close> is \<^verbatim>\<open>google::GetCommandLineFlagInfo\<close>, \<open>set_flag\<close> is \<^verbatim>\<open>google::SetCommandLineOption\<close>: the
  flags afterwards and the text it returns, empty on failure. The state is kept on failure too,
  since earlier options stay set.
\<close>

definition strict_one :: "(string \<Rightarrow> bool) \<Rightarrow> (string \<Rightarrow> string \<Rightarrow> 'f \<Rightarrow> 'f \<times> string) \<Rightarrow> string \<Rightarrow> string \<Rightarrow>
    string \<times> LaunchPlanScalar \<Rightarrow> 'f \<Rightarrow> string + 'f" where
  "strict_one registered set_flag m what kv flags =
     (if \<not> registered (fst kv)
      then Inl (''no gflag registered for '' @ what @ '' key '' @ quoted (fst kv) @ '' (module '' @ m @ '')'')
      else Inr (fst (set_flag (fst kv) (ScalarToAssignmentString (snd kv)) flags)))"

definition ApplyLaunchPlanScalarsToRegisteredGflags ::
  "(string \<Rightarrow> bool) \<Rightarrow> (string \<Rightarrow> string \<Rightarrow> 'f \<Rightarrow> 'f \<times> string) \<Rightarrow> ParsedLaunchPlan \<Rightarrow> 'f \<Rightarrow> string + 'f" where
  "ApplyLaunchPlanScalarsToRegisteredGflags registered set_flag plan flags =
     each (\<lambda>m fl. also_then (each (strict_one registered set_flag (me_module_name m) ''resource'') (me_resource m) fl)
                  (each (strict_one registered set_flag (me_module_name m) ''module_params'') (me_module_params m)))
       (lp_modules plan) flags"

definition apply_one :: "(string \<Rightarrow> bool) \<Rightarrow> (string \<Rightarrow> string \<Rightarrow> 'f \<Rightarrow> 'f \<times> string) \<Rightarrow> LaunchPlanGflagMatchPolicy \<Rightarrow>
    string \<Rightarrow> string \<times> LaunchPlanScalar \<Rightarrow> 'f \<Rightarrow> string + 'f" where
  "apply_one registered set_flag policy m kv flags =
     (if \<not> registered (fst kv)
      then (if policy = kFailOnUnknownKeys
            then Inl (''no gflag registered for key '' @ quoted (fst kv) @ '' (module '' @ m @ '')'')
            else Inr flags)
      else (let text_value = ScalarToAssignmentString (snd kv); (fl, res) = set_flag (fst kv) text_value flags in
            if res = []
            then Inl (''SetCommandLineOption failed for key '' @ quoted (fst kv) @ '' module='' @ m @
                      '' value='' @ quoted text_value)
            else Inr fl))"

definition ApplyLaunchPlanScalarsToMatchingRegisteredGflags ::
  "(string \<Rightarrow> bool) \<Rightarrow> (string \<Rightarrow> string \<Rightarrow> 'f \<Rightarrow> 'f \<times> string) \<Rightarrow> LaunchPlanGflagMatchPolicy \<Rightarrow> ParsedLaunchPlan \<Rightarrow>
   'f \<Rightarrow> string + 'f" where
  "ApplyLaunchPlanScalarsToMatchingRegisteredGflags registered set_flag policy plan flags =
     each (\<lambda>m fl. also_then
              (each (apply_one registered set_flag policy (me_module_name m))
                 (filter (\<lambda>kv. \<not> IsPerModuleResourceSchemaKey (fst kv)) (me_resource m)) fl)
              (each (apply_one registered set_flag policy (me_module_name m)) (me_module_params m)))
       (lp_modules plan) flags"

section \<open>The environment of the processes\<close>

text \<open>\<open>setenv_errno name v\<close> is the error number of \<^verbatim>\<open>setenv\<close>, 0 on success.\<close>

type_synonym environment = "(string \<times> string) list"

definition put_env :: "(string \<Rightarrow> string \<Rightarrow> int) \<Rightarrow> string \<Rightarrow> string \<Rightarrow> environment \<Rightarrow> string + environment" where
  "put_env setenv_errno key v env =
     (if setenv_errno key v \<noteq> 0
      then Inl (''setenv '' @ key @ '' failed, errno='' @ int_to_string (setenv_errno key v))
      else Inr (assign key v env))"

definition config_pair :: "string \<times> ParsedModuleLaunchEntry \<Rightarrow> (string \<times> string) list \<Rightarrow> string + (string \<times> string) list" where
  "config_pair me acc =
     (if me_io_path (snd me) = [] then Inl (''module '' @ quoted (fst me) @ '' has empty resolved io config path'')
      else Inr (acc @ [(fst me, me_io_path (snd me))]))"

definition encode_pairs :: "(string \<times> string) list \<Rightarrow> string" where
  "encode_pairs pairs = join_with '';'' (map (\<lambda>mp. fst mp @ CHR ''='' # snd mp) pairs)"

definition SetupRuntimeEnvironmentFromLaunchPlan ::
  "(string \<Rightarrow> string \<Rightarrow> int) \<Rightarrow> (string \<times> ParsedModuleLaunchEntry) list \<Rightarrow> ParsedLaunchPlan \<Rightarrow> environment \<Rightarrow>
   string + (string \<times> string) list \<times> environment" where
  "SetupRuntimeEnvironmentFromLaunchPlan setenv_errno entries plan env =
     also_then (each config_pair entries []) (\<lambda>pairs.
       if encode_pairs pairs = [] then Inl ''no module configs found when preparing MOULD_MODULE_CHANNEL_CONFIGS''
       else
         also_then (put_env setenv_errno ''MOULD_MODULE_CHANNEL_CONFIGS'' (encode_pairs pairs) env) (\<lambda>env1.
         also_then (put_env setenv_errno ''MOULD_FORK_INHERITANCE_TOKEN'' ''backend_main_fork_model'' env1) (\<lambda>env2.
         also_then (put_env setenv_errno ''MOULD_SHM_SLOT_COUNT''
                      (nat_digits (case lp_slot_count plan of Some n \<Rightarrow> n | None \<Rightarrow> 256)) env2) (\<lambda>env3.
         also_then (put_env setenv_errno ''MOULD_SHM_SLOT_PAYLOAD_BYTES''
                      (nat_digits (case lp_slot_payload_bytes plan of Some n \<Rightarrow> n | None \<Rightarrow> 1024)) env3) (\<lambda>env4.
           Inr (pairs, env4))))))"

section \<open>Modules of an accepted plan\<close>

definition endpoints_ok :: "bool \<Rightarrow> ChannelEndpointConfig list \<times> string list \<Rightarrow> bool" where
  "endpoints_ok out st \<longleftrightarrow>
     (\<forall>ep \<in> set (fst st). IsValidChannelName (ep_channel ep) \<and> distinct (map fst (ep_params ep))) \<and>
     (out \<longrightarrow> set (snd st) = ep_channel ` set (fst st) \<and> distinct (map ep_channel (fst st)))"

lemma io_param_distinct: "io_param path kv ps = Inr qs \<Longrightarrow> distinct (map fst ps) \<Longrightarrow> distinct (map fst qs)"
  by (auto simp: io_param_def Let_def distinct_emplace split: if_splits)

lemma io_channel_ok:
  assumes "io_channel path out cn st = Inr st'" "endpoints_ok out st"
  shows "endpoints_ok out st'"
proof -
  obtain members where m: "snd cn = JObject members"
    using assms(1) by (cases "snd cn") (simp_all add: io_channel_def Let_def split: if_splits)
  obtain ps where ps: "IsValidChannelName (fst cn)" "each (io_param (path @ ''.'' @ fst cn)) members [] = Inr ps"
      "\<not> (out \<and> fst cn \<in> set (snd st))"
      "st' = (fst st @ [\<lparr>ep_channel = fst cn, ep_params = ps\<rparr>], if out then fst cn # snd st else snd st)"
    using assms(1) by (auto simp: io_channel_def Let_def m split: if_splits)
  have "distinct (map fst ps)"
    by (rule each_invariant [OF ps(2), where P = "\<lambda>ps. distinct (map fst ps)"]) (simp, rule io_param_distinct)
  then show ?thesis
    using assms(2) ps(1,3) by (auto simp: endpoints_ok_def ps(4))
qed

lemma ParseChannelDict_ok:
  assumes "ParseChannelDict side path out = Inr eps"
  shows "\<exists>seen. endpoints_ok out (eps, seen)"
proof -
  obtain members where "side = JObject members"
    using assms by (cases side) (simp_all add: ParseChannelDict_def)
  then obtain st where st: "each (io_channel path out) members ([], []) = Inr st" "eps = fst st"
    using assms by (auto simp: ParseChannelDict_def)
  have "endpoints_ok out st"
    by (rule each_invariant [OF st(1)]) (simp add: endpoints_ok_def, rule io_channel_ok)
  then show ?thesis
    using st(2) by (metis prod.collapse)
qed

lemma io_file_valid:
  assumes "ParseModuleIoJsonFile files m path = Inr mc"
  shows "module_valid m mc"
proof -
  obtain content members where "files path = Some content" "ParseJsonTree content = Inr (JObject members)"
      "io_document m path members = Inr mc"
    using assms by (auto simp: ParseModuleIoJsonFile_def split: option.splits sum.splits json.splits)
  then obtain ins outs ic oc where "ParseChannelDict ins ''input_channel'' False = Inr ic"
      "ParseChannelDict outs ''output_channel'' True = Inr oc" "mc = \<lparr>mc_module = m, mc_inputs = ic, mc_outputs = oc\<rparr>"
    by (auto simp: io_document_def split: option.splits)
  then show ?thesis
    using ParseChannelDict_ok [of ins "''input_channel''" False ic] ParseChannelDict_ok [of outs "''output_channel''" True oc]
    by (auto simp: module_valid_def endpoints_ok_def)
qed

definition entry_wf :: "LaunchPlanValidationOptions \<Rightarrow> ParsedModuleLaunchEntry \<Rightarrow> bool" where
  "entry_wf options m \<longleftrightarrow>
     me_modules_dict_key m = me_module_name m \<and> me_module_name m \<noteq> [] \<and>
     (\<forall>names. registered_module_names options = Some names \<longrightarrow> me_module_name m \<in> set names) \<and>
     module_valid (me_module_name m) (me_channels m) \<and>
     (enforce_strict_resource_schema options \<longrightarrow> schema_of_resource (me_resource m) (me_resource_schema m))"

text \<open>The scalars of a module that end up as global flags.\<close>

definition global_scalars :: "ParsedModuleLaunchEntry \<Rightarrow> (string \<times> LaunchPlanScalar) set" where
  "global_scalars m = {kv \<in> set (me_resource m). \<not> IsPerModuleResourceSchemaKey (fst kv)} \<union> set (me_module_params m)"

lemma module_nodes_named:
  "module_nodes key node = Inr x \<Longrightarrow> key \<noteq> []"
  by (auto simp: module_nodes_def Let_def is_JString_def split: json.splits option.splits if_splits)

lemma parse_resource_schema:
  "parse_resource strict node p = Inr (res, schema) \<Longrightarrow> strict \<Longrightarrow> schema_of_resource res schema"
  by (auto simp: parse_resource_def ValidateAndNormalize_schema)

lemma record_globals_agree:
  assumes "record_globals res mparams global = Inr global'"
  shows "agrees global kv \<Longrightarrow> agrees global' kv"
    "kv \<in> set res \<Longrightarrow> \<not> IsPerModuleResourceSchemaKey (fst kv) \<Longrightarrow> agrees global' kv"
    "kv \<in> set mparams \<Longrightarrow> agrees global' kv"
proof -
  obtain mid where m: "each RecordGlobalScalar (filter (\<lambda>kv. \<not> IsPerModuleResourceSchemaKey (fst kv)) res) global = Inr mid"
      "each RecordGlobalScalar mparams mid = Inr global'"
    using assms by (auto simp: record_globals_def)
  show "agrees global kv \<Longrightarrow> agrees global' kv"
    "kv \<in> set res \<Longrightarrow> \<not> IsPerModuleResourceSchemaKey (fst kv) \<Longrightarrow> agrees global' kv"
    "kv \<in> set mparams \<Longrightarrow> agrees global' kv"
    using RecordGlobalScalars_agree [OF m(1)] RecordGlobalScalars_agree [OF m(2)] unfolding set_filter by blast+
qed

lemma parse_module_entry:
  assumes "parse_module files options dir kn st = Inr st'"
  obtains m where "fst st' = fst st @ [m]" "me_module_name m = fst kn" "entry_wf options m"
    "\<forall>kv \<in> global_scalars m. agrees (snd st') kv" "\<forall>kv. agrees (snd st) kv \<longrightarrow> agrees (snd st') kv"
proof -
  obtain res_v par_v raw res schema mparams global where
    nodes: "module_nodes (fst kn) (snd kn) = Inr (res_v, par_v, raw)" and
    res: "parse_resource (enforce_strict_resource_schema options) res_v (''modules.'' @ fst kn @ ''.resource'') = Inr (res, schema)" and
    reg: "\<not> (case registered_module_names options of None \<Rightarrow> False | Some names \<Rightarrow> fst kn \<notin> set names)" and
    glob: "record_globals res mparams (snd st) = Inr global" and
    io: "(case ParseModuleIoJsonFile files (fst kn) (lexically_normal (ResolveIoPath dir raw)) of
            Inl e \<Rightarrow> Inl (io_error (fst kn) (lexically_normal (ResolveIoPath dir raw)) e)
          | Inr channels \<Rightarrow>
              Inr (fst st @ [\<lparr>me_modules_dict_key = fst kn, me_module_name = fst kn, me_resource = res,
                    me_resource_schema = schema, me_module_params = mparams,
                    me_io_path = lexically_normal (ResolveIoPath dir raw), me_channels = channels\<rparr>], global)) = Inr st'"
    using assms unfolding parse_module_def Let_def also_then_Inr by (auto split: if_splits)
  then obtain channels where c: "ParseModuleIoJsonFile files (fst kn) (lexically_normal (ResolveIoPath dir raw)) = Inr channels"
    by (auto split: sum.splits)
  let ?m = "\<lparr>me_modules_dict_key = fst kn, me_module_name = fst kn, me_resource = res,
                    me_resource_schema = schema, me_module_params = mparams,
                    me_io_path = lexically_normal (ResolveIoPath dir raw), me_channels = channels\<rparr>"
  have st': "st' = (fst st @ [?m], global)"
    using io c by simp
  show thesis
  proof (rule that [of ?m])
    show "entry_wf options ?m"
      using module_nodes_named [OF nodes] parse_resource_schema [OF res] io_file_valid [OF c] reg
      by (auto simp: entry_wf_def)
    show "\<forall>kv \<in> global_scalars ?m. agrees (snd st') kv" "\<forall>kv. agrees (snd st) kv \<longrightarrow> agrees (snd st') kv"
      using record_globals_agree [OF glob] by (auto simp: global_scalars_def st')
  qed (simp_all add: st')
qed

lemma parse_modules_entries:
  assumes "each (parse_module files options dir) mods st = Inr st'"
  shows "\<exists>ms. fst st' = fst st @ ms \<and> map me_module_name ms = map fst mods \<and> (\<forall>m \<in> set ms. entry_wf options m) \<and>
    (\<forall>m \<in> set ms. \<forall>kv \<in> global_scalars m. agrees (snd st') kv) \<and> (\<forall>kv. agrees (snd st) kv \<longrightarrow> agrees (snd st') kv)"
  using assms
proof (induction mods arbitrary: st)
  case (Cons kn mods)
  then obtain t where t: "parse_module files options dir kn st = Inr t" "each (parse_module files options dir) mods t = Inr st'"
    by (auto split: sum.splits)
  obtain m where m: "fst t = fst st @ [m]" "me_module_name m = fst kn" "entry_wf options m"
    "\<forall>kv \<in> global_scalars m. agrees (snd t) kv" "\<forall>kv. agrees (snd st) kv \<longrightarrow> agrees (snd t) kv"
    by (rule parse_module_entry [OF t(1)])
  obtain ms where ms: "fst st' = fst t @ ms" "map me_module_name ms = map fst mods" "\<forall>m \<in> set ms. entry_wf options m"
    "\<forall>m \<in> set ms. \<forall>kv \<in> global_scalars m. agrees (snd st') kv" "\<forall>kv. agrees (snd t) kv \<longrightarrow> agrees (snd st') kv"
    using Cons.IH [OF t(2)] by blast
  show ?case
  proof (intro exI [of _ "m # ms"] conjI)
    show "fst st' = fst st @ m # ms" "map me_module_name (m # ms) = map fst (kn # mods)"
      using m(1,2) ms(1,2) by simp_all
    show "\<forall>m \<in> set (m # ms). entry_wf options m"
      using m(3) ms(3) by simp
    show "\<forall>m \<in> set (m # ms). \<forall>kv \<in> global_scalars m. agrees (snd st') kv"
      using m(4) ms(4,5) unfolding list.set by blast
    show "\<forall>kv. agrees (snd st) kv \<longrightarrow> agrees (snd st') kv"
      using m(5) ms(5) by blast
  qed
qed simp

section \<open>What an accepted plan guarantees\<close>

definition plan_wf :: "LaunchPlanValidationOptions \<Rightarrow> ParsedLaunchPlan \<Rightarrow> bool" where
  "plan_wf options plan \<longleftrightarrow>
     distinct (map me_module_name (lp_modules plan)) \<and>
     (\<forall>m \<in> set (lp_modules plan). entry_wf options m) \<and>
     (\<exists>global. \<forall>m \<in> set (lp_modules plan). \<forall>kv \<in> global_scalars m. agrees global kv) \<and>
     (\<forall>i. lp_minloglevel plan = Some i \<longrightarrow> 0 \<le> i \<and> i \<le> 3) \<and>
     (\<forall>n. lp_slot_count plan = Some n \<longrightarrow> 1 \<le> n \<and> n < 2 ^ 32) \<and>
     (\<forall>n. lp_slot_payload_bytes plan = Some n \<longrightarrow> 1 \<le> n \<and> n < 2 ^ 63) \<and>
     covers (all_declarations (map me_channels (lp_modules plan))) (lp_topology plan) \<and>
     (\<forall>ce \<in> set (lp_topology plan). length (te_producers (snd ce)) \<le> 1)"

lemma ParseJsonTree_wf: "ParseJsonTree content = Inr v \<Longrightarrow> json_wf v"
  using launch_parser.document_answer [of content]
  by (auto simp: ParseJsonTree_def JParser_ParseDocument_def split: sum.splits json_error.splits)

lemma FindJsonKey_member: "FindJsonKey members k = Some v \<Longrightarrow> (k, v) \<in> set members"
  by (simp add: FindJsonKey_def map_of_SomeD)

lemma minloglevel_range: "parse_minloglevel node = Inr (Some i) \<Longrightarrow> 0 \<le> i \<and> i \<le> 3"
  by (auto simp: parse_minloglevel_def split: option.splits if_splits)

lemma bounded_range: "parse_bounded p u c node = Inr (Some n) \<Longrightarrow> 1 \<le> n \<and> int n \<le> u"
  by (auto simp: parse_bounded_def split: option.splits if_splits)

lemma communication_parts:
  assumes "parse_communication node = Inr (count, bytes)"
  shows "(count = None \<and> bytes = None) \<or>
    (\<exists>p q c d m n. parse_bounded p (2 ^ 32 - 1) c m = Inr count \<and> parse_bounded q (2 ^ 63 - 1) d n = Inr bytes)"
  using assms unfolding parse_communication_def
  by (cases node; cases "the node") (auto split: option.splits)

lemma communication_range:
  assumes "parse_communication node = Inr (count, bytes)"
  shows "count = Some n \<Longrightarrow> 1 \<le> n \<and> n < 2 ^ 32" "bytes = Some m \<Longrightarrow> 1 \<le> m \<and> m < 2 ^ 63"
proof -
  show "1 \<le> n \<and> n < 2 ^ 32" if "count = Some n"
    using communication_parts [OF assms] bounded_range [of _ "2 ^ 32 - 1" _ _ n] that by fastforce
  show "1 \<le> m \<and> m < 2 ^ 63" if "bytes = Some m"
    using communication_parts [OF assms] bounded_range [of _ "2 ^ 63 - 1" _ _ m] that by fastforce
qed

lemma plan_document:
  assumes "parse_plan_document files options path members = Inr plan"
  obtains mods st where "FindJsonKey members ''modules'' = Some (JObject mods)"
    "parse_minloglevel (FindJsonKey members ''minloglevel'') = Inr (lp_minloglevel plan)"
    "parse_communication (FindJsonKey members ''communication'') = Inr (lp_slot_count plan, lp_slot_payload_bytes plan)"
    "each (parse_module files options (parent_path path)) mods ([], []) = Inr st" "lp_modules plan = fst st"
    "BuildChannelTopologyIndex (map me_channels (fst st)) = Inr (lp_topology plan)"
proof -
  obtain mods where m: "FindJsonKey members ''modules'' = Some (JObject mods)"
    using assms by (cases "FindJsonKey members ''modules''"; cases "the (FindJsonKey members ''modules'')")
      (simp_all add: parse_plan_document_def)
  obtain level count bytes st where parts: "parse_minloglevel (FindJsonKey members ''minloglevel'') = Inr level"
      "parse_communication (FindJsonKey members ''communication'') = Inr (count, bytes)"
      "each (parse_module files options (parent_path path)) mods ([], []) = Inr st"
    and final: "(case BuildChannelTopologyIndex (map me_channels (fst st)) of
                  Inl e \<Rightarrow> Inl (error_text e)
                | Inr topo \<Rightarrow> Inr \<lparr>lp_path = path, lp_minloglevel = level, lp_slot_count = count,
                       lp_slot_payload_bytes = bytes, lp_modules = fst st, lp_topology = topo\<rparr>) = Inr plan"
    using assms m by (auto simp: parse_plan_document_def split: option.splits)
  obtain topo where "BuildChannelTopologyIndex (map me_channels (fst st)) = Inr topo"
    using final by (cases "BuildChannelTopologyIndex (map me_channels (fst st))") simp_all
  then show thesis
    using final by (intro that [OF m _ _ parts(3)]) (auto simp: parts)
qed

definition plan_options :: LaunchPlanValidationOptions where
  "plan_options = \<lparr>enforce_strict_resource_schema = False, registered_module_names = Some [''camera'']\<rparr>"

lemma plan_document_wf:
  assumes "parse_plan_document files options path members = Inr plan" "json_wf (JObject members)"
  shows "plan_wf options plan"
proof -
  obtain mods st where p: "FindJsonKey members ''modules'' = Some (JObject mods)"
    "parse_minloglevel (FindJsonKey members ''minloglevel'') = Inr (lp_minloglevel plan)"
    "parse_communication (FindJsonKey members ''communication'') = Inr (lp_slot_count plan, lp_slot_payload_bytes plan)"
    "each (parse_module files options (parent_path path)) mods ([], []) = Inr st" "lp_modules plan = fst st"
    "BuildChannelTopologyIndex (map me_channels (fst st)) = Inr (lp_topology plan)"
    by (rule plan_document [OF assms(1)])
  obtain ms where ms: "fst st = ms" "map me_module_name ms = map fst mods" "\<forall>m \<in> set ms. entry_wf options m"
    "\<forall>m \<in> set ms. \<forall>kv \<in> global_scalars m. agrees (snd st) kv"
    using parse_modules_entries [OF p(4)] by auto
  have "json_wf (JObject mods)"
    using FindJsonKey_member [OF p(1)] assms(2) by fastforce
  then have names: "distinct (map me_module_name ms)"
    unfolding ms(2) by simp
  have level: "0 \<le> i \<and> i \<le> 3" if "lp_minloglevel plan = Some i" for i
    using minloglevel_range p(2) that by simp
  show ?thesis
    unfolding plan_wf_def p(5) ms(1)
  proof (intro conjI)
    show "\<exists>global. \<forall>m \<in> set ms. \<forall>kv \<in> global_scalars m. agrees global kv"
      using ms(4) by blast
    show "covers (all_declarations (map me_channels ms)) (lp_topology plan)"
      using build_covers(1) [OF p(6)] ms(1) by simp
    show "\<forall>ce \<in> set (lp_topology plan). length (te_producers (snd ce)) \<le> 1"
      using build_covers(2) [OF p(6)] by blast
  qed (use names ms(3) level communication_range [OF p(3)] in blast)+
qed

definition plan_files :: "string \<Rightarrow> string option" where
  "plan_files path =
     (if path = ''p/plan'' then Some (json_text (JObject
         [(''modules'', JObject [(''camera'', JObject
             [(''module_name'', JString ''camera''), (''resource'', JObject []), (''module_params'', JObject []),
              (''io_channels_config_path'', JString ''./x/../cam'')])]),
          (''communication'', JObject [(''shm_slot_count'', JInt 16)])]))
      else if path = ''p/cam'' then Some (json_text (JObject
         [(''input_channel'', JObject []), (''output_channel'', JObject [(''Frame'', JObject [(''n'', JInt 3)])])]))
      else None)"

text \<open>
  C12: A launch plan that is accepted is one the runtime can start: module names are the keys of
  the plan, distinct, non-empty and registered where a registry is given; each module's channels
  are valid; under the strict schema the record of every module holds what its resource says;
  two modules never give one global flag values that differ; the numbers are in range; and the
  topology is the one the modules declare, with at most one producer for each channel.
\<close>

theorem launch_plan_valid:
  assumes "ParseLaunchPlanFile files options path = Inr plan"
  shows "plan_wf options plan"
proof -
  obtain content members where "files path = Some content" "ParseJsonTree content = Inr (JObject members)"
      "parse_plan_document files options path members = Inr plan"
    using assms by (auto simp: ParseLaunchPlanFile_def split: option.splits sum.splits json.splits)
  then show ?thesis
    using plan_document_wf ParseJsonTree_wf by blast
qed

lemma plan_example:
  "case ParseLaunchPlanFile plan_files plan_options ''p/plan'' of
     Inl _ \<Rightarrow> False
   | Inr plan \<Rightarrow> map me_io_path (lp_modules plan) = [''p/cam''] \<and> map fst (lp_topology plan) = [''Frame''] \<and>
       lp_slot_count plan = Some 16"
  by code_simp

theorem launch_plan_valid_witness:
  "\<exists>plan. ParseLaunchPlanFile plan_files plan_options ''p/plan'' = Inr plan \<and> plan_wf plan_options plan"
  using plan_example launch_plan_valid [of plan_files plan_options "''p/plan''"] by (auto split: sum.splits)

end
