(* ===== verification/Launch_Environment.thy ===== *)
theory Launch_Environment
  imports Launch_Plan Reliability
begin

text \<open>
  The other end of the inherited environment: what \<^verbatim>\<open>ChannelFactory::Create\<close> of
  \<^verbatim>\<open>common/comm/src/channel_factory.cpp\<close> reads from it, and the fork-only check of
  \<^verbatim>\<open>common/comm/src/shm_bus_runtime_prefork.cpp\<close>; with the proof that a child process sees the
  settings the launch plan gave.
\<close>

section \<open>Reading the environment\<close>

text \<open>One round of the loop of \<^verbatim>\<open>ParseModuleConfigPairs\<close>; an error stands for its early \<open>return {}\<close>.\<close>

definition config_item :: "string \<Rightarrow> (string \<times> string) list \<Rightarrow> unit + (string \<times> string) list" where
  "config_item item pairs =
     (if item = [] then Inr pairs
      else
        (let key = takeWhile (\<lambda>c. c \<noteq> CHR ''='') item; rest = dropWhile (\<lambda>c. c \<noteq> CHR ''='') item in
         if rest = [] \<or> key = [] \<or> tl rest = [] then Inl () else Inr (pairs @ [(key, tl rest)])))"

definition ParseModuleConfigPairs :: "string \<Rightarrow> (string \<times> string) list" where
  "ParseModuleConfigPairs encoded =
     (case each config_item (split_at (CHR '';'') encoded) [] of Inl _ \<Rightarrow> [] | Inr pairs \<Rightarrow> pairs)"

definition ParsePositiveSize :: "string option \<Rightarrow> nat option" where
  "ParsePositiveSize raw =
     (case raw of
        None \<Rightarrow> None
      | Some s \<Rightarrow>
          if s = [] then None
          else (case stoull s of
                  Inl _ \<Rightarrow> None
                | Inr (n, rest) \<Rightarrow> if rest \<noteq> [] \<or> n = 0 then None else Some n))"

definition ParsePositiveSlotCount :: "string option \<Rightarrow> nat option" where
  "ParsePositiveSlotCount raw =
     (case ParsePositiveSize raw of
        None \<Rightarrow> None
      | Some n \<Rightarrow> if n > 2 ^ 32 - 1 then None else Some n)"

record bus_settings =
  bs_files :: "(string \<times> string) list"
  bs_config :: MiddlewareConfig
  bs_post_fork :: bool

text \<open>What \<^verbatim>\<open>ChannelFactory::Create\<close> gathers before it builds the bus; the error is the logged line.\<close>

definition read_settings :: "environment \<Rightarrow> string + bus_settings" where
  "read_settings env =
     (case map_of env ''MOULD_MODULE_CHANNEL_CONFIGS'' of
        None \<Rightarrow> Inl ''ChannelFactory::Create failed: MOULD_MODULE_CHANNEL_CONFIGS missing''
      | Some encoded \<Rightarrow>
          (let pairs = ParseModuleConfigPairs encoded in
           if pairs = [] then Inl (''ChannelFactory::Create failed: ParseModuleConfigPairs returned empty, raw='' @ encoded)
           else
             (let c0 = default_config;
                  c1 = (case ParsePositiveSlotCount (map_of env ''MOULD_SHM_SLOT_COUNT'') of
                          Some n \<Rightarrow> c0\<lparr>shm_slot_count := of_nat n\<rparr> | None \<Rightarrow> c0);
                  c2 = (case ParsePositiveSize (map_of env ''MOULD_SHM_SLOT_PAYLOAD_BYTES'') of
                          Some n \<Rightarrow> c1\<lparr>slot_payload_bytes := n\<rparr> | None \<Rightarrow> c1);
                  token = map_of env ''MOULD_FORK_INHERITANCE_TOKEN''
              in Inr \<lparr>bs_files = pairs, bs_config = c2, bs_post_fork = (token \<noteq> None \<and> token \<noteq> Some [])\<rparr>)))"

text \<open>\<open>ShmBusRuntimeAssertForkOnlyModelOrDie\<close>: false where it ends the process.\<close>

definition AssertForkOnlyModel :: "environment \<Rightarrow> bool" where
  "AssertForkOnlyModel env \<longleftrightarrow>
     (case map_of env ''MOULD_RELAX_FORK_ONLY_SHM_MODEL'' of
        Some relax \<Rightarrow> relax \<noteq> [] \<and> relax \<noteq> ''0'' \<or> map_of env ''MOULD_FORK_INHERITANCE_TOKEN'' \<notin> {None, Some []}
      | None \<Rightarrow> map_of env ''MOULD_FORK_INHERITANCE_TOKEN'' \<notin> {None, Some []})"

section \<open>From the plan to the child\<close>

text \<open>A module and its file can be written into the variable without being misread.\<close>

definition encodable :: "string \<times> string \<Rightarrow> bool" where
  "encodable mp \<longleftrightarrow> fst mp \<noteq> [] \<and> CHR ''='' \<notin> set (fst mp) \<and> CHR '';'' \<notin> set (fst mp) \<and>
     snd mp \<noteq> [] \<and> CHR '';'' \<notin> set (snd mp)"

lemma takeWhile_key: "c \<notin> set k \<Longrightarrow> takeWhile (\<lambda>x. x \<noteq> c) (k @ c # r) = k \<and> dropWhile (\<lambda>x. x \<noteq> c) (k @ c # r) = c # r"
  by (induction k) auto

lemma config_item_pair:
  assumes "encodable mp"
  shows "config_item (fst mp @ CHR ''='' # snd mp) acc = Inr (acc @ [mp])"
  using assms takeWhile_key [of "CHR ''=''" "fst mp" "snd mp"] by (simp add: config_item_def encodable_def)

lemma config_items_pairs:
  "list_all encodable pairs \<Longrightarrow>
   each config_item (map (\<lambda>mp. fst mp @ CHR ''='' # snd mp) pairs) acc = Inr (acc @ pairs)"
  by (induction pairs arbitrary: acc) (simp_all add: config_item_pair)

lemma pairs_round_trip:
  assumes "list_all encodable pairs"
  shows "ParseModuleConfigPairs (encode_pairs pairs) = pairs"
proof -
  have "list_all (\<lambda>x. CHR '';'' \<notin> set x \<and> x \<noteq> []) (map (\<lambda>mp. fst mp @ CHR ''='' # snd mp) pairs)"
    using assms by (auto simp: list_all_iff encodable_def)
  then show ?thesis
    using config_items_pairs [OF assms, of "[]"]
    by (simp add: ParseModuleConfigPairs_def encode_pairs_def split_at_join)
qed

lemma config_pairs:
  "each config_pair entries acc = Inr pairs \<Longrightarrow>
     pairs = acc @ map (\<lambda>me. (fst me, me_io_path (snd me))) entries \<and> (\<forall>me \<in> set entries. me_io_path (snd me) \<noteq> [])"
proof (induction entries arbitrary: acc)
  case (Cons me entries)
  have ok: "me_io_path (snd me) \<noteq> []" "each config_pair entries (acc @ [(fst me, me_io_path (snd me))]) = Inr pairs"
    using Cons.prems by (auto simp: config_pair_def [of me] split: if_splits)
  show ?case
    using Cons.IH [OF ok(2)] ok(1) by simp
qed simp

lemma put_env_lookup:
  assumes "put_env se key v env = Inr env'"
  shows "map_of env' = (map_of env)(key \<mapsto> v)"
  using assms by (auto simp: put_env_def split: if_splits)

lemma setup_result:
  assumes "SetupRuntimeEnvironmentFromLaunchPlan se entries plan env = Inr (pairs, env')"
  shows "pairs = map (\<lambda>me. (fst me, me_io_path (snd me))) entries" "\<forall>me \<in> set entries. me_io_path (snd me) \<noteq> []"
    "encode_pairs pairs \<noteq> []"
    "map_of env' ''MOULD_MODULE_CHANNEL_CONFIGS'' = Some (encode_pairs pairs)"
    "map_of env' ''MOULD_FORK_INHERITANCE_TOKEN'' = Some ''backend_main_fork_model''"
    "map_of env' ''MOULD_SHM_SLOT_COUNT'' = Some (nat_digits (case lp_slot_count plan of Some n \<Rightarrow> n | None \<Rightarrow> 256))"
    "map_of env' ''MOULD_SHM_SLOT_PAYLOAD_BYTES'' =
       Some (nat_digits (case lp_slot_payload_bytes plan of Some n \<Rightarrow> n | None \<Rightarrow> 1024))"
proof -
  obtain e1 e2 e3 where run: "each config_pair entries [] = Inr pairs" "encode_pairs pairs \<noteq> []"
    "put_env se ''MOULD_MODULE_CHANNEL_CONFIGS'' (encode_pairs pairs) env = Inr e1"
    "put_env se ''MOULD_FORK_INHERITANCE_TOKEN'' ''backend_main_fork_model'' e1 = Inr e2"
    "put_env se ''MOULD_SHM_SLOT_COUNT'' (nat_digits (case lp_slot_count plan of Some n \<Rightarrow> n | None \<Rightarrow> 256)) e2 = Inr e3"
    "put_env se ''MOULD_SHM_SLOT_PAYLOAD_BYTES''
       (nat_digits (case lp_slot_payload_bytes plan of Some n \<Rightarrow> n | None \<Rightarrow> 1024)) e3 = Inr env'"
    using assms unfolding SetupRuntimeEnvironmentFromLaunchPlan_def also_then_Inr by (auto split: if_splits)
  show "pairs = map (\<lambda>me. (fst me, me_io_path (snd me))) entries" "\<forall>me \<in> set entries. me_io_path (snd me) \<noteq> []"
    using config_pairs [OF run(1)] by auto
  show "encode_pairs pairs \<noteq> []"
    by (rule run(2))
  note env' = run(3-6) [THEN put_env_lookup]
  show "map_of env' ''MOULD_MODULE_CHANNEL_CONFIGS'' = Some (encode_pairs pairs)"
    "map_of env' ''MOULD_FORK_INHERITANCE_TOKEN'' = Some ''backend_main_fork_model''"
    "map_of env' ''MOULD_SHM_SLOT_COUNT'' = Some (nat_digits (case lp_slot_count plan of Some n \<Rightarrow> n | None \<Rightarrow> 256))"
    "map_of env' ''MOULD_SHM_SLOT_PAYLOAD_BYTES'' =
       Some (nat_digits (case lp_slot_payload_bytes plan of Some n \<Rightarrow> n | None \<Rightarrow> 1024))"
    by (simp_all add: env')
qed

lemma positive_size_digits:
  "0 < n \<Longrightarrow> n < 2 ^ 64 \<Longrightarrow> ParsePositiveSize (Some (nat_digits n)) = Some n"
  "0 < n \<Longrightarrow> n < 2 ^ 32 \<Longrightarrow> ParsePositiveSlotCount (Some (nat_digits n)) = Some n"
proof -
  show size: "ParsePositiveSize (Some (nat_digits n)) = Some n" if "0 < n" "n < 2 ^ 64" for n
    using that stoull_nat_digits [of n] by (simp add: ParsePositiveSize_def nat_digits_nonempty)
  then show "ParsePositiveSlotCount (Some (nat_digits n)) = Some n" if "0 < n" "n < 2 ^ 32"
    using that by (simp add: ParsePositiveSlotCount_def)
qed

definition example_entry :: ParsedModuleLaunchEntry where
  "example_entry = \<lparr>me_modules_dict_key = ''cam'', me_module_name = ''cam'', me_resource = [], me_resource_schema = empty_schema,
     me_module_params = [], me_io_path = ''/p/cam=1'', me_channels = empty_module ''cam''\<rparr>"

definition example_plan :: ParsedLaunchPlan where
  "example_plan = \<lparr>lp_path = ''/p/plan'', lp_minloglevel = None, lp_slot_count = Some 16, lp_slot_payload_bytes = None,
     lp_modules = [example_entry], lp_topology = []\<rparr>"

text \<open>
  C22: The environment carries the plan to the children: where the parent's set-up succeeds, a
  child reads back exactly the modules and files of the plan, its slot count and slot size (or
  256 and 1024 where the plan gives none), knows that it is a child, and passes the fork-only
  check. Module names and paths must not contain the separators.
\<close>

theorem environment_round_trip:
  assumes "SetupRuntimeEnvironmentFromLaunchPlan se entries plan env = Inr (pairs, env')"
    and "\<And>me. me \<in> set entries \<Longrightarrow> encodable (fst me, me_io_path (snd me))"
    and "\<And>n. lp_slot_count plan = Some n \<Longrightarrow> 0 < n \<and> n < 2 ^ 32"
    and "\<And>n. lp_slot_payload_bytes plan = Some n \<Longrightarrow> 0 < n \<and> n < 2 ^ 63"
  shows "\<exists>bs. read_settings env' = Inr bs \<and>
    bs_files bs = map (\<lambda>me. (fst me, me_io_path (snd me))) entries \<and> bs_post_fork bs \<and> AssertForkOnlyModel env' \<and>
    unat (shm_slot_count (bs_config bs)) = (case lp_slot_count plan of Some n \<Rightarrow> n | None \<Rightarrow> 256) \<and>
    slot_payload_bytes (bs_config bs) = (case lp_slot_payload_bytes plan of Some n \<Rightarrow> n | None \<Rightarrow> 1024)"
proof -
  note s = setup_result [OF assms(1)]
  let ?count = "case lp_slot_count plan of Some n \<Rightarrow> n | None \<Rightarrow> 256"
    and ?bytes = "case lp_slot_payload_bytes plan of Some n \<Rightarrow> n | None \<Rightarrow> 1024"
  have "list_all encodable pairs"
    using assms(2) by (auto simp: s(1) list_all_iff)
  then have pairs: "ParseModuleConfigPairs (encode_pairs pairs) = pairs"
    by (rule pairs_round_trip)
  have some: "pairs \<noteq> []"
    using s(3) by (auto simp: encode_pairs_def join_with_def)
  have bounds: "0 < ?count" "?count < 2 ^ 32" "0 < ?bytes" "?bytes < 2 ^ 64"
    using assms(3,4) by (fastforce split: option.splits)+
  have "unat (of_nat ?count :: u32) = ?count"
    using bounds(2) by (simp add: unat_of_nat)
  then show ?thesis
    using pairs some positive_size_digits(2) [OF bounds(1,2)] positive_size_digits(1) [OF bounds(3,4)]
    by (simp add: read_settings_def s AssertForkOnlyModel_def split: option.splits)
qed

theorem environment_round_trip_witness:
  "\<exists>pairs env' bs. SetupRuntimeEnvironmentFromLaunchPlan (\<lambda>_ _. 0) [(''cam'', example_entry)] example_plan [] = Inr (pairs, env') \<and>
     read_settings env' = Inr bs \<and> bs_files bs = [(''cam'', ''/p/cam=1'')] \<and> unat (shm_slot_count (bs_config bs)) = 16"
proof -
  obtain pairs env' where run:
    "SetupRuntimeEnvironmentFromLaunchPlan (\<lambda>_ _. 0) [(''cam'', example_entry)] example_plan [] = Inr (pairs, env')"
    by (simp add: SetupRuntimeEnvironmentFromLaunchPlan_def config_pair_def example_entry_def encode_pairs_def
        join_with_def put_env_def)
  then show ?thesis
    using environment_round_trip [OF run] by (fastforce simp: example_entry_def example_plan_def encodable_def)
qed

end
