(* ===== verification/Module_Base.thy ===== *)
theory Module_Base
  imports Bus_Dispatch Launch_Environment
begin

text \<open>
  The frame every module process runs in: the queue that carries messages from the pump to the main
  thread (\<^verbatim>\<open>callback_queue.cpp\<close>), the timers and the life cycle of \<^verbatim>\<open>module_base.cpp\<close>, and the
  bus that \<^verbatim>\<open>channel_factory.cpp\<close> builds for it. What runs on the main thread is recorded as a
  list of events; which callback throws is an argument, as is what the pump pushes meanwhile.
\<close>

section \<open>The callback queue\<close>

definition Push :: "'c option \<Rightarrow> 'c option list \<Rightarrow> 'c option list" where
  "Push callback queue = queue @ [callback]"

text \<open>
  The loop over the swapped-out queue. A callback that throws leaves the loop, and the callbacks
  behind it are destroyed with the local queue: no count is returned.
\<close>

fun run_callbacks :: "('c \<Rightarrow> bool) \<Rightarrow> 'c option list \<Rightarrow> nat \<Rightarrow> 'c list \<times> nat option" where
  "run_callbacks throws [] drained = ([], Some drained)"
| "run_callbacks throws (None # rest) drained = run_callbacks throws rest (Suc drained)"
| "run_callbacks throws (Some c # rest) drained =
     (if throws c then ([c], None)
      else (case run_callbacks throws rest (Suc drained) of (cs, n) \<Rightarrow> (c # cs, n)))"

text \<open>\<open>pushed\<close> arrives while the callbacks run, in the queue that was swapped in.\<close>

definition DrainAll :: "('c \<Rightarrow> bool) \<Rightarrow> 'c option list \<Rightarrow> 'c option list \<Rightarrow> ('c list \<times> nat option) \<times> 'c option list" where
  "DrainAll throws pushed queue = (run_callbacks throws queue 0, fold Push pushed [])"

text \<open>\<open>arriving\<close> is pushed during the wait, up to the time-out.\<close>

definition WaitAndDrain ::
  "('c \<Rightarrow> bool) \<Rightarrow> 'c option list \<Rightarrow> 'c option list \<Rightarrow> 'c option list \<Rightarrow> ('c list \<times> nat option) \<times> 'c option list" where
  "WaitAndDrain throws arriving pushed queue = DrainAll throws pushed (fold Push arriving queue)"

section \<open>Timers\<close>

text \<open>Intervals in milliseconds, times of the steady clock in nanoseconds.\<close>

record 't TimerEntry =
  tm_id :: u64
  tm_interval :: int
  tm_next_fire_at :: int
  tm_task :: 't
  tm_active :: bool

record 't timer_scheduler =
  ts_next_id :: u64
  ts_timers :: "'t TimerEntry list"

definition new_timer_scheduler :: "'t timer_scheduler" where
  "new_timer_scheduler = \<lparr>ts_next_id = 1, ts_timers = []\<rparr>"

definition millisecond :: int where
  "millisecond = 1000000"

definition RegisterPeriodic :: "int \<Rightarrow> int \<Rightarrow> 't option \<Rightarrow> 't timer_scheduler \<Rightarrow> u64 \<times> 't timer_scheduler" where
  "RegisterPeriodic now interval task ts =
     (case task of
        None \<Rightarrow> (0, ts)
      | Some t \<Rightarrow>
          if interval \<le> 0 then (0, ts)
          else (ts_next_id ts,
                ts\<lparr>ts_next_id := ts_next_id ts + 1,
                   ts_timers := ts_timers ts @
                     [\<lparr>tm_id = ts_next_id ts, tm_interval = interval, tm_next_fire_at = now + interval * millisecond,
                       tm_task = t, tm_active = True\<rparr>]\<rparr>))"

text \<open>The loop stops at the first timer of that id.\<close>

fun cancel_first :: "u64 \<Rightarrow> 't TimerEntry list \<Rightarrow> 't TimerEntry list" where
  "cancel_first timer_id [] = []"
| "cancel_first timer_id (t # ts) =
     (if tm_id t = timer_id then t\<lparr>tm_active := False\<rparr> # ts else t # cancel_first timer_id ts)"

definition Cancel :: "u64 \<Rightarrow> 't timer_scheduler \<Rightarrow> 't timer_scheduler" where
  "Cancel timer_id ts = ts\<lparr>ts_timers := cancel_first timer_id (ts_timers ts)\<rparr>"

definition timer_due :: "int \<Rightarrow> 't TimerEntry \<Rightarrow> bool" where
  "timer_due now t \<longleftrightarrow> tm_active t \<and> tm_next_fire_at t \<le> now"

text \<open>The tasks to run, in order, and the timers as the call leaves them; the tasks run without the lock.\<close>

definition PumpDueTimers :: "int \<Rightarrow> 't timer_scheduler \<Rightarrow> 't list \<times> 't timer_scheduler" where
  "PumpDueTimers now ts =
     (map tm_task (filter (timer_due now) (ts_timers ts)),
      ts\<lparr>ts_timers := filter tm_active
           (map (\<lambda>t. if timer_due now t then t\<lparr>tm_next_fire_at := now + tm_interval t * millisecond\<rparr> else t) (ts_timers ts))\<rparr>)"

section \<open>The bus of a process\<close>

datatype factory_error = FactoryRefused string | FactoryTopology config_error | FactoryFailed

text \<open>
  \<^verbatim>\<open>ChannelFactory::Create\<close>. A process that is no child of the launcher provisions the channels
  itself, with a control plane of its own that ends with the call.
\<close>

definition channel_factory_Create ::
  "environment \<Rightarrow> (string \<Rightarrow> string option) \<Rightarrow> (string \<Rightarrow> shm_answers) \<Rightarrow> (string \<Rightarrow> nat \<Rightarrow> int) \<Rightarrow> posix_shm \<Rightarrow>
   (factory_error + bus_runtime) \<times> posix_shm" where
  "channel_factory_Create env files sa open_fd shm =
     (case read_settings env of
        Inl err \<Rightarrow> (Inl (FactoryRefused err), shm)
      | Inr bs \<Rightarrow>
          (let attach = (\<lambda>shm1.
                 (case SetChannelTopologyFromModuleConfigs files sa shm1 (bs_files bs) (new_runtime (bs_config bs)) of
                    Inl err \<Rightarrow> (Inl (FactoryTopology err), shm1)
                  | Inr (ok, rt) \<Rightarrow> (if ok then Inr rt else Inl FactoryFailed, shm1)))
           in if bs_post_fork bs then attach shm
              else (case ProvisionChannelTopologyFromModuleConfigs files sa open_fd (bs_files bs) (bs_config bs) (new_control_plane, shm) of
                      Inl err \<Rightarrow> (Inl (FactoryTopology err), shm)
                    | Inr (ok, (cp, shm1)) \<Rightarrow> if ok then attach shm1 else (Inl FactoryFailed, shm1))))"

text \<open>\<^verbatim>\<open>shm_bus_runtime_prefork.cpp\<close>: one control plane per process, shared by pointer.\<close>

definition PreforkEnsureSharedControlPlane :: "ShmBusControlPlane option \<Rightarrow> ShmBusControlPlane option" where
  "PreforkEnsureSharedControlPlane plane = (case plane of None \<Rightarrow> Some new_control_plane | Some cp \<Rightarrow> Some cp)"

definition FinalizeSharedControlPlaneShm :: "ShmBusControlPlane option \<times> posix_shm \<Rightarrow> ShmBusControlPlane option \<times> posix_shm" where
  "FinalizeSharedControlPlaneShm w =
     (case w of
        (None, shm) \<Rightarrow> (None, shm)
      | (Some cp, shm) \<Rightarrow> (None, snd (FinalizeUnlinkManagedSegments (cp, shm))))"

section \<open>The life cycle\<close>

datatype BusKind = kSingleNodeShm | kGrpc

datatype module_bus = ShmBus bus_runtime | GrpcBus

datatype LifecycleStage = kCreated | kInit | kSetupSubscriptions | kRunning | kStopped

record ModuleRuntimeConfig =
  rc_bus_kind :: BusKind
  rc_module_config_files :: "(string \<times> string) list"
  rc_module_channel_config_path :: string

text \<open>A callback of the queue is the message with the channel whose handler it is for.\<close>

record 't ModuleBase =
  mb_module_name :: string
  mb_config :: ModuleRuntimeConfig
  mb_bus :: "module_bus option"
  mb_timers :: "'t timer_scheduler option"
  mb_queue :: "(string \<times> MessageEnvelope) option list"
  mb_declared :: "string set"
  mb_running :: bool
  mb_stage :: LifecycleStage

text \<open>The constructor; \<open>shared_bus\<close> comes from the context or from the factory.\<close>

definition new_module :: "string \<Rightarrow> ModuleRuntimeConfig \<Rightarrow> module_bus option \<Rightarrow> 't ModuleBase" where
  "new_module name cfg shared_bus =
     \<lparr>mb_module_name = name, mb_config = cfg, mb_bus = shared_bus, mb_timers = Some new_timer_scheduler, mb_queue = [],
      mb_declared = {}, mb_running = False, mb_stage = kCreated\<rparr>"

definition RequireStage :: "LifecycleStage \<Rightarrow> 't ModuleBase \<Rightarrow> bool" where
  "RequireStage expected m \<longleftrightarrow> mb_stage m = expected"

definition SubscribeOneChannel :: "string \<Rightarrow> bool \<Rightarrow> 't ModuleBase \<Rightarrow> bool \<times> 't ModuleBase" where
  "SubscribeOneChannel channel has_handler m =
     (if \<not> RequireStage kSetupSubscriptions m \<or> channel = [] \<or> \<not> has_handler then (False, m)
      else (True, m\<lparr>mb_declared := insert channel (mb_declared m)\<rparr>))"

definition module_Stop :: "'t ModuleBase \<Rightarrow> 't ModuleBase" where
  "module_Stop m = m\<lparr>mb_running := False\<rparr>"

datatype module_status = NotRunningStage | BusIsNull | BusStatus publish_status | BusUnimplemented grpc_status

definition module_PublishWithStatus ::
  "(ring \<Rightarrow> ring) list \<Rightarrow> u64 \<Rightarrow> string \<Rightarrow> u8 list \<Rightarrow> 't ModuleBase \<Rightarrow> posix_shm \<times> eventfds \<Rightarrow>
   ((module_status + u64) \<times> (posix_shm \<times> eventfds)) option" where
  "module_PublishWithStatus ys ns channel payload m w =
     (if \<not> RequireStage kRunning m then Some (Inl NotRunningStage, w)
      else (case mb_bus m of
              None \<Rightarrow> Some (Inl BusIsNull, w)
            | Some GrpcBus \<Rightarrow> Some (map_sum BusUnimplemented id (grpc_PublishWithStatus (mb_module_name m) channel payload), w)
            | Some (ShmBus rt) \<Rightarrow>
                map_option (\<lambda>(res, w1). (map_sum BusStatus id res, w1)) (PublishWithStatus ys ns channel payload rt w)))"

definition module_Publish ::
  "(ring \<Rightarrow> ring) list \<Rightarrow> u64 \<Rightarrow> string \<Rightarrow> u8 list \<Rightarrow> 't ModuleBase \<Rightarrow> posix_shm \<times> eventfds \<Rightarrow>
   (bool \<times> (posix_shm \<times> eventfds)) option" where
  "module_Publish ys ns channel payload m w =
     map_option (\<lambda>(res, w1). (case res of Inl e \<Rightarrow> False | Inr s \<Rightarrow> True, w1)) (module_PublishWithStatus ys ns channel payload m w)"

section \<open>Init\<close>

datatype init_error =
    SetupSubscriptionsFailed
  | TopologyRejected config_error
  | TopologyFailed
  | ChannelConfigFailed config_error
  | SubscribeFailed string
  | PumpFailed
  | DoInitFailed

text \<open>The loop over the input channels; the first refusal ends it.\<close>

fun subscribe_inputs ::
  "u32 \<Rightarrow> string \<Rightarrow> ChannelEndpointConfig list \<Rightarrow> module_bus \<Rightarrow> posix_shm \<Rightarrow> (init_error + unit) \<times> module_bus \<times> posix_shm" where
  "subscribe_inputs pid name [] bus shm = (Inr (), bus, shm)"
| "subscribe_inputs pid name (e # es) GrpcBus shm = (Inl (SubscribeFailed (ep_channel e)), GrpcBus, shm)"
| "subscribe_inputs pid name (e # es) (ShmBus rt) shm =
     (case Subscribe pid name (ep_channel e) True (rt, shm) of
        (False, (rt1, shm1)) \<Rightarrow> (Inl (SubscribeFailed (ep_channel e)), ShmBus rt1, shm1)
      | (True, (rt1, shm1)) \<Rightarrow> subscribe_inputs pid name es (ShmBus rt1) shm1)"

text \<open>What the system answers: the files, the segments, the pump's epoll calls.\<close>

record module_system =
  sy_pid :: u32
  sy_files :: "string \<Rightarrow> string option"
  sy_segments :: "string \<Rightarrow> shm_answers"
  sy_epoll_create_ok :: bool
  sy_epoll_add_ok :: "int \<Rightarrow> bool"

text \<open>The bus with its topology: a module on the shared-memory bus gets one of its own where the cast fails.\<close>

definition module_topology :: "module_system \<Rightarrow> posix_shm \<Rightarrow> 't ModuleBase \<Rightarrow> (init_error + unit) \<times> module_bus option" where
  "module_topology sy shm m =
     (if rc_bus_kind (mb_config m) \<noteq> kSingleNodeShm then (Inr (), mb_bus m)
      else
        (let rt = (case mb_bus m of Some (ShmBus rt) \<Rightarrow> rt | _ \<Rightarrow> new_runtime default_config);
             cfgs = rc_module_config_files (mb_config m)
         in if cfgs = [] then (Inr (), Some (ShmBus rt))
            else (case SetChannelTopologyFromModuleConfigs (sy_files sy) (sy_segments sy) shm cfgs rt of
                    Inl err \<Rightarrow> (Inl (TopologyRejected err), Some (ShmBus rt))
                  | Inr (ok, rt1) \<Rightarrow> (if ok then Inr () else Inl TopologyFailed, Some (ShmBus rt1)))))"

definition module_channels :: "module_system \<Rightarrow> 't ModuleBase \<Rightarrow> init_error + ModuleChannelConfig" where
  "module_channels sy m =
     (let path = rc_module_channel_config_path (mb_config m) in
      if path = [] then Inr (empty_module (mb_module_name m))
      else (case ParseModuleChannelConfigFile (sy_files sy) (mb_module_name m) path of
              Inl err \<Rightarrow> Inl (ChannelConfigFailed err)
            | Inr mc \<Rightarrow> Inr mc))"

definition start_pump :: "module_system \<Rightarrow> 't ModuleBase \<Rightarrow> bool \<times> 't ModuleBase" where
  "start_pump sy m =
     (case mb_bus m of
        Some (ShmBus rt) \<Rightarrow>
          if rc_bus_kind (mb_config m) \<noteq> kSingleNodeShm then (True, m)
          else (case StartUnifiedSubscriberPump (sy_epoll_create_ok sy) (sy_epoll_add_ok sy) rt of
                  (ok, rt1) \<Rightarrow> (ok, m\<lparr>mb_bus := Some (ShmBus rt1)\<rparr>))
      | _ \<Rightarrow> (True, m))"

text \<open>\<open>setup\<close> and \<open>do_init\<close> are the virtual methods.\<close>

definition module_Init ::
  "('t ModuleBase \<Rightarrow> bool \<times> 't ModuleBase) \<Rightarrow> ('t ModuleBase \<Rightarrow> bool \<times> 't ModuleBase) \<Rightarrow> module_system \<Rightarrow>
   't ModuleBase \<times> posix_shm \<Rightarrow> (init_error + unit) \<times> ('t ModuleBase \<times> posix_shm)" where
  "module_Init setup do_init sy w =
     (case w of (m, shm) \<Rightarrow>
        case setup (m\<lparr>mb_declared := {}, mb_stage := kSetupSubscriptions\<rparr>) of
          (False, m1) \<Rightarrow> (Inl SetupSubscriptionsFailed, (m1, shm))
        | (True, m1) \<Rightarrow>
            (case module_topology sy shm m1 of
               (Inl err, bus) \<Rightarrow> (Inl err, (m1\<lparr>mb_bus := bus\<rparr>, shm))
             | (Inr _, bus) \<Rightarrow>
                 (let m2 = m1\<lparr>mb_bus := bus\<rparr> in
                  case module_channels sy m2 of
                    Inl err \<Rightarrow> (Inl err, (m2, shm))
                  | Inr mc \<Rightarrow>
                      (case subscribe_inputs (sy_pid sy) (mb_module_name m2) (mc_inputs mc) (the (mb_bus m2)) shm of
                         (Inl err, bus3, shm3) \<Rightarrow> (Inl err, (m2\<lparr>mb_bus := Some bus3\<rparr>, shm3))
                       | (Inr _, bus3, shm3) \<Rightarrow>
                           (case start_pump sy (m2\<lparr>mb_bus := Some bus3\<rparr>) of
                              (False, m4) \<Rightarrow> (Inl PumpFailed, (m4, shm3))
                            | (True, m4) \<Rightarrow>
                                (case do_init m4 of
                                   (False, m5) \<Rightarrow> (Inl DoInitFailed, (m5, shm3))
                                 | (True, m5) \<Rightarrow> (Inr (), (m5, shm3))))))))"

section \<open>Run\<close>

text \<open>
  What the main thread does, in order. A message of a channel the module declared no handler for goes
  to the empty handler. The second datatype is how a stretch of code ends.
\<close>

datatype 't module_event = TimerFired 't | Handled string MessageEnvelope | Ignored string MessageEnvelope | RunIteration

definition callback_event :: "'t ModuleBase \<Rightarrow> string \<times> MessageEnvelope \<Rightarrow> 't module_event" where
  "callback_event m cb = (if fst cb \<in> mb_declared m then Handled (fst cb) (snd cb) else Ignored (fst cb) (snd cb))"

text \<open>One round of the loop: whether \<^verbatim>\<open>running_\<close> is still set, the clock, what arrives during the wait and during the drain.\<close>

record module_round =
  mr_running :: bool
  mr_now :: int
  mr_arriving :: "(string \<times> MessageEnvelope) option list"
  mr_pushed :: "(string \<times> MessageEnvelope) option list"

text \<open>Timers run before the callbacks, then the iteration hook; what throws first ends the round.\<close>

fun until_throw :: "('e \<Rightarrow> bool) \<Rightarrow> 'e list \<Rightarrow> 'e list \<times> bool" where
  "until_throw throws [] = ([], False)"
| "until_throw throws (e # es) =
     (if throws e then ([e], True) else (case until_throw throws es of (done_es, t) \<Rightarrow> (e # done_es, t)))"

definition module_iteration ::
  "('t module_event \<Rightarrow> bool) \<Rightarrow> module_round \<Rightarrow> 't ModuleBase \<Rightarrow> ('t module_event list \<times> bool) \<times> 't ModuleBase" where
  "module_iteration throws x m =
     (case PumpDueTimers (mr_now x) (the (mb_timers m)) of
        (tasks, ts) \<Rightarrow>
          let m1 = m\<lparr>mb_timers := Some ts\<rparr> in
          case until_throw throws (map TimerFired tasks) of
            (es, True) \<Rightarrow> ((es, True), m1)
          | (es, False) \<Rightarrow>
              (case WaitAndDrain (throws \<circ> callback_event m1) (mr_arriving x) (mr_pushed x) (mb_queue m1) of
                 ((cbs, n), queue) \<Rightarrow>
                   let m2 = m1\<lparr>mb_queue := queue\<rparr>; es2 = es @ map (callback_event m1) cbs in
                   if n = None then ((es2, True), m2)
                   else ((es2 @ [RunIteration], throws RunIteration), m2)))"

fun module_loop ::
  "('t module_event \<Rightarrow> bool) \<Rightarrow> module_round list \<Rightarrow> 't ModuleBase \<Rightarrow> (('t module_event list \<times> bool) \<times> 't ModuleBase) option" where
  "module_loop throws [] m = None"
| "module_loop throws (x # xs) m =
     (if \<not> mr_running x then Some (([], False), module_Stop m)
      else (case module_iteration throws x m of
              ((es, True), m1) \<Rightarrow> Some ((es, True), m1)
            | ((es, False), m1) \<Rightarrow>
                map_option (\<lambda>((es2, t), m2). ((es @ es2, t), m2)) (module_loop throws xs m1)))"

text \<open>\<open>final\<close> arrives after the last drain and before the pump is joined.\<close>

datatype run_end = RunReturned bool | RunThrew | RunAborted

definition stop_bus :: "'t ModuleBase \<times> (posix_shm \<times> eventfds) \<Rightarrow> 't ModuleBase \<times> (posix_shm \<times> eventfds)" where
  "stop_bus w =
     (case w of (m, sw) \<Rightarrow>
        case mb_bus m of
          Some (ShmBus rt) \<Rightarrow> (case StopAllSubscribers (rt, sw) of (fds, (rt1, sw1)) \<Rightarrow> (m\<lparr>mb_bus := Some (ShmBus rt1)\<rparr>, sw1))
        | _ \<Rightarrow> w)"

definition module_shutdown ::
  "('t module_event \<Rightarrow> bool) \<Rightarrow> (string \<times> MessageEnvelope) option list \<Rightarrow> 't ModuleBase \<times> (posix_shm \<times> eventfds) \<Rightarrow>
   (run_end \<times> 't module_event list) \<times> ('t ModuleBase \<times> (posix_shm \<times> eventfds))" where
  "module_shutdown throws final w =
     (case w of (m, sw) \<Rightarrow>
        case stop_bus (m\<lparr>mb_queue := fold Push final (mb_queue m)\<rparr>, sw) of
          (m2, sw2) \<Rightarrow>
            (case DrainAll (throws \<circ> callback_event m2) [] (mb_queue m2) of
               ((cbs, n), queue) \<Rightarrow>
                 ((if n = None then RunThrew else RunReturned True, map (callback_event m2) cbs),
                  (m2\<lparr>mb_queue := queue, mb_stage := (if n = None then kRunning else kStopped)\<rparr>, sw2))))"

definition module_Run ::
  "('t ModuleBase \<Rightarrow> bool \<times> 't ModuleBase) \<Rightarrow> ('t ModuleBase \<Rightarrow> bool \<times> 't ModuleBase) \<Rightarrow> environment \<Rightarrow> module_system \<Rightarrow>
   ('t module_event \<Rightarrow> bool) \<Rightarrow> module_round list \<Rightarrow> (string \<times> MessageEnvelope) option list \<Rightarrow> 't ModuleBase \<times> (posix_shm \<times> eventfds) \<Rightarrow>
   ((run_end \<times> 't module_event list) \<times> ('t ModuleBase \<times> (posix_shm \<times> eventfds))) option" where
  "module_Run setup do_init env sy throws rounds final w =
     (case w of (m, (shm, efds)) \<Rightarrow>
        if mb_bus m = None \<or> mb_timers m = None then Some ((RunReturned False, []), w)
        else if mb_running m then Some ((RunReturned False, []), w)
        else
          (let m1 = m\<lparr>mb_running := True\<rparr> in
           if rc_bus_kind (mb_config m1) = kSingleNodeShm \<and> \<not> AssertForkOnlyModel env then Some ((RunAborted, []), (m1, (shm, efds)))
           else (case module_Init setup do_init sy (m1\<lparr>mb_stage := kInit\<rparr>, shm) of
                   (Inl err, (m2, shm2)) \<Rightarrow>
                     Some ((RunReturned False, []), (m2\<lparr>mb_stage := kStopped, mb_running := False\<rparr>, (shm2, efds)))
                 | (Inr _, (m2, shm2)) \<Rightarrow>
                     (case module_loop throws rounds (m2\<lparr>mb_stage := kRunning\<rparr>) of
                        None \<Rightarrow> None
                      | Some ((es, True), m3) \<Rightarrow> Some ((RunThrew, es), (m3, (shm2, efds)))
                      | Some ((es, False), m3) \<Rightarrow>
                          (case module_shutdown throws final (m3, (shm2, efds)) of
                             ((end_, es2), w2) \<Rightarrow> Some ((end_, es @ es2), w2))))))"

end
