(* ===== verification/Module_Launcher.thy ===== *)
theory Module_Launcher
  imports Supervisor Log_Collector Module_Base
begin

text \<open>
  Starting the module processes: the registry of factories (\<^verbatim>\<open>module_factory_registry.cpp\<close>), and
  \<^verbatim>\<open>module_launcher.cpp\<close> with the code the child runs up to its exit and the parent's side: pipe, fork,
  READY barrier and clean-up. What the kernel knows of the children is kept beside the supervisor.
\<close>

section \<open>The registry\<close>

record ModuleFactoryConfig =
  fc_module_name :: string
  fc_runtime_config :: ModuleRuntimeConfig

type_synonym 'm factory = "ModuleFactoryConfig \<Rightarrow> 'm option"

type_synonym 'm registry = "(string \<times> 'm factory) list"

definition registry_Register :: "string \<Rightarrow> 'm factory option \<Rightarrow> 'm registry \<Rightarrow> (string + unit) \<times> 'm registry" where
  "registry_Register name factory reg =
     (if name = [] then (Inl ''module registration failed: empty module name'', reg)
      else (case factory of
              None \<Rightarrow> (Inl (''module registration failed for '' @ [CHR 0x27] @ name @ [CHR 0x27] @ '': empty factory''), reg)
            | Some f \<Rightarrow>
                if map_of reg name \<noteq> None
                then (Inl (''module registration failed: duplicate module name '' @ [CHR 0x27] @ name @ [CHR 0x27]), reg)
                else (Inr (), assign name f reg)))"

definition registry_Create :: "string \<Rightarrow> ModuleFactoryConfig \<Rightarrow> 'm registry \<Rightarrow> string + 'm" where
  "registry_Create name cfg reg =
     (case map_of reg name of
        None \<Rightarrow> Inl (''module factory not registered: '' @ [CHR 0x27] @ name @ [CHR 0x27])
      | Some f \<Rightarrow>
          (case f cfg of
             None \<Rightarrow> Inl (''module factory returned null instance: '' @ [CHR 0x27] @ name @ [CHR 0x27])
           | Some instance_ptr \<Rightarrow> Inr instance_ptr))"

definition RegisteredNames :: "'m registry \<Rightarrow> string list" where
  "RegisteredNames reg = map fst reg"

section \<open>The child\<close>

definition ToProcessCommName :: "string \<Rightarrow> string" where
  "ToProcessCommName name =
     (let prefixed_name = ''M-'' @ name in
      if length prefixed_name \<le> 15 then prefixed_name else take 15 prefixed_name)"

definition ToPolicyConfig :: "ResourceSchema \<Rightarrow> RestartPolicyConfig" where
  "ToPolicyConfig schema =
     \<lparr>restart_backoff_ms = rs_restart_backoff_ms schema, restart_max_retries = rs_restart_max_retries schema,
      restart_window_ms = rs_restart_window_ms schema, restart_fuse_ms = rs_restart_fuse_ms schema\<rparr>"

text \<open>\<^verbatim>\<open>std::stoi\<close> reads as \<^verbatim>\<open>std::stoll\<close> does, up to the range of an int; trailing text is ignored.\<close>

definition stoi :: "string \<Rightarrow> num_error + int" where
  "stoi s =
     (case stoll s of
        Inl (InvalidArgument w) \<Rightarrow> Inl (InvalidArgument ''stoi'')
      | Inl (OutOfRange w) \<Rightarrow> Inl (OutOfRange ''stoi'')
      | Inr (v, rest) \<Rightarrow> if v < - (2 ^ 31) \<or> v \<ge> 2 ^ 31 then Inl (OutOfRange ''stoi'') else Inr v)"

definition parse_cpus :: "string \<Rightarrow> num_error + int list" where
  "parse_cpus cpu_set =
     each (\<lambda>token cpus. also_then (stoi token) (\<lambda>cpu. Inr (cpus @ [cpu]))) (split_at (CHR '','') cpu_set) []"

text \<open>What the child does, in order. Descriptors are numbers; \<open>Ran\<close> is the module's \<^verbatim>\<open>Run\<close>.\<close>

datatype child_call =
    SetName string
  | SetAffinity "int list"
  | RedirectStderr int
  | CloseInChild int
  | SendReadyBytes "u8 list"
  | Ran bool

record 'm child_system =
  cs_registry :: "'m registry"
  cs_cpu_alloc_ok :: "int list \<Rightarrow> bool"
  cs_setaffinity :: "int list \<Rightarrow> int"
  cs_write :: "u8 list \<Rightarrow> int"
  cs_run :: "'m \<Rightarrow> bool"

definition RedirectStderrToLogPipe :: "int \<Rightarrow> child_call list" where
  "RedirectStderrToLogPipe pipe_write_fd =
     (if pipe_write_fd < 0 then []
      else if pipe_write_fd \<noteq> 2 then [RedirectStderr pipe_write_fd, CloseInChild pipe_write_fd]
      else [RedirectStderr pipe_write_fd])"

definition child_close :: "int \<Rightarrow> child_call list" where
  "child_close fd = (case CloseFdIfOpen fd of (None, _) \<Rightarrow> [] | (Some closed_fd, _) \<Rightarrow> [CloseInChild closed_fd])"

text \<open>The affinity block of a business module: the calls made, and whether the child goes on.\<close>

definition apply_cpu_set :: "'m child_system \<Rightarrow> string \<Rightarrow> child_call list \<times> bool" where
  "apply_cpu_set sys cpu_set =
     (if cpu_set = [] then ([], True)
      else (case parse_cpus cpu_set of
              Inl err \<Rightarrow> ([], False)
            | Inr cpus \<Rightarrow>
                if cpus = [] then ([], True)
                else if \<not> cs_cpu_alloc_ok sys cpus then ([], False)
                else ([SetAffinity cpus], cs_setaffinity sys cpus = 0)))"

text \<open>The lambda of \<^verbatim>\<open>LaunchOneModule\<close>; its number is turned into the exit status by \<^verbatim>\<open>ForkModuleProcess\<close>.\<close>

definition business_config :: "string \<Rightarrow> string \<Rightarrow> ModuleFactoryConfig" where
  "business_config name io_config_path =
     \<lparr>fc_module_name = name,
      fc_runtime_config = \<lparr>rc_bus_kind = kSingleNodeShm, rc_module_config_files = [],
        rc_module_channel_config_path = io_config_path\<rparr>\<rparr>"

definition business_child ::
  "'m child_system \<Rightarrow> string \<Rightarrow> string \<Rightarrow> string \<Rightarrow> int \<Rightarrow> int \<Rightarrow> (string \<times> ModulePipeSet) list option \<Rightarrow> child_call list \<times> int" where
  "business_child sys name io_config_path cpu_set child_write_fd log_pipe_write_fd all_module_pipes =
     (let named = [SetName (ToProcessCommName name)] in
      case apply_cpu_set sys cpu_set of
        (aff, False) \<Rightarrow> (named @ aff @ child_close child_write_fd, 5)
      | (aff, True) \<Rightarrow>
          let started = named @ aff @ RedirectStderrToLogPipe log_pipe_write_fd @
                (case all_module_pipes of None \<Rightarrow> [] | Some pipes \<Rightarrow> map CloseInChild (CloseOtherWriteFds name pipes)) in
          (case registry_Create name (business_config name io_config_path) (cs_registry sys) of
             Inl err \<Rightarrow> (started @ child_close child_write_fd, 2)
           | Inr module_ptr \<Rightarrow>
               (case SendReady (cs_write sys) child_write_fd of
                  Inl err \<Rightarrow> (started @ child_close child_write_fd, 3)
                | Inr sent \<Rightarrow>
                    let ok = cs_run sys module_ptr in
                    (started @ [SendReadyBytes sent] @ child_close child_write_fd @ [Ran ok], if ok then 0 else 4))))"

text \<open>The lambda of \<^verbatim>\<open>ForkLogModule\<close>: a CPU set that cannot be applied is passed over.\<close>

definition log_config :: "string \<Rightarrow> ModuleFactoryConfig" where
  "log_config name =
     \<lparr>fc_module_name = name,
      fc_runtime_config = \<lparr>rc_bus_kind = kSingleNodeShm, rc_module_config_files = [], rc_module_channel_config_path = []\<rparr>\<rparr>"

definition log_child :: "'m child_system \<Rightarrow> string \<Rightarrow> string \<Rightarrow> child_call list \<times> int" where
  "log_child sys name cpu_set =
     (let started = SetName (ToProcessCommName name) # fst (apply_cpu_set sys cpu_set) in
      case registry_Create name (log_config name) (cs_registry sys) of
        Inl err \<Rightarrow> (started, 2)
      | Inr module_ptr \<Rightarrow> (let ok = cs_run sys module_ptr in (started @ [Ran ok], if ok then 0 else 4)))"

definition child_exit_status :: "int \<Rightarrow> exit_status" where
  "child_exit_status entry_code = ExitedWith (if entry_code = 0 then 0 else 1)"

section \<open>The parent\<close>

text \<open>
  The supervisor with what its process does to others: the children that were forked and not waited
  for, and the calls made. The kernel chooses the number of a new child knowing the live ones.
\<close>

datatype os_call = Forked string int | CloseFd int | SendSignal int int | Await int

record master = supervisor +
  os_children :: "int list"
  os_calls :: "os_call list"

definition call :: "os_call list \<Rightarrow> master \<Rightarrow> master" where
  "call cs s = s\<lparr>os_calls := os_calls s @ cs\<rparr>"

definition parent_close :: "int \<Rightarrow> master \<Rightarrow> master" where
  "parent_close fd s = (case CloseFdIfOpen fd of (None, _) \<Rightarrow> s | (Some closed_fd, _) \<Rightarrow> call [CloseFd closed_fd] s)"

definition SIGTERM :: int where "SIGTERM = 15"

definition SIGKILL :: int where "SIGKILL = 9"

definition fork_child :: "(int list \<Rightarrow> int) \<Rightarrow> string \<Rightarrow> master \<Rightarrow> (string + unit) \<times> master" where
  "fork_child next_pid name s =
     (let pid = next_pid (os_children s) in
      case ForkModuleProcess name True pid s of
        (Inl err, s1) \<Rightarrow> (Inl err, s1)
      | (Inr _, s1) \<Rightarrow> (Inr (), call [Forked name pid] (s1\<lparr>os_children := pid # os_children s1\<rparr>)))"

text \<open>A blocking \<^verbatim>\<open>waitpid\<close>, and the clean-up behind it.\<close>

definition await_child :: "int \<Rightarrow> master \<Rightarrow> master" where
  "await_child pid s = call [Await pid] (s\<lparr>os_children := remove1 pid (os_children s)\<rparr>)"

definition end_child :: "int \<Rightarrow> int \<Rightarrow> master \<Rightarrow> master" where
  "end_child signal pid s = snd (ReapChildProcess pid (await_child pid (call [SendSignal pid signal] s)))"

record launch_answers =
  la_pipe :: "string + int \<times> int"
  la_fork :: "int list \<Rightarrow> int"
  la_poll :: "int \<Rightarrow> poll_outcome"

definition LaunchOneModule :: "launch_answers \<Rightarrow> ParsedModuleLaunchEntry \<Rightarrow> master \<Rightarrow> (string + unit) \<times> master" where
  "LaunchOneModule la entry s =
     (case CreateParentManagedPipe (la_pipe la) of
        Inl err \<Rightarrow> (Inl err, s)
      | Inr (parent_read_fd, child_write_fd) \<Rightarrow>
          (let name = me_module_name entry in
           case fork_child (la_fork la) name s of
             (Inl err, s1) \<Rightarrow> (Inl err, parent_close parent_read_fd (parent_close child_write_fd s1))
           | (Inr _, s1) \<Rightarrow>
               (case WaitForReadyOrTransitionFailed (la_poll la) name parent_read_fd
                       (rs_ready_timeout_ms (me_resource_schema entry)) (parent_close child_write_fd s1) of
                  (True, s2) \<Rightarrow> (Inr (), parent_close parent_read_fd s2)
                | (False, s2) \<Rightarrow>
                    (let s3 = parent_close parent_read_fd s2 in
                     (Inl (''module failed READY barrier: '' @ name),
                      (case ChildPidOf name s3 of None \<Rightarrow> s3 | Some pid \<Rightarrow> end_child SIGTERM pid s3))))))"

text \<open>The two flags the log module inherits.\<close>

record log_module_flags =
  lm_log_pipe_sources :: string
  lm_log_ready_event_fd :: int

definition ForkLogModule ::
  "(int list \<Rightarrow> int) \<Rightarrow> ParsedModuleLaunchEntry \<Rightarrow> int \<Rightarrow> (string \<times> ModulePipeSet) list \<Rightarrow> master \<Rightarrow>
   (string + int) \<times> log_module_flags \<times> master" where
  "ForkLogModule next_pid entry ready_event_fd all_pipes s =
     (let name = me_module_name entry;
          flags = \<lparr>lm_log_pipe_sources = pipe_sources_text all_pipes, lm_log_ready_event_fd = ready_event_fd\<rparr> in
      case fork_child next_pid name s of
        (Inl err, s1) \<Rightarrow> (Inl err, flags, s1)
      | (Inr _, s1) \<Rightarrow> (Inr (case ChildPidOf name s1 of None \<Rightarrow> 0 | Some pid \<Rightarrow> pid), flags, s1))"

section \<open>Facts of the child\<close>

text \<open>
  READY goes out only when the module exists and before it runs; the process ends with success
  exactly where the module ran and returned true.
\<close>

fun ready_or_run :: "child_call \<Rightarrow> bool" where
  "ready_or_run (SendReadyBytes b) \<longleftrightarrow> True"
| "ready_or_run (Ran ok) \<longleftrightarrow> True"
| "ready_or_run c \<longleftrightarrow> False"

lemma preparation_calls [simp]:
  "filter ready_or_run (child_close fd) = []" "filter ready_or_run (RedirectStderrToLogPipe fd) = []"
  "filter ready_or_run (map CloseInChild fds) = []"
  by (auto simp: child_close_def CloseFdIfOpen_def RedirectStderrToLogPipe_def filter_empty_conv)

lemma apply_cpu_set_calls: "apply_cpu_set sys cpus = (aff, ok) \<Longrightarrow> filter ready_or_run aff = []"
  by (auto simp: apply_cpu_set_def split: if_splits sum.splits)

lemma business_child_ready:
  assumes "business_child sys name io cpus wfd log_fd pipes = (cs, code)"
  shows "filter ready_or_run cs \<in> {[], [SendReadyBytes (message_bytes ready_message), Ran (code = 0)]}"
    and "filter ready_or_run cs = [] \<longleftrightarrow> code \<in> {2, 3, 5}" "code \<in> {0, 2, 3, 4, 5}"
proof -
  obtain aff ok where aff: "apply_cpu_set sys cpus = (aff, ok)" by fastforce
  note none = apply_cpu_set_calls [OF aff]
  have "filter ready_or_run cs \<in> {[], [SendReadyBytes (message_bytes ready_message), Ran (code = 0)]} \<and>
      (filter ready_or_run cs = [] \<longleftrightarrow> code \<in> {2, 3, 5}) \<and> code \<in> {0, 2, 3, 4, 5}"
  proof (cases ok)
    case False
    then show ?thesis
      using assms none by (auto simp: business_child_def aff)
  next
    case True
    show ?thesis
    proof (cases "registry_Create name (business_config name io) (cs_registry sys)")
      case (Inl err)
      then show ?thesis
        using assms none True by (cases pipes) (auto simp: business_child_def aff)
    next
      case (Inr m)
      have sent: "SendReady (cs_write sys) wfd = Inr b \<Longrightarrow> b = message_bytes ready_message" for b
        by (auto simp: SendReady_def split: if_splits)
      show ?thesis
        using assms none True sent
        by (cases pipes; cases "SendReady (cs_write sys) wfd"; cases "cs_run sys m") (auto simp: business_child_def aff Inr)
    qed
  qed
  then show "filter ready_or_run cs \<in> {[], [SendReadyBytes (message_bytes ready_message), Ran (code = 0)]}"
    "filter ready_or_run cs = [] \<longleftrightarrow> code \<in> {2, 3, 5}" "code \<in> {0, 2, 3, 4, 5}"
    by blast+
qed

text \<open>A CPU number of a validated set is read back by the child as it stands in the plan.\<close>

lemma stoi_digits: "n < 2 ^ 31 \<Longrightarrow> stoi (nat_digits n) = Inr (int n)"
  using stoll_int_to_string [of "int n" "[]"] by (simp add: stoi_def int_to_string_def)

end
