(* ===== verification/Backend_Main.thy ===== *)
theory Backend_Main
  imports Module_Launcher
begin

text \<open>
  The master process, \<^verbatim>\<open>services/backend/main.cpp\<close>: from the launch plan to the exit code. The
  phases follow each other as in \<^verbatim>\<open>main\<close>; each ends the program with a code or hands its state to
  the next. What the kernel answers is an argument, per round of the monitor loop.
\<close>

section \<open>The state of the master process\<close>

record backend =
  bk_master :: master
  bk_log_pid :: "int option"
  bk_pipes :: "(string \<times> ModulePipeSet) list"
  bk_plane :: "ShmBusControlPlane \<times> posix_shm"

text \<open>How \<^verbatim>\<open>main\<close> ends: a code with the state left behind, or an uncaught exception or \<^verbatim>\<open>LOG(FATAL)\<close>.\<close>

datatype backend_end = Exit int backend | Terminated

record log_answers =
  lg_eventfd :: int
  lg_fork :: "int list \<Rightarrow> int"
  lg_poll :: int
  lg_read :: "int \<times> u64"

record 'f backend_answers =
  ba_files :: "string \<Rightarrow> string option"
  ba_registered :: "string list"
  ba_flag_known :: "string \<Rightarrow> bool"
  ba_set_flag :: "string \<Rightarrow> string \<Rightarrow> 'f \<Rightarrow> 'f \<times> string"
  ba_set_minloglevel :: "int \<Rightarrow> 'f \<Rightarrow> 'f"
  ba_setenv :: "string \<Rightarrow> string \<Rightarrow> int"
  ba_segments :: "string \<Rightarrow> shm_answers"
  ba_open_fd :: "string \<Rightarrow> nat \<Rightarrow> int"
  ba_pipe :: "string \<Rightarrow> nat + int \<times> int"
  ba_log :: log_answers
  ba_launch :: "string \<Rightarrow> launch_answers"

definition fresh_master :: master where
  "fresh_master = supervisor.extend fresh_supervisor (master.fields [] [])"

definition fresh_backend :: "posix_shm \<Rightarrow> backend" where
  "fresh_backend shm = \<lparr>bk_master = fresh_master, bk_log_pid = None, bk_pipes = [], bk_plane = (new_control_plane, shm)\<rparr>"

definition close_pipes :: "backend \<Rightarrow> backend" where
  "close_pipes b =
     (case CloseAllPipeFds (bk_pipes b) of
        (fds, rest) \<Rightarrow> b\<lparr>bk_pipes := rest, bk_master := call (map CloseFd fds) (bk_master b)\<rparr>)"

section \<open>Up to the supervisor\<close>

record 'f prepared =
  pr_entries :: "(string \<times> ParsedModuleLaunchEntry) list"
  pr_specs :: "SupervisorModuleSpec list"
  pr_topology :: ChannelTopologyIndex
  pr_payload_bytes :: nat
  pr_env :: environment
  pr_flags :: 'f

definition backend_options :: "string list \<Rightarrow> LaunchPlanValidationOptions" where
  "backend_options registered_names =
     \<lparr>enforce_strict_resource_schema = True, registered_module_names = Some registered_names\<rparr>"

definition module_entries_of :: "ParsedLaunchPlan \<Rightarrow> (string \<times> ParsedModuleLaunchEntry) list" where
  "module_entries_of plan = fold (\<lambda>m entries. emplace (me_module_name m) m entries) (lp_modules plan) []"

definition supervisor_specs_of :: "ParsedLaunchPlan \<Rightarrow> SupervisorModuleSpec list" where
  "supervisor_specs_of plan =
     map (\<lambda>m. \<lparr>spec_name = me_module_name m, startup_priority = rs_startup_priority (me_resource_schema m)\<rparr>) (lp_modules plan)"

definition middleware_config_of :: "ParsedLaunchPlan \<Rightarrow> MiddlewareConfig" where
  "middleware_config_of plan =
     default_config\<lparr>shm_slot_count := of_nat (case lp_slot_count plan of Some n \<Rightarrow> n | None \<Rightarrow> 256),
       slot_payload_bytes := (case lp_slot_payload_bytes plan of Some n \<Rightarrow> n | None \<Rightarrow> 1024)\<rparr>"

text \<open>The control plane is provisioned and the topology for the hooks is read once more.\<close>

definition provision_plan ::
  "'f backend_answers \<Rightarrow> ParsedLaunchPlan \<Rightarrow> (string \<times> string) list \<Rightarrow> environment \<Rightarrow> 'f \<Rightarrow> backend \<Rightarrow>
   backend_end + 'f prepared \<times> backend" where
  "provision_plan ans plan config_files env flags b =
     (case ProvisionChannelTopologyFromModuleConfigs (ba_files ans) (ba_segments ans) (ba_open_fd ans) config_files
             (middleware_config_of plan) (bk_plane b) of
        Inl (Reported err) \<Rightarrow> Inl (Exit 9 b)
      | Inl (Escaped err) \<Rightarrow> Inl Terminated
      | Inr (False, plane) \<Rightarrow> Inl (Exit 9 (b\<lparr>bk_plane := plane\<rparr>))
      | Inr (True, plane) \<Rightarrow>
          (let b1 = b\<lparr>bk_plane := plane\<rparr> in
           case BuildChannelTopologyIndexFromFiles (ba_files ans) config_files of
             Inl (Reported err) \<Rightarrow> Inl (Exit 10 b1)
           | Inl (Escaped err) \<Rightarrow> Inl Terminated
           | Inr topology \<Rightarrow>
               if ValidateSingleModulePerProcessInvariant (supervisor_specs_of plan) \<noteq> None then Inl (Exit 4 b1)
               else Inr (\<lparr>pr_entries = module_entries_of plan, pr_specs = supervisor_specs_of plan, pr_topology = topology,
                          pr_payload_bytes = slot_payload_bytes (middleware_config_of plan), pr_env = env, pr_flags = flags\<rparr>, b1)))"

definition prepare ::
  "'f backend_answers \<Rightarrow> string list \<Rightarrow> 'f \<Rightarrow> environment \<Rightarrow> backend \<Rightarrow> backend_end + 'f prepared \<times> backend" where
  "prepare ans argv flags env b =
     (let path = ResolveLaunchPlanPath argv in
      if path = [] then Inl (Exit 2 b)
      else (case ParseLaunchPlanFile (ba_files ans) (backend_options (ba_registered ans)) path of
              Inl err \<Rightarrow> Inl (Exit 3 b)
            | Inr plan \<Rightarrow>
                (let flags1 = (case lp_minloglevel plan of None \<Rightarrow> flags | Some l \<Rightarrow> ba_set_minloglevel ans l flags) in
                 case ApplyLaunchPlanScalarsToMatchingRegisteredGflags (ba_flag_known ans) (ba_set_flag ans) kSkipUnknownKeys plan flags1 of
                   Inl err \<Rightarrow> Inl (Exit 12 b)
                 | Inr flags2 \<Rightarrow>
                     (case SetupRuntimeEnvironmentFromLaunchPlan (ba_setenv ans) (module_entries_of plan) plan env of
                        Inl err \<Rightarrow> Inl (Exit 8 b)
                      | Inr (config_files, env1) \<Rightarrow> provision_plan ans plan config_files env1 flags2 b))))"

section \<open>The logging module\<close>

definition kLogModuleName :: string where
  "kLogModuleName = ''Logging_module''"

definition has_log :: "'f prepared \<Rightarrow> bool" where
  "has_log p \<longleftrightarrow> map_of (pr_entries p) kLogModuleName \<noteq> None"

fun create_pipes :: "(string \<Rightarrow> nat + int \<times> int) \<Rightarrow> string list \<Rightarrow> backend \<Rightarrow> bool \<times> backend" where
  "create_pipes pipe_answer [] b = (True, b)"
| "create_pipes pipe_answer (n # ns) b =
     (case CreateLogPipe (pipe_answer n) of
        Inl err \<Rightarrow> (False, close_pipes b)
      | Inr ps \<Rightarrow> create_pipes pipe_answer ns (b\<lparr>bk_pipes := assign n ps (bk_pipes b)\<rparr>))"

definition setup_log_pipes :: "'f backend_answers \<Rightarrow> 'f prepared \<Rightarrow> backend \<Rightarrow> backend_end + backend" where
  "setup_log_pipes ans p b =
     (if \<not> has_log p then Inr b
      else (case create_pipes (ba_pipe ans) (filter (\<lambda>n. n \<noteq> kLogModuleName) (map fst (pr_entries p)) @ [''backend_main'']) b of
              (False, b1) \<Rightarrow> Inl (Exit 11 b1)
            | (True, b1) \<Rightarrow> Inr b1))"

text \<open>The master's own stderr goes into its pipe.\<close>

definition redirect_own_stderr :: "backend \<Rightarrow> backend" where
  "redirect_own_stderr b =
     (case map_of (bk_pipes b) ''backend_main'' of
        None \<Rightarrow> b
      | Some ps \<Rightarrow>
          if mp_write_fd ps < 0 then b
          else b\<lparr>bk_pipes := assign ''backend_main'' (ps\<lparr>mp_write_fd := -1\<rparr>) (bk_pipes b),
                 bk_master := (if mp_write_fd ps \<noteq> 2 then call [CloseFd (mp_write_fd ps)] (bk_master b) else bk_master b)\<rparr>)"

definition start_log_module :: "log_answers \<Rightarrow> 'f prepared \<Rightarrow> backend \<Rightarrow> backend_end + backend" where
  "start_log_module lg p b =
     (if \<not> has_log p then Inr b
      else if lg_eventfd lg < 0 then Inl (Exit 11 (close_pipes b))
      else
        (case ForkLogModule (lg_fork lg) (the (map_of (pr_entries p) kLogModuleName)) (lg_eventfd lg) (bk_pipes b) (bk_master b) of
           (Inl err, flags, s1) \<Rightarrow> Inl (Exit 11 (close_pipes (b\<lparr>bk_master := call [CloseFd (lg_eventfd lg)] s1\<rparr>)))
         | (Inr pid, flags, s1) \<Rightarrow>
             (let s2 = call [CloseFd (lg_eventfd lg)] s1; b1 = b\<lparr>bk_master := s2, bk_log_pid := Some pid\<rparr> in
              if pid = 0 then Inl (Exit 11 (close_pipes (b\<lparr>bk_master := s2\<rparr>)))
              else if lg_poll lg \<le> 0 then Inl (Exit 11 (close_pipes (b1\<lparr>bk_master := end_child SIGTERM pid s2\<rparr>)))
              else if fst (lg_read lg) \<noteq> 8 \<or> snd (lg_read lg) \<noteq> 1 then Inl (Exit 11 (close_pipes b1))
              else Inr (redirect_own_stderr b1))))"

section \<open>Launching the modules\<close>

definition business_specs :: "'f prepared \<Rightarrow> SupervisorModuleSpec list" where
  "business_specs p = filter (\<lambda>spec. spec_name spec \<noteq> kLogModuleName) (pr_specs p)"

definition business_entries :: "'f prepared \<Rightarrow> (string \<times> ParsedModuleLaunchEntry) list" where
  "business_entries p =
     fold (\<lambda>spec. assign (spec_name spec) (the (map_of (pr_entries p) (spec_name spec)))) (business_specs p) []"

fun launch_batch ::
  "(string \<Rightarrow> launch_answers) \<Rightarrow> (string \<times> ParsedModuleLaunchEntry) list \<Rightarrow> SupervisorModuleSpec list \<Rightarrow> backend \<Rightarrow> backend_end + backend" where
  "launch_batch answers entries [] b = Inr b"
| "launch_batch answers entries (spec # batch) b =
     (case map_of entries (spec_name spec) of
        None \<Rightarrow> Inl (Exit 5 b)
      | Some entry \<Rightarrow>
          (case LaunchOneModule (answers (spec_name spec)) entry (bk_master b) of
             (Inl err, s1) \<Rightarrow> Inl (Exit 6 (b\<lparr>bk_master := s1\<rparr>))
           | (Inr _, s1) \<Rightarrow> launch_batch answers entries batch (b\<lparr>bk_master := s1\<rparr>)))"

fun launch_batches ::
  "(string \<Rightarrow> launch_answers) \<Rightarrow> (string \<times> ParsedModuleLaunchEntry) list \<Rightarrow> SupervisorModuleSpec list list \<Rightarrow> backend \<Rightarrow> backend_end + backend" where
  "launch_batches answers entries [] b = Inr b"
| "launch_batches answers entries (batch # batches) b =
     also_then (launch_batch answers entries batch b) (\<lambda>b1.
       if \<not> CanReleaseNextPriorityBatch (map spec_name batch) (bk_master b1) then Inl (Exit 7 b1)
       else launch_batches answers entries batches b1)"

definition launch_modules ::
  "('g \<Rightarrow> SupervisorModuleSpec list \<Rightarrow> SupervisorModuleSpec list \<times> 'g) \<Rightarrow> 'g \<Rightarrow> (string \<Rightarrow> launch_answers) \<Rightarrow> 'f prepared \<Rightarrow>
   backend \<Rightarrow> backend_end + backend" where
  "launch_modules shuffle g answers p b =
     (case BuildInitialStartupBatches shuffle (business_specs p) g (bk_master b) of
        (batches, g1, s1) \<Rightarrow> launch_batches answers (business_entries p) batches (b\<lparr>bk_master := s1\<rparr>))"

section \<open>The monitor loop\<close>

text \<open>What one round of the loop sees.\<close>

record round_answers =
  ra_obs :: monitor_obs
  ra_segments :: "string \<Rightarrow> shm_answers"
  ra_launch :: "string \<Rightarrow> launch_answers"
  ra_log :: log_answers

text \<open>The call-backs \<^verbatim>\<open>main\<close> hands to the loop. The restart of the log module waits for its eventfd, but whatever it reads is success.\<close>

definition restart_business :: "round_answers \<Rightarrow> 'f prepared \<Rightarrow> string \<Rightarrow> master \<Rightarrow> (string + unit) \<times> master" where
  "restart_business ra p name s =
     (case map_of (pr_entries p) name of
        None \<Rightarrow> (Inl (''module entry not found: '' @ name), s)
      | Some entry \<Rightarrow> LaunchOneModule (ra_launch ra name) entry s)"

definition restart_log :: "log_answers \<Rightarrow> 'f prepared \<Rightarrow> (string \<times> ModulePipeSet) list \<Rightarrow> master \<Rightarrow> int option \<Rightarrow>
    (string + unit) \<times> master \<times> int option" where
  "restart_log lg p pipes s log_pid =
     (if lg_eventfd lg < 0 then (Inl ''eventfd failed'', s, log_pid)
      else (case ForkLogModule (lg_fork lg) (the (map_of (pr_entries p) kLogModuleName)) (lg_eventfd lg) pipes s of
              (Inl err, flags, s1) \<Rightarrow> (Inl err, call [CloseFd (lg_eventfd lg)] s1, log_pid)
            | (Inr pid, flags, s1) \<Rightarrow>
                if pid = 0 then (Inl [], call [CloseFd (lg_eventfd lg)] s1, log_pid)
                else (Inr (), call [CloseFd (lg_eventfd lg)] s1, Some pid)))"

definition backend_deps :: "round_answers \<Rightarrow> 'f prepared \<Rightarrow> (string \<times> ModulePipeSet) list \<Rightarrow> unit master_ext monitor_deps" where
  "backend_deps ra p pipes =
     \<lparr>module_entries = Some (\<lambda>name. map_option (\<lambda>e. ToPolicyConfig (me_resource_schema e)) (map_of (pr_entries p) name)),
      has_take_offline = True, has_log_module = has_log p,
      restart_log_module = Some (restart_log (ra_log ra) p pipes),
      restart_business_module = Some (restart_business ra p), has_close_log_pipe = True\<rparr>"

text \<open>The hook that takes consumers offline; \<open>None\<close> where an exception leaves it.\<close>

definition take_offline :: "(string \<Rightarrow> shm_answers) \<Rightarrow> 'f prepared \<Rightarrow> u32 \<Rightarrow> backend \<Rightarrow> backend option" where
  "take_offline sa p pid b =
     (case bk_plane b of (cp, shm) \<Rightarrow>
        (case TakeAllConsumersOfflineForProcessPid sa pid (pr_topology p) (pr_payload_bytes p) cp shm of
           Inl err \<Rightarrow> None
         | Inr (n, shm1) \<Rightarrow> Some (b\<lparr>bk_plane := (cp, shm1)\<rparr>)))"

definition close_log_pipe :: "string \<Rightarrow> backend \<Rightarrow> backend" where
  "close_log_pipe name b =
     (case map_of (bk_pipes b) name of
        None \<Rightarrow> b
      | Some ps \<Rightarrow>
          if mp_write_fd ps < 0 then b
          else b\<lparr>bk_pipes := assign name (ps\<lparr>mp_write_fd := -1\<rparr>) (bk_pipes b),
                 bk_master := call [CloseFd (mp_write_fd ps)] (bk_master b)\<rparr>)"

text \<open>
  The loop reports what it did through the hooks; the segments and pipes they change are not read by
  the loop itself, so they are brought up to date after the round, in its order.
\<close>

fun run_hooks :: "(string \<Rightarrow> shm_answers) \<Rightarrow> 'f prepared \<Rightarrow> monitor_action list \<Rightarrow> backend \<Rightarrow> backend option" where
  "run_hooks sa p [] b = Some b"
| "run_hooks sa p (TakeConsumersOffline pid # acts) b =
     (case take_offline sa p pid b of None \<Rightarrow> None | Some b1 \<Rightarrow> run_hooks sa p acts b1)"
| "run_hooks sa p (CloseLogPipe name # acts) b = run_hooks sa p acts (close_log_pipe name b)"
| "run_hooks sa p (_ # acts) b = run_hooks sa p acts b"

text \<open>\<^verbatim>\<open>waitpid\<close> has taken the child off the kernel's list.\<close>

definition collected :: "monitor_obs \<Rightarrow> master \<Rightarrow> master" where
  "collected obs s =
     (if shutdown_at_test obs then s
      else (case waited obs of ChildExit pid status \<Rightarrow> s\<lparr>os_children := remove1 pid (os_children s)\<rparr> | _ \<Rightarrow> s))"

definition backend_round :: "'f prepared \<Rightarrow> round_answers \<Rightarrow> backend \<Rightarrow> backend_end + bool \<times> backend" where
  "backend_round p ra b =
     (case monitor_iteration (backend_deps ra p (bk_pipes b)) (ra_obs ra) (collected (ra_obs ra) (bk_master b), bk_log_pid b) of
        (end_of_round, acts, (s1, log_pid)) \<Rightarrow>
          (case run_hooks (ra_segments ra) p acts (b\<lparr>bk_master := s1, bk_log_pid := log_pid\<rparr>) of
             None \<Rightarrow> Inl Terminated
           | Some b1 \<Rightarrow>
               (case end_of_round of
                  GoOn \<Rightarrow> Inr (True, b1)
                | ShutDown \<Rightarrow> Inr (False, b1)
                | LeftOnError \<Rightarrow> Inr (False, b1)
                | Fatal err \<Rightarrow> Inl Terminated)))"

text \<open>\<open>None\<close>: the loop is still running after these rounds.\<close>

fun backend_loop :: "'f prepared \<Rightarrow> round_answers list \<Rightarrow> backend \<Rightarrow> (backend_end + backend) option" where
  "backend_loop p [] b = None"
| "backend_loop p (ra # ras) b =
     (case backend_round p ra b of
        Inl e \<Rightarrow> Some (Inl e)
      | Inr (False, b1) \<Rightarrow> Some (Inr b1)
      | Inr (True, b1) \<Rightarrow> backend_loop p ras b1)"

section \<open>Shutdown\<close>

text \<open>What \<^verbatim>\<open>waitpid\<close> returns in each round of the two seconds, and what the kernel answers the hooks.\<close>

type_synonym window = "(int \<times> (string \<Rightarrow> shm_answers)) list"

definition terminate_children :: "'f prepared \<Rightarrow> backend \<Rightarrow> backend" where
  "terminate_children p b =
     fold (\<lambda>(name, entry) b. case ChildPidOf name (bk_master b) of
             None \<Rightarrow> b | Some pid \<Rightarrow> b\<lparr>bk_master := call [SendSignal pid SIGTERM] (bk_master b)\<rparr>) (pr_entries p) b"

fun graceful_window :: "'f prepared \<Rightarrow> window \<Rightarrow> backend \<Rightarrow> backend option" where
  "graceful_window p [] b = Some b"
| "graceful_window p ((pid, sa) # rest) b =
     (if pid \<le> 0 then graceful_window p rest b
      else (case take_offline sa p (word_of_int pid) (b\<lparr>bk_master := (bk_master b)\<lparr>os_children := remove1 pid (os_children (bk_master b))\<rparr>\<rparr>) of
              None \<Rightarrow> None
            | Some b1 \<Rightarrow> graceful_window p rest (b1\<lparr>bk_master := snd (ReapChildProcess pid (bk_master b1))\<rparr>)))"

fun kill_lingering :: "(string \<Rightarrow> shm_answers) \<Rightarrow> 'f prepared \<Rightarrow> (string \<times> ParsedModuleLaunchEntry) list \<Rightarrow> backend \<Rightarrow> backend option" where
  "kill_lingering sa p [] b = Some b"
| "kill_lingering sa p ((name, entry) # rest) b =
     (case ChildPidOf name (bk_master b) of
        None \<Rightarrow> kill_lingering sa p rest b
      | Some pid \<Rightarrow>
          (case take_offline sa p (word_of_int pid)
                  (b\<lparr>bk_master := await_child pid (call [SendSignal pid SIGKILL] (bk_master b))\<rparr>) of
             None \<Rightarrow> None
           | Some b1 \<Rightarrow> kill_lingering sa p rest (b1\<lparr>bk_master := snd (ReapChildProcess pid (bk_master b1))\<rparr>)))"

definition release_all :: "backend \<Rightarrow> backend" where
  "release_all b = (let b1 = close_pipes b in b1\<lparr>bk_plane := FinalizeUnlinkManagedSegments (bk_plane b1)\<rparr>)"

definition graceful_shutdown :: "window \<Rightarrow> (string \<Rightarrow> shm_answers) \<Rightarrow> 'f prepared \<Rightarrow> backend \<Rightarrow> backend_end" where
  "graceful_shutdown win sa p b =
     (case graceful_window p win (terminate_children p b) of
        None \<Rightarrow> Terminated
      | Some b1 \<Rightarrow>
          (case kill_lingering sa p (pr_entries p) b1 of
             None \<Rightarrow> Terminated
           | Some b2 \<Rightarrow> Exit 0 (release_all b2)))"

section \<open>main\<close>

text \<open>From the first statement to the monitor loop, and the whole.\<close>

definition backend_start ::
  "'f backend_answers \<Rightarrow> ('g \<Rightarrow> SupervisorModuleSpec list \<Rightarrow> SupervisorModuleSpec list \<times> 'g) \<Rightarrow> 'g \<Rightarrow> string list \<Rightarrow> 'f \<Rightarrow>
   environment \<Rightarrow> backend \<Rightarrow> backend_end + 'f prepared \<times> backend" where
  "backend_start ans shuffle g argv flags env b =
     also_then (prepare ans argv flags env b) (\<lambda>(p, b1).
     also_then (setup_log_pipes ans p b1) (\<lambda>b2.
     also_then (start_log_module (ba_log ans) p b2) (\<lambda>b3.
     also_then (launch_modules shuffle g (ba_launch ans) p b3) (\<lambda>b4. Inr (p, b4)))))"

definition backend_main ::
  "'f backend_answers \<Rightarrow> ('g \<Rightarrow> SupervisorModuleSpec list \<Rightarrow> SupervisorModuleSpec list \<times> 'g) \<Rightarrow> 'g \<Rightarrow> string list \<Rightarrow> 'f \<Rightarrow>
   environment \<Rightarrow> round_answers list \<Rightarrow> window \<Rightarrow> (string \<Rightarrow> shm_answers) \<Rightarrow> posix_shm \<Rightarrow> backend_end option" where
  "backend_main ans shuffle g argv flags env rounds win sa shm =
     (case backend_start ans shuffle g argv flags env (fresh_backend shm) of
        Inl e \<Rightarrow> Some e
      | Inr (p, b) \<Rightarrow>
          (case backend_loop p rounds b of
             None \<Rightarrow> None
           | Some (Inl e) \<Rightarrow> Some e
           | Some (Inr b1) \<Rightarrow> Some (graceful_shutdown win sa p b1)))"

end
