(* ===== verification/Bus_Contract.thy ===== *)
theory Bus_Contract
  imports Ring_Spec
begin

text \<open>
  The contract between the ring and its clients, as a locale: a state machine whose outputs act
  on the queues of \<open>Ring_Spec\<close>. The delivery guarantees (nothing lost, nothing twice, in
  order, to every consumer) are proved once from the contract; the interpretation at the end
  discharges the contract for the ring's own operations.
\<close>

section \<open>Runs and what they show\<close>

datatype bus_out =
    Published "u8 list"
  | Blocked
  | Rejected
  | Joined nat
  | Left nat
  | Received nat "u8 list"
  | Nothing

fun apply_out :: "bus_out \<Rightarrow> bus \<Rightarrow> bus" where
  "apply_out (Published m) b = spec_publish m b"
| "apply_out (Joined c) b = spec_join c b"
| "apply_out (Left c) b = spec_leave c b"
| "apply_out (Received c m) b = spec_complete c b"
| "apply_out _ b = b"

fun out_ok :: "bus_out \<Rightarrow> bus \<Rightarrow> bool" where
  "out_ok (Received c m) b \<longleftrightarrow> spec_peek c b = Some m"
| "out_ok (Joined c) b \<longleftrightarrow> b c = None"
| "out_ok _ b \<longleftrightarrow> True"

fun run :: "('e \<Rightarrow> 's \<Rightarrow> bus_out \<times> 's) \<Rightarrow> 'e list \<Rightarrow> 's \<Rightarrow> bus_out list \<times> 's" where
  "run step [] s = ([], s)"
| "run step (e # es) s = (let (out, s1) = step e s; (outs, s2) = run step es s1 in (out # outs, s2))"

text \<open>The messages a run publishes, those consumer \<open>c\<close> receives, and whether \<open>c\<close> stays.\<close>

fun pub_of :: "bus_out \<Rightarrow> u8 list list" where
  "pub_of (Published m) = [m]"
| "pub_of _ = []"

fun recv_of :: "nat \<Rightarrow> bus_out \<Rightarrow> u8 list list" where
  "recv_of c (Received d m) = (if d = c then [m] else [])"
| "recv_of c _ = []"

fun stays :: "nat \<Rightarrow> bus_out \<Rightarrow> bool" where
  "stays c (Left d) \<longleftrightarrow> d \<noteq> c"
| "stays c _ \<longleftrightarrow> True"

definition published_in :: "bus_out list \<Rightarrow> u8 list list" where
  "published_in outs = concat (map pub_of outs)"

definition received_by :: "nat \<Rightarrow> bus_out list \<Rightarrow> u8 list list" where
  "received_by c outs = concat (map (recv_of c) outs)"

lemma spec_peek_Some: "spec_peek c b = Some m \<longleftrightarrow> (\<exists>q. b c = Some (m # q))"
  by (auto simp: spec_peek_def split: option.splits list.splits)

text \<open>One output, seen by one queue.\<close>

lemma apply_out_queue:
  assumes "b c = Some q" "out_ok out b" "stays c out"
  shows "\<exists>q'. apply_out out b c = Some q' \<and> q @ pub_of out = recv_of c out @ q'"
  using assms
  by (cases out) (auto simp: spec_publish_def spec_join_def spec_leave_def spec_complete_def spec_peek_Some)

section \<open>The contract\<close>

locale message_bus =
  fixes budget :: "nat \<Rightarrow> 's \<Rightarrow> bool"
    and step :: "'e \<Rightarrow> 's \<Rightarrow> bus_out \<times> 's"
    and queues :: "'s \<Rightarrow> bus"
  assumes step_budget: "budget (Suc n) s \<Longrightarrow> step e s = (out, s') \<Longrightarrow> budget n s'"
    and step_queues: "budget (Suc n) s \<Longrightarrow> step e s = (out, s') \<Longrightarrow> queues s' = apply_out out (queues s)"
    and step_ok: "budget (Suc n) s \<Longrightarrow> step e s = (out, s') \<Longrightarrow> out_ok out (queues s)"
begin

lemma run_budget:
  "budget (length es + n) s \<Longrightarrow> run step es s = (outs, s') \<Longrightarrow> budget n s'"
proof (induction es arbitrary: s outs)
  case (Cons e es)
  then show ?case
    by (auto simp: Let_def split: prod.splits dest: step_budget)
qed simp

text \<open>
  For a consumer that stays: what it had queued plus what was published is what it received
  plus what it still has queued, as sequences.
\<close>

theorem fifo:
  assumes "budget (length es) s" "run step es s = (outs, s')" "queues s c = Some q"
    and "\<forall>out \<in> set outs. stays c out"
  shows "\<exists>q'. queues s' c = Some q' \<and> q @ published_in outs = received_by c outs @ q'"
  using assms
proof (induction es arbitrary: s outs q)
  case Nil
  then show ?case
    by (simp add: published_in_def received_by_def)
next
  case (Cons e es)
  obtain out s1 where st: "step e s = (out, s1)" by (cases "step e s")
  obtain outs1 where rest: "run step es s1 = (outs1, s')" and outs: "outs = out # outs1"
    using Cons.prems(2) st by (auto simp: Let_def split: prod.splits)
  have b: "budget (Suc (length es)) s" using Cons.prems(1) by simp
  obtain q1 where q1: "queues s1 c = Some q1" "q @ pub_of out = recv_of c out @ q1"
    using apply_out_queue [of "queues s" c q out] step_ok [OF b st] step_queues [OF b st]
      Cons.prems(3,4) outs by auto
  obtain q' where q': "queues s' c = Some q'" "q1 @ published_in outs1 = received_by c outs1 @ q'"
    using Cons.IH [OF step_budget [OF b st] rest q1(1)] Cons.prems(4) outs by auto
  have "q @ published_in outs = recv_of c out @ q1 @ published_in outs1"
    using q1(2) by (simp add: outs published_in_def)
  with q' show ?case
    by (simp add: outs received_by_def)
qed

text \<open>From the moment it joins, a consumer receives a prefix of what is published from then on.\<close>

theorem delivery:
  assumes "budget (length es) s" "run step es s = (outs, s')" "queues s c = Some []"
    and "\<forall>out \<in> set outs. stays c out"
  shows "received_by c outs = take (length (received_by c outs)) (published_in outs)"
  using fifo [OF assms] by auto

text \<open>Two consumers that are both online from the start receive compatible sequences.\<close>

theorem agreement:
  assumes "budget (length es) s" "run step es s = (outs, s')"
    and "queues s c = Some []" "queues s d = Some []"
    and "\<forall>out \<in> set outs. stays c out \<and> stays d out"
    and "length (received_by c outs) \<le> length (received_by d outs)"
  shows "received_by c outs = take (length (received_by c outs)) (received_by d outs)"
  using delivery [OF assms(1-3)] delivery [OF assms(1,2,4)] assms(5,6)
  by (metis min.absorb1 take_take)

end

section \<open>The ring as a message bus\<close>

text \<open>
  The calls of the processes attached to one ring. \<open>k\<close> in the state is the process-wide advance
  counter of \<open>AdvanceConsumerCursor\<close>. A receive is what the subscriber pump does with one
  message: read, copy, complete.
\<close>

datatype ring_call =
    CallPublish u64 "u8 list"
  | CallJoin u32 u32
  | CallLeave u32
  | CallReceive u32

fun ring_step :: "ring_call \<Rightarrow> u64 \<times> ring \<Rightarrow> bus_out \<times> (u64 \<times> ring)" where
  "ring_step (CallPublish ns p) (k, r) =
     (case PublishCommittedPayload [idle] ns p r of
        None \<Rightarrow> (Blocked, (k, r))
      | Some (Inl e, r') \<Rightarrow> (Rejected, (k, r'))
      | Some (Inr s, r') \<Rightarrow> (Published p, (k, r')))"
| "ring_step (CallJoin pid c) (k, r) =
     (case AddConsumerOnline pid c r of (ok, r') \<Rightarrow> (if ok then Joined (unat c) else Nothing, (k, r')))"
| "ring_step (CallLeave c) (k, r) =
     (case RemoveConsumerOnline c r of (ok, r') \<Rightarrow> (if ok then Left (unat c) else Nothing, (k, r')))"
| "ring_step (CallReceive c) (k, r) =
     (case TryReadNextForConsumer c r of
        None \<Rightarrow> (Nothing, (k, r))
      | Some (res, i) \<Rightarrow>
          (case CompleteConsumerSlot c i (res_sequence res + 1) k r of
             (ok, k', r') \<Rightarrow> (Received (unat c) (read_bytes res r), (k', r'))))"

text \<open>
  \<open>ring_budget n\<close>: a ring between calls, with room for \<open>n\<close> more sequence numbers in the 32 bits
  the slot control word keeps, and slots below 4 GiB.
\<close>

definition ring_budget :: "nat \<Rightarrow> u64 \<times> ring \<Rightarrow> bool" where
  "ring_budget n kr \<longleftrightarrow> bus_inv (snd kr) \<and> head_seq (snd kr) + n \<le> 2 ^ 32 \<and>
     unat (per_slot_capacity (header (snd kr))) < 2 ^ 32"

lemma frame_budget:
  "same_frame r r' \<Longrightarrow> bus_inv r' \<Longrightarrow> ring_budget (Suc n) (k, r) \<Longrightarrow> ring_budget n (k', r')"
  by (simp add: ring_budget_def same_frame_def per_slot_capacity_def)

lemma ring_budget_good: "ring_budget (Suc n) (k, r) \<Longrightarrow> ring_good r \<and> quiescent r \<and> bus_inv r"
  by (simp add: ring_budget_def bus_inv_def ring_good_def)

definition step_meets :: "nat \<Rightarrow> u64 \<times> ring \<Rightarrow> bus_out \<times> (u64 \<times> ring) \<Rightarrow> bool" where
  "step_meets n s res \<longleftrightarrow> ring_budget n (snd res) \<and>
     abs_bus (snd (snd res)) = apply_out (fst res) (abs_bus (snd s)) \<and> out_ok (fst res) (abs_bus (snd s))"

lemma publish_meets:
  assumes b: "ring_budget (Suc n) (k, r)"
  shows "step_meets n (k, r) (ring_step (CallPublish ns p) (k, r))"
proof -
  note g = ring_budget_good [OF b]
  have idle1: "[idle] = replicate 1 idle" by simp
  show ?thesis
  proof (cases "publishable r p")
    case False
    have "unat (per_slot_capacity (header r)) < 2 ^ 32"
      using b by (simp add: ring_budget_def)
    then obtain e where "PublishCommittedPayload [idle] ns p r = Some (Inl e, r)"
      using publish_rejected [OF bus_invD(1) False] g by blast
    then show ?thesis
      using b g by (simp add: step_meets_def frame_budget [OF same_frame_refl])
  next
    case fits: True
    show ?thesis
    proof (cases "PublishCommittedPayload [idle] ns p r")
      case None
      then show ?thesis
        using b g by (simp add: step_meets_def frame_budget [OF same_frame_refl])
    next
      case (Some x)
      obtain out r' where x: "x = (out, r')" by (cases x)
      note res = publish_bus [OF _ _ fits Some [unfolded x idle1]]
      have "head_seq r' = head_seq r + 1"
        using res(5) g head_reserved [of r] by simp
      moreover have "per_slot_capacity (header r') = per_slot_capacity (header r)"
        using res(4) g by (simp add: same_frame_def per_slot_capacity_def)
      ultimately have "ring_budget n (k, r')"
        using b res(2) g by (simp add: ring_budget_def)
      then show ?thesis
        using res(1,3) g by (simp add: step_meets_def Some x)
    qed
  qed
qed

lemma join_meets:
  assumes b: "ring_budget (Suc n) (k, r)"
  shows "step_meets n (k, r) (ring_step (CallJoin pid c) (k, r))"
proof -
  have inv: "bus_inv r" using ring_budget_good [OF b] by simp
  note eff = AddConsumerOnline_effect(1) [OF bus_invD(1) [OF inv], of pid c]
  have "out_ok (if fst (AddConsumerOnline pid c r) then Joined (unat c) else Nothing) (abs_bus r)"
    using eff by (auto simp: abs_bus_def online_def)
  then show ?thesis
    using join_bus(1) [OF inv, of pid c] frame_budget [OF join_frame [OF bus_invD(1) [OF inv]] join_bus(2) [OF inv] b]
    by (simp add: step_meets_def case_prod_beta)
qed

lemma leave_meets:
  assumes b: "ring_budget (Suc n) (k, r)"
  shows "step_meets n (k, r) (ring_step (CallLeave c) (k, r))"
proof -
  have inv: "bus_inv r" using ring_budget_good [OF b] by simp
  show ?thesis
    using leave_bus(1) [OF inv, of c] frame_budget [OF leave_frame [OF bus_invD(1) [OF inv]] leave_bus(2) [OF inv] b]
    by (simp add: step_meets_def RemoveConsumerOnline_def case_prod_beta)
qed

lemma receive_meets:
  assumes b: "ring_budget (Suc n) (k, r)"
  shows "step_meets n (k, r) (ring_step (CallReceive c) (k, r))"
proof -
  have inv: "bus_inv r" using ring_budget_good [OF b] by simp
  show ?thesis
  proof (cases "TryReadNextForConsumer c r")
    case None
    then show ?thesis
      using b inv by (simp add: step_meets_def frame_budget [OF same_frame_refl])
  next
    case (Some x)
    obtain res i where x: "x = (res, i)" by (cases x)
    note read = Some [unfolded x]
    have "spec_peek (unat c) (abs_bus r) = Some (read_bytes res r)"
      using peek_bus [OF inv, of c] read by simp
    moreover have "ring_budget n (snd (CompleteConsumerSlot c i (res_sequence res + 1) k r))"
      using frame_budget [OF complete_frame [OF inv read] complete_bus(3) [OF inv read] b]
      by (metis prod.collapse)
    ultimately show ?thesis
      using complete_bus(2) [OF inv read, of k] by (simp add: step_meets_def read case_prod_beta)
  qed
qed

lemma ring_step_meets:
  assumes "ring_budget (Suc n) s"
  shows "step_meets n s (ring_step e s)"
proof (cases s)
  case (Pair k r)
  then show ?thesis
    using assms publish_meets join_meets leave_meets receive_meets by (cases e) simp_all
qed

interpretation ring_bus: message_bus ring_budget ring_step "abs_bus \<circ> snd"
proof unfold_locales
  fix n s e out s'
  assume b: "ring_budget (Suc n) s" and st: "ring_step e s = (out, s')"
  have "step_meets n s (out, s')"
    using ring_step_meets [OF b, of e] by (simp add: st)
  then show "ring_budget n s'" "(abs_bus \<circ> snd) s' = apply_out out ((abs_bus \<circ> snd) s)"
    "out_ok out ((abs_bus \<circ> snd) s)"
    by (simp_all add: step_meets_def)
qed

end
