(* ===== verification/Ring_Properties.thy ===== *)
theory Ring_Properties
  imports Bus_Contract
begin

text \<open>
  The properties of the shared-memory ring, each with a witness on a small concrete ring: two
  slots of eight bytes and two consumer entries.
\<close>

section \<open>A concrete ring\<close>

definition demo_ring :: ring where
  "demo_ring = projr (Initialize (\<lambda>i. int i + 10) 1024 2 2 16)"

lemma demo_init: "Initialize (\<lambda>i. int i + 10) 1024 2 2 16 = Inr demo_ring"
  by code_simp

lemma demo_header:
  "header demo_ring = fresh_header 2 2 16" "per_slot_capacity (header demo_ring) = 8"
proof -
  show h: "header demo_ring = fresh_header 2 2 16"
    by (rule Initialize_Inr(4) [OF demo_init])
  show "per_slot_capacity (header demo_ring) = 8"
    unfolding h by code_simp
qed

lemma demo_good: "ring_good demo_ring" "ring_inv demo_ring" "bus_inv demo_ring" "quiescent demo_ring"
  using Initialize_inv(1,2) [OF demo_init] by (simp_all add: ring_good_def bus_inv_def)

text \<open>The demo ring after consumer 0 has joined, as process 7.\<close>

definition demo_joined :: ring where
  "demo_joined = snd (AddConsumerOnline 7 0 demo_ring)"

lemma demo_joined_inv: "ring_inv demo_joined" "bus_inv demo_joined" "quiescent demo_joined"
  using join_bus(2) [OF demo_good(3), of 7 0] by (auto simp: demo_joined_def bus_inv_def)

lemma demo_joined_online: "online demo_joined j \<longleftrightarrow> j = 0"
proof -
  have "fst (AddConsumerOnline 7 0 demo_ring)"
    by code_simp
  then show ?thesis
    using AddConsumerOnline_effect(3) [OF demo_good(2), of 7 0 j] Initialize_inv(3) [OF demo_init]
    by (simp add: demo_joined_def)
qed

lemma demo_joined_budget: "n \<le> 100 \<Longrightarrow> ring_budget n (k, demo_joined)"
proof -
  assume "n \<le> 100"
  moreover have "same_frame demo_ring demo_joined"
    unfolding demo_joined_def by (rule join_frame [OF demo_good(2)])
  moreover have "next_sequence (header demo_ring) = 1"
    by (simp add: demo_header fresh_header_def)
  ultimately show ?thesis
    using demo_joined_inv(2) demo_header(2) by (simp add: ring_budget_def same_frame_def per_slot_capacity_def)
qed

definition demo_calls :: "ring_call list" where
  "demo_calls = [CallPublish 0 [1], CallPublish 0 [2, 3], CallPublish 0 [4], CallReceive 0,
                 CallPublish 5 [5], CallReceive 0]"

lemma demo_run:
  "fst (run ring_step demo_calls (0, demo_joined)) =
     [Published [1], Published [2, 3], Blocked, Received 0 [1], Published [5], Received 0 [2, 3]]"
  by code_simp

lemma demo_abs: "abs_bus demo_joined 0 = Some []"
proof -
  have "cursor demo_joined 0 = head_seq demo_joined"
    by code_simp
  then show ?thesis
    by (simp add: abs_bus_def demo_joined_online pending_def)
qed

lemma demo_head_pos: "Suc 0 \<le> head_seq demo_joined"
  using ring_invD(2) [OF demo_joined_inv(1)] by simp

section \<open>Delivery\<close>

text \<open>
  C1: First in, first out, nothing lost, nothing twice. Over any sequence of publish, join,
  leave and receive calls during which consumer \<open>c\<close> does not leave, the messages that were
  waiting for \<open>c\<close> followed by those published are exactly those it received followed by those
  still waiting for it, byte for byte and in order.
\<close>

theorem ring_fifo:
  assumes "ring_budget (length es) s" "run ring_step es s = (outs, s')"
    and "abs_bus (snd s) c = Some q" "\<forall>out \<in> set outs. stays c out"
  shows "\<exists>q'. abs_bus (snd s') c = Some q' \<and> q @ published_in outs = received_by c outs @ q'"
  using ring_bus.fifo [of es s outs s' c q] assms by simp

theorem ring_fifo_witness:
  "\<exists>q'. abs_bus (snd (snd (run ring_step demo_calls (0, demo_joined)))) 0 = Some q' \<and>
        [] @ [[1], [2, 3], [5]] = [[1], [2, 3]] @ q'"
proof -
  obtain outs s' where run: "run ring_step demo_calls (0, demo_joined) = (outs, s')"
    by (cases "run ring_step demo_calls (0, demo_joined)")
  have outs: "outs = [Published [1], Published [2, 3], Blocked, Received 0 [1], Published [5], Received 0 [2, 3]]"
    using demo_run run by simp
  have "ring_budget (length demo_calls) (0, demo_joined)"
    by (rule demo_joined_budget) (simp add: demo_calls_def)
  from ring_fifo [OF this run, of 0 "[]"] show ?thesis
    by (simp add: demo_abs run outs published_in_def received_by_def)
qed

text \<open>
  Broadcast order. Two consumers that have nothing waiting at the start and both stay
  receive the same messages in the same order: the shorter sequence is a prefix of the longer.
\<close>

lemma ring_broadcast_agreement:
  assumes "ring_budget (length es) s" "run ring_step es s = (outs, s')"
    and "abs_bus (snd s) c = Some []" "abs_bus (snd s) d = Some []"
    and "\<forall>out \<in> set outs. stays c out \<and> stays d out"
    and "length (received_by c outs) \<le> length (received_by d outs)"
  shows "received_by c outs = take (length (received_by c outs)) (received_by d outs)"
  using ring_bus.agreement [of es s outs s' c d] assms by simp

definition demo_two :: ring where
  "demo_two = snd (AddConsumerOnline 8 1 demo_joined)"

definition demo_two_calls :: "ring_call list" where
  "demo_two_calls = [CallPublish 0 [1], CallPublish 0 [2], CallReceive 0, CallReceive 1, CallReceive 1]"

lemma demo_two_facts:
  "ring_budget 5 (0, demo_two)" "abs_bus demo_two 0 = Some []" "abs_bus demo_two 1 = Some []"
proof -
  have ok: "fst (AddConsumerOnline 8 1 demo_joined)"
    by code_simp
  show "abs_bus demo_two 0 = Some []" "abs_bus demo_two 1 = Some []"
    using ok join_bus(1) [OF demo_joined_inv(2), of 8 1]
    by (simp_all add: demo_two_def spec_join_def demo_abs)
  show "ring_budget 5 (0, demo_two)"
    unfolding demo_two_def
    by (rule frame_budget [OF join_frame [OF demo_joined_inv(1)] join_bus(2) [OF demo_joined_inv(2)]
        demo_joined_budget]) simp
qed

section \<open>Publishing\<close>

text \<open>
  C2: Backpressure. With no reservation pending, a publish of a message that fits returns after
  at most two reservation attempts exactly when no online consumer is a full lap behind; when
  one is, no number of attempts (reclaim passes included) lets it return.
\<close>

theorem publish_backpressure:
  assumes "bus_inv r" "publishable r p"
  shows "(PublishCommittedPayload [idle] ns p r \<noteq> None \<longleftrightarrow>
           (\<forall>c. online r c \<longrightarrow> head_seq r < cursor r c + n_slots r)) \<and>
         ((\<forall>c. online r c \<longrightarrow> head_seq r < cursor r c + n_slots r) \<or>
          (\<forall>k. PublishCommittedPayload (replicate k idle) ns p r = None))"
proof (intro conjI)
  note iff = publish_returns_iff [OF bus_invD [OF assms(1)] assms(2)]
  show "PublishCommittedPayload [idle] ns p r \<noteq> None \<longleftrightarrow>
      (\<forall>c. online r c \<longrightarrow> head_seq r < cursor r c + n_slots r)"
    using iff [of 0 ns] by simp
  have "PublishCommittedPayload (replicate k idle) ns p r = None"
    if full: "\<not> (\<forall>c. online r c \<longrightarrow> head_seq r < cursor r c + n_slots r)" for k
  proof (cases k)
    case 0
    have "reserve_loop (replicate 0 idle) (of_nat (length p)) r = None"
      using full target_free_iff [OF bus_invD [OF assms(1)]]
        reserve_loop_blocked [OF bus_invD(1) [OF assms(1)] assms(2) [unfolded publishable_def], of 0]
      by blast
    then show ?thesis
      using publish_guards [OF bus_invD(1) [OF assms(1)] assms(2), of "[]" ns] by (simp add: 0)
  next
    case (Suc m)
    then show ?thesis
      using iff [of m ns] full by blast
  qed
  then show "(\<forall>c. online r c \<longrightarrow> head_seq r < cursor r c + n_slots r) \<or>
      (\<forall>k. PublishCommittedPayload (replicate k idle) ns p r = None)"
    by blast
qed

lemma demo_joined_fits: "publishable demo_joined [1]"
  using demo_joined_budget [of 0 0] join_frame [OF demo_good(2), of 7 0] demo_header(2)
  by (simp add: publishable_def fits_def demo_joined_def same_frame_def per_slot_capacity_def)

lemma demo_joined_room: "\<forall>c. online demo_joined c \<longrightarrow> head_seq demo_joined < cursor demo_joined c + n_slots demo_joined"
proof -
  have "cursor demo_joined 0 = 1 \<and> head_seq demo_joined = 1 \<and> n_slots demo_joined = 2"
    by code_simp
  then show ?thesis by (simp add: demo_joined_online)
qed

lemma demo_publish_returns: "PublishCommittedPayload [idle] 0 [1] demo_joined \<noteq> None"
  using publish_returns_iff [OF demo_joined_inv(1,3) demo_joined_fits, of 0 0] demo_joined_room by simp

theorem publish_backpressure_witness:
  "PublishCommittedPayload [idle] 0 [1] demo_joined \<noteq> None"
  using publish_backpressure [OF demo_joined_inv(2) demo_joined_fits, of 0] demo_joined_room
  by simp

text \<open>
  C24: A publish that returns, whatever the other processes did during its yields (as long as
  they kept the ring good), has stored its bytes: it answers a fresh sequence number, the head
  moves just past it, the slot of that number is committed and holds exactly the payload, and
  the invariant holds.
\<close>

theorem publish_stores_payload:
  assumes "ring_good r" "publishable r p" "\<forall>y \<in> set ys. env_ok y"
    and "PublishCommittedPayload ys ns p r = Some (res, r')"
  shows "\<exists>s. res = Inr s \<and> head_seq r' = unat s + 1 \<and> ring_inv r' \<and> message r' (unat s) = p \<and>
             slot_state (slot r' ((unat s - 1) mod n_slots r')) = Some kCommitted \<and>
             slot_seq (slot r' ((unat s - 1) mod n_slots r')) = unat s"
proof -
  obtain r0 where r0: "ring_good r0" "publishable r0 p" "slot_state (slot r0 (target_slot r0)) = Some kEmpty"
    and res: "res = Inr (next_sequence (header r0))" and r': "r' = published ns p r0"
    using publish_result [OF assms] by blast
  have small: "head_seq r0 < 2 ^ 32" using r0(1) by (simp add: ring_good_def)
  have "slot_state (slot r' (target_slot r0)) = Some kCommitted" "slot_seq (slot r' (target_slot r0)) = head_seq r0"
    using small by (simp_all add: r' slot_published [OF r0(1)])
  moreover have "(head_seq r0 - 1) mod n_slots r' = target_slot r0"
    by (simp add: r' target_slot_def)
  moreover have "head_seq r' = head_seq r0 + 1"
    using head_reserved [OF r0(1)] by (simp add: r')
  ultimately show ?thesis
    using published_inv [OF r0] published_message [OF r0] by (auto simp: res r')
qed

theorem publish_stores_payload_witness:
  "\<exists>s r'. PublishCommittedPayload [idle] 0 [1] demo_joined = Some (Inr s, r') \<and> ring_inv r' \<and>
          message r' (unat s) = [1]"
proof -
  obtain res r' where pub: "PublishCommittedPayload [idle] 0 [1] demo_joined = Some (res, r')"
    using demo_publish_returns by auto
  have "ring_good demo_joined"
    using demo_joined_budget [of 1 0] ring_budget_good [of 0 0 demo_joined] by simp
  from publish_stores_payload [OF this demo_joined_fits _ pub] show ?thesis
    using pub by auto
qed



text \<open>
  C31: A segment that \<open>Initialize\<close> formats satisfies the invariant, has nobody online and starts at
  sequence 1, and \<open>Attach\<close> accepts it under the current layout version, with any mapping size
  that \<open>Initialize\<close> itself accepts; under any other version \<open>Attach\<close> refuses it.
\<close>

theorem initialize_attach_roundtrip:
  assumes "Initialize open_fd sz n c region = Inr r"
  shows "ring_inv r \<and> quiescent r \<and> (\<forall>k. \<not> online r k) \<and> head_seq r = 1 \<and>
         (sizeof_RingHeader \<le> sz \<longrightarrow> Attach sz kRingLayoutVersion r = Some r) \<and>
         (\<forall>v. v \<noteq> kRingLayoutVersion \<longrightarrow> Attach sz v r = None)"
proof (intro conjI allI impI)
  show "ring_inv r"
    using Initialize_inv(1) [OF assms] by (simp add: ring_good_def)
  show "quiescent r" "\<not> online r k" "head_seq r = 1" for k
    using Initialize_inv(2-4) [OF assms] by simp_all
  show "Attach sz kRingLayoutVersion r = Some r" if "sizeof_RingHeader \<le> sz"
    by (rule Attach_Initialize [OF assms that Initialize_Inr(3) [OF assms]])
  show "Attach sz v r = None" if "v \<noteq> kRingLayoutVersion" for v
    using that by (intro Attach_version) (simp add: Initialize_Inr(4) [OF assms] fresh_header_def)
qed

theorem initialize_attach_roundtrip_witness:
  "Attach 1024 kRingLayoutVersion demo_ring = Some demo_ring \<and> head_seq demo_ring = 1"
  using initialize_attach_roundtrip [OF demo_init] by (simp add: sizeof_RingHeader_def)

text \<open>
  Acquiring an entry takes the lowest free one and puts the new consumer at the ring head,
  so it sees no message published before it joined; it fails only when no entry is free, and
  then changes nothing.
\<close>

lemma acquire_lowest_free_entry:
  assumes "ring_inv r"
  shows "case TryAcquireConsumerOnlineSlot pid r of
      (Some c, r') \<Rightarrow> cstate (consumer r (unat c)) = kOffline \<and>
         (\<forall>j < unat c. cstate (consumer r j) \<noteq> kOffline) \<and>
         online r' (unat c) \<and> cursor r' (unat c) = head_seq r \<and> pending r' (unat c) = []
    | (None, r') \<Rightarrow> r' = r \<and> (\<forall>j < n_consumers r. cstate (consumer r j) \<noteq> kOffline)"
  using assms
proof (rule TryAcquire_cases [where pid = pid])
  fix c
  assume got: "TryAcquireConsumerOnlineSlot pid r = (Some c, snd (AddConsumerOnline pid c r))"
    and c: "cstate (consumer r (unat c)) = kOffline" "fst (AddConsumerOnline pid c r)"
      "\<forall>j < unat c. cstate (consumer r j) \<noteq> kOffline"
  have "head_seq (snd (AddConsumerOnline pid c r)) = head_seq r"
    using join_frame [OF assms, of pid c] by (simp add: same_frame_def)
  then show ?thesis
    using c by (simp add: got AddConsumerOnline_effect(3,4) [OF assms c(2)] pending_def)
qed simp

text \<open>
  A blocked channel opens when the slow consumer leaves. If every other online consumer is
  less than a lap behind, then after \<open>UnregisterConsumer\<close> (called by the consumer, or by the
  supervisor for a dead one) a publish returns and is accepted.
\<close>

lemma leaving_unblocks_publishers:
  assumes "bus_inv r" "publishable r p" "head_seq r < 2 ^ 32"
    and "\<And>d. online r d \<Longrightarrow> d \<noteq> unat c \<Longrightarrow> head_seq r < cursor r d + n_slots r"
  shows "\<exists>s r'. PublishCommittedPayload [idle] ns p (snd (UnregisterConsumer c r)) = Some (Inr s, r')
               \<or> \<not> fst (UnregisterConsumer c r)"
proof (rule UnregisterConsumer_cases [OF bus_invD(1) [OF assms(1)], of c])
  fix r2
  assume res: "UnregisterConsumer c r = (True, snd (ReclaimCommittedSlots r2))" and inv2: "ring_inv r2"
    and eqs: "next_sequence (header r2) = next_sequence (header r)"
      "slot_count (header r2) = slot_count (header r)"
    and on: "\<And>j. online r2 j \<longleftrightarrow> j \<noteq> unat c \<and> online r j"
    and cons: "\<And>j. j \<noteq> unat c \<Longrightarrow> consumer r2 j = consumer r j"
  let ?r = "snd (UnregisterConsumer c r)"
  have inv: "bus_inv ?r" by (rule leave_bus(2) [OF assms(1)])
  have fr: "same_frame r ?r" by (rule leave_frame [OF bus_invD(1) [OF assms(1)]])
  note re = same_but_slots_simps [OF ReclaimCommittedSlots_char(1) [OF ring_invD(1) [OF inv2]]]
  have fits: "publishable ?r p"
    using assms(2) fr fits_cong [of ?r r "length p"] by (simp add: publishable_def same_frame_def)
  have "\<forall>d. online ?r d \<longrightarrow> head_seq ?r < cursor ?r d + n_slots ?r"
    using assms(4) by (simp add: res re on cons eqs)
  then have "PublishCommittedPayload [idle] ns p ?r \<noteq> None"
    using publish_returns_iff [OF bus_invD [OF inv] fits, of 0 ns] by simp
  then obtain out r' where pub: "PublishCommittedPayload (replicate 1 idle) ns p ?r = Some (out, r')"
    by auto
  have "ring_good ?r"
    using assms(3) bus_invD(1) [OF inv] fr by (simp add: ring_good_def same_frame_def)
  from publish_bus(3) [OF this bus_invD(2) [OF inv] fits pub] pub show ?thesis
    by auto
qed simp

text \<open>Two messages and nobody reading: the third publish is blocked until the consumer leaves.\<close>

definition demo_full :: ring where
  "demo_full = snd (snd (run ring_step [CallPublish 0 [1], CallPublish 0 [2]] (0, demo_joined)))"

lemma demo_full_facts: "bus_inv demo_full" "publishable demo_full [1]" "head_seq demo_full < 2 ^ 32"
  "online demo_full d \<longrightarrow> d = 0"
proof -
  have "ring_budget (length [CallPublish 0 [1], CallPublish 0 [2]] + 1) (0, demo_joined)"
    by (rule demo_joined_budget) simp
  then have b: "ring_budget 1 (snd (run ring_step [CallPublish 0 [1], CallPublish 0 [2]] (0, demo_joined)))"
    by (rule ring_bus.run_budget) (rule surjective_pairing)
  then show "bus_inv demo_full"
    by (simp add: demo_full_def ring_budget_def)
  then show "head_seq demo_full < 2 ^ 32"
    using b by (simp add: demo_full_def ring_budget_def)
  have "per_slot_capacity (header demo_full) = 8"
    by code_simp
  then show "publishable demo_full [1]"
    by (simp add: publishable_def fits_def)
  have "n_consumers demo_full = 2 \<and> cstate (consumer demo_full 1) \<noteq> kOnline"
    by code_simp
  then show "online demo_full d \<longrightarrow> d = 0"
    by (auto simp: online_def less_2_cases_iff)
qed

section \<open>Geometry and encoding\<close>

text \<open>
  Geometry. The computed layout size is exactly the header, the two consumer tables and the
  slot table rounded up to eight bytes, without wrap-around for any counts; and the payload
  slices of two different slots are disjoint and inside the payload region.
\<close>

lemma layout_geometry:
  "unat (ComputeRingLayoutSizeBytes n c) = (112 + 24 * unat c + 8 * unat c + 24 * unat n + 7) div 8 * 8 \<and>
   (\<forall>r i j. ring_inv r \<and> i < j \<and> j < n_slots r \<longrightarrow>
      i * unat (per_slot_capacity (header r)) + unat (per_slot_capacity (header r))
        \<le> j * unat (per_slot_capacity (header r)) \<and>
      j * unat (per_slot_capacity (header r)) + unat (per_slot_capacity (header r))
        \<le> length (payload_region r))"
proof (intro conjI allI impI)
  show "unat (ComputeRingLayoutSizeBytes n c) = (112 + 24 * unat c + 8 * unat c + 24 * unat n + 7) div 8 * 8"
    by (simp add: unat_ComputeRingLayoutSizeBytes)
next
  fix r i j assume a: "ring_inv r \<and> i < j \<and> j < n_slots r"
  let ?per = "unat (per_slot_capacity (header r))"
  have "(i + 1) * ?per \<le> j * ?per"
    using a by (intro mult_le_mono1) simp
  then show "i * ?per + ?per \<le> j * ?per" by simp
  have n0: "slot_count (header r) \<noteq> 0" "length (payload_region r) = unat (payload_region_bytes (header r))"
    using a by (simp_all add: ring_inv_def ring_shape_def)
  then show "j * ?per + ?per \<le> length (payload_region r)"
    using a by (simp add: unat_per_slot_capacity slice_fits)
qed

text \<open>
  The slot control word holds the state and the sequence number modulo \<open>2 ^ 32\<close>. So a
  consumer whose cursor has reached \<open>2 ^ 32\<close> never reads another message, whatever the slots
  hold: the comparison of the truncated number with the 64-bit cursor always fails.
\<close>

lemma control_word_truncates:
  "UnpackSlotState (PackSlotControl st s) = Some st \<and>
   unat (UnpackSlotSequence (PackSlotControl st s)) = unat s mod 2 ^ 32 \<and>
   (2 ^ 32 \<le> cursor r (unat c) \<longrightarrow> TryReadNextForConsumer c r = None)"
proof (intro conjI impI)
  show "UnpackSlotState (PackSlotControl st s) = Some st"
    by simp
  show "unat (UnpackSlotSequence (PackSlotControl st s)) = unat s mod 2 ^ 32"
    by (simp only: UnpackSlotSequence_Pack unsigned_take_bit_eq) (simp only: take_bit_eq_mod)
  assume big: "2 ^ 32 \<le> cursor r (unat c)"
  have "UnpackSlotSequence w \<noteq> read_sequence (consumer r (unat c))" for w
    using big unpack_small [of w] by (metis not_le)
  then show "TryReadNextForConsumer c r = None"
    by (auto simp: TryReadNextForConsumer_def TryReadCommitted_effect Let_def)
qed

section \<open>Health metrics\<close>

lemma ConsumerLag_effect:
  assumes "ring_inv r" "c < n_consumers r"
  shows "map_option unat (ConsumerLag (of_nat c) r) = (if online r c then Some (head_seq r - cursor r c) else None)"
proof -
  have c: "unat (of_nat c :: u32) = c"
    using assms(2) unat_u32_less [of "consumer_capacity (header r)"] by (intro unat_of_nat_len) simp
  have "unat (next_sequence (header r) - read_sequence (consumer r c)) = head_seq r - cursor r c"
    if "\<not> next_sequence (header r) \<le> read_sequence (consumer r c)"
    using that by (simp add: unat_sub word_le_nat_alt)
  then show ?thesis
    using assms(2)
    by (auto simp: ConsumerLag_def LoadConsumerCursor_def c online_def word_le_nat_alt)
qed

lemma max_lag_bounds:
  assumes "ring_inv r" "i + k \<le> n_consumers r"
  shows "(\<forall>c. i \<le> c \<and> c < i + k \<and> online r c \<longrightarrow> head_seq r - cursor r c \<le> unat (max_lag i k r acc)) \<and>
         unat acc \<le> unat (max_lag i k r acc) \<and>
         (max_lag i k r acc = acc \<or>
          (\<exists>c. online r c \<and> unat (max_lag i k r acc) = head_seq r - cursor r c))"
  using assms(2)
proof (induction k arbitrary: i acc)
  case (Suc k)
  let ?acc = "case ConsumerLag (of_nat i) r of None \<Rightarrow> acc | Some lag \<Rightarrow> if lag > acc then lag else acc"
  have lag: "map_option unat (ConsumerLag (of_nat i) r) =
      (if online r i then Some (head_seq r - cursor r i) else None)"
    using Suc.prems by (intro ConsumerLag_effect [OF assms(1)]) simp
  have acc: "unat acc \<le> unat ?acc" "online r i \<longrightarrow> head_seq r - cursor r i \<le> unat ?acc"
    "?acc = acc \<or> online r i \<and> unat ?acc = head_seq r - cursor r i"
    using lag by (cases "ConsumerLag (of_nat i) r"; auto simp: word_less_nat_alt split: if_splits)+
  have IH: "(\<forall>c. Suc i \<le> c \<and> c < Suc i + k \<and> online r c \<longrightarrow>
        head_seq r - cursor r c \<le> unat (max_lag (Suc i) k r ?acc)) \<and>
      unat ?acc \<le> unat (max_lag (Suc i) k r ?acc) \<and>
      (max_lag (Suc i) k r ?acc = ?acc \<or>
       (\<exists>c. online r c \<and> unat (max_lag (Suc i) k r ?acc) = head_seq r - cursor r c))"
    using Suc.prems by (intro Suc.IH) simp
  have step: "max_lag i (Suc k) r acc = max_lag (Suc i) k r ?acc" by simp
  show ?case
    unfolding step
  proof (intro conjI allI impI)
    fix c assume "i \<le> c \<and> c < i + Suc k \<and> online r c"
    then show "head_seq r - cursor r c \<le> unat (max_lag (Suc i) k r ?acc)"
      using IH acc(2) by (cases "c = i") auto
  qed (use IH acc in \<open>auto intro: order_trans\<close>)
qed simp

text \<open>
  Health metrics. The reported occupancy is the number of committed slots, at most the
  slot count; the reported lag is the largest lag of an online consumer, and never more than
  one lap.
\<close>

lemma health_metrics_exact:
  assumes inv: "ring_inv r"
  shows "unat (occupancy_slots (ObserveHealthMetrics r)) = length (filter is_committed (slots r)) \<and>
         length (filter is_committed (slots r)) \<le> n_slots r \<and>
         (\<forall>c. online r c \<longrightarrow> head_seq r - cursor r c \<le> unat (max_consumer_lag (ObserveHealthMetrics r))) \<and>
         (max_consumer_lag (ObserveHealthMetrics r) = 0 \<or>
          (\<exists>c. online r c \<and> unat (max_consumer_lag (ObserveHealthMetrics r)) = head_seq r - cursor r c)) \<and>
         unat (max_consumer_lag (ObserveHealthMetrics r)) \<le> n_slots r"
proof -
  let ?n = "length (filter is_committed (slots r))"
  have le: "?n \<le> n_slots r"
    using length_filter_le [of is_committed "slots r"] shape_slots [OF inv] by simp
  have "?n < 2 ^ 64"
    using le unat_u32_less [of "slot_count (header r)"] by simp
  then have occ: "unat (occupancy_slots (ObserveHealthMetrics r)) = ?n"
    using ring_invD(5) [OF inv]
    by (simp add: ObserveHealthMetrics_def Let_def occupancy_exact_def unat_of_nat take_bit_nat_eq_self)
  have lag: "max_consumer_lag (ObserveHealthMetrics r) = max_lag 0 (n_consumers r) r 0"
    by (simp add: ObserveHealthMetrics_def Let_def)
  have b: "(\<forall>c. online r c \<longrightarrow> head_seq r - cursor r c \<le> unat (max_lag 0 (n_consumers r) r 0)) \<and>
      (max_lag 0 (n_consumers r) r 0 = 0 \<or>
       (\<exists>c. online r c \<and> unat (max_lag 0 (n_consumers r) r 0) = head_seq r - cursor r c))"
    using max_lag_bounds [OF inv, of 0 "n_consumers r" 0] by (auto simp: online_def)
  then have "unat (max_lag 0 (n_consumers r) r 0) \<le> n_slots r"
    using lag_bounded [OF inv] by fastforce
  with occ le b show ?thesis
    by (simp add: lag)
qed

end
