(* ===== verification/Control_Properties.thy ===== *)
theory Control_Properties
  imports Control_Plane Ring_Properties
begin

text \<open>
  What the control plane guarantees: the consumers of a dead process leave and nobody else does,
  which frees publishers they blocked; formatted channels attach; what was created is unlinked.
\<close>

section \<open>Taking the consumers of a process offline\<close>

lemma take_one_offline:
  assumes "bus_inv r" "online r i"
  defines "res \<equiv> TakeConsumerOfflineIfOwner (of_nat i) (owner_pid (consumer r i)) (owner_start_epoch (consumer r i)) r"
  defines "r2 \<equiv> snd (ReclaimCommittedSlots (snd res))"
  shows "fst res" "bus_inv r2" "same_frame r r2" "abs_bus r2 = spec_leave i (abs_bus r)"
    "online r2 j \<longleftrightarrow> j \<noteq> i \<and> online r j" "j \<noteq> i \<Longrightarrow> consumer r2 j = consumer r j"
proof -
  have inv: "ring_inv r" and i: "i < n_consumers r" "cstate (consumer r i) = kOnline"
    using assms(1,2) by (auto simp: bus_inv_def online_def)
  have idx: "unat (of_nat i :: u32) = i"
    using i(1) unat_u32_less [of "consumer_capacity (header r)"] by (simp add: unat_of_nat_len)
  have res: "res = UnregisterConsumer (of_nat i) r"
    using i idx by (simp add: res_def TakeConsumerOfflineIfOwner_def ConsumerOwnerMatches_def word_less_nat_alt)
  have left: "fst res \<and> (online (snd res) j \<longleftrightarrow> j \<noteq> i \<and> online r j) \<and> (j \<noteq> i \<longrightarrow> consumer (snd res) j = consumer r j)" for j
  proof (rule UnregisterConsumer_cases [OF inv, of "of_nat i"])
    fix s
    assume s: "UnregisterConsumer (of_nat i) r = (True, snd (ReclaimCommittedSlots s))" "ring_inv s"
      "\<And>j. online s j \<longleftrightarrow> j \<noteq> unat (of_nat i :: u32) \<and> online r j"
      "\<And>j. j \<noteq> unat (of_nat i :: u32) \<Longrightarrow> consumer s j = consumer r j"
    note re = same_but_slots_simps [OF ReclaimCommittedSlots_char(1) [OF ring_invD(1) [OF s(2)]]]
    show ?thesis
      by (simp add: res s(1) re s(3,4) idx)
  qed (use i idx in auto)
  have bus: "bus_inv (snd res)" "abs_bus (snd res) = spec_leave i (abs_bus r)"
    using leave_bus [OF assms(1), of "of_nat i"] left idx by (auto simp: res)
  note rinv = bus_invD(1) [OF bus(1)]
  note re = same_but_slots_simps [OF ReclaimCommittedSlots_char(1) [OF ring_invD(1) [OF rinv]]]
  show "fst res" "online r2 j \<longleftrightarrow> j \<noteq> i \<and> online r j" "j \<noteq> i \<Longrightarrow> consumer r2 j = consumer r j"
    using left by (auto simp: r2_def re)
  show "bus_inv r2" "abs_bus r2 = spec_leave i (abs_bus r)"
    using reclaim_bus [OF rinv] ReclaimCommittedSlots_inv [OF rinv] bus by (auto simp: r2_def bus_inv_def)
  have "same_frame r (snd res)"
    using leave_frame [OF inv] by (simp add: res)
  then show "same_frame r r2"
    using reclaim_frame [OF ring_invD(1) [OF rinv]] same_frame_trans by (auto simp: r2_def)
qed

definition owned :: "ring \<Rightarrow> u32 \<Rightarrow> nat \<Rightarrow> bool" where
  "owned r pid c \<longleftrightarrow> online r c \<and> owner_pid (consumer r c) = pid"

text \<open>From \<open>r\<close> to \<open>r'\<close> exactly the consumers \<open>gone\<close> left.\<close>

definition released :: "nat set \<Rightarrow> ring \<Rightarrow> ring \<Rightarrow> bool" where
  "released gone r r' \<longleftrightarrow> bus_inv r' \<and> same_frame r r' \<and>
     (\<forall>c. online r' c \<longleftrightarrow> online r c \<and> c \<notin> gone) \<and> (\<forall>c. c \<notin> gone \<longrightarrow> consumer r' c = consumer r c) \<and>
     abs_bus r' = (\<lambda>c. if c \<in> gone then None else abs_bus r c)"

lemma released_none: "bus_inv r \<Longrightarrow> released {} r r"
  by (simp add: released_def)

lemma released_step: "released {c} r r1 \<Longrightarrow> released gone r1 r2 \<Longrightarrow> released (insert c gone) r r2"
  unfolding released_def by (auto intro: same_frame_trans simp: fun_eq_iff)

lemma released_owned: "released {c} r r1 \<Longrightarrow> owned r1 pid d \<longleftrightarrow> d \<noteq> c \<and> owned r pid d"
  unfolding released_def owned_def by auto

lemma offline_scan_effect:
  assumes "bus_inv r" "i + k = n_consumers r"
  shows "released {c. i \<le> c \<and> owned r pid c} r (snd (offline_scan pid i k r)) \<and>
    fst (offline_scan pid i k r) = card {c. i \<le> c \<and> owned r pid c}"
  using assms
proof (induction k arbitrary: i r)
  case 0
  then have "{c. i \<le> c \<and> owned r pid c} = {}"
    by (auto simp: owned_def online_def)
  then show ?case
    using released_none [OF 0(1)] by (simp del: Collect_empty_eq)
next
  case (Suc k)
  have fin: "finite {c. j \<le> c \<and> owned s pid c}" for j s
    by (rule finite_subset [of _ "{..< n_consumers s}"]) (auto simp: owned_def online_def)
  show ?case
  proof (cases "owned r pid i")
    case False
    have "{c. i \<le> c \<and> owned r pid c} = {c. Suc i \<le> c \<and> owned r pid c}"
      using False le_eq_less_or_eq by auto
    moreover have "offline_scan pid i (Suc k) r = offline_scan pid (Suc i) k r"
      using False Suc.prems(2) by (auto simp: Let_def owned_def online_def)
    ultimately show ?thesis
      using Suc.IH [OF Suc.prems(1), of "Suc i"] Suc.prems(2) by simp
  next
    case True
    then have on: "online r i" and pid: "owner_pid (consumer r i) = pid"
      by (simp_all add: owned_def)
    let ?res = "TakeConsumerOfflineIfOwner (of_nat i) pid (owner_start_epoch (consumer r i)) r"
    let ?r2 = "snd (ReclaimCommittedSlots (snd ?res))"
    note one = take_one_offline [OF Suc.prems(1) on, unfolded pid]
    have rel: "released {i} r ?r2"
      using one by (auto simp: released_def spec_leave_def)
    have "n_consumers ?r2 = n_consumers r"
      using one(3) by (simp add: same_frame_def)
    then have IH: "released {c. Suc i \<le> c \<and> owned ?r2 pid c} ?r2 (snd (offline_scan pid (Suc i) k ?r2)) \<and>
        fst (offline_scan pid (Suc i) k ?r2) = card {c. Suc i \<le> c \<and> owned ?r2 pid c}"
      using Suc.IH [OF one(2), of "Suc i"] Suc.prems(2) by simp
    have later: "{c. Suc i \<le> c \<and> owned ?r2 pid c} = {c. Suc i \<le> c \<and> owned r pid c}"
      using released_owned [OF rel] by auto
    have here: "{c. i \<le> c \<and> owned r pid c} = insert i {c. Suc i \<le> c \<and> owned r pid c}"
      using True le_eq_less_or_eq by auto
    obtain r1 where r1: "?res = (True, r1)"
      using one(1) by (cases ?res) auto
    have scan: "offline_scan pid i (Suc k) r = (Suc (fst (offline_scan pid (Suc i) k ?r2)), snd (offline_scan pid (Suc i) k ?r2))"
      using on pid r1 by (simp add: Let_def online_def case_prod_beta)
    show ?thesis
      unfolding scan here using released_step [OF rel] IH fin [of "Suc i" r] by (simp add: later)
  qed
qed

text \<open>The whole scan of one ring.\<close>

lemma offline_all:
  assumes "bus_inv r" "offline_scan pid 0 (n_consumers r) r = (n, r')"
  shows "released {c. owned r pid c} r r'" "n = card {c. owned r pid c}"
  using offline_scan_effect [OF assms(1), of 0 "n_consumers r" pid] assms(2) by simp_all

section \<open>In every channel of a topology\<close>

definition layout_kept :: "ring \<Rightarrow> ring \<Rightarrow> bool" where
  "layout_kept r r' \<longleftrightarrow> magic (header r') = magic (header r) \<and> version (header r') = version (header r) \<and>
     slot_count (header r') = slot_count (header r) \<and> consumer_capacity (header r') = consumer_capacity (header r) \<and>
     payload_region_bytes (header r') = payload_region_bytes (header r)"

lemma layout_kept_trans: "layout_kept a b \<Longrightarrow> layout_kept b c \<Longrightarrow> layout_kept a c"
  by (simp add: layout_kept_def)

lemma layout_kept_refl [simp]: "layout_kept r r"
  by (simp add: layout_kept_def)

lemma TryReclaimSlotIfSafe_layout: "layout_kept r (snd (TryReclaimSlotIfSafe i r))"
  by (simp add: TryReclaimSlotIfSafe_def layout_kept_def set_slot_def set_header_def Let_def split: prod.splits)

lemma reclaim_range_layout: "layout_kept r (snd (reclaim_range i k r))"
proof (induction k arbitrary: i r)
  case (Suc k)
  then show ?case
    using TryReclaimSlotIfSafe_layout [of r "of_nat i"] layout_kept_trans
    by (fastforce simp: Let_def case_prod_beta)
qed simp

lemma ReclaimCommittedSlots_layout: "layout_kept r (snd (ReclaimCommittedSlots r))"
  by (simp add: ReclaimCommittedSlots_def reclaim_range_layout)

lemma TakeConsumerOfflineIfOwner_layout: "layout_kept r (snd (TakeConsumerOfflineIfOwner c pid epoch r))"
proof -
  have "layout_kept r s \<Longrightarrow> layout_kept r (snd (ReclaimCommittedSlots s))" for s
    using ReclaimCommittedSlots_layout layout_kept_trans by blast
  then show ?thesis
    by (simp add: TakeConsumerOfflineIfOwner_def UnregisterConsumer_def Let_def)
      (simp add: layout_kept_def set_consumer_def set_header_def)
qed

lemma offline_scan_layout: "layout_kept r (snd (offline_scan pid i k r))"
proof (induction k arbitrary: i r)
  case (Suc k)
  let ?res = "TakeConsumerOfflineIfOwner (of_nat i) pid (owner_start_epoch (consumer r i)) r"
  have steps: "layout_kept r (snd (ReclaimCommittedSlots (snd ?res)))" "layout_kept r (snd ?res)"
    using TakeConsumerOfflineIfOwner_layout ReclaimCommittedSlots_layout layout_kept_trans by blast+
  have "layout_kept r (snd (offline_scan pid (Suc i) k s))" if "layout_kept r s" for s
    using layout_kept_trans [OF that Suc] .
  then show ?case
    using steps by (cases ?res) (simp add: Let_def case_prod_beta split: bool.split)
qed simp

definition shm_name_of :: "ChannelTopologyEntry \<Rightarrow> string" where
  "shm_name_of entry = BuildDeterministicShmName (CanonicalShmChannelKey entry)"

lemma attach_name:
  "AttachChannelRingForSupervisor sa ch (Some entry) default_bytes cp shm = Inr (Some (seg, r)) \<Longrightarrow> ss_name seg = shm_name_of entry"
  by (auto simp: AttachChannelRingForSupervisor_def AttachChannel_def segment_Attach_def shm_name_of_def Let_def
      split: option.splits if_splits)

text \<open>Attaching looks at the object of that name only.\<close>

lemma attach_local:
  assumes "s (shm_name_of entry) = t (shm_name_of entry)"
  shows "AttachChannelRingForSupervisor sa ch (Some entry) default_bytes cp s =
    AttachChannelRingForSupervisor sa ch (Some entry) default_bytes cp t"
proof -
  let ?key = "CanonicalShmChannelKey entry"
  have seg: "AttachChannel a ?key l cp s = AttachChannel a ?key l cp t" for a l
    using assms by (simp add: AttachChannel_def segment_Attach_def shm_name_of_def Let_def)
  have "mapped_ring sg s = mapped_ring sg t" if "AttachChannel a ?key l cp t = Some sg" for a l sg
  proof -
    have "ss_name sg = shm_name_of entry"
      using that by (auto simp: AttachChannel_def segment_Attach_def shm_name_of_def Let_def split: option.splits if_splits)
    then show ?thesis
      using assms by (simp add: mapped_ring_def)
  qed
  then show ?thesis
    unfolding AttachChannelRingForSupervisor_def Let_def option.case(2)
    by (intro arg_cong [where f = "also_then _"] ext) (simp add: seg split: option.split)
qed

lemma attach_elsewhere:
  "name \<noteq> shm_name_of entry \<Longrightarrow>
   AttachChannelRingForSupervisor sa ch (Some entry) default_bytes cp (store_ring name r shm) =
   AttachChannelRingForSupervisor sa ch (Some entry) default_bytes cp shm"
  by (rule attach_local) simp

lemma attach_stored:
  assumes "AttachChannelRingForSupervisor sa ch (Some entry) default_bytes cp shm = Inr (Some (seg, r))" "layout_kept r r'"
  shows "AttachChannelRingForSupervisor sa ch (Some entry) default_bytes cp (store_ring (shm_name_of entry) r' shm) = Inr (Some (seg, r'))"
proof -
  let ?key = "CanonicalShmChannelKey entry" and ?shm = "store_ring (shm_name_of entry) r' shm"
  have seg_same: "AttachChannel (sa ?key) ?key l cp ?shm = AttachChannel (sa ?key) ?key l cp shm" for l
    by (simp add: AttachChannel_def segment_Attach_def shm_name_of_def store_ring_def Let_def split: option.splits)
  obtain cd where cd: "resolve_dims default_bytes (cp_default_consumer_slots_per_channel cp) (cp_shm_slot_count cp) (Some entry) = Inr cd"
    and seg: "AttachChannel (sa ?key) ?key (layout_of cd) cp shm = Some seg"
    and r: "Attach (ring_span seg) kRingLayoutVersion (mapped_ring seg shm) = Some r"
    using assms(1) by (auto simp: AttachChannelRingForSupervisor_def Let_def split: option.splits)
  have name: "ss_name seg = shm_name_of entry" and there: "shm (shm_name_of entry) \<noteq> None"
    using attach_name [OF assms(1)] seg by (auto simp: AttachChannel_def segment_Attach_def shm_name_of_def Let_def split: option.splits if_splits)
  have "mapped_ring seg ?shm = r'"
    using there by (auto simp: mapped_ring_def name store_ring_def)
  moreover have "Attach (ring_span seg) kRingLayoutVersion r' = Some r'"
    using r assms(2) by (auto simp: Attach_def layout_kept_def split: if_splits)
  ultimately show ?thesis
    by (simp add: AttachChannelRingForSupervisor_def Let_def cd seg_same seg)
qed

lemma take_all_offline:
  assumes "TakeAllConsumersOfflineForProcessPid sa pid topology default_bytes cp shm = Inr (n, shm')"
    and "distinct (map (\<lambda>ce. shm_name_of (snd ce)) topology)"
  shows "\<forall>name. name \<notin> (\<lambda>ce. shm_name_of (snd ce)) ` set topology \<longrightarrow> shm' name = shm name"
    and "\<forall>(ch, entry) \<in> set topology. \<forall>seg r.
      AttachChannelRingForSupervisor sa ch (Some entry) default_bytes cp shm = Inr (Some (seg, r)) \<longrightarrow>
      AttachChannelRingForSupervisor sa ch (Some entry) default_bytes cp shm' =
        Inr (Some (seg, snd (offline_scan pid 0 (n_consumers r) r)))"
proof -
  let ?att = "\<lambda>ch entry shm. AttachChannelRingForSupervisor sa ch (Some entry) default_bytes cp shm"
  have "(\<forall>name. name \<notin> (\<lambda>ce. shm_name_of (snd ce)) ` set topology \<longrightarrow> shm' name = shm name) \<and>
    (\<forall>ch entry seg r. (ch, entry) \<in> set topology \<longrightarrow> ?att ch entry shm = Inr (Some (seg, r)) \<longrightarrow>
      ?att ch entry shm' = Inr (Some (seg, snd (offline_scan pid 0 (n_consumers r) r))))"
    using assms
  proof (induction topology arbitrary: shm n)
    case (Cons ce rest)
    obtain ch entry where ce: "ce = (ch, entry)" by (cases ce)
    obtain att where att: "?att ch entry shm = Inr att"
      using Cons.prems(1) by (auto simp: ce)
    have other: "?att c e (store_ring (shm_name_of entry) r s) = ?att c e s"
      if "(c, e) \<in> set rest" for c e r s
      using attach_elsewhere [of "shm_name_of entry" e] Cons.prems(2) that by (force simp: ce)
    show ?case
    proof (cases att)
      case None
      then show ?thesis
        using Cons att by (auto simp: ce)
    next
      case (Some x)
      obtain seg r where x: "x = (seg, r)" by (cases x)
      let ?r = "snd (offline_scan pid 0 (n_consumers r) r)" and ?name = "shm_name_of entry"
      have name: "ss_name seg = ?name"
        using attach_name att by (simp add: Some x)
      obtain m where rest: "TakeAllConsumersOfflineForProcessPid sa pid rest default_bytes cp (store_ring ?name ?r shm) = Inr (m, shm')"
        using Cons.prems(1) by (auto simp: ce att Some x name split: prod.splits)
      note IH = Cons.IH [OF rest]
      have here: "?att ch entry (store_ring ?name ?r shm) = Inr (Some (seg, ?r))"
        using attach_stored [OF _ offline_scan_layout] att by (simp add: Some x)
      have outside: "shm' ?name = store_ring ?name ?r shm ?name"
        using IH Cons.prems(2) by (auto simp: ce)
      have "?att ch entry shm' = ?att ch entry (store_ring ?name ?r shm)"
        by (rule attach_local) (rule outside)
      then show ?thesis
        using IH Cons.prems(2) here att other by (auto simp: ce Some x)
    qed
  qed simp
  then show "\<forall>name. name \<notin> (\<lambda>ce. shm_name_of (snd ce)) ` set topology \<longrightarrow> shm' name = shm name"
    "\<forall>(ch, entry) \<in> set topology. \<forall>seg r. ?att ch entry shm = Inr (Some (seg, r)) \<longrightarrow>
      ?att ch entry shm' = Inr (Some (seg, snd (offline_scan pid 0 (n_consumers r) r)))"
    by blast+
qed

lemma released_publish:
  assumes "released gone r r'" "publishable r p" "head_seq r < 2 ^ 32"
    and "\<And>d. online r d \<Longrightarrow> d \<notin> gone \<Longrightarrow> head_seq r < cursor r d + n_slots r"
  shows "\<exists>s r''. PublishCommittedPayload [idle] ns p r' = Some (Inr s, r'')"
proof -
  have inv: "bus_inv r'" and fr: "same_frame r r'"
    using assms(1) by (simp_all add: released_def)
  have fits: "publishable r' p"
    using assms(2) fr fits_cong [of r' r "length p"] by (simp add: publishable_def same_frame_def)
  have "\<forall>d. online r' d \<longrightarrow> head_seq r' < cursor r' d + n_slots r'"
    using assms(1,4) by (simp add: released_def same_frame_def)
  then have "PublishCommittedPayload [idle] ns p r' \<noteq> None"
    using publish_returns_iff [OF bus_invD [OF inv] fits, of 0 ns] by simp
  then obtain out r'' where pub: "PublishCommittedPayload (replicate 1 idle) ns p r' = Some (out, r'')"
    by auto
  have "ring_good r'"
    using assms(3) bus_invD(1) [OF inv] fr by (simp add: ring_good_def same_frame_def)
  from publish_bus(3) [OF this bus_invD(2) [OF inv] fits pub] pub show ?thesis
    by auto
qed

section \<open>Formatted channels attach\<close>

definition dims_ok :: "channel_dims \<Rightarrow> bool" where
  "dims_ok cd \<longleftrightarrow> cd_slot_count cd \<noteq> 0 \<and> cd_slot_payload_bytes cd \<noteq> 0 \<and>
     unat (cd_slot_payload_bytes cd) * unat (cd_slot_count cd) < 2 ^ 63"

lemma dims_sizes:
  assumes "dims_ok cd"
  defines "cap \<equiv> ComputeRingLayoutSizeBytes (cd_slot_count cd) (cd_consumer_capacity cd) + region_bytes_of cd"
  shows "unat (region_bytes_of cd) = unat (cd_slot_payload_bytes cd) * unat (cd_slot_count cd)" "region_bytes_of cd \<noteq> 0"
    "unat cap + 16 < 2 ^ 64" "sizeof_RingHeader \<le> cap" "ComputeSegmentSize (layout_of cd) = 16 + cap"
    "\<not> ComputeSegmentSize (layout_of cd) < ShmSegmentHeaderSizeBytes"
proof -
  let ?n = "cd_slot_count cd" and ?c = "cd_consumer_capacity cd"
  show region: "unat (region_bytes_of cd) = unat (cd_slot_payload_bytes cd) * unat ?n"
    using assms(1) by (simp add: region_bytes_of_def dims_ok_def unat_word_ariths)
  have pos: "0 < unat (cd_slot_payload_bytes cd) * unat ?n"
    using assms(1) by (simp add: dims_ok_def unat_gt_0)
  then show "region_bytes_of cd \<noteq> 0"
    using region by auto
  have ring: "unat (ComputeRingLayoutSizeBytes ?n ?c) < 2 ^ 40" "112 \<le> unat (ComputeRingLayoutSizeBytes ?n ?c)"
    unfolding unat_ComputeRingLayoutSizeBytes using unat_u32_less [of ?n] unat_u32_less [of ?c] by simp_all
  have cap: "unat cap = unat (ComputeRingLayoutSizeBytes ?n ?c) + unat (region_bytes_of cd)"
    unfolding cap_def using assms(1) ring by (intro unat_add_small) (simp add: region dims_ok_def)
  then show small: "unat cap + 16 < 2 ^ 64"
    using ring assms(1) by (simp add: region dims_ok_def)
  show "sizeof_RingHeader \<le> cap"
    using cap ring(2) by (simp add: word_le_nat_alt sizeof_RingHeader_def)
  show size: "ComputeSegmentSize (layout_of cd) = 16 + cap"
    by (simp add: ComputeSegmentSize_def layout_of_def layout_for_def cap_def ShmSegmentHeaderSizeBytes_def)
  have "unat (16 + cap) = 16 + unat cap"
    using small by (simp add: unat_word_ariths)
  then show "\<not> ComputeSegmentSize (layout_of cd) < ShmSegmentHeaderSizeBytes"
    unfolding size by (simp add: word_less_nat_alt ShmSegmentHeaderSizeBytes_def)
qed

lemma open_event_fds_ok: "\<forall>i. 0 \<le> open_fd i \<Longrightarrow> open_event_fds open_fd i k opened = Inr (opened @ map open_fd [i ..< i + k])"
proof (induction k arbitrary: i opened)
  case (Suc k)
  have "[i ..< i + Suc k] = i # [Suc i ..< Suc i + k]"
    by (simp add: upt_conv_Cons del: upt_Suc)
  then show ?case
    using Suc by (simp add: not_less del: upt_Suc)
qed simp

text \<open>The object of a freshly formatted channel.\<close>

definition channel_object :: "channel_dims \<Rightarrow> ring \<Rightarrow> shm_object" where
  "channel_object cd r =
     \<lparr>obj_size = ComputeSegmentSize (layout_of cd),
      obj_header = \<lparr>seg_magic = lay_magic (layout_of cd), seg_version = lay_version (layout_of cd),
                    seg_payload_capacity = lay_payload_capacity (layout_of cd)\<rparr>,
      obj_ring = r\<rparr>"

definition fresh_ring :: "(nat \<Rightarrow> int) \<Rightarrow> channel_dims \<Rightarrow> ring" where
  "fresh_ring open_fd cd =
     \<lparr>header = fresh_header (cd_slot_count cd) (cd_consumer_capacity cd) (region_bytes_of cd),
      consumers = replicate (unat (cd_consumer_capacity cd)) zero_cursor,
      notification_mappings = map open_fd [0 ..< unat (cd_consumer_capacity cd)],
      slots = replicate (unat (cd_slot_count cd)) zero_slot,
      payload_region = replicate (unat (region_bytes_of cd)) 0\<rparr>"

lemma Initialize_fresh:
  assumes "dims_ok cd" "\<forall>i. 0 \<le> open_fd i"
  shows "Initialize open_fd (ComputeRingLayoutSizeBytes (cd_slot_count cd) (cd_consumer_capacity cd) + region_bytes_of cd)
    (cd_slot_count cd) (cd_consumer_capacity cd) (region_bytes_of cd) = Inr (fresh_ring open_fd cd)"
  using assms dims_sizes(2) [OF assms(1)] by (simp add: Initialize_def open_event_fds_ok fresh_ring_def dims_ok_def)

lemma Attach_zero_memory: "Attach n v zero_memory = None"
  by (simp add: Attach_def zero_memory_def kRingLayoutMagic_def)

lemma provision_new_channel:
  assumes "resolve_dims default_bytes (cp_default_consumer_slots_per_channel cp) (cp_shm_slot_count cp) (Some entry) = Inr cd"
    "dims_ok cd" "\<not> cp_registry_frozen cp" "shm (shm_name_of entry) = None" "sa (CanonicalShmChannelKey entry) = all_answers"
    "\<forall>i. 0 \<le> open_fd (shm_name_of entry) i"
  shows "provision_channel sa open_fd default_bytes entry (cp, shm) =
    Inr (True, (cp\<lparr>cp_managed_posix_names := insert (shm_name_of entry) (cp_managed_posix_names cp)\<rparr>,
      shm(shm_name_of entry \<mapsto> channel_object cd (fresh_ring (open_fd (shm_name_of entry)) cd))))"
proof -
  let ?key = "CanonicalShmChannelKey entry" and ?name = "shm_name_of entry"
  let ?cap = "ComputeRingLayoutSizeBytes (cd_slot_count cd) (cd_consumer_capacity cd) + region_bytes_of cd"
  let ?seg = "\<lparr>ss_name = ?name, ss_size_bytes = ComputeSegmentSize (layout_of cd), ss_owner = True\<rparr>"
  have create: "CreateOrAttach all_answers ?key (layout_of cd) shm = (Some ?seg, shm(?name \<mapsto> channel_object cd zero_memory))"
    using assms(4) dims_sizes(6) [OF assms(2)] by (simp add: CreateOrAttach_def Let_def shm_name_of_def channel_object_def)
  have total: "ring_span ?seg = ?cap"
    by (simp add: ring_span_def dims_sizes(5) [OF assms(2)] ShmSegmentHeaderSizeBytes_def)
  note init = Initialize_fresh [OF assms(2), of "open_fd ?name", OF assms(6)]
  have mem: "formatted_memory (open_fd ?name) (ring_span ?seg) cd m = fresh_ring (open_fd ?name) cd" for m
    by (simp add: formatted_memory_def total init Let_def)
  show ?thesis
    using assms(1,3,5)
    by (simp add: provision_channel_def CreateOrAttachChannel_def RegistryAllowsKey_def create Let_def mapped_ring_def
        channel_object_def [of _ zero_memory] Attach_zero_memory total init mem [unfolded total] store_ring_def)
      (simp add: channel_object_def)
qed

lemma attach_channel_object:
  assumes "resolve_dims default_bytes (cp_default_consumer_slots_per_channel cp) (cp_shm_slot_count cp) (Some entry) = Inr cd"
    "dims_ok cd" "RegistryAllowsKey (cp_allowed_shm_channel_keys cp) (cp_registry_frozen cp) (CanonicalShmChannelKey entry)"
    "shm (shm_name_of entry) = Some (channel_object cd (fresh_ring open_fd cd))" "sa (CanonicalShmChannelKey entry) = all_answers"
  shows "\<exists>seg. AttachChannelRingForSupervisor sa ch (Some entry) default_bytes cp shm = Inr (Some (seg, fresh_ring open_fd cd))"
proof -
  let ?seg = "\<lparr>ss_name = shm_name_of entry, ss_size_bytes = ComputeSegmentSize (layout_of cd), ss_owner = False\<rparr>"
  have seg: "AttachChannel (sa (CanonicalShmChannelKey entry)) (CanonicalShmChannelKey entry) (layout_of cd) cp shm = Some ?seg"
    using assms(3-5) dims_sizes(6) [OF assms(2)]
    by (simp add: AttachChannel_def segment_Attach_def Let_def shm_name_of_def channel_object_def)
  have "Attach (ring_span ?seg) kRingLayoutVersion (fresh_ring open_fd cd) = Some (fresh_ring open_fd cd)"
    using dims_sizes(4) [OF assms(2)]
    by (simp add: Attach_def ring_span_def dims_sizes(5) [OF assms(2)] ShmSegmentHeaderSizeBytes_def fresh_ring_def fresh_header_def not_less)
  moreover have "mapped_ring ?seg shm = fresh_ring open_fd cd"
    using assms(4) by (simp add: mapped_ring_def channel_object_def)
  ultimately show ?thesis
    using assms(1) seg by (simp add: AttachChannelRingForSupervisor_def Let_def)
qed

text \<open>The state after the channels of a topology were formatted on a system that had none of them.\<close>

definition provisioned ::
  "(string \<Rightarrow> nat \<Rightarrow> int) \<Rightarrow> nat \<Rightarrow> ChannelTopologyIndex \<Rightarrow> ShmBusControlPlane \<Rightarrow> posix_shm \<Rightarrow> bool" where
  "provisioned open_fd default_bytes topology cp shm \<longleftrightarrow>
     (\<forall>(ch, entry) \<in> set topology. \<exists>cd.
        resolve_dims default_bytes (cp_default_consumer_slots_per_channel cp) (cp_shm_slot_count cp) (Some entry) = Inr cd \<and> dims_ok cd \<and>
        shm (shm_name_of entry) = Some (channel_object cd (fresh_ring (open_fd (shm_name_of entry)) cd)))"

lemma provision_channels_fresh:
  assumes "\<forall>(ch, entry) \<in> set topology. \<exists>cd.
      resolve_dims default_bytes (cp_default_consumer_slots_per_channel cp) (cp_shm_slot_count cp) (Some entry) = Inr cd \<and> dims_ok cd"
    and "distinct (map (\<lambda>ce. shm_name_of (snd ce)) topology)" "\<forall>(ch, entry) \<in> set topology. shm (shm_name_of entry) = None"
    and "\<not> cp_registry_frozen cp" "\<forall>key. sa key = all_answers" "\<forall>n i. 0 \<le> open_fd n i"
  shows "\<exists>names shm'. provision_channels sa open_fd default_bytes topology (cp, shm) =
      Inr (True, (cp\<lparr>cp_managed_posix_names := names\<rparr>, shm')) \<and>
    provisioned open_fd default_bytes topology cp shm' \<and>
    (\<forall>n. n \<notin> (\<lambda>ce. shm_name_of (snd ce)) ` set topology \<longrightarrow> shm' n = shm n)"
  using assms
proof (induction topology arbitrary: cp shm)
  case Nil
  show ?case
    by (rule exI [of _ "cp_managed_posix_names cp"]) (simp add: provisioned_def)
next
  case (Cons ce rest)
  obtain ch entry where ce: "ce = (ch, entry)" by (cases ce)
  let ?name = "shm_name_of entry"
  obtain cd where cd: "resolve_dims default_bytes (cp_default_consumer_slots_per_channel cp) (cp_shm_slot_count cp) (Some entry) = Inr cd"
      "dims_ok cd"
    using Cons.prems(1) by (auto simp: ce)
  let ?cp = "cp\<lparr>cp_managed_posix_names := insert ?name (cp_managed_posix_names cp)\<rparr>"
  let ?shm = "shm(?name \<mapsto> channel_object cd (fresh_ring (open_fd ?name) cd))"
  have step: "provision_channel sa open_fd default_bytes entry (cp, shm) = Inr (True, (?cp, ?shm))"
    using provision_new_channel [of default_bytes cp entry cd shm sa open_fd] cd Cons.prems(3-6) by (simp add: ce)
  have "\<forall>(ch, e) \<in> set rest. ?shm (shm_name_of e) = None"
    using Cons.prems(2,3) by (force simp: ce)
  moreover have "\<forall>(ch, e) \<in> set rest. \<exists>cd. resolve_dims default_bytes (cp_default_consumer_slots_per_channel ?cp)
      (cp_shm_slot_count ?cp) (Some e) = Inr cd \<and> dims_ok cd" "distinct (map (\<lambda>ce. shm_name_of (snd ce)) rest)" "\<not> cp_registry_frozen ?cp"
    using Cons.prems(1,2,4) by (simp_all add: ce)
  ultimately have "\<exists>names shm'. provision_channels sa open_fd default_bytes rest (?cp, ?shm) =
      Inr (True, (?cp\<lparr>cp_managed_posix_names := names\<rparr>, shm')) \<and> provisioned open_fd default_bytes rest ?cp shm' \<and>
    (\<forall>n. n \<notin> (\<lambda>ce. shm_name_of (snd ce)) ` set rest \<longrightarrow> shm' n = ?shm n)"
    using Cons.IH [of ?cp ?shm] Cons.prems(5,6) by blast
  then obtain names shm' where IH: "provision_channels sa open_fd default_bytes rest (?cp, ?shm) =
      Inr (True, (?cp\<lparr>cp_managed_posix_names := names\<rparr>, shm'))"
    "provisioned open_fd default_bytes rest ?cp shm'"
    "\<forall>n. n \<notin> (\<lambda>ce. shm_name_of (snd ce)) ` set rest \<longrightarrow> shm' n = ?shm n"
    by blast
  have "shm' ?name = Some (channel_object cd (fresh_ring (open_fd ?name) cd))"
    using IH(3) Cons.prems(2) by (auto simp: ce)
  then show ?case
    using IH cd by (intro exI [of _ names] exI [of _ shm']) (auto simp: ce step provisioned_def)
qed

section \<open>What was created is unlinked\<close>

definition managed_inv :: "posix_shm \<Rightarrow> ShmBusControlPlane \<times> posix_shm \<Rightarrow> bool" where
  "managed_inv shm0 w \<longleftrightarrow> dom (snd w) = dom shm0 \<union> cp_managed_posix_names (fst w) \<and> dom shm0 \<inter> cp_managed_posix_names (fst w) = {}"

lemma CreateOrAttachChannel_managed:
  assumes "CreateOrAttachChannel sa channel layout w = (res, w1)" "managed_inv shm0 w"
  shows "managed_inv shm0 w1"
proof -
  obtain cp shm where w: "w = (cp, shm)" by (cases w)
  show ?thesis
  proof (cases "RegistryAllowsKey (cp_allowed_shm_channel_keys cp) (cp_registry_frozen cp) channel")
    case True
    obtain seg shm1 where c: "CreateOrAttach sa channel layout shm = (seg, shm1)" by fastforce
    show ?thesis
    proof (cases seg)
      case None
      then show ?thesis
        using assms True c CreateOrAttach_failed [of sa channel layout shm shm1] by (auto simp: CreateOrAttachChannel_def w)
    next
      case (Some s)
      note name = CreateOrAttach_name [OF c [unfolded Some]]
      have w1: "w1 = ((if ss_owner s then cp\<lparr>cp_managed_posix_names := insert (ss_name s) (cp_managed_posix_names cp)\<rparr> else cp), shm1)"
        using assms(1) True c by (simp add: CreateOrAttachChannel_def w Some)
      show ?thesis
      proof (cases "ss_owner s")
        case True
        have "n \<in> dom shm1 \<longleftrightarrow> n = ss_name s \<or> n \<in> dom shm" for n
          using name CreateOrAttach_other [OF c, of n] by (cases "n = ss_name s") (auto simp: dom_def)
        moreover have "ss_name s \<notin> dom shm"
          using name True by (auto simp: dom_def)
        ultimately show ?thesis
          using assms(2) True by (auto simp: managed_inv_def w w1)
      next
        case False
        then show ?thesis
          using assms(2) name by (auto simp: managed_inv_def w w1)
      qed
    qed
  qed (use assms in \<open>auto simp: CreateOrAttachChannel_def w\<close>)
qed

lemma provision_channel_managed:
  assumes "provision_channel sa open_fd default_bytes entry w = Inr (ok, w1)" "managed_inv shm0 w"
  shows "managed_inv shm0 w1"
proof -
  let ?key = "CanonicalShmChannelKey entry"
  obtain cd where cd: "resolve_dims default_bytes (cp_default_consumer_slots_per_channel (fst w)) (cp_shm_slot_count (fst w)) (Some entry) = Inr cd"
    using assms(1) by (auto simp: provision_channel_def)
  obtain seg cp1 shm1 where c: "CreateOrAttachChannel (sa ?key) ?key (layout_of cd) w = (seg, (cp1, shm1))"
    by (cases "CreateOrAttachChannel (sa ?key) ?key (layout_of cd) w") auto
  have inv: "managed_inv shm0 (cp1, shm1)"
    by (rule CreateOrAttachChannel_managed [OF c assms(2)])
  have "w1 = (cp1, shm1) \<or> (\<exists>n r. w1 = (cp1, store_ring n r shm1))"
    using assms(1) by (auto simp: provision_channel_def cd c Let_def split: option.splits)
  then show ?thesis
    using inv unfolding managed_inv_def by (elim disjE exE) simp_all
qed

lemma provision_channels_managed:
  "provision_channels sa open_fd default_bytes topology w = Inr (ok, w1) \<Longrightarrow> managed_inv shm0 w \<Longrightarrow> managed_inv shm0 w1"
  by (induction sa open_fd default_bytes topology w rule: provision_channels.induct)
    (auto split: sum.splits bool.splits dest: provision_channel_managed)

lemma provision_managed:
  assumes "ProvisionChannelTopology sa open_fd topology cfg (cp, shm) = Inr (ok, w)" "cp_managed_posix_names cp = {}"
  shows "managed_inv shm w"
proof -
  let ?cfg = "if IsValid cfg then cfg else default_config"
  let ?cp = "(SetDefaultConsumerSlotsPerChannel (default_consumer_slots_per_channel ?cfg) cp)\<lparr>cp_shm_slot_count := max 1 (shm_slot_count ?cfg)\<rparr>"
  obtain ok1 cp1 shm1 where prov: "provision_channels sa open_fd (slot_payload_bytes ?cfg) topology (?cp, shm) = Inr (ok1, (cp1, shm1))"
    and w: "snd w = shm1" "cp_managed_posix_names (fst w) = cp_managed_posix_names cp1"
    using assms(1) unfolding ProvisionChannelTopology_def Let_def fst_conv snd_conv
    by (auto simp: FreezeAllowedChannelKeys_def simp del: provision_channels.simps split: sum.splits bool.splits prod.splits)
  have "managed_inv shm (?cp, shm)"
    using assms(2) by (simp add: managed_inv_def SetDefaultConsumerSlotsPerChannel_def)
  then show ?thesis
    using provision_channels_managed [OF prov] w by (simp add: managed_inv_def)
qed

lemma managed_unlinked:
  assumes "managed_inv shm w"
  shows "dom (snd (FinalizeUnlinkManagedSegments w)) = dom shm"
    and "cp_managed_posix_names (fst (FinalizeUnlinkManagedSegments w)) = {}"
proof -
  have "n \<in> dom (snd (FinalizeUnlinkManagedSegments w)) \<longleftrightarrow> n \<in> dom shm" for n
    using assms
    by (cases w, cases "n \<in> cp_managed_posix_names (fst w)") (auto simp: managed_inv_def FinalizeUnlinkManagedSegments_def set_eq_iff domIff)
  then show "dom (snd (FinalizeUnlinkManagedSegments w)) = dom shm"
    by blast
qed (simp add: FinalizeUnlinkManagedSegments_def split: prod.splits)

lemma take_all_dom:
  "TakeAllConsumersOfflineForProcessPid sa pid topology default_bytes cp shm = Inr (n, shm') \<Longrightarrow> dom shm' = dom shm"
proof (induction topology arbitrary: shm n)
  case (Cons ce rest)
  obtain ch entry where ce: "ce = (ch, entry)" by (cases ce)
  obtain att where att: "AttachChannelRingForSupervisor sa ch (Some entry) default_bytes cp shm = Inr att"
    using Cons.prems by (auto simp: ce)
  show ?case
  proof (cases att)
    case None
    then show ?thesis
      using Cons.prems Cons.IH by (simp add: ce att)
  next
    case (Some sr)
    obtain seg r where sr: "sr = (seg, r)" by (cases sr)
    obtain k r1 where scan: "offline_scan pid 0 (unat (consumer_capacity (header r))) r = (k, r1)" by fastforce
    obtain m where "TakeAllConsumersOfflineForProcessPid sa pid rest default_bytes cp (store_ring (ss_name seg) r1 shm) = Inr (m, shm')"
      using Cons.prems by (auto simp: ce att Some sr scan)
    then show ?thesis
      using Cons.IH by simp
  qed
qed simp

section \<open>The properties\<close>

text \<open>
  C5: When a process dies, one pass over the topology frees the channels it blocked. In every channel
  that attaches, exactly the consumers that process owned are offline afterwards, the others keep
  their place and their messages; and if no other online consumer is a full lap behind, a publish
  that waited for the dead process returns and is accepted.
\<close>

theorem dead_process_frees_publishers:
  assumes "TakeAllConsumersOfflineForProcessPid sa pid topology default_bytes cp shm = Inr (n, shm')"
    and "distinct (map (\<lambda>ce. shm_name_of (snd ce)) topology)" "(ch, entry) \<in> set topology"
    and "AttachChannelRingForSupervisor sa ch (Some entry) default_bytes cp shm = Inr (Some (seg, r))" "bus_inv r"
    and "publishable r p" "head_seq r < 2 ^ 32"
    and "\<And>d. online r d \<Longrightarrow> owner_pid (consumer r d) \<noteq> pid \<Longrightarrow> head_seq r < cursor r d + n_slots r"
  shows "\<exists>r' s r''. AttachChannelRingForSupervisor sa ch (Some entry) default_bytes cp shm' = Inr (Some (seg, r')) \<and>
    (\<forall>c. online r' c \<longleftrightarrow> online r c \<and> owner_pid (consumer r c) \<noteq> pid) \<and>
    (\<forall>c. online r' c \<longrightarrow> consumer r' c = consumer r c \<and> abs_bus r' c = abs_bus r c) \<and>
    PublishCommittedPayload [idle] ns p r' = Some (Inr s, r'')"
proof -
  let ?r = "snd (offline_scan pid 0 (n_consumers r) r)"
  have att: "AttachChannelRingForSupervisor sa ch (Some entry) default_bytes cp shm' = Inr (Some (seg, ?r))"
    using take_all_offline(2) [OF assms(1,2)] assms(3,4) by fastforce
  have rel: "released {c. owned r pid c} r ?r"
    using offline_all(1) [OF assms(5) surjective_pairing] .
  obtain s r'' where "PublishCommittedPayload [idle] ns p ?r = Some (Inr s, r'')"
    using released_publish [OF rel assms(6,7), of ns] assms(8) by (auto simp: owned_def)
  then show ?thesis
    using att rel by (auto simp: released_def owned_def)
qed

definition small_entry :: ChannelTopologyEntry where
  "small_entry = \<lparr>te_channel = ''c'', te_producers = [''p''], te_consumers = [''q''], te_consumer_count = 1,
     te_params = [(''shm_slot_count'', ''2''), (''slot_payload_bytes'', ''8''), (''shm_consumer_slots'', ''2'')]\<rparr>"

definition small_dims :: channel_dims where
  "small_dims = \<lparr>cd_slot_payload_bytes = 8, cd_consumer_capacity = 2, cd_slot_count = 2\<rparr>"

lemma small_entry_dims: "resolve_dims k s m (Some small_entry) = Inr small_dims"
  by (simp add: resolve_dims_def ResolveShmRingConsumerCapacity_def ResolveShmSlotCountForChannel_def
      ResolveSlotPayloadBytesForChannel_def configured_def small_entry_def small_dims_def ParsePositiveSizeOrZero_def
      stoull_digits_def digits_value_def digit_value_def is_digit_def to32_def)

lemma small_dims_ok: "dims_ok small_dims"
  by (simp add: dims_ok_def small_dims_def)

definition full_channel :: posix_shm where
  "full_channel = [shm_name_of small_entry \<mapsto> channel_object small_dims demo_full]"

lemma full_channel_attaches:
  "\<exists>seg. AttachChannelRingForSupervisor (\<lambda>k. all_answers) ''c'' (Some small_entry) 1024 new_control_plane full_channel = Inr (Some (seg, demo_full))"
proof -
  let ?shm = "[shm_name_of small_entry \<mapsto> channel_object small_dims (fresh_ring (\<lambda>i. int i + 10) small_dims)]"
  obtain seg where att: "AttachChannelRingForSupervisor (\<lambda>k. all_answers) ''c'' (Some small_entry) 1024 new_control_plane ?shm =
      Inr (Some (seg, fresh_ring (\<lambda>i. int i + 10) small_dims))"
    using attach_channel_object [OF small_entry_dims small_dims_ok, of new_control_plane ?shm "\<lambda>i. int i + 10" "\<lambda>k. all_answers" "''c''" 1024]
    by (auto simp: RegistryAllowsKey_def new_control_plane_def)
  have "layout_kept (fresh_ring (\<lambda>i. int i + 10) small_dims) demo_full"
  proof -
    have "magic (header demo_full) = kRingLayoutMagic \<and> version (header demo_full) = kRingLayoutVersion \<and>
        slot_count (header demo_full) = 2 \<and> consumer_capacity (header demo_full) = 2 \<and> payload_region_bytes (header demo_full) = 16"
      by code_simp
    then show ?thesis
      by (simp add: layout_kept_def fresh_ring_def fresh_header_def small_dims_def region_bytes_of_def)
  qed
  from attach_stored [OF att this] show ?thesis
    by (simp add: full_channel_def store_ring_def channel_object_def)
qed

theorem dead_process_frees_publishers_witness:
  "\<exists>n shm' r' s r''. TakeAllConsumersOfflineForProcessPid (\<lambda>k. all_answers) 7 [(''c'', small_entry)] 1024 new_control_plane full_channel = Inr (n, shm') \<and>
    PublishCommittedPayload [idle] 0 [1] demo_full = None \<and> (\<forall>c. \<not> online r' c) \<and>
    PublishCommittedPayload [idle] 0 [1] r' = Some (Inr s, r'')"
proof -
  obtain seg where att: "AttachChannelRingForSupervisor (\<lambda>k. all_answers) ''c'' (Some small_entry) 1024 new_control_plane full_channel = Inr (Some (seg, demo_full))"
    using full_channel_attaches by blast
  then obtain n shm' where take: "TakeAllConsumersOfflineForProcessPid (\<lambda>k. all_answers) 7 [(''c'', small_entry)] 1024 new_control_plane full_channel = Inr (n, shm')"
    by (cases "offline_scan 7 0 (n_consumers demo_full) demo_full") simp
  have own: "owner_pid (consumer demo_full 0) = 7" "PublishCommittedPayload [idle] 0 [1] demo_full = None"
    by code_simp+
  have "online demo_full d \<Longrightarrow> owner_pid (consumer demo_full d) = 7" for d
    using demo_full_facts(4) own(1) by auto
  then show ?thesis
    using dead_process_frees_publishers [OF take _ _ att demo_full_facts(1-3), of 0] own(2) take by auto
qed



text \<open>
  C35: No shared memory is left behind: whatever the system answered while provisioning, and whether
  it succeeded or stopped in between, the final unlink removes exactly the objects the control plane
  created, so the objects of the system are those from before.
\<close>

theorem provisioned_segments_unlinked:
  assumes "ProvisionChannelTopology sa open_fd topology cfg (cp, shm) = Inr (ok, w)" "cp_managed_posix_names cp = {}"
  shows "dom (snd (FinalizeUnlinkManagedSegments w)) = dom shm \<and> cp_managed_posix_names (fst (FinalizeUnlinkManagedSegments w)) = {}"
  using managed_unlinked [OF provision_managed [OF assms]] by blast

theorem provisioned_segments_unlinked_witness:
  "\<exists>w. ProvisionChannelTopology (\<lambda>k. all_answers\<lparr>sa_map := False\<rparr>) (\<lambda>n i. 10) [(''c'', small_entry)] default_config (new_control_plane, Map.empty) = Inr (False, w) \<and>
     dom (snd (FinalizeUnlinkManagedSegments w)) = {}"
proof -
  have "\<exists>w. ProvisionChannelTopology (\<lambda>k. all_answers\<lparr>sa_map := False\<rparr>) (\<lambda>n i. 10) [(''c'', small_entry)] default_config (new_control_plane, Map.empty) = Inr (False, w)"
    using dims_sizes(6) [OF small_dims_ok]
    by (simp add: ProvisionChannelTopology_def provision_channel_def small_entry_dims CreateOrAttachChannel_def CreateOrAttach_def
        RegistryAllowsKey_def new_control_plane_def SetDefaultConsumerSlotsPerChannel_def Let_def)
  then obtain w where w: "ProvisionChannelTopology (\<lambda>k. all_answers\<lparr>sa_map := False\<rparr>) (\<lambda>n i. 10) [(''c'', small_entry)] default_config (new_control_plane, Map.empty) = Inr (False, w)"
    by blast
  then show ?thesis
    using provisioned_segments_unlinked [OF w] by (simp add: new_control_plane_def)
qed

section \<open>Where recovery fails\<close>

text \<open>
  A configuration with slots below the alarm threshold of 512 bytes is replaced by the default one
  when provisioning, but the supervisor attaches with the configured size: where a channel does not
  set its own size, it never attaches, and the consumers of a dead process stay online.
\<close>

lemma small_payload_disables_recovery:
  assumes "shm (shm_name_of entry) = Some (channel_object cd r)" "resolve_dims k s m (Some entry) = Inr cd'"
    "ComputeSegmentSize (layout_of cd') \<noteq> ComputeSegmentSize (layout_of cd)"
    "cp_default_consumer_slots_per_channel cp = s" "cp_shm_slot_count cp = m"
  shows "TakeAllConsumersOfflineForProcessPid sa pid [(ch, entry)] k cp shm = Inr (0, shm)"
  using assms
  by (simp add: AttachChannelRingForSupervisor_def AttachChannel_def segment_Attach_def Let_def shm_name_of_def channel_object_def)

definition plain_entry :: ChannelTopologyEntry where
  "plain_entry = \<lparr>te_channel = ''c'', te_producers = [''p''], te_consumers = [''q''], te_consumer_count = 1, te_params = []\<rparr>"

lemma plain_entry_dims:
  "resolve_dims k 10 256 (Some plain_entry) = Inr \<lparr>cd_slot_payload_bytes = of_nat (max 1 k), cd_consumer_capacity = 10, cd_slot_count = 256\<rparr>"
  by (simp add: resolve_dims_def ResolveShmRingConsumerCapacity_def ResolveShmSlotCountForChannel_def
      ResolveSlotPayloadBytesForChannel_def configured_def plain_entry_def ParsePositiveSizeOrZero_def ParamOrEmpty_def to32_def)

lemma plain_entry_sizes:
  "\<not> IsValid (default_config\<lparr>slot_payload_bytes := 256\<rparr>)"
  "map_sum id (\<lambda>cd. ComputeSegmentSize (layout_of cd)) (resolve_dims 256 10 256 (Some plain_entry)) \<noteq>
   map_sum id (\<lambda>cd. ComputeSegmentSize (layout_of cd)) (resolve_dims 1024 10 256 (Some plain_entry))"
  by (simp_all add: plain_entry_dims ComputeSegmentSize_def layout_of_def layout_for_def region_bytes_of_def IsValid_def default_config_def)

text \<open>
  A formatted segment that an earlier run left behind is taken as it is: provisioning changes
  nothing, and consumers of processes that no longer exist stay online.
\<close>

lemma stale_segment_kept:
  assumes "shm (shm_name_of entry) = Some (channel_object cd r)" "resolve_dims k (cp_default_consumer_slots_per_channel cp) (cp_shm_slot_count cp) (Some entry) = Inr cd"
    "\<not> cp_registry_frozen cp" "sa (CanonicalShmChannelKey entry) = all_answers" "dims_ok cd"
    "Attach (ComputeRingLayoutSizeBytes (cd_slot_count cd) (cd_consumer_capacity cd) + region_bytes_of cd) kRingLayoutVersion r = Some r"
  shows "provision_channel sa open_fd k entry (cp, shm) = Inr (True, (cp, shm))"
  using assms dims_sizes(5,6) [OF assms(5)]
  by (simp add: provision_channel_def CreateOrAttachChannel_def CreateOrAttach_def RegistryAllowsKey_def Let_def shm_name_of_def
      channel_object_def mapped_ring_def ring_span_def ShmSegmentHeaderSizeBytes_def)

end
