(* ===== verification/Backend_Properties.thy ===== *)
theory Backend_Properties
  imports Backend_Main Control_Properties
begin

text \<open>
  The master process as a whole. One invariant goes through all its phases: the process table names
  exactly the children the kernel still holds, and the segments are those from before and those the
  control plane manages. It gives what a clean exit leaves behind, which is nothing.
\<close>

section \<open>The process table and the kernel\<close>

definition children_known :: "string set \<Rightarrow> master \<Rightarrow> bool" where
  "children_known names s \<longleftrightarrow> table_inv s \<and> dom (pid_to_module s) = set (os_children s) \<and> distinct (os_children s) \<and>
     dom (module_to_pid s) \<subseteq> names"

text \<open>The kernel gives a new child a positive number that no unwaited child has; a negative one reports failure.\<close>

definition kernel_law :: "(int list \<Rightarrow> int) \<Rightarrow> bool" where
  "kernel_law next_pid \<longleftrightarrow> (\<forall>live. next_pid live < 0 \<or> 0 < next_pid live \<and> next_pid live \<notin> set live)"

lemma children_known_cong:
  assumes "module_to_pid s' = module_to_pid s" "pid_to_module s' = pid_to_module s" "os_children s' = os_children s"
  shows "children_known names s' = children_known names s"
  using assms table_inv_cong [of s' s] by (simp add: children_known_def)

lemma call_simps [simp]:
  "module_to_pid (call cs s) = module_to_pid s" "pid_to_module (call cs s) = pid_to_module s"
  "os_children (call cs s) = os_children s" "LifecycleOf m (call cs s) = LifecycleOf m s"
  "ChildPidOf m (call cs s) = ChildPidOf m s" "os_calls (call cs s) = os_calls s @ cs"
  by (simp_all add: call_def LifecycleOf_def ChildPidOf_def)

lemma parent_close_simps [simp]:
  "module_to_pid (parent_close fd s) = module_to_pid s" "pid_to_module (parent_close fd s) = pid_to_module s"
  "os_children (parent_close fd s) = os_children s" "LifecycleOf m (parent_close fd s) = LifecycleOf m s"
  "ChildPidOf m (parent_close fd s) = ChildPidOf m s"
  by (simp_all add: parent_close_def CloseFdIfOpen_def)

lemma children_known_call [simp]:
  "children_known names (call cs s) = children_known names s"
  "children_known names (parent_close fd s) = children_known names s"
  by (rule children_known_cong; simp)+

lemma set_lifecycle_children [simp]:
  "os_children (set_lifecycle m st r s) = os_children s" "os_calls (set_lifecycle m st r s) = os_calls s"
  by (simp_all add: set_lifecycle_def)

lemma wait_for_ready_frame:
  "WaitForReadyOrTransitionFailed poll_fn m fd t s = (ok, s1) \<Longrightarrow>
     module_to_pid s1 = module_to_pid s \<and> pid_to_module s1 = pid_to_module s \<and> os_children s1 = os_children s"
  by (auto simp: WaitForReadyOrTransitionFailed_def transition_defs split: sum.splits)

lemma judged_children [simp]: "os_children (snd (HandleAbnormalChildExit m p t s)) = os_children s"
  by (simp add: HandleAbnormalChildExit_def transition_defs case_prod_beta)

lemma judged_known [simp]: "children_known names (snd (HandleAbnormalChildExit m p t s)) = children_known names s"
  by (rule children_known_cong) (simp_all add: HandleAbnormal_simps)

lemma reap_children [simp]: "os_children (snd (ReapChildProcess pid s)) = os_children s"
  by (simp add: ReapChildProcess_def Let_def split: option.splits)

text \<open>Waiting for a child and reaping it go together.\<close>

lemma collect_known:
  assumes "children_known names s"
  shows "children_known names (snd (ReapChildProcess pid (s\<lparr>os_children := remove1 pid (os_children s)\<rparr>)))"
proof -
  let ?s = "s\<lparr>os_children := remove1 pid (os_children s)\<rparr>"
  have inv: "table_inv ?s"
    using assms table_inv_cong [of ?s s] by (simp add: children_known_def)
  have "dom (pid_to_module (snd (ReapChildProcess pid ?s))) = dom (pid_to_module s) - {pid}"
    by (auto simp: ReapChildProcess_def Let_def split: option.splits if_splits)
  moreover have "dom (module_to_pid (snd (ReapChildProcess pid ?s))) \<subseteq> dom (module_to_pid s)"
    by (auto simp: ReapChildProcess_def Let_def split: option.splits if_splits)
  moreover have "dom (module_to_pid s) \<subseteq> names" "distinct (os_children s)" "dom (pid_to_module s) = set (os_children s)"
    using assms by (simp_all add: children_known_def)
  ultimately show ?thesis
    using table_inv_reap [OF inv] unfolding children_known_def by (simp add: set_remove1_eq)
qed

lemma end_child_known: "children_known names s \<Longrightarrow> children_known names (end_child signal pid s)"
  using collect_known [of names s pid]
    children_known_cong [of "snd (ReapChildProcess pid (await_child pid (call [SendSignal pid signal] s)))"
      "snd (ReapChildProcess pid (s\<lparr>os_children := remove1 pid (os_children s)\<rparr>))" names]
  by (simp add: end_child_def await_child_def ReapChildProcess_def call_def Let_def split: option.splits)

lemma fork_child_known:
  assumes "children_known names s" "kernel_law next_pid" "name \<in> names" "fork_child next_pid name s = (res, s1)"
  shows "children_known names s1"
    and "res = Inr u \<Longrightarrow> ChildPidOf name s1 = Some (next_pid (os_children s)) \<and> os_calls s1 = os_calls s @ [Forked name (next_pid (os_children s))]"
    and "res = Inl e \<Longrightarrow> s1 = s"
proof -
  let ?pid = "next_pid (os_children s)"
  obtain r s2 where f: "ForkModuleProcess name True ?pid s = (r, s2)" by fastforce
  have "children_known names s1 \<and>
     (res = Inr u \<longrightarrow> ChildPidOf name s1 = Some ?pid \<and> os_calls s1 = os_calls s @ [Forked name ?pid]) \<and> (res = Inl e \<longrightarrow> s1 = s)"
  proof (cases r)
    case (Inl err)
    then have "s2 = s"
      using f by (auto simp: ForkModuleProcess_def split: if_splits)
    then show ?thesis
      using assms(1,4) f Inl by (auto simp: fork_child_def Let_def)
  next
    case (Inr x)
    then have ok: "name \<noteq> []" "module_to_pid s name = None" "0 \<le> ?pid"
      and s2: "s2 = TransitionToForked name (s\<lparr>module_to_pid := (module_to_pid s)(name \<mapsto> ?pid), pid_to_module := (pid_to_module s)(?pid \<mapsto> name)\<rparr>)"
      using f by (auto simp: ForkModuleProcess_def split: if_splits)
    have fresh: "?pid \<notin> set (os_children s)"
      using assms(2) ok(3) unfolding kernel_law_def by (meson not_le)
    then have none: "pid_to_module s ?pid = None"
      using assms(1) unfolding children_known_def by (metis domIff)
    have inv: "table_inv s2"
      using table_inv_fork [of s ?pid name True] assms(1) none by (simp add: children_known_def f)
    have s1: "s1 = call [Forked name ?pid] (s2\<lparr>os_children := ?pid # os_children s2\<rparr>)" "res = Inr ()"
      using assms(4) f Inr by (simp_all add: fork_child_def Let_def)
    have "children_known names s1"
      using assms(1,3) inv fresh table_inv_cong [of s1 s2]
      by (auto simp: s1 s2 children_known_def transition_defs)
    then show ?thesis
      by (simp add: s1 s2 transition_defs ChildPidOf_def)
  qed
  then show "children_known names s1"
    "res = Inr u \<Longrightarrow> ChildPidOf name s1 = Some ?pid \<and> os_calls s1 = os_calls s @ [Forked name ?pid]"
    "res = Inl e \<Longrightarrow> s1 = s"
    by blast+
qed

text \<open>A launch leaves a ready child, or none that it made.\<close>

lemma launch_known:
  assumes "children_known names s" "kernel_law (la_fork la)" "me_module_name entry \<in> names" "LaunchOneModule la entry s = (res, s1)"
  shows "children_known names s1"
proof -
  let ?name = "me_module_name entry"
  show ?thesis
  proof (cases "la_pipe la")
    case (Inl e)
    then show ?thesis
      using assms(1,4) by (simp add: LaunchOneModule_def CreateParentManagedPipe_def)
  next
    case (Inr fds)
    obtain rfd wfd where fds: "fds = (rfd, wfd)" by (cases fds)
    obtain r s2 where fork: "fork_child (la_fork la) ?name s = (r, s2)" by fastforce
    note k2 = fork_child_known(1) [OF assms(1-3) fork]
    obtain ok s3 where wait: "WaitForReadyOrTransitionFailed (la_poll la) ?name rfd (rs_ready_timeout_ms (me_resource_schema entry))
        (parent_close wfd s2) = (ok, s3)" by fastforce
    have k3: "children_known names s3"
      using wait_for_ready_frame [OF wait] k2 children_known_cong [of s3 "parent_close wfd s2" names] by simp
    have "s1 = parent_close rfd (parent_close wfd s2) \<or> s1 = parent_close rfd s3 \<or>
        (\<exists>pid. s1 = end_child SIGTERM pid (parent_close rfd s3))"
      using assms(4) by (cases r; cases ok)
        (auto simp: LaunchOneModule_def CreateParentManagedPipe_def Inr fds fork wait Let_def split: option.splits)
    then show ?thesis
      using k2 k3 by (elim disjE exE) (simp_all add: end_child_known)
  qed
qed

lemma log_fork_known:
  assumes "children_known names s" "kernel_law next_pid" "me_module_name entry \<in> names"
    "ForkLogModule next_pid entry fd pipes s = (res, flags, s1)"
  shows "children_known names s1"
proof -
  obtain r s2 where fork: "fork_child next_pid (me_module_name entry) s = (r, s2)" by fastforce
  have "s1 = s2"
    using assms(4) by (cases r) (auto simp: ForkLogModule_def Let_def fork)
  then show ?thesis
    using fork_child_known(1) [OF assms(1-3) fork] by simp
qed

section \<open>One round of the monitor\<close>

text \<open>The entries of a plan are filed under the names the modules have.\<close>

definition entries_named :: "(string \<times> ParsedModuleLaunchEntry) list \<Rightarrow> bool" where
  "entries_named entries \<longleftrightarrow> (\<forall>(n, e) \<in> set entries. me_module_name e = n)"

lemma entries_named_lookup:
  "entries_named entries \<Longrightarrow> map_of entries n = Some e \<Longrightarrow> me_module_name e = n \<and> n \<in> fst ` set entries"
  by (force simp: entries_named_def dest: map_of_SomeD)

definition round_law :: "round_answers \<Rightarrow> bool" where
  "round_law ra \<longleftrightarrow> (\<forall>m. kernel_law (la_fork (ra_launch ra m))) \<and> kernel_law (lg_fork (ra_log ra))"

abbreviation names_of :: "'f prepared \<Rightarrow> string set" where
  "names_of p \<equiv> fst ` set (pr_entries p)"

lemma restart_business_known:
  assumes "children_known (names_of p) s" "round_law ra" "entries_named (pr_entries p)" "restart_business ra p m s = (res, s1)"
  shows "children_known (names_of p) s1"
proof (cases "map_of (pr_entries p) m")
  case None
  then show ?thesis
    using assms(1,4) by (simp add: restart_business_def)
next
  case (Some e)
  then show ?thesis
    using assms(4) launch_known [OF assms(1), of "ra_launch ra m" e res s1] assms(2) entries_named_lookup [OF assms(3) Some]
    by (simp add: restart_business_def round_law_def)
qed

lemma restart_log_known:
  assumes "children_known (names_of p) s" "kernel_law (lg_fork lg)" "entries_named (pr_entries p)" "has_log p"
    "restart_log lg p pipes s pid = (res, s1, pid1)"
  shows "children_known (names_of p) s1"
proof -
  let ?e = "the (map_of (pr_entries p) kLogModuleName)"
  have e: "me_module_name ?e \<in> names_of p"
    using assms(4) entries_named_lookup [OF assms(3)] by (auto simp: has_log_def)
  obtain r flags s2 where f: "ForkLogModule (lg_fork lg) ?e (lg_eventfd lg) pipes s = (r, flags, s2)"
    by (metis prod.collapse)
  have "s1 = s \<or> s1 = call [CloseFd (lg_eventfd lg)] s2"
    using assms(5) by (cases r) (auto simp: restart_log_def f split: if_splits)
  then show ?thesis
    using assms(1) log_fork_known [OF assms(1,2) e f] by auto
qed

text \<open>The call-backs of \<open>main\<close> keep the contract of the loop.\<close>

interpretation backend_hooks: monitor_hooks "backend_deps ra p pipes"
    "\<lambda>s. children_known (names_of p) s \<and> round_law ra \<and> entries_named (pr_entries p)" for ra p pipes
proof unfold_locales
  fix s :: master and restart m
  assume "restart_business_module (backend_deps ra p pipes) = Some restart"
    "children_known (names_of p) s \<and> round_law ra \<and> entries_named (pr_entries p)"
  then show "children_known (names_of p) (snd (restart m s)) \<and> round_law ra \<and> entries_named (pr_entries p)"
    using restart_business_known [of p s ra m, OF _ _ _ surjective_pairing] by (auto simp: backend_deps_def)
next
  fix s :: master and restart_log' log_pid
  assume "has_log_module (backend_deps ra p pipes)" "restart_log_module (backend_deps ra p pipes) = Some restart_log'"
    "children_known (names_of p) s \<and> round_law ra \<and> entries_named (pr_entries p)"
  then show "children_known (names_of p) (fst (snd (restart_log' s log_pid))) \<and> round_law ra \<and> entries_named (pr_entries p)"
    by (cases "restart_log (ra_log ra) p pipes s log_pid")
      (auto simp: backend_deps_def round_law_def dest!: restart_log_known [rotated -1])
qed simp

lemma round_known:
  assumes "children_known (names_of p) s" "round_law ra" "entries_named (pr_entries p)"
    "monitor_iteration (backend_deps ra p pipes) (ra_obs ra) (collected (ra_obs ra) s, pid) = (res, acts, (s1, pid1))"
  shows "children_known (names_of p) s1"
proof -
  have "children_known (names_of p) (s\<lparr>os_children := remove1 q (os_children s)\<rparr>)" if "pid_to_module s q = None" for q
  proof -
    have "q \<notin> set (os_children s)"
      using that assms(1) unfolding children_known_def by (metis domIff)
    then show ?thesis
      using assms(1) by (simp add: remove1_idem)
  qed
  then show ?thesis
    using backend_hooks.iteration_keeps [of "ra_obs ra" p "collected (ra_obs ra) s" ra pipes pid] assms collect_known [OF assms(1)]
    by (auto simp: collected_def split: wait_result.splits)
qed

section \<open>The whole program\<close>

definition backend_inv :: "string set \<Rightarrow> posix_shm \<Rightarrow> backend \<Rightarrow> bool" where
  "backend_inv names shm b \<longleftrightarrow> children_known names (bk_master b) \<and> managed_inv shm (bk_plane b)"

lemma backend_inv_plane: "backend_inv names shm b \<Longrightarrow> managed_inv shm (bk_plane b)"
  by (simp add: backend_inv_def)

lemma backend_inv_master:
  "backend_inv names shm b \<Longrightarrow> children_known names s \<Longrightarrow> backend_inv names shm (b\<lparr>bk_master := s\<rparr>)"
  by (simp add: backend_inv_def)

lemma close_pipes_inv [simp]: "backend_inv names shm (close_pipes b) = backend_inv names shm b"
  by (simp add: backend_inv_def close_pipes_def split: prod.split)

lemma close_log_pipe_inv [simp]: "backend_inv names shm (close_log_pipe n b) = backend_inv names shm b"
  by (simp add: backend_inv_def close_log_pipe_def split: option.split)

lemma redirect_inv [simp]: "backend_inv names shm (redirect_own_stderr b) = backend_inv names shm b"
  by (simp add: backend_inv_def redirect_own_stderr_def split: option.split)

lemma take_offline_frame:
  assumes "take_offline sa p pid b = Some b1"
  shows "bk_master b1 = bk_master b" "managed_inv shm (bk_plane b1) = managed_inv shm (bk_plane b)"
proof -
  obtain cp s where plane: "bk_plane b = (cp, s)" by fastforce
  obtain n s1 where t: "TakeAllConsumersOfflineForProcessPid sa pid (pr_topology p) (pr_payload_bytes p) cp s = Inr (n, s1)"
    and b1: "b1 = b\<lparr>bk_plane := (cp, s1)\<rparr>"
    using assms by (auto simp: take_offline_def plane split: sum.splits)
  show "bk_master b1 = bk_master b" "managed_inv shm (bk_plane b1) = managed_inv shm (bk_plane b)"
    using take_all_dom [OF t] by (simp_all add: b1 plane managed_inv_def)
qed

lemma take_offline_inv: "take_offline sa p pid b = Some b1 \<Longrightarrow> backend_inv names shm b1 = backend_inv names shm b"
  by (simp add: backend_inv_def take_offline_frame)

lemma run_hooks_inv: "run_hooks sa p acts b = Some b1 \<Longrightarrow> backend_inv names shm b1 = backend_inv names shm b"
  by (induction sa p acts b rule: run_hooks.induct) (auto simp: take_offline_inv split: option.splits)

lemma backend_round_inv:
  assumes "backend_round p ra b = Inr (on, b1)" "backend_inv (names_of p) shm b" "round_law ra" "entries_named (pr_entries p)"
  shows "backend_inv (names_of p) shm b1"
proof -
  obtain res acts s1 pid1 where it: "monitor_iteration (backend_deps ra p (bk_pipes b)) (ra_obs ra)
      (collected (ra_obs ra) (bk_master b), bk_log_pid b) = (res, acts, (s1, pid1))"
    by (metis prod.collapse)
  have "run_hooks (ra_segments ra) p acts (b\<lparr>bk_master := s1, bk_log_pid := pid1\<rparr>) = Some b1"
    using assms(1) by (auto simp: backend_round_def it split: option.splits loop_end.splits)
  moreover have "children_known (names_of p) s1"
    using assms(2) round_known [OF _ assms(3,4) it] by (simp add: backend_inv_def)
  ultimately show ?thesis
    using assms(2) run_hooks_inv by (fastforce simp: backend_inv_def)
qed

lemma backend_loop_inv:
  assumes "backend_loop p rounds b = Some (Inr b1)" "backend_inv (names_of p) shm b" "\<forall>ra \<in> set rounds. round_law ra"
    "entries_named (pr_entries p)"
  shows "backend_inv (names_of p) shm b1"
  using assms
proof (induction rounds arbitrary: b)
  case (Cons ra ras)
  obtain on b2 where round1: "backend_round p ra b = Inr (on, b2)"
    using Cons.prems(1) by (auto split: sum.splits)
  have "backend_inv (names_of p) shm b2"
    using backend_round_inv [OF round1 Cons.prems(2) _ assms(4)] Cons.prems(3) by simp
  then show ?case
    using Cons round1 by (cases on) auto
qed simp

text \<open>The shutdown: the last loop leaves no module with a child.\<close>

lemma terminate_known: "backend_inv names shm (terminate_children p b) = backend_inv names shm b"
proof -
  define f where "f = (\<lambda>(name :: string, entry :: ParsedModuleLaunchEntry) (b :: backend). case ChildPidOf name (bk_master b) of
      None \<Rightarrow> b | Some pid \<Rightarrow> b\<lparr>bk_master := call [SendSignal pid SIGTERM] (bk_master b)\<rparr>)"
  have step: "backend_inv names shm (f e b) = backend_inv names shm b" for e b
    by (cases e) (simp add: f_def backend_inv_def split: option.split)
  have "backend_inv names shm (fold f es b) = backend_inv names shm b" for es
    by (induction es arbitrary: b) (simp_all add: step)
  then show ?thesis
    by (simp add: terminate_children_def f_def)
qed

lemma collect_inv:
  assumes "take_offline sa p q (b\<lparr>bk_master := s1\<rparr>) = Some b1" "backend_inv names shm b"
    "children_known names (snd (ReapChildProcess pid s1))"
  shows "backend_inv names shm (b1\<lparr>bk_master := snd (ReapChildProcess pid (bk_master b1))\<rparr>)"
  using assms take_offline_frame [OF assms(1)] by (simp add: backend_inv_def)

lemma graceful_window_inv:
  assumes "graceful_window p win b = Some b1" "backend_inv names shm b"
  shows "backend_inv names shm b1"
  using assms
proof (induction p win b rule: graceful_window.induct)
  case (2 p pid sa rest b)
  let ?s = "(bk_master b)\<lparr>os_children := remove1 pid (os_children (bk_master b))\<rparr>"
  show ?case
  proof (cases "pid \<le> 0")
    case False
    then obtain b2 where t: "take_offline sa p (word_of_int pid) (b\<lparr>bk_master := ?s\<rparr>) = Some b2"
      using "2.prems"(1) by (auto split: option.splits)
    have "children_known names (snd (ReapChildProcess pid ?s))"
      using "2.prems"(2) by (intro collect_known) (simp add: backend_inv_def)
    then show ?thesis
      using "2.IH"(2) [OF False t] "2.prems" False t collect_inv [OF t] by simp
  qed (use 2 in simp)
qed simp

lemma kill_lingering_inv:
  assumes "kill_lingering sa p es b = Some b1" "backend_inv names shm b"
  shows "backend_inv names shm b1 \<and> dom (module_to_pid (bk_master b1)) \<subseteq> dom (module_to_pid (bk_master b)) - fst ` set es"
  using assms
proof (induction sa p es b rule: kill_lingering.induct)
  case (2 sa p name entry rest b)
  show ?case
  proof (cases "ChildPidOf name (bk_master b)")
    case None
    then show ?thesis
      using 2 by (auto simp: ChildPidOf_def)
  next
    case (Some pid)
    let ?s = "await_child pid (call [SendSignal pid SIGKILL] (bk_master b))"
    obtain b2 where t: "take_offline sa p (word_of_int pid) (b\<lparr>bk_master := ?s\<rparr>) = Some b2"
      using "2.prems"(1) Some by (auto split: option.splits)
    have known: "children_known names (bk_master b)"
      using "2.prems"(2) by (simp add: backend_inv_def)
    have reap: "children_known names (snd (ReapChildProcess pid ?s))"
      using end_child_known [OF known] by (simp add: end_child_def)
    have "pid_to_module (bk_master b) pid = Some name"
      using Some known by (simp add: ChildPidOf_def children_known_def table_inv_def)
    then have gone: "dom (module_to_pid (snd (ReapChildProcess pid ?s))) \<subseteq> dom (module_to_pid (bk_master b)) - {name}"
      using Some by (auto simp: ReapChildProcess_def await_child_def ChildPidOf_def split: if_splits)
    let ?b3 = "b2\<lparr>bk_master := snd (ReapChildProcess pid (bk_master b2))\<rparr>"
    have "backend_inv names shm b1 \<and> dom (module_to_pid (bk_master b1)) \<subseteq> dom (module_to_pid (bk_master ?b3)) - fst ` set rest"
      using "2.IH"(2) [OF Some t] "2.prems" Some t collect_inv [OF t "2.prems"(2) reap] by simp
    then show ?thesis
      using gone unfolding backend.simps take_offline_frame(1) [OF t] by simp blast
  qed
qed simp

text \<open>The start.\<close>

lemma module_entries_named: "entries_named (module_entries_of plan)"
proof -
  have "entries_named es \<Longrightarrow> entries_named (fold (\<lambda>m entries. emplace (me_module_name m) m entries) ms es)" for ms es
  proof (induction ms arbitrary: es)
    case (Cons m ms)
    have "entries_named (emplace (me_module_name m) m es)"
      using Cons.prems by (auto simp: entries_named_def emplace_def)
    then show ?case
      using Cons.IH by simp
  qed simp
  from this [of "[]" "lp_modules plan"] show ?thesis
    by (simp add: module_entries_of_def) (simp add: entries_named_def)
qed

lemma provision_files_managed:
  assumes "ProvisionChannelTopologyFromModuleConfigs files sa open_fd configs cfg (cp, shm) = Inr (ok, plane)"
    "cp_managed_posix_names cp = {}"
  shows "managed_inv shm plane"
proof (cases "BuildChannelTopologyIndexFromFiles files configs")
  case (Inr topo)
  show ?thesis
  proof (cases "ProvisionChannelTopology sa open_fd topo cfg (cp, shm)")
    case (Inr res)
    then have "ProvisionChannelTopology sa open_fd topo cfg (cp, shm) = Inr (ok, plane)"
      using assms(1) \<open>_ = Inr topo\<close> by (simp add: ProvisionChannelTopologyFromModuleConfigs_def)
    then show ?thesis
      by (rule provision_managed) (rule assms(2))
  qed (use assms Inr in \<open>simp add: ProvisionChannelTopologyFromModuleConfigs_def\<close>)
qed (use assms in \<open>simp add: ProvisionChannelTopologyFromModuleConfigs_def\<close>)

lemma prepare_inv:
  assumes "prepare ans argv flags env (fresh_backend shm) = Inr (p, b1)"
  shows "backend_inv (names_of p) shm b1" "entries_named (pr_entries p)" "bk_master b1 = fresh_master"
    "\<exists>plan. pr_entries p = module_entries_of plan \<and> pr_specs p = supervisor_specs_of plan"
proof -
  obtain plan files env1 flags2 where "provision_plan ans plan files env1 flags2 (fresh_backend shm) = Inr (p, b1)"
    using assms by (auto simp: prepare_def Let_def split: if_splits sum.splits option.splits)
  then obtain plane topology where
    prov: "ProvisionChannelTopologyFromModuleConfigs (ba_files ans) (ba_segments ans) (ba_open_fd ans) files
        (middleware_config_of plan) (bk_plane (fresh_backend shm)) = Inr (True, plane)"
    and b1: "b1 = (fresh_backend shm)\<lparr>bk_plane := plane\<rparr>"
    and p: "pr_entries p = module_entries_of plan" "pr_specs p = supervisor_specs_of plan"
    by (auto simp: provision_plan_def Let_def split: sum.splits config_error.splits bool.splits if_splits)
  have "managed_inv shm plane"
    by (rule provision_files_managed [OF prov [unfolded fresh_backend_def backend.simps]]) (simp add: new_control_plane_def)
  then show "backend_inv (names_of p) shm b1"
    by (simp add: backend_inv_def b1 fresh_backend_def fresh_master_def fresh_supervisor_def children_known_def table_inv_def
        supervisor.defs master.defs)
  show "entries_named (pr_entries p)"
    using module_entries_named by (simp add: p)
  show "bk_master b1 = fresh_master"
    by (simp add: b1 fresh_backend_def)
  show "\<exists>plan. pr_entries p = module_entries_of plan \<and> pr_specs p = supervisor_specs_of plan"
    using p by blast
qed

lemma backend_inv_pipes [simp]: "backend_inv names shm (b\<lparr>bk_pipes := ps\<rparr>) = backend_inv names shm b"
  by (simp add: backend_inv_def)

lemma create_pipes_inv: "backend_inv names shm (snd (create_pipes answer ns b)) = backend_inv names shm b"
  by (induction answer ns b rule: create_pipes.induct) (simp_all split: sum.split)

lemma setup_log_pipes_inv: "setup_log_pipes ans p b = Inr b1 \<Longrightarrow> backend_inv names shm b1 = backend_inv names shm b"
  using create_pipes_inv [of names shm "ba_pipe ans" "filter (\<lambda>n. n \<noteq> kLogModuleName) (map fst (pr_entries p)) @ [''backend_main'']" b]
  by (auto simp: setup_log_pipes_def split: if_splits prod.splits bool.splits)

lemma start_log_module_inv:
  assumes "start_log_module lg p b = Inr b1" "backend_inv (names_of p) shm b" "kernel_law (lg_fork lg)" "entries_named (pr_entries p)"
  shows "backend_inv (names_of p) shm b1"
proof (cases "has_log p")
  case True
  let ?e = "the (map_of (pr_entries p) kLogModuleName)"
  have e: "me_module_name ?e \<in> names_of p"
    using True entries_named_lookup [OF assms(4)] by (auto simp: has_log_def)
  obtain r flags s1 where f: "ForkLogModule (lg_fork lg) ?e (lg_eventfd lg) (bk_pipes b) (bk_master b) = (r, flags, s1)"
    by (metis prod.collapse)
  have known: "children_known (names_of p) s1"
    using log_fork_known [OF _ assms(3) e f] assms(2) by (simp add: backend_inv_def)
  obtain pid where "b1 = redirect_own_stderr (b\<lparr>bk_master := call [CloseFd (lg_eventfd lg)] s1, bk_log_pid := Some pid\<rparr>)"
    using assms(1) True by (auto simp: start_log_module_def f Let_def split: if_splits sum.splits)
  then show ?thesis
    using assms(2) known by (simp add: backend_inv_def [of _ _ "b\<lparr>bk_master := _, bk_log_pid := _\<rparr>"]) (simp add: backend_inv_def)
qed (use assms in \<open>simp add: start_log_module_def\<close>)

lemma launch_batch_inv:
  assumes "launch_batch answers entries batch b = Inr b1" "backend_inv names shm b" "\<And>m. kernel_law (la_fork (answers m))"
    "\<And>m e. map_of entries m = Some e \<Longrightarrow> me_module_name e \<in> names"
  shows "backend_inv names shm b1"
  using assms(1,2)
proof (induction batch arbitrary: b)
  case (Cons spec batch)
  obtain e where e: "map_of entries (spec_name spec) = Some e"
    using Cons.prems(1) by (auto split: option.splits)
  obtain r s1 where l: "LaunchOneModule (answers (spec_name spec)) e (bk_master b) = (r, s1)" by fastforce
  have "backend_inv names shm (b\<lparr>bk_master := s1\<rparr>)"
    using launch_known [OF _ assms(3) assms(4) [OF e] l] Cons.prems(2) by (simp add: backend_inv_def)
  then show ?case
    using Cons.IH Cons.prems(1) by (cases r) (auto simp: e l)
qed simp

lemma launch_batches_inv:
  assumes "launch_batches answers entries batches b = Inr b1" "backend_inv names shm b" "\<And>m. kernel_law (la_fork (answers m))"
    "\<And>m e. map_of entries m = Some e \<Longrightarrow> me_module_name e \<in> names"
  shows "backend_inv names shm b1"
  using assms(1,2)
proof (induction batches arbitrary: b)
  case (Cons batch batches)
  then obtain b2 where b2: "launch_batch answers entries batch b = Inr b2" "launch_batches answers entries batches b2 = Inr b1"
    by (auto split: if_splits)
  have "backend_inv names shm b2"
    by (rule launch_batch_inv [OF b2(1) Cons.prems(2) assms(3)]) (rule assms(4))
  with b2(2) show ?case
    by (rule Cons.IH)
qed simp

text \<open>Every business module has its entry, so the lookups of the launch never miss.\<close>

lemma module_entries_keys: "fst ` set (module_entries_of plan) = me_module_name ` set (lp_modules plan)"
proof -
  have "fst ` set (fold (\<lambda>m entries. emplace (me_module_name m) m entries) ms es) = fst ` set es \<union> me_module_name ` set ms"
    for ms :: "ParsedModuleLaunchEntry list" and es
    by (induction ms arbitrary: es) (auto simp: emplace_def)
  then show ?thesis
    by (simp add: module_entries_of_def)
qed

lemma business_entries_lookup:
  assumes "pr_entries p = module_entries_of plan" "pr_specs p = supervisor_specs_of plan"
  shows "map_of (business_entries p) m = (if m \<in> spec_name ` set (business_specs p) then map_of (pr_entries p) m else None)"
proof -
  have here: "\<exists>e. map_of (pr_entries p) (spec_name sp) = Some e" if "sp \<in> set (business_specs p)" for sp
  proof -
    have "spec_name sp \<in> fst ` set (pr_entries p)"
      using that by (auto simp: assms module_entries_keys business_specs_def supervisor_specs_of_def)
    then show ?thesis
      by (metis map_of_eq_None_iff not_None_eq)
  qed
  have "map_of (fold (\<lambda>sp. assign (spec_name sp) (the (map_of (pr_entries p) (spec_name sp)))) sps es) m =
      (if m \<in> spec_name ` set sps then Some (the (map_of (pr_entries p) m)) else map_of es m)"
    for sps :: "SupervisorModuleSpec list" and es
    by (induction sps arbitrary: es) auto
  then show ?thesis
    using here by (auto simp: business_entries_def)
qed

lemma launch_modules_inv:
  assumes "launch_modules shuffle g answers p b = Inr b1" "backend_inv (names_of p) shm b" "\<And>m. kernel_law (la_fork (answers m))"
    "entries_named (pr_entries p)" "pr_entries p = module_entries_of plan" "pr_specs p = supervisor_specs_of plan"
  shows "backend_inv (names_of p) shm b1"
proof -
  obtain batches g1 s1 where bs: "BuildInitialStartupBatches shuffle (business_specs p) g (bk_master b) = (batches, g1, s1)"
    by (metis prod.collapse)
  have "module_to_pid s1 = module_to_pid (bk_master b) \<and> pid_to_module s1 = pid_to_module (bk_master b) \<and> os_children s1 = os_children (bk_master b)"
  proof -
    have "module_to_pid (snd (snd (startup_batches shuffle ms ps h s))) = module_to_pid s \<and>
        pid_to_module (snd (snd (startup_batches shuffle ms ps h s))) = pid_to_module s \<and>
        os_children (snd (snd (startup_batches shuffle ms ps h s))) = os_children s" for ms ps h and s :: master
      by (induction ps arbitrary: h s) (simp_all add: trace_startup_def)
    then show ?thesis
      using bs unfolding BuildInitialStartupBatches_def by (metis snd_conv)
  qed
  then have "backend_inv (names_of p) shm (b\<lparr>bk_master := s1\<rparr>)"
    using assms(2) children_known_cong [of s1 "bk_master b" "names_of p"] by (simp add: backend_inv_def)
  moreover have "launch_batches answers (business_entries p) batches (b\<lparr>bk_master := s1\<rparr>) = Inr b1"
    using assms(1) by (simp add: launch_modules_def bs)
  moreover have "me_module_name e \<in> names_of p" if "map_of (business_entries p) m = Some e" for m e
    using that entries_named_lookup [OF assms(4)] by (simp add: business_entries_lookup [OF assms(5,6)] split: if_splits)
  ultimately show ?thesis
    using launch_batches_inv [of answers "business_entries p" batches "b\<lparr>bk_master := s1\<rparr>" b1 "names_of p" shm] assms(3) by blast
qed

lemma backend_start_inv:
  assumes "backend_start ans shuffle g argv flags env (fresh_backend shm) = Inr (p, b)"
    and "kernel_law (lg_fork (ba_log ans))" "\<And>m. kernel_law (la_fork (ba_launch ans m))"
  shows "backend_inv (names_of p) shm b" "entries_named (pr_entries p)"
proof -
  obtain b1 b2 b3 where pr: "prepare ans argv flags env (fresh_backend shm) = Inr (p, b1)"
    and st: "setup_log_pipes ans p b1 = Inr b2" "start_log_module (ba_log ans) p b2 = Inr b3"
    "launch_modules shuffle g (ba_launch ans) p b3 = Inr b"
    using assms(1) by (auto simp: backend_start_def split: prod.splits)
  note start = prepare_inv [OF pr]
  obtain plan where plan: "pr_entries p = module_entries_of plan" "pr_specs p = supervisor_specs_of plan"
    using start(4) by blast
  have "backend_inv (names_of p) shm b3"
    using start_log_module_inv [OF st(2) _ assms(2) start(2)] setup_log_pipes_inv [OF st(1)] start(1) by simp
  then show "backend_inv (names_of p) shm b"
    by (rule launch_modules_inv [OF st(3) _ assms(3) start(2) plan])
  show "entries_named (pr_entries p)"
    by (rule start(2))
qed

text \<open>Only the shutdown ends with code 0, and the loop itself ends in no other code.\<close>

lemma launch_batches_codes: "launch_batches answers entries batches b = Inl (Exit c b1) \<Longrightarrow> c \<noteq> 0"
proof (induction batches arbitrary: b)
  case (Cons batch batches)
  have "launch_batch answers entries batch b = Inl (Exit c b1) \<Longrightarrow> c \<noteq> 0" for b
    by (induction batch arbitrary: b) (auto split: option.splits sum.splits prod.splits)
  with Cons show ?case
    by (auto simp: also_then_Inl split: if_splits)
qed simp

lemma start_codes:
  assumes "backend_start ans shuffle g argv flags env b0 = Inl (Exit c b)"
  shows "c \<noteq> 0"
proof -
  have 1: "prepare ans argv flags env b0 \<noteq> Inl (Exit 0 b)"
    by (auto simp: prepare_def provision_plan_def Let_def split: sum.splits config_error.splits bool.splits)
  have 2: "setup_log_pipes ans p b1 \<noteq> Inl (Exit 0 b)" for p :: "'a prepared" and b1
    by (auto simp: setup_log_pipes_def split: prod.splits bool.splits)
  have 3: "start_log_module (ba_log ans) p b1 \<noteq> Inl (Exit 0 b)" for p :: "'a prepared" and b1
    by (auto simp: start_log_module_def Let_def split: sum.splits prod.splits)
  have 4: "launch_modules shuffle g (ba_launch ans) p b1 \<noteq> Inl (Exit 0 b)" for p :: "'a prepared" and b1
    using launch_batches_codes by (fastforce simp: launch_modules_def split: prod.splits)
  show ?thesis
    using assms 1 2 3 4 by (cases "c = 0") (auto simp: backend_start_def also_then_Inl split: prod.splits)
qed

lemma loop_ends: "backend_loop p rounds b = Some (Inl e) \<Longrightarrow> e = Terminated"
proof (induction rounds arbitrary: b)
  case (Cons ra ras)
  have "backend_round p ra b = Inl e \<Longrightarrow> e = Terminated"
    by (auto simp: backend_round_def split: prod.splits option.splits loop_end.splits)
  with Cons show ?case
    by (auto split: sum.splits prod.splits bool.splits)
qed simp


text \<open>
  One module, whose process fails once and is restarted; the restarted one outlives the shutdown
  window and is killed.
\<close>

definition small_plan :: json where
  "small_plan = JObject
     [(''modules'', JObject [(''cam'', JObject
        [(''module_name'', JString ''cam''),
         (''resource'', JObject
            [(''startup_priority'', JInt 1), (''cpu_set'', JString ''0''), (''restart_backoff_ms'', JInt 5), (''restart_max_retries'', JInt 3),
             (''restart_window_ms'', JInt 1000), (''restart_fuse_ms'', JInt 1000), (''ready_timeout_ms'', JInt 100)]),
         (''module_params'', JObject []), (''io_channels_config_path'', JString ''io'')])])]"

definition plan_small_files :: "string \<Rightarrow> string option" where
  "plan_small_files path =
     (if path = ''plan'' then Some (json_text small_plan)
      else if path = ''io'' then Some (json_text (JObject [(''input_channel'', JObject []), (''output_channel'', JObject [])]))
      else None)"

definition least_pid :: "int list \<Rightarrow> int" where
  "least_pid live = 1 + Max (insert 99 (set live))"

lemma least_pid_law: "kernel_law least_pid"
  unfolding kernel_law_def
proof
  fix live :: "int list"
  have "99 \<le> Max (insert 99 (set live))" "\<forall>q \<in> set live. q \<le> Max (insert 99 (set live))"
    by simp_all
  then show "least_pid live < 0 \<or> 0 < least_pid live \<and> least_pid live \<notin> set live"
    unfolding least_pid_def by (smt (verit))
qed

definition small_launch :: launch_answers where
  "small_launch = \<lparr>la_pipe = Inr (3, 4), la_fork = least_pid, la_poll = (\<lambda>_. PollReadable (message_bytes ready_message))\<rparr>"

definition small_log :: log_answers where
  "small_log = \<lparr>lg_eventfd = 5, lg_fork = least_pid, lg_poll = 1, lg_read = (8, 1)\<rparr>"

definition small_answers :: "unit backend_answers" where
  "small_answers =
     \<lparr>ba_files = plan_small_files, ba_registered = [''cam''], ba_flag_known = (\<lambda>_. False), ba_set_flag = (\<lambda>_ v fl. (fl, v)),
      ba_set_minloglevel = (\<lambda>_ fl. fl), ba_setenv = (\<lambda>_ _. 0), ba_segments = (\<lambda>_. all_answers), ba_open_fd = (\<lambda>_ _. 10),
      ba_pipe = (\<lambda>_. Inr (6, 7)), ba_log = small_log, ba_launch = (\<lambda>_. small_launch)\<rparr>"

definition small_round :: "bool \<Rightarrow> wait_result \<Rightarrow> round_answers" where
  "small_round stop res =
     \<lparr>ra_obs = \<lparr>shutdown_at_test = stop, waited = res, shutdown_at_log = False, now_ms_obs = 0\<rparr>,
      ra_segments = (\<lambda>_. all_answers), ra_launch = (\<lambda>_. small_launch), ra_log = small_log\<rparr>"

definition small_run :: "backend_end option" where
  "small_run = backend_main small_answers (\<lambda>(g :: unit) xs. (xs, g)) () [''backend'', ''plan''] () []
     [small_round False (ChildExit 100 (ExitedWith 1)), small_round True NoChildYet] [(0, \<lambda>_. all_answers)] (\<lambda>_. all_answers) Map.empty"

lemma small_run_ends:
  "case small_run of Some (Exit c b) \<Rightarrow> c = 0 \<and>
       filter (\<lambda>c. case c of CloseFd fd \<Rightarrow> False | _ \<Rightarrow> True) (os_calls (bk_master b)) =
         [Forked ''cam'' 100, Forked ''cam'' 100, SendSignal 100 15, SendSignal 100 9, Await 100]
     | _ \<Rightarrow> False"
  by code_simp


section \<open>The order of the start\<close>

definition forked_names :: "master \<Rightarrow> string list" where
  "forked_names s = concat (map (\<lambda>c. case c of Forked name pid \<Rightarrow> [name] | _ \<Rightarrow> []) (os_calls s))"

lemma forked_names_call [simp]: "forked_names (call cs s) = forked_names s @ concat (map (\<lambda>c. case c of Forked name pid \<Rightarrow> [name] | _ \<Rightarrow> []) cs)"
  by (simp add: forked_names_def)

lemma forked_names_close [simp]: "forked_names (parent_close fd s) = forked_names s"
  by (simp add: parent_close_def CloseFdIfOpen_def)

definition ready :: "string \<Rightarrow> master \<Rightarrow> bool" where
  "ready m s \<longleftrightarrow> map_option lstate (LifecycleOf m s) = Some kReady"

lemma launch_ready:
  assumes "LaunchOneModule la entry s = (Inr u, s1)"
  shows "ready (me_module_name entry) s1" "ready m s \<Longrightarrow> ready m s1"
    "forked_names s1 = forked_names s @ [me_module_name entry]"
proof -
  let ?name = "me_module_name entry"
  obtain rfd wfd where fds: "la_pipe la = Inr (rfd, wfd)"
    using assms by (auto simp: LaunchOneModule_def CreateParentManagedPipe_def split: sum.splits)
  obtain r s2 where fork: "fork_child (la_fork la) ?name s = (r, s2)" by fastforce
  obtain ok s3 where wait: "WaitForReadyOrTransitionFailed (la_poll la) ?name rfd (rs_ready_timeout_ms (me_resource_schema entry))
      (parent_close wfd s2) = (ok, s3)" by fastforce
  have r: "r = Inr ()" and s1: "ok" "s1 = parent_close rfd s3"
    using assms by (cases r; cases ok; simp add: LaunchOneModule_def CreateParentManagedPipe_def fds fork wait Let_def)+
  have s3: "s3 = TransitionToReady ?name (TransitionToIniting ?name (parent_close wfd s2))"
    using wait s1(1) by (auto simp: WaitForReadyOrTransitionFailed_def Let_def split: sum.splits)
  have life: "LifecycleOf m s3 = (if m = ?name then Some \<lparr>lstate = kReady, failure_reason = []\<rparr> else LifecycleOf m s2)" for m
    unfolding s3 transition_defs by (simp add: LifecycleOf_def set_lifecycle_def parent_close_def CloseFdIfOpen_def call_def)
  have fork_step: "m \<noteq> ?name \<Longrightarrow> LifecycleOf m s2 = LifecycleOf m s" "forked_names s2 = forked_names s @ [?name]" for m
    using fork r
    by (auto simp: fork_child_def ForkModuleProcess_def transition_defs LifecycleOf_def set_lifecycle_def call_def forked_names_def
        split: if_splits)
  show "ready ?name s1" "ready m s \<Longrightarrow> ready m s1"
    using life fork_step by (auto simp: ready_def s1)
  have "forked_names s3 = forked_names s2"
    unfolding s3 transition_defs by (simp add: forked_names_def set_lifecycle_def parent_close_def CloseFdIfOpen_def call_def)
  then show "forked_names s1 = forked_names s @ [?name]"
    using fork_step by (simp add: s1)
qed

lemma launch_batch_ready:
  assumes "launch_batch answers entries batch b = Inr b1" "\<And>m e. map_of entries m = Some e \<Longrightarrow> me_module_name e = m"
  shows "(\<forall>sp \<in> set batch. ready (spec_name sp) (bk_master b1)) \<and> (\<forall>m. ready m (bk_master b) \<longrightarrow> ready m (bk_master b1)) \<and>
    forked_names (bk_master b1) = forked_names (bk_master b) @ map spec_name batch"
  using assms(1)
proof (induction batch arbitrary: b)
  case (Cons sp batch)
  obtain e where e: "map_of entries (spec_name sp) = Some e"
    using Cons.prems by (auto split: option.splits)
  obtain u s1 where l: "LaunchOneModule (answers (spec_name sp)) e (bk_master b) = (Inr u, s1)"
    using Cons.prems by (auto simp: e split: sum.splits prod.splits)
  have rest: "launch_batch answers entries batch (b\<lparr>bk_master := s1\<rparr>) = Inr b1"
    using Cons.prems by (simp add: e l)
  show ?case
    using Cons.IH [OF rest] launch_ready [OF l] assms(2) [OF e] by simp
qed simp

lemma launch_batch_stops:
  assumes "launch_batch answers entries batch b = Inl (Exit c b1)" "\<forall>sp \<in> set batch. map_of entries (spec_name sp) \<noteq> None"
  shows "c = 6"
  using assms
proof (induction batch arbitrary: b)
  case (Cons sp batch)
  then obtain e where e: "map_of entries (spec_name sp) = Some e"
    by auto
  obtain r s1 where l: "LaunchOneModule (answers (spec_name sp)) e (bk_master b) = (r, s1)" by fastforce
  show ?case
    using Cons by (cases r) (auto simp: e l)
qed simp

lemma launch_batches_order:
  assumes "\<forall>m e. map_of entries m = Some e \<longrightarrow> me_module_name e = m"
    "\<forall>sp \<in> set (concat batches). map_of entries (spec_name sp) \<noteq> None"
  shows "launch_batches answers entries batches b = Inl (Exit c b1) \<Longrightarrow> c = 6"
    and "launch_batches answers entries batches b = Inr b1 \<Longrightarrow>
      (\<forall>sp \<in> set (concat batches). ready (spec_name sp) (bk_master b1)) \<and> (\<forall>m. ready m (bk_master b) \<longrightarrow> ready m (bk_master b1)) \<and>
      forked_names (bk_master b1) = forked_names (bk_master b) @ map spec_name (concat batches)"
proof -
  have "(launch_batches answers entries batches b = Inl (Exit c b1) \<longrightarrow> c = 6) \<and>
    (launch_batches answers entries batches b = Inr b1 \<longrightarrow>
      (\<forall>sp \<in> set (concat batches). ready (spec_name sp) (bk_master b1)) \<and> (\<forall>m. ready m (bk_master b) \<longrightarrow> ready m (bk_master b1)) \<and>
      forked_names (bk_master b1) = forked_names (bk_master b) @ map spec_name (concat batches))"
    using assms(2)
  proof (induction batches arbitrary: b)
    case (Cons batch batches)
    show ?case
    proof (cases "launch_batch answers entries batch b")
      case (Inl e)
      then show ?thesis
        using launch_batch_stops [of answers entries batch b c b1] Cons.prems by auto
    next
      case (Inr b2)
      note one = launch_batch_ready [OF Inr assms(1) [rule_format]]
      have "CanReleaseNextPriorityBatch (map spec_name batch) (bk_master b2)"
        using one by (auto simp: CanReleaseNextPriorityBatch_def list_all_iff ready_def split: option.splits)
      then have "launch_batches answers entries (batch # batches) b = launch_batches answers entries batches b2"
        by (simp add: Inr)
      then show ?thesis
        using Cons.IH [of b2] Cons.prems one by auto
    qed
  qed simp
  then show "launch_batches answers entries batches b = Inl (Exit c b1) \<Longrightarrow> c = 6"
    "launch_batches answers entries batches b = Inr b1 \<Longrightarrow>
      (\<forall>sp \<in> set (concat batches). ready (spec_name sp) (bk_master b1)) \<and> (\<forall>m. ready m (bk_master b) \<longrightarrow> ready m (bk_master b1)) \<and>
      forked_names (bk_master b1) = forked_names (bk_master b) @ map spec_name (concat batches)"
    by blast+
qed

lemma batches_sorted:
  assumes "list_all2 (\<lambda>p b. \<forall>m \<in> set b. startup_priority m = p) ps bs" "sorted ps"
  shows "sorted (map startup_priority (concat bs))"
proof -
  have "sorted (map startup_priority (concat bs)) \<and> (\<forall>m \<in> set (concat bs). startup_priority m \<in> set ps)"
    using assms
  proof (induction ps bs rule: list_all2_induct)
    case (Cons p ps b bs)
    have "map startup_priority b = replicate (length b) p"
      using Cons.hyps(1) by (simp add: map_replicate_const [symmetric])
    then show ?case
      using Cons by (auto simp: sorted_append)
  qed simp
  then show ?thesis by blast
qed


definition two_modules :: ParsedLaunchPlan where
  "two_modules =
     (let entry = (\<lambda>name priority. \<lparr>me_modules_dict_key = name, me_module_name = name, me_resource = [],
            me_resource_schema = empty_schema\<lparr>rs_startup_priority := priority, rs_ready_timeout_ms := 100\<rparr>,
            me_module_params = [], me_io_path = ''io'', me_channels = empty_module name\<rparr>)
      in \<lparr>lp_path = ''plan'', lp_minloglevel = None, lp_slot_count = None, lp_slot_payload_bytes = None,
           lp_modules = [entry ''late'' 2, entry ''early'' 1], lp_topology = []\<rparr>)"

definition two_prepared :: "unit prepared" where
  "two_prepared = \<lparr>pr_entries = module_entries_of two_modules, pr_specs = supervisor_specs_of two_modules, pr_topology = [],
     pr_payload_bytes = 1024, pr_env = [], pr_flags = ()\<rparr>"

definition two_start :: "backend_end + backend" where
  "two_start = launch_modules (\<lambda>(g :: unit) xs. (xs, g)) () (\<lambda>_. small_launch) two_prepared (fresh_backend Map.empty)"

lemma two_start_run: "case two_start of Inr b \<Rightarrow> forked_names (bk_master b) = [''early'', ''late''] | _ \<Rightarrow> False"
  by code_simp


section \<open>What the other exits leave\<close>

text \<open>
  A log module whose READY value is wrong is left running: the start ends with code 11, its process
  neither stopped nor waited for.
\<close>

lemma wrong_ready_leaves_log_module:
  assumes "has_log p" "0 \<le> lg_eventfd lg" "0 < lg_poll lg" "snd (lg_read lg) \<noteq> 1"
    "ForkLogModule (lg_fork lg) (the (map_of (pr_entries p) kLogModuleName)) (lg_eventfd lg) (bk_pipes b) (bk_master b) = (Inr pid, flags, s1)"
    "pid \<noteq> 0"
  shows "\<exists>b1. start_log_module lg p b = Inl (Exit 11 b1) \<and> os_children (bk_master b1) = os_children s1"
  using assms by (simp add: start_log_module_def Let_def close_pipes_def split: prod.split)

text \<open>Code 6 leaves the modules that were already started running, and the segments in place.\<close>

lemma failed_start_leaves_children:
  assumes "map_of entries (spec_name sp) = Some e" "LaunchOneModule (answers (spec_name sp)) e (bk_master b) = (Inl err, s1)"
  shows "launch_batch answers entries (sp # batch) b = Inl (Exit 6 (b\<lparr>bk_master := s1\<rparr>))"
    "bk_plane (b\<lparr>bk_master := s1\<rparr>) = bk_plane b"
  using assms by simp_all

text \<open>The restart of the log module succeeds whatever its READY eventfd says.\<close>

lemma log_restart_ignores_ready:
  "restart_log (lg\<lparr>lg_poll := n, lg_read := r\<rparr>) p pipes s pid = restart_log lg p pipes s pid"
  by (simp add: restart_log_def split: prod.split sum.split)

end
