(* ===== verification/Dispatch_Properties.thy ===== *)
theory Dispatch_Properties
  imports Bus_Dispatch Ring_Properties
begin

text \<open>
  What one wake of the pump does: on a broadcast channel a dispatch hands the oldest waiting message
  to the handler and takes it off the queue; as many dispatches as the eventfd counted deliver the
  waiting messages in order.
\<close>

section \<open>The descriptor table is never touched by moving messages\<close>

definition fd_table :: "ring \<Rightarrow> int list \<times> u32" where
  "fd_table r = (notification_mappings r, notification_capacity (header r))"

lemma fd_table_slots: "same_but_slots r r' \<Longrightarrow> fd_table r' = fd_table r"
  by (simp add: fd_table_def same_but_slots_def)

lemma fd_table_upd [simp]:
  "fd_table (set_slot i m r) = fd_table r" "fd_table (set_consumer c k r) = fd_table r"
  "fd_table (write_payload off p r) = fd_table r"
  "notification_capacity h = notification_capacity (header r) \<Longrightarrow> fd_table (set_header h r) = fd_table r"
  by (simp_all add: fd_table_def set_slot_def set_consumer_def set_header_def write_payload_def)

lemma TryReclaimSlotIfSafe_fds [simp]: "fd_table (snd (TryReclaimSlotIfSafe i r)) = fd_table r"
  by (auto simp: TryReclaimSlotIfSafe_def Let_def fd_table_def set_slot_def set_header_def)

lemma reclaim_range_fds [simp]: "fd_table (snd (reclaim_range i k r)) = fd_table r"
proof (induction k arbitrary: i r)
  case (Suc k)
  then show ?case
    using TryReclaimSlotIfSafe_fds [of "of_nat i" r]
    by (cases "TryReclaimSlotIfSafe (of_nat i) r"; cases "reclaim_range (Suc i) k (snd (TryReclaimSlotIfSafe (of_nat i) r))")
       (auto simp: Let_def, metis snd_conv)
qed simp

lemma ReclaimCommittedSlots_fds [simp]: "fd_table (snd (ReclaimCommittedSlots r)) = fd_table r"
  by (simp add: ReclaimCommittedSlots_def)

lemma RegisterConsumer_fds [simp]: "fd_table (snd (RegisterConsumer pid c s r)) = fd_table r"
  by (simp add: RegisterConsumer_def Let_def cas_def)

lemma AddConsumerOnline_fds [simp]: "fd_table (snd (AddConsumerOnline pid c r)) = fd_table r"
  by (simp add: AddConsumerOnline_def Let_def)

lemma UnregisterConsumer_fds [simp]: "fd_table (snd (UnregisterConsumer c r)) = fd_table r"
  by (simp add: UnregisterConsumer_def Let_def)

lemma CompleteConsumerSlot_fds [simp]: "fd_table (snd (snd (CompleteConsumerSlot c i s k r))) = fd_table r"
  by (auto simp: CompleteConsumerSlot_def AdvanceConsumerCursor_def Let_def cas_def split: prod.splits bool.splits)

lemma ReservePublishSlot_fds [simp]: "fd_table (snd (ReservePublishSlotRingOrdered len r)) = fd_table r"
  by (auto simp: ReservePublishSlotRingOrdered_def Let_def cas_def fd_table_def set_slot_def set_header_def
      split: option.splits)

lemma reserve_loop_fds:
  "reserve_loop (replicate k idle) len r = Some (x, r') \<Longrightarrow> fd_table r' = fd_table r"
proof (induction k arbitrary: r)
  case 0
  then show ?case
    using ReservePublishSlot_fds [of len r] by (cases "ReservePublishSlotRingOrdered len r") (auto split: option.splits)
next
  case (Suc k)
  then show ?case
    using ReservePublishSlot_fds [of len r]
    by (cases "ReservePublishSlotRingOrdered len r") (auto simp: idle_def split: option.splits)
qed

lemma CommitSlot_fds [simp]: "fd_table (snd (CommitSlot i r)) = fd_table r"
  by (auto simp: CommitSlot_def Let_def cas_def fd_table_def set_slot_def set_header_def)

lemma publish_fds:
  assumes "PublishCommittedPayload (replicate k idle) ns p r = Some (out, r')"
  shows "fd_table r' = fd_table r"
proof (cases "reserve_loop (replicate k idle) (of_nat (length p)) r")
  case None
  then show ?thesis
    using assms by (simp add: PublishCommittedPayload_def split: if_splits)
next
  case (Some x)
  obtain res i r1 where x: "x = ((res, i), r1)" by (cases x) auto
  let ?r2 = "if ns > 0 then snd (RecordProducerBlockDuration ns r1) else r1"
  have "r' = r \<or> r' = snd (CommitSlot i (write_payload (unat (res_payload_offset res)) p ?r2))"
    using assms by (auto simp: PublishCommittedPayload_def Some x Let_def case_prod_beta split: if_splits)
  then show ?thesis
    using reserve_loop_fds [OF Some [unfolded x]] by (auto simp: RecordProducerBlockDuration_def)
qed

section \<open>One dispatch\<close>

definition same_subscriber :: "SubscriberEntry \<Rightarrow> SubscriberEntry \<Rightarrow> bool" where
  "same_subscriber a b \<longleftrightarrow> su_channel b = su_channel a \<and> su_consumer_index b = su_consumer_index a \<and>
     su_event_fd b = su_event_fd a \<and> su_stop b = su_stop a"

lemma same_subscriber_refl [simp]: "same_subscriber a a"
  by (simp add: same_subscriber_def)

lemma same_subscriber_trans: "same_subscriber a b \<Longrightarrow> same_subscriber b c \<Longrightarrow> same_subscriber a c"
  by (simp add: same_subscriber_def)

lemma remember_key_same [simp]: "same_subscriber s (remember_key key s)"
  by (simp add: remember_key_def same_subscriber_def split: prod.split)

lemma remember_key_index [simp]: "su_consumer_index (remember_key key s) = su_consumer_index s"
  using remember_key_same [of s key] by (simp add: same_subscriber_def)

lemma call_handler_simps [simp]:
  "ds_ring (call_handler throws e d) = ds_ring d" "ds_subscriber (call_handler throws e d) = ds_subscriber d"
  "ds_count (call_handler throws e d) = ds_count d" "ds_calls (call_handler throws e d) = ds_calls d @ [e]"
  by (simp_all add: call_handler_def)

lemma envelope_simps [simp]:
  "me_sequence (envelope_of res d) = res_sequence res" "me_delivery_id (envelope_of res d) = res_sequence res"
  "me_payload (envelope_of res d) = read_bytes res (ds_ring d)"
  by (simp_all add: envelope_of_def read_bytes_def)

abbreviation dispatch_queue :: "dispatch_state \<Rightarrow> u8 list list" where
  "dispatch_queue d \<equiv> pending (ds_ring d) (unat (su_consumer_index (ds_subscriber d)))"

abbreviation dispatch_online :: "dispatch_state \<Rightarrow> bool" where
  "dispatch_online d \<equiv> online (ds_ring d) (unat (su_consumer_index (ds_subscriber d)))"

abbreviation dispatch_cursor :: "dispatch_state \<Rightarrow> nat" where
  "dispatch_cursor d \<equiv> cursor (ds_ring d) (unat (su_consumer_index (ds_subscriber d)))"

text \<open>\<open>delivered k d d'\<close>: from \<open>d\<close> to \<open>d'\<close> the handler got the first \<open>k\<close> waiting messages and nothing else happened.\<close>

definition delivered :: "nat \<Rightarrow> dispatch_state \<Rightarrow> dispatch_state \<Rightarrow> bool" where
  "delivered k d d' \<longleftrightarrow> bus_inv (ds_ring d') \<and> same_frame (ds_ring d) (ds_ring d') \<and> fd_table (ds_ring d') = fd_table (ds_ring d) \<and>
     same_subscriber (ds_subscriber d) (ds_subscriber d') \<and>
     abs_bus (ds_ring d') = (\<lambda>c. if c = unat (su_consumer_index (ds_subscriber d)) then map_option (drop k) (abs_bus (ds_ring d) c) else abs_bus (ds_ring d) c) \<and>
     (\<exists>calls. ds_calls d' = ds_calls d @ calls \<and> map me_payload calls = take k (dispatch_queue d) \<and>
        map (\<lambda>e. unat (me_sequence e)) calls = [dispatch_cursor d ..< dispatch_cursor d + length calls])"

lemma delivered_none: "bus_inv (ds_ring d) \<Longrightarrow> delivered 0 d d"
  by (simp add: delivered_def fun_eq_iff option.map_ident)

lemma pending_length [simp]: "length (pending r c) = head_seq r - cursor r c"
  by (simp add: pending_def)

lemma read_none_quiet:
  assumes "bus_inv r" "TryReadNextForConsumer c r = None" "online r (unat c)"
  shows "pending r (unat c) = []" "\<And>s. UnpackSlotState (state_sequence (slot r (unat (slot_index_of (slot_count (header r)) s)))) = Some kReserved \<Longrightarrow> s = 0"
proof -
  show "pending r (unat c) = []"
    using assms by (simp add: read_next pending_def Let_def split: if_splits)
  fix s assume res: "UnpackSlotState (state_sequence (slot r (unat (slot_index_of (slot_count (header r)) s)))) = Some kReserved"
  have n0: "slot_count (header r) \<noteq> 0"
    using bus_invD(1) [OF assms(1)] by (simp add: ring_inv_def ring_shape_def)
  show "s = 0"
  proof (rule ccontr)
    assume "s \<noteq> 0"
    then have "unat (slot_index_of (slot_count (header r)) s) < n_slots r"
      using slot_index_of_less [OF n0] by (simp add: word_less_nat_alt)
    then show False
      using bus_invD(2) [OF assms(1)] res by (auto simp: quiescent_def slot_state_def)
  qed
qed

lemma dispatch_one:
  assumes inv: "bus_inv (ds_ring d)" and go: "\<not> su_stop (ds_subscriber d)" and on: "dispatch_online d" and q: "dispatch_queue d \<noteq> []"
  shows "\<exists>d'. TryDispatchOneRingMessage ys throws kBroadcast d = Some (True, d') \<and> delivered 1 d d'"
proof -
  let ?r = "ds_ring d" and ?ci = "su_consumer_index (ds_subscriber d)"
  let ?c = "unat ?ci"
  have lt: "cursor ?r ?c < head_seq ?r"
    using q by (simp add: pending_def)
  then obtain res i where read: "TryReadNextForConsumer ?ci ?r = Some (res, i)" and seq: "res_sequence res = read_sequence (consumer ?r ?c)"
    using on by (auto simp: read_next [OF inv] Let_def)
  have cur: "LoadConsumerCursor ?ci ?r = Some (read_sequence (consumer ?r ?c))" "read_sequence (consumer ?r ?c) \<noteq> 0" "slot_count (header ?r) \<noteq> 0"
    using on coveredD(1) [OF bus_invD(1) [OF inv] on] bus_invD(1) [OF inv]
    by (auto simp: LoadConsumerCursor_def online_def word_less_nat_alt not_le ring_inv_def ring_shape_def)
  let ?done = "CompleteConsumerSlot ?ci i (res_sequence res + 1) (ds_count d) ?r"
  obtain ok count r2 where fin: "?done = (ok, count, r2)" by (cases ?done)
  let ?env = "envelope_of res d"
  let ?sub = "remember_key (BuildDedupKey (su_channel (ds_subscriber d)) (res_sequence res)) (ds_subscriber d)"
  let ?d' = "(call_handler throws ?env (d\<lparr>ds_subscriber := ?sub\<rparr>))\<lparr>ds_count := count, ds_ring := r2\<rparr>"
  have eff: "ok" "abs_bus r2 = spec_complete ?c (abs_bus ?r)" "bus_inv r2" "same_frame ?r r2" "fd_table r2 = fd_table ?r"
    using complete_bus [OF inv read, of "ds_count d"] complete_frame [OF inv read, of "ds_count d"]
      CompleteConsumerSlot_fds [of ?ci i "res_sequence res + 1" "ds_count d" ?r] by (simp_all add: fin)
  have "TryDispatchOneRingMessage ys throws kBroadcast d = Some (True, ?d')"
    using go cur fin eff(1) by (simp add: TryDispatchOneRingMessage_def Let_def read seq dispatch_message_def)
  moreover have "spec_peek ?c (abs_bus ?r) = Some (read_bytes res ?r)"
    using peek_bus [OF inv, of ?ci] read by simp
  then have "take 1 (pending ?r ?c) = [read_bytes res ?r]"
    using on by (cases "pending ?r ?c") (auto simp: spec_peek_def abs_bus_def)
  then have "delivered 1 d ?d'"
    using eff on seq by (auto simp: delivered_def spec_complete_def fun_eq_iff drop_Suc abs_bus_def)
  ultimately show ?thesis by blast
qed

lemma dispatch_none:
  assumes "bus_inv (ds_ring d)" "\<not> dispatch_online d \<or> dispatch_queue d = [] \<or> su_stop (ds_subscriber d)"
  shows "TryDispatchOneRingMessage ys throws mode d = Some (False, d)"
proof (cases "dispatch_online d \<and> \<not> su_stop (ds_subscriber d)")
  case True
  let ?r = "ds_ring d" and ?ci = "su_consumer_index (ds_subscriber d)"
  have none: "TryReadNextForConsumer ?ci ?r = None"
    using True assms by (auto simp: read_next [OF assms(1)] pending_def)
  show ?thesis
    using read_none_quiet(2) [OF assms(1) none, of "read_sequence (consumer ?r (unat ?ci))"] True none
    by (auto simp: TryDispatchOneRingMessage_def Let_def split: option.splits)
       (auto simp: LoadConsumerCursor_def split: if_splits)
next
  case False
  then show ?thesis
    by (auto simp: TryDispatchOneRingMessage_def Let_def LoadConsumerCursor_def online_def word_less_nat_alt not_le
        split: option.splits)
qed

lemma deliveredD:
  assumes "delivered 1 d d1" "dispatch_online d" "dispatch_queue d \<noteq> []"
  shows "bus_inv (ds_ring d1)" "dispatch_online d1" "dispatch_queue d1 = tl (dispatch_queue d)"
    "dispatch_cursor d1 = Suc (dispatch_cursor d)" "su_consumer_index (ds_subscriber d1) = su_consumer_index (ds_subscriber d)"
    "su_stop (ds_subscriber d1) = su_stop (ds_subscriber d)"
proof -
  let ?c = "unat (su_consumer_index (ds_subscriber d))"
  show inv: "bus_inv (ds_ring d1)" and ci: "su_consumer_index (ds_subscriber d1) = su_consumer_index (ds_subscriber d)"
    and "su_stop (ds_subscriber d1) = su_stop (ds_subscriber d)"
    using assms(1) by (simp_all add: delivered_def same_subscriber_def)
  have "abs_bus (ds_ring d1) ?c = Some (tl (dispatch_queue d))"
    using assms(1,2) by (simp add: delivered_def abs_bus_def drop_Suc)
  then show on: "dispatch_online d1" and q: "dispatch_queue d1 = tl (dispatch_queue d)"
    by (simp_all add: ci abs_bus_def split: if_splits)
  have "cursor (ds_ring d1) ?c \<le> head_seq (ds_ring d1)" "head_seq (ds_ring d1) = head_seq (ds_ring d)"
    using coveredD [OF bus_invD(1) [OF inv]] on assms(1) by (auto simp: ci delivered_def same_frame_def)
  moreover have "head_seq (ds_ring d1) - dispatch_cursor d1 = head_seq (ds_ring d) - dispatch_cursor d - 1"
    using arg_cong [OF q, of length] by simp
  moreover have "dispatch_cursor d < head_seq (ds_ring d)"
    using assms(3) by (simp add: pending_def)
  ultimately show "dispatch_cursor d1 = Suc (dispatch_cursor d)"
    by (simp add: ci)
qed

lemma delivered_step:
  assumes "delivered 1 d d1" "dispatch_online d" "dispatch_queue d \<noteq> []" "delivered k d1 d2"
  shows "delivered (Suc k) d d2"
proof -
  note d1 = deliveredD [OF assms(1-3)]
  obtain e where e: "ds_calls d1 = ds_calls d @ [e]" "me_payload e = hd (dispatch_queue d)" "unat (me_sequence e) = dispatch_cursor d"
    using assms(1,3) by (auto simp: delivered_def neq_Nil_conv Cons_eq_map_conv upt_conv_Cons split: if_splits)
  obtain calls where calls: "ds_calls d2 = ds_calls d1 @ calls" "map me_payload calls = take k (dispatch_queue d1)"
      "map (\<lambda>e. unat (me_sequence e)) calls = [dispatch_cursor d1 ..< dispatch_cursor d1 + length calls]"
    using assms(4) by (auto simp: delivered_def)
  have "map me_payload (e # calls) = take (Suc k) (dispatch_queue d)"
    using assms(3) by (cases "dispatch_queue d") (simp_all add: e calls(2) d1(3))
  moreover have "map (\<lambda>e. unat (me_sequence e)) (e # calls) = [dispatch_cursor d ..< dispatch_cursor d + length (e # calls)]"
    using calls(3) by (simp add: e d1(4) upt_conv_Cons del: upt_Suc)
  moreover have "abs_bus (ds_ring d2) = (\<lambda>c. if c = unat (su_consumer_index (ds_subscriber d)) then map_option (drop (Suc k)) (abs_bus (ds_ring d) c) else abs_bus (ds_ring d) c)"
    using assms(1,4) by (simp add: delivered_def fun_eq_iff option.map_comp same_subscriber_def comp_def drop_Suc [abs_def])
  ultimately show ?thesis
    using assms(1,4) e(1) calls(1)
    by (auto simp: delivered_def intro: same_frame_trans same_subscriber_trans)
qed

lemma dispatch_loop_delivers:
  assumes "bus_inv (ds_ring d)" "\<not> su_stop (ds_subscriber d)" "dispatch_online d" "\<forall>n. \<not> stopped n"
  shows "\<exists>d'. dispatch_loop ys throws stopped kBroadcast n budget d = Some (n + min budget (length (dispatch_queue d)), d') \<and>
    delivered (min budget (length (dispatch_queue d))) d d'"
  using assms(1-3)
proof (induction budget arbitrary: n d)
  case 0
  then show ?case by (simp add: delivered_none)
next
  case (Suc budget)
  show ?case
  proof (cases "dispatch_queue d = []")
    case True
    then show ?thesis
      using Suc.prems assms(4) dispatch_none [OF Suc.prems(1)] by (simp add: delivered_none del: pending_length)
  next
    case q: False
    obtain d1 where one: "TryDispatchOneRingMessage (ys n) throws kBroadcast d = Some (True, d1)" and del: "delivered 1 d d1"
      using dispatch_one [OF Suc.prems q] by blast
    note d1 = deliveredD [OF del Suc.prems(3) q]
    obtain d' where rest: "dispatch_loop ys throws stopped kBroadcast (Suc n) budget d1 =
        Some (Suc n + min budget (length (dispatch_queue d1)), d')"
      and del': "delivered (min budget (length (dispatch_queue d1))) d1 d'"
      using Suc.IH [OF d1(1)] Suc.prems(2) d1(2,6) by blast
    have len: "Suc (min budget (length (dispatch_queue d1))) = min (Suc budget) (length (dispatch_queue d))"
      using q unfolding d1(3) by (cases "dispatch_queue d") (simp_all del: pending_length)
    have "dispatch_loop ys throws stopped kBroadcast n (Suc budget) d = dispatch_loop ys throws stopped kBroadcast (Suc n) budget d1"
      using assms(4) one by simp
    then show ?thesis
      using rest delivered_step [OF del Suc.prems(3) q del']
      unfolding len [symmetric] by (auto simp del: pending_length dispatch_loop.simps)
  qed
qed

section \<open>One wake\<close>

text \<open>
  C17: One wake of the pump, on a broadcast channel whose eventfd has counted \<open>k\<close> notifications: the
  handler gets the first \<open>k\<close> waiting messages (all of them, where fewer wait) in the order they were
  published, with consecutive sequence numbers from the consumer's cursor on, whether it throws or
  not; these leave the consumer's queue, every other consumer's queue stays as it was, and the
  counter is back to zero.
\<close>

theorem wake_delivers_in_order:
  assumes "bus_inv (ds_ring d)" "\<not> su_stop (ds_subscriber d)" "dispatch_online d" "cr_delivery_mode cr = kBroadcast"
    and "0 \<le> su_event_fd (ds_subscriber d)" "efds (su_event_fd (ds_subscriber d)) = Some k" "k \<noteq> 0"
  defines "n \<equiv> min (unat k) (length (dispatch_queue d))"
  shows "\<exists>d' calls. pump_event ys throws (\<lambda>n. False) (Some cr) (d, efds) = Some (d', efds(su_event_fd (ds_subscriber d) \<mapsto> 0)) \<and>
    ds_calls d' = ds_calls d @ calls \<and> map me_payload calls = take n (dispatch_queue d) \<and>
    map (\<lambda>e. unat (me_sequence e)) calls = [dispatch_cursor d ..< dispatch_cursor d + n] \<and>
    bus_inv (ds_ring d') \<and> dispatch_queue d' = drop n (dispatch_queue d) \<and>
    (\<forall>c. c \<noteq> unat (su_consumer_index (ds_subscriber d)) \<longrightarrow> abs_bus (ds_ring d') c = abs_bus (ds_ring d) c)"
proof -
  obtain d' where loop: "dispatch_loop ys throws (\<lambda>n. False) kBroadcast 0 (unat k) d = Some (0 + n, d')" and del: "delivered n d d'"
    using dispatch_loop_delivers [OF assms(1-3), of "\<lambda>n. False" ys throws 0 "unat k"] unfolding n_def by blast
  obtain calls where calls: "ds_calls d' = ds_calls d @ calls" "map me_payload calls = take n (dispatch_queue d)"
      "map (\<lambda>e. unat (me_sequence e)) calls = [dispatch_cursor d ..< dispatch_cursor d + length calls]"
    using del by (auto simp: delivered_def)
  have "length calls = n"
    using arg_cong [OF calls(2), of length] by (simp add: n_def)
  moreover have "abs_bus (ds_ring d') (unat (su_consumer_index (ds_subscriber d'))) = Some (drop n (dispatch_queue d))"
    using del assms(3) by (simp add: delivered_def abs_bus_def same_subscriber_def)
  then have "dispatch_queue d' = drop n (dispatch_queue d)"
    by (simp add: abs_bus_def split: if_splits)
  moreover have "pump_event ys throws (\<lambda>n. False) (Some cr) (d, efds) = Some (d', efds(su_event_fd (ds_subscriber d) \<mapsto> 0))"
    using assms(4-7) loop by (simp add: pump_event_def ReadEventFdNotifyCount_def)
  ultimately show ?thesis
    using calls del by (auto simp: delivered_def)
qed

definition demo_dispatch :: dispatch_state where
  "demo_dispatch =
     \<lparr>ds_ring = demo_full,
      ds_subscriber = \<lparr>su_channel = ''c'', su_module_name = ''m'', su_consumer_index = 0, su_event_fd = 10, su_stop = False,
        su_dedup_capacity = 4, su_dedup_window = [], su_dedup_keys = {}\<rparr>,
      ds_metrics = no_reliability_metrics, ds_count = 0, ds_calls = []\<rparr>"

theorem wake_delivers_in_order_witness:
  "\<exists>d' calls. pump_event (\<lambda>n. []) (\<lambda>e. me_sequence e = 1) (\<lambda>n. False) (Some \<lparr>cr_segment = ''s'', cr_delivery_mode = kBroadcast\<rparr>)
     (demo_dispatch, [10 \<mapsto> 3]) = Some (d', [10 \<mapsto> 0]) \<and> map me_payload (ds_calls d') = [[1], [2]]"
proof -
  have "n_consumers demo_full = 2 \<and> cstate (consumer demo_full 0) = kOnline"
    by code_simp
  then have "online demo_full 0"
    by (simp add: online_def)
  moreover have q: "pending demo_full 0 = [[1], [2]]"
    by code_simp
  ultimately show ?thesis
    using wake_delivers_in_order [of demo_dispatch "\<lparr>cr_segment = ''s'', cr_delivery_mode = kBroadcast\<rparr>" "[10 \<mapsto> 3]" 3 "\<lambda>n. []" "\<lambda>e. me_sequence e = 1"]
      demo_full_facts(1)
    by (auto simp: demo_dispatch_def q simp del: pending_length)
qed

end
