(* ===== verification/Pump_Properties.thy ===== *)
theory Pump_Properties
  imports Dispatch_Properties
begin

text \<open>
  Publishers and pumps of many processes on one broadcast channel, as a step relation: a publisher
  commits, walks over the consumer table entry by entry and then notifies one descriptor at a time; a pump reads its
  counter and dispatches one message at a time; consumers join and leave between any two of these
  steps. The invariant bounds what a consumer has waiting by the notifications under way to it.
\<close>

section \<open>The walk over the consumer table\<close>

text \<open>What the publisher's scan adds to its list for one table entry; undisturbed, the scan is the loop of \<^verbatim>\<open>PublishWithStatus\<close>.\<close>

definition entry_fds :: "nat \<Rightarrow> ring \<Rightarrow> int list" where
  "entry_fds i r =
     (if cstate (consumer r i) \<noteq> kOnline then []
      else (case LoadConsumerNotificationFd (of_nat i) r of None \<Rightarrow> [] | Some fd \<Rightarrow> if fd < 0 then [] else [fd]))"

lemma online_fds_walk: "online_fds i k r = concat (map (\<lambda>j. entry_fds j r) [i ..< i + k])"
proof (induction k arbitrary: i)
  case (Suc k)
  have "[i ..< i + Suc k] = i # [Suc i ..< Suc i + k]"
    by (simp add: upt_conv_Cons del: upt_Suc)
  then show ?case
    using Suc.IH [of "Suc i"] by (simp add: entry_fds_def split: option.split)
qed simp

section \<open>The step relation\<close>

record pump_world =
  pw_ring :: ring
  pw_efds :: eventfds
  pw_walks :: "(nat \<times> int list) list"
  pw_subscriber :: "nat \<Rightarrow> SubscriberEntry"
  pw_budget :: "nat \<Rightarrow> nat"
  pw_sent :: "nat \<Rightarrow> u8 list list"
  pw_got :: "nat \<Rightarrow> u8 list list"

text \<open>
  \<open>pw_walks\<close> has, for every publisher that has committed, its position in the consumer table and the
  descriptors it still has to notify; \<open>pw_sent\<close> and \<open>pw_got\<close> are the messages committed while a
  consumer was online and those its handler got.
\<close>

abbreviation consumer_fd :: "ring \<Rightarrow> nat \<Rightarrow> int" where
  "consumer_fd r c \<equiv> notification_mappings r ! c"

definition subscriber_of :: "nat \<Rightarrow> ring \<Rightarrow> SubscriberEntry \<Rightarrow> bool" where
  "subscriber_of c r sub \<longleftrightarrow> unat (su_consumer_index sub) = c \<and> su_event_fd sub = consumer_fd r c \<and> \<not> su_stop sub"

inductive pump_step :: "pump_world \<Rightarrow> pump_world \<Rightarrow> bool" where
  commit: "PublishCommittedPayload [idle] ns p (pw_ring w) = Some (Inr s, r1) \<Longrightarrow> publishable (pw_ring w) p \<Longrightarrow>
    head_seq (pw_ring w) < 2 ^ 32 \<Longrightarrow>
    pump_step w (w\<lparr>pw_ring := r1, pw_walks := (0, []) # pw_walks w,
      pw_sent := (\<lambda>c. if online (pw_ring w) c then pw_sent w c @ [p] else pw_sent w c)\<rparr>)"
| scan: "pw_walks w = xs @ (i, fds) # ys \<Longrightarrow> i < n_consumers (pw_ring w) \<Longrightarrow>
    pump_step w (w\<lparr>pw_walks := xs @ (Suc i, fds @ entry_fds i (pw_ring w)) # ys\<rparr>)"
| notify: "pw_walks w = xs @ (i, fd # fds) # ys \<Longrightarrow> n_consumers (pw_ring w) \<le> i \<Longrightarrow>
    pump_step w (w\<lparr>pw_efds := snd (NotifyEventFd fd (pw_efds w)), pw_walks := xs @ (i, fds) # ys\<rparr>)"
| wake: "ReadEventFdNotifyCount (su_event_fd (pw_subscriber w c)) (pw_efds w) = (Some k, efds1) \<Longrightarrow> online (pw_ring w) c \<Longrightarrow>
    pw_budget w c = 0 \<Longrightarrow> pump_step w (w\<lparr>pw_efds := efds1, pw_budget := (pw_budget w)(c := unat k)\<rparr>)"
| dispatch: "TryDispatchOneRingMessage [] throws kBroadcast
      \<lparr>ds_ring = pw_ring w, ds_subscriber = pw_subscriber w c, ds_metrics = m, ds_count = k, ds_calls = []\<rparr> = Some (ok, d) \<Longrightarrow>
    online (pw_ring w) c \<Longrightarrow> pw_budget w c = Suc b \<Longrightarrow>
    pump_step w (w\<lparr>pw_ring := ds_ring d, pw_subscriber := (pw_subscriber w)(c := ds_subscriber d),
      pw_budget := (pw_budget w)(c := if ok then b else 0), pw_got := (pw_got w)(c := pw_got w c @ map me_payload (ds_calls d))\<rparr>)"
| join: "AddConsumerOnline pid ci (pw_ring w) = (True, r1) \<Longrightarrow> subscriber_of (unat ci) (pw_ring w) sub \<Longrightarrow>
    pump_step w (w\<lparr>pw_ring := r1, pw_subscriber := (pw_subscriber w)(unat ci := sub), pw_budget := (pw_budget w)(unat ci := 0),
      pw_sent := (pw_sent w)(unat ci := []), pw_got := (pw_got w)(unat ci := [])\<rparr>)"
| leave: "UnregisterConsumer ci (pw_ring w) = (ok, r1) \<Longrightarrow> pump_step w (w\<lparr>pw_ring := r1\<rparr>)"

section \<open>The invariant\<close>

definition wired :: "pump_world \<Rightarrow> bool" where
  "wired w \<longleftrightarrow> notification_capacity (header (pw_ring w)) = consumer_capacity (header (pw_ring w)) \<and>
     (\<forall>c < n_consumers (pw_ring w). 0 \<le> consumer_fd (pw_ring w) c \<and>
        (\<exists>k. pw_efds w (consumer_fd (pw_ring w) c) = Some k \<and> k \<noteq> - 1)) \<and>
     inj_on (consumer_fd (pw_ring w)) {..< n_consumers (pw_ring w)} \<and>
     (\<forall>c. online (pw_ring w) c \<longrightarrow> subscriber_of c (pw_ring w) (pw_subscriber w c))"

definition credits :: "pump_world \<Rightarrow> nat \<Rightarrow> nat" where
  "credits w c = unat (the (pw_efds w (consumer_fd (pw_ring w) c))) + pw_budget w c + 
     sum_list (map (\<lambda>(i, fds). of_bool (i \<le> c) + count_list fds (consumer_fd (pw_ring w) c)) (pw_walks w))"

definition pump_inv :: "pump_world \<Rightarrow> bool" where
  "pump_inv w \<longleftrightarrow> bus_inv (pw_ring w) \<and> wired w \<and>
     (\<forall>c q. abs_bus (pw_ring w) c = Some q \<longrightarrow> pw_sent w c = pw_got w c @ q \<and> length q \<le> credits w c)"

lemma abs_bus_online: "abs_bus r c = Some q \<Longrightarrow> online r c \<and> pending r c = q \<and> c < n_consumers r"
  by (simp add: abs_bus_def online_def split: if_splits)

text \<open>A step that keeps the table of descriptors and the number of entries keeps the wiring, given the subscribers.\<close>

lemma wired_ring:
  assumes "wired w" "fd_table r1 = fd_table (pw_ring w)" "consumer_capacity (header r1) = consumer_capacity (header (pw_ring w))"
    and "\<And>c. online r1 c \<Longrightarrow> subscriber_of c (pw_ring w) (subs c)"
  shows "wired (w\<lparr>pw_ring := r1, pw_subscriber := subs\<rparr>)"
  using assms by (simp add: wired_def fd_table_def subscriber_of_def)

lemma credits_ring:
  "fd_table r1 = fd_table (pw_ring w) \<Longrightarrow> credits (w\<lparr>pw_ring := r1\<rparr>) = credits w"
  by (simp add: credits_def fd_table_def fun_eq_iff)

lemma waiting_below_lap:
  "bus_inv r \<Longrightarrow> online r c \<Longrightarrow> length (pending r c) \<le> unat max_event_count"
  using lag_bounded [OF bus_invD(1), of r c] unat_u32_less [of "slot_count (header r)"]
  by (simp add: max_event_count_def)

lemma online_fd:
  assumes "wired w" "c < n_consumers (pw_ring w)"
  shows "LoadConsumerNotificationFd (of_nat c) (pw_ring w) = Some (consumer_fd (pw_ring w) c)" "0 \<le> consumer_fd (pw_ring w) c"
    "\<exists>k. pw_efds w (consumer_fd (pw_ring w) c) = Some k \<and> k \<noteq> - 1"
proof -
  have "unat (of_nat c :: u32) = c"
    using assms(2) unat_u32_less [of "consumer_capacity (header (pw_ring w))"] by (intro unat_of_nat_len) simp
  then show "LoadConsumerNotificationFd (of_nat c) (pw_ring w) = Some (consumer_fd (pw_ring w) c)"
    using assms by (simp add: LoadConsumerNotificationFd_def wired_def word_le_nat_alt)
qed (use assms in \<open>auto simp: wired_def\<close>)

section \<open>Every step keeps it\<close>

lemma commit_keeps:
  assumes inv: "pump_inv w" and pub: "PublishCommittedPayload [idle] ns p (pw_ring w) = Some (Inr s, r1)"
    and fits: "publishable (pw_ring w) p" "head_seq (pw_ring w) < 2 ^ 32"
  shows "pump_inv (w\<lparr>pw_ring := r1, pw_walks := (0, []) # pw_walks w,
      pw_sent := (\<lambda>c. if online (pw_ring w) c then pw_sent w c @ [p] else pw_sent w c)\<rparr>)"
proof -
  let ?r = "pw_ring w"
  have good: "ring_good ?r" "quiescent ?r"
    using inv fits(2) bus_invD [of ?r] by (simp_all add: pump_inv_def ring_good_def)
  have rep: "PublishCommittedPayload (replicate 1 idle) ns p ?r = Some (Inr s, r1)"
    using pub by simp
  note eff = publish_bus [OF good fits(1) rep]
  have fds: "fd_table r1 = fd_table ?r" and cap: "consumer_capacity (header r1) = consumer_capacity (header ?r)"
    using publish_fds [OF rep] eff(4) by (simp_all add: same_frame_def)
  have on: "online r1 c = online ?r c" for c
    using fun_cong [OF eff(1), of c] by (simp add: abs_bus_def spec_publish_def split: if_splits)
  have "wired (w\<lparr>pw_ring := r1, pw_subscriber := pw_subscriber w\<rparr>)"
    using inv by (intro wired_ring [OF _ fds cap]) (simp_all add: pump_inv_def wired_def on)
  then have "wired (w\<lparr>pw_ring := r1\<rparr>)" by simp
  moreover have "pw_sent w c @ [p] = pw_got w c @ q \<and> length q \<le> Suc (credits w c)" if q: "abs_bus r1 c = Some q" for c q
  proof -
    obtain q0 where q0: "abs_bus ?r c = Some q0" "q = q0 @ [p]"
      using q by (auto simp: eff(1) spec_publish_def)
    then show ?thesis
      using inv by (auto simp: pump_inv_def)
  qed
  moreover have "online ?r c" if "abs_bus r1 c = Some q" for c q
    using abs_bus_online [OF that] on by simp
  ultimately show ?thesis
    using eff(2) fds by (simp add: pump_inv_def wired_def credits_def fd_table_def)
qed

lemma scan_keeps:
  assumes inv: "pump_inv w" and sc: "pw_walks w = xs @ (i, fds) # ys" "i < n_consumers (pw_ring w)"
  shows "pump_inv (w\<lparr>pw_walks := xs @ (Suc i, fds @ entry_fds i (pw_ring w)) # ys\<rparr>)" (is "pump_inv ?w")
proof -
  have wired: "wired w" using inv by (simp add: pump_inv_def)
  have "credits w c \<le> credits ?w c" if on: "online (pw_ring w) c" for c
  proof (cases "c = i")
    case True
    then have "entry_fds i (pw_ring w) = [consumer_fd (pw_ring w) c]"
      using online_fd [OF wired sc(2)] on by (auto simp: entry_fds_def online_def)
    then show ?thesis
      using True by (simp add: credits_def sc(1))
  next
    case False
    then have "Suc i \<le> c \<longleftrightarrow> i \<le> c" by auto
    then show ?thesis
      by (simp add: credits_def sc(1))
  qed
  then have "length q \<le> credits ?w c" if "abs_bus (pw_ring w) c = Some q" for c q
    using that inv abs_bus_online [OF that] unfolding pump_inv_def by (meson le_trans)
  moreover have "wired ?w"
    using wired by (simp add: wired_def)
  ultimately show ?thesis
    using inv by (simp add: pump_inv_def)
qed

lemma notify_keeps:
  assumes inv: "pump_inv w" and nf: "pw_walks w = xs @ (i, fd # fds) # ys"
  shows "pump_inv (w\<lparr>pw_efds := snd (NotifyEventFd fd (pw_efds w)), pw_walks := xs @ (i, fds) # ys\<rparr>)" (is "pump_inv ?w")
proof -
  let ?r = "pw_ring w"
  have wired: "wired w" using inv by (simp add: pump_inv_def)
  have at: "snd (NotifyEventFd fd (pw_efds w)) =
    (if 0 \<le> fd \<and> pw_efds w fd \<noteq> None \<and> pw_efds w fd \<noteq> Some max_event_count
     then (pw_efds w)(fd \<mapsto> the (pw_efds w fd) + 1) else pw_efds w)"
    by (auto simp: NotifyEventFd_def)
  have "k + 1 \<noteq> - 1" if "k \<noteq> max_event_count" for k :: u64
    using that by (simp add: max_event_count_def eq_neg_iff_add_eq_0 add.assoc)
  then have wired': "wired ?w"
    using wired by (fastforce simp: wired_def at)
  have "length q \<le> credits ?w c" if q: "abs_bus ?r c = Some q" for c q
  proof -
    have old: "length q \<le> credits w c" and on: "online ?r c" "pending ?r c = q" "c < n_consumers ?r"
      using inv q abs_bus_online [OF q] by (auto simp: pump_inv_def)
    obtain k where k: "0 \<le> consumer_fd ?r c" "pw_efds w (consumer_fd ?r c) = Some k" "k \<noteq> - 1"
      using online_fd [OF wired on(3)] by blast
    let ?N = "unat (the (snd (NotifyEventFd fd (pw_efds w)) (consumer_fd ?r c)))"
    have "unat k + of_bool (fd = consumer_fd ?r c) \<le> ?N \<or> length q \<le> ?N"
    proof (cases "fd = consumer_fd ?r c")
      case False
      then show ?thesis using k by (simp add: at)
    next
      case True
      show ?thesis
      proof (cases "k = max_event_count")
        case sat: True
        have "length q \<le> unat max_event_count"
          using waiting_below_lap [of ?r c] inv on by (simp add: pump_inv_def del: pending_length)
        moreover have "?N = unat max_event_count"
          using k sat True unfolding at by simp
        ultimately show ?thesis by simp
      next
        case False
        have "k + 1 \<noteq> 0"
          using k(3) by (auto simp: eq_neg_iff_add_eq_0 [symmetric])
        then have "unat (k + 1) = unat k + 1"
          using unatSuc [of k] by (simp add: add.commute)
        moreover have "?N = unat (k + 1)"
          using k False True unfolding at by simp
        ultimately show ?thesis
          using True by simp
      qed
    qed
    then show ?thesis
      using old k(2) by (cases "fd = consumer_fd ?r c") (auto simp: credits_def nf simp del: of_bool_def)
  qed
  with wired' show ?thesis
    using inv by (simp add: pump_inv_def)
qed

lemma wake_keeps:
  assumes inv: "pump_inv w" and rd: "ReadEventFdNotifyCount (su_event_fd (pw_subscriber w c)) (pw_efds w) = (Some k, efds1)"
    and on: "online (pw_ring w) c" and idle: "pw_budget w c = 0"
  shows "pump_inv (w\<lparr>pw_efds := efds1, pw_budget := (pw_budget w)(c := unat k)\<rparr>)"
proof -
  let ?r = "pw_ring w" and ?w = "w\<lparr>pw_efds := efds1, pw_budget := (pw_budget w)(c := unat k)\<rparr>"
  have wired: "wired w" and c: "c < n_consumers ?r" and fd: "su_event_fd (pw_subscriber w c) = consumer_fd ?r c"
    using inv on by (auto simp: pump_inv_def wired_def subscriber_of_def online_def)
  have k: "pw_efds w (consumer_fd ?r c) = Some k" and efds1: "efds1 = (pw_efds w)(consumer_fd ?r c \<mapsto> 0)"
    using rd by (auto simp: ReadEventFdNotifyCount_def fd split: if_splits option.splits)
  have "wired ?w"
    using wired by (auto simp: wired_def efds1)
  moreover have "credits ?w d = credits w d" if "abs_bus ?r d = Some q" for d q
    using wired c abs_bus_online [OF that] k idle by (auto simp: credits_def efds1 wired_def inj_on_def)
  ultimately show ?thesis
    using inv by (simp add: pump_inv_def)
qed

lemma dispatch_keeps:
  assumes inv: "pump_inv w" and run: "TryDispatchOneRingMessage [] throws kBroadcast
      \<lparr>ds_ring = pw_ring w, ds_subscriber = pw_subscriber w c, ds_metrics = m, ds_count = k, ds_calls = []\<rparr> = Some (ok, d)"
    and on: "online (pw_ring w) c" and b: "pw_budget w c = Suc b"
  shows "pump_inv (w\<lparr>pw_ring := ds_ring d, pw_subscriber := (pw_subscriber w)(c := ds_subscriber d),
      pw_budget := (pw_budget w)(c := if ok then b else 0), pw_got := (pw_got w)(c := pw_got w c @ map me_payload (ds_calls d))\<rparr>)"
    (is "pump_inv ?w")
proof -
  let ?r = "pw_ring w"
  let ?d = "\<lparr>ds_ring = ?r, ds_subscriber = pw_subscriber w c, ds_metrics = m, ds_count = k, ds_calls = []\<rparr>"
  have wired: "wired w" and bus: "bus_inv ?r" and sub: "subscriber_of c ?r (pw_subscriber w c)"
    using inv on by (auto simp: pump_inv_def wired_def)
  have ci: "unat (su_consumer_index (pw_subscriber w c)) = c" and go: "\<not> su_stop (pw_subscriber w c)"
    using sub by (simp_all add: subscriber_of_def)
  have q: "abs_bus ?r c = Some (pending ?r c)"
    using on by (simp add: abs_bus_def)
  show ?thesis
  proof (cases "pending ?r c = []")
    case True
    have "Some (ok, d) = Some (False, ?d)"
      using dispatch_none [of ?d "[]" throws kBroadcast] bus True ci run by simp
    then show ?thesis
      using inv wired True q
      by (auto simp: pump_inv_def wired_def credits_def subscriber_of_def split: if_splits)
  next
    case False
    obtain d' where "TryDispatchOneRingMessage [] throws kBroadcast ?d = Some (True, d')" "delivered 1 ?d d'"
      using dispatch_one [of ?d "[]" throws] bus go on ci False by auto
    then have ok: "ok" and del: "delivered 1 ?d d"
      using run by auto
    have eff: "bus_inv (ds_ring d)" "fd_table (ds_ring d) = fd_table ?r" "same_frame ?r (ds_ring d)"
      "same_subscriber (pw_subscriber w c) (ds_subscriber d)"
      "map me_payload (ds_calls d) = take 1 (pending ?r c)"
      "\<And>j. abs_bus (ds_ring d) j = (if j = c then map_option (drop 1) (abs_bus ?r j) else abs_bus ?r j)"
      using del ci by (auto simp: delivered_def)
    have on': "online (ds_ring d) j = online ?r j" for j
      using eff(6) [of j] by (simp add: abs_bus_def split: if_splits)
    have sub': "subscriber_of c ?r (ds_subscriber d)"
      using sub eff(4) by (simp add: subscriber_of_def same_subscriber_def)
    have "wired (w\<lparr>pw_ring := ds_ring d, pw_subscriber := (pw_subscriber w)(c := ds_subscriber d)\<rparr>)"
      using wired sub' eff(3) by (intro wired_ring [OF wired eff(2)]) (auto simp: same_frame_def on' wired_def)
    moreover have "pw_sent w j = pw_got ?w j @ q' \<and> length q' \<le> credits ?w j" if q': "abs_bus (ds_ring d) j = Some q'" for j q'
    proof (cases "j = c")
      case True
      obtain x xs where xs: "pending ?r c = x # xs"
        using False by (cases "pending ?r c") auto
      have "pw_sent w c = pw_got w c @ x # xs" "length (x # xs) \<le> credits w c"
        using inv q xs by (fastforce simp: pump_inv_def)+
      moreover have "q' = xs"
        using q' True eff(6) q xs by (simp add: drop_Suc)
      ultimately show ?thesis
        using True ok b eff(2,5) xs by (simp add: credits_def fd_table_def)
    next
      case other: False
      then show ?thesis
        using inv q' eff(2,6) by (auto simp: pump_inv_def credits_def fd_table_def)
    qed
    ultimately show ?thesis
      using eff(1) by (simp add: pump_inv_def wired_def)
  qed
qed

lemma join_keeps:
  assumes inv: "pump_inv w" and add: "AddConsumerOnline pid ci (pw_ring w) = (True, r1)" and sub: "subscriber_of (unat ci) (pw_ring w) sub"
  shows "pump_inv (w\<lparr>pw_ring := r1, pw_subscriber := (pw_subscriber w)(unat ci := sub), pw_budget := (pw_budget w)(unat ci := 0),
      pw_sent := (pw_sent w)(unat ci := []), pw_got := (pw_got w)(unat ci := [])\<rparr>)"
proof -
  let ?r = "pw_ring w"
  have wired: "wired w" and bus: "bus_inv ?r"
    using inv by (simp_all add: pump_inv_def)
  have eff: "abs_bus r1 = spec_join (unat ci) (abs_bus ?r)" "bus_inv r1" "same_frame ?r r1" "fd_table r1 = fd_table ?r"
    using join_bus [OF bus, of pid ci] join_frame [OF bus_invD(1) [OF bus], of pid ci] AddConsumerOnline_fds [of pid ci ?r]
    by (simp_all add: add)
  have on: "online r1 j \<longleftrightarrow> j = unat ci \<or> online ?r j" for j
    using fun_cong [OF eff(1), of j] by (auto simp: abs_bus_def spec_join_def split: if_splits)
  have "wired (w\<lparr>pw_ring := r1, pw_subscriber := (pw_subscriber w)(unat ci := sub)\<rparr>)"
    using eff(3) sub wired by (intro wired_ring [OF wired eff(4)]) (auto simp: same_frame_def on wired_def)
  then show ?thesis
    using inv eff(1,2,4) by (auto simp: pump_inv_def wired_def credits_def fd_table_def spec_join_def)
qed

lemma leave_keeps:
  assumes inv: "pump_inv w" and rm: "UnregisterConsumer ci (pw_ring w) = (ok, r1)"
  shows "pump_inv (w\<lparr>pw_ring := r1\<rparr>)"
proof -
  let ?r = "pw_ring w"
  have wired: "wired w" and bus: "bus_inv ?r"
    using inv by (simp_all add: pump_inv_def)
  have eff: "abs_bus r1 = (if ok then spec_leave (unat ci) (abs_bus ?r) else abs_bus ?r)" "bus_inv r1" "same_frame ?r r1" "fd_table r1 = fd_table ?r"
    using leave_bus [OF bus, of ci] leave_frame [OF bus_invD(1) [OF bus], of ci] UnregisterConsumer_fds [of ci ?r]
    by (simp_all add: rm)
  have old: "abs_bus ?r j = Some q" if "abs_bus r1 j = Some q" for j q
    using that by (simp add: eff(1) spec_leave_def split: if_splits)
  have "wired (w\<lparr>pw_ring := r1, pw_subscriber := pw_subscriber w\<rparr>)"
  proof (rule wired_ring [OF wired eff(4)])
    fix j assume "online r1 j"
    then have "abs_bus ?r j = Some (pending r1 j)"
      by (intro old) (simp add: abs_bus_def)
    then show "subscriber_of j ?r (pw_subscriber w j)"
      using wired abs_bus_online by (auto simp: wired_def)
  qed (use eff(3) in \<open>simp add: same_frame_def\<close>)
  then have "wired (w\<lparr>pw_ring := r1\<rparr>)" by simp
  then show ?thesis
    using inv eff(2,4) old by (auto simp: pump_inv_def credits_ring)
qed

lemma pump_step_keeps: "pump_step w w' \<Longrightarrow> pump_inv w \<Longrightarrow> pump_inv w'"
  by (induction rule: pump_step.induct)
    (blast intro: commit_keeps scan_keeps notify_keeps wake_keeps dispatch_keeps join_keeps leave_keeps)+

interpretation pumps: state_machine pump_step pump_inv
  by unfold_locales (rule pump_step_keeps)

lemma pump_inv_start: "bus_inv (pw_ring w) \<Longrightarrow> wired w \<Longrightarrow> \<forall>c. \<not> online (pw_ring w) c \<Longrightarrow> pump_inv w"
  by (simp add: pump_inv_def abs_bus_def)


text \<open>Consumer 0 joins the empty demo ring, one message is published, notified and dispatched.\<close>

definition demo_subscriber :: SubscriberEntry where
  "demo_subscriber = \<lparr>su_channel = ''c'', su_module_name = ''m'', su_consumer_index = 0, su_event_fd = 10, su_stop = False,
     su_dedup_capacity = 4, su_dedup_window = [], su_dedup_keys = {}\<rparr>"

definition demo_world :: pump_world where
  "demo_world = \<lparr>pw_ring = demo_ring, pw_efds = (\<lambda>fd. Some 0), pw_walks = [], pw_subscriber = (\<lambda>c. demo_subscriber),
     pw_budget = (\<lambda>c. 0), pw_sent = (\<lambda>c. []), pw_got = (\<lambda>c. [])\<rparr>"

definition demo_one :: ring where
  "demo_one = snd (the (PublishCommittedPayload [idle] 0 [1] demo_joined))"

lemma demo_one_published: "PublishCommittedPayload [idle] 0 [1] demo_joined = Some (Inr 1, demo_one)"
  by code_simp

lemma demo_table: "notification_mappings demo_ring = [10, 11]" "notification_capacity (header demo_ring) = 2"
  "fd_table demo_joined = fd_table demo_ring" "fd_table demo_one = fd_table demo_ring"
proof -
  show "notification_mappings demo_ring = [10, 11]" "notification_capacity (header demo_ring) = 2"
    by code_simp+
  show "fd_table demo_joined = fd_table demo_ring"
    by (simp add: demo_joined_def)
  then show "fd_table demo_one = fd_table demo_ring"
    using publish_fds [of 1 0 "[1]" demo_joined] demo_one_published by simp
qed

lemma demo_world_wired: "wired demo_world"
  by (auto simp: wired_def demo_world_def demo_table demo_header fresh_header_def Initialize_inv(3) [OF demo_init]
      less_2_cases_iff inj_on_def)

lemma demo_started_fits: "publishable demo_joined [1]" "head_seq demo_joined < 2 ^ 32"
proof -
  have "same_frame demo_ring demo_joined"
    unfolding demo_joined_def by (rule join_frame [OF demo_good(2)])
  then show "publishable demo_joined [1]" "head_seq demo_joined < 2 ^ 32"
    using demo_header(2) demo_header(1)
    by (simp_all add: publishable_def fits_def same_frame_def per_slot_capacity_def fresh_header_def)
qed

lemma demo_one_bus: "abs_bus demo_one = spec_publish [1] (abs_bus demo_joined)"
  using publish_bus(1) [of demo_joined "[1]" 1 0 "Inr 1" demo_one] demo_started_fits demo_joined_inv demo_one_published
  by (simp add: ring_good_def)

lemma demo_one_online: "online demo_one j \<longleftrightarrow> j = 0"
  using fun_cong [OF demo_one_bus, of j] by (auto simp: abs_bus_def spec_publish_def demo_joined_online split: if_splits)

lemma demo_one_waiting: "pending demo_one 0 \<noteq> []"
  using fun_cong [OF demo_one_bus, of 0] by (simp add: abs_bus_def spec_publish_def demo_joined_online demo_one_online)

lemma const_upd: "(\<lambda>c. x)(a := x) = (\<lambda>c. x)"
  by auto

definition demo_joined_world :: pump_world where
  "demo_joined_world = demo_world\<lparr>pw_ring := demo_joined, pw_subscriber := (\<lambda>c. demo_subscriber)\<rparr>"

definition demo_notified :: pump_world where
  "demo_notified = demo_joined_world\<lparr>pw_ring := demo_one, pw_efds := (\<lambda>fd. Some 0)(10 \<mapsto> 0), pw_walks := [(2, [])],
     pw_budget := (\<lambda>c. 0)(0 := 1), pw_sent := (\<lambda>c. if c = 0 then [[1]] else [])\<rparr>"

lemma demo_wake: "pump_step\<^sup>*\<^sup>* demo_world demo_notified"
proof -
  let ?w1 = demo_joined_world
  let ?w2 = "?w1\<lparr>pw_ring := demo_one, pw_walks := [(0, [])], pw_sent := (\<lambda>c. if c = 0 then [[1]] else [])\<rparr>"
  let ?w3 = "?w2\<lparr>pw_walks := [(1, [10])]\<rparr>"
  let ?w4 = "?w2\<lparr>pw_walks := [(2, [10])]\<rparr>"
  let ?w5 = "?w2\<lparr>pw_efds := (\<lambda>fd. Some 0)(10 \<mapsto> 1), pw_walks := [(2, [])]\<rparr>"
  note fits = demo_started_fits and on = demo_one_online
  have "AddConsumerOnline 7 0 demo_ring = (True, demo_joined)"
    unfolding demo_joined_def by code_simp
  from join [of 7 0 demo_world demo_joined demo_subscriber] this
  have 1: "pump_step demo_world ?w1"
    by (simp add: demo_world_def demo_joined_world_def subscriber_of_def demo_subscriber_def demo_table const_upd)
  have 2: "pump_step ?w1 ?w2"
    using commit [of 0 "[1]" ?w1 1 demo_one] demo_one_published fits
    by (simp add: demo_joined_world_def demo_world_def demo_joined_online cong: if_cong)
  have fds: "notification_mappings demo_one = [10, 11]" "notification_capacity (header demo_one) = 2"
    using demo_table by (simp_all add: fd_table_def)
  have n: "n_consumers demo_one = 2" and off: "cstate (consumer demo_one 1) \<noteq> kOnline"
    by code_simp+
  have "entry_fds 0 demo_one = [10]" "entry_fds 1 demo_one = []"
    using on [of 0] off by (simp_all add: entry_fds_def LoadConsumerNotificationFd_def fds online_def)
  with n have 3: "pump_step ?w2 ?w3" and 4: "pump_step ?w3 ?w4"
    using scan [of ?w2 "[]" 0 "[]" "[]"] scan [of ?w3 "[]" 1 "[10]" "[]"]
    by (simp_all add: demo_joined_world_def demo_world_def numeral_2_eq_2)
  have 5: "pump_step ?w4 ?w5"
    using notify [of ?w4 "[]" 2 10 "[]" "[]"] n
    by (simp add: demo_joined_world_def demo_world_def NotifyEventFd_def max_event_count_def)
  have 6: "pump_step ?w5 demo_notified"
    using wake [of ?w5 0 1 "(\<lambda>fd. Some 0)(10 \<mapsto> 0)"] on [of 0]
    by (simp add: demo_notified_def demo_joined_world_def demo_world_def demo_subscriber_def ReadEventFdNotifyCount_def)
  from 1 2 3 4 5 6 show ?thesis
    by (meson converse_rtranclp_into_rtranclp rtranclp.rtrancl_refl)
qed


end
