(* ===== verification/Compete_Properties.thy ===== *)
theory Compete_Properties
  imports Dispatch_Properties
begin

text \<open>
  Compete mode: the consumers of a channel share its messages. Every consumer reads every message,
  the first to claim its slot calls its handler. The claim flags are followed through publishing,
  reclaiming and completing, and over any order of the processes' calls each message that a consumer
  moves past has been handled exactly once.
\<close>

section \<open>Reclaimed slots\<close>

definition thinned :: "ring \<Rightarrow> ring \<Rightarrow> bool" where
  "thinned r r' \<longleftrightarrow> slot_count (header r') = slot_count (header r) \<and>
     (\<forall>i < n_slots r. slot r' i = slot r i \<or> slot_state (slot r' i) = Some kEmpty \<and> claimed (slot r' i) = 0)"

lemma thinned_refl [simp]: "thinned r r"
  by (simp add: thinned_def)

lemma thinned_trans: "thinned a b \<Longrightarrow> thinned b c \<Longrightarrow> thinned a c"
  unfolding thinned_def by metis

lemma thinned_same: "slots r' = slots r \<Longrightarrow> slot_count (header r') = slot_count (header r) \<Longrightarrow> thinned r r'"
  by (simp add: thinned_def slot_def)

lemma ReclaimCommittedSlots_thins: "ring_inv r \<Longrightarrow> thinned r (snd (ReclaimCommittedSlots r))"
  using ReclaimCommittedSlots_char [OF ring_invD(1), of r]
  by (auto simp: thinned_def same_but_slots_simps reclaim_slot_def)

lemma TryReclaimSlotIfSafe_thins: "ring_inv r \<Longrightarrow> thinned r (snd (TryReclaimSlotIfSafe i r))"
  using TryReclaimSlotIfSafe_char [OF ring_invD(1), of r i]
  by (auto simp: thinned_def same_but_slots_simps reclaim_slot_def)

lemma UnregisterConsumer_thins:
  assumes "ring_inv r"
  shows "thinned r (snd (UnregisterConsumer c r))"
proof (rule UnregisterConsumer_cases [OF assms, of c])
  fix r2
  assume "UnregisterConsumer c r = (True, snd (ReclaimCommittedSlots r2))" "ring_inv r2"
    "slots r2 = slots r" "slot_count (header r2) = slot_count (header r)"
  then show ?thesis
    using thinned_trans [OF thinned_same ReclaimCommittedSlots_thins] by simp
qed simp

lemma AddConsumerOnline_slots [simp]: "slots (snd (AddConsumerOnline pid c r)) = slots r"
  by (simp add: AddConsumerOnline_def RegisterConsumer_def Let_def cas_def set_consumer_def set_header_def)

lemma CompleteConsumerSlot_thins:
  assumes "bus_inv r" "TryReadNextForConsumer c r = Some (res, i)"
  shows "thinned r (snd (snd (CompleteConsumerSlot c i (res_sequence res + 1) k r)))"
proof -
  let ?m = "moved (unat c) (res_sequence res + 1) r"
  have inv: "ring_inv r" by (rule bus_invD(1) [OF assms(1)])
  have on: "online r (unat c)" and lt: "cursor r (unat c) < head_seq r"
    and seq: "res_sequence res = read_sequence (consumer r (unat c))"
    using assms(2) by (auto simp: read_next [OF assms(1)] Let_def split: if_splits)
  have s: "unat (res_sequence res + 1) = cursor r (unat c) + 1"
    using lt unat_u64_less [of "next_sequence (header r)"] by (simp add: seq unat_plus_1)
  then have s0: "res_sequence res + 1 \<noteq> 0" by auto
  have m: "ring_inv ?m" "thinned r ?m"
    using moved_bus(2) [OF assms(1) on lt s] by (auto dest: bus_invD intro: thinned_same)
  have "thinned r (snd (TryReclaimSlotIfSafe i r1))" if "thinned r r1" "ring_inv r1" for r1
    using that thinned_trans TryReclaimSlotIfSafe_thins by blast
  then show ?thesis
    using on s m ReclaimCommittedSlots_inv [OF m(1)] thinned_trans [OF m(2) ReclaimCommittedSlots_thins [OF m(1)]]
    by (simp add: CompleteConsumerSlot_def AdvanceConsumerCursor_effect [OF inv s0])
qed

text \<open>A publish that runs alone first reclaims, then fills an empty slot.\<close>

lemma reserve_loop_thins:
  assumes "ring_good r" "fits r len" "reserve_loop (replicate k idle) (of_nat len) r = Some (res_i, r1)"
  shows "\<exists>r0. reserved_from len r0 res_i r1 \<and> thinned r r0 \<and> same_frame r r0"
  using assms
proof (induction k arbitrary: r)
  case 0
  then show ?case
    using reserve_once [OF 0(1,2)] by (auto split: prod.splits option.splits)
next
  case (Suc k)
  let ?r = "snd (ReclaimCommittedSlots r)"
  have inv: "ring_inv r" using Suc(2) by (simp add: ring_good_def)
  show ?case
  proof (cases "slot_state (slot r (target_slot r)) = Some kEmpty")
    case True
    then obtain x r2 where x: "ReservePublishSlotRingOrdered (of_nat len) r = (Some x, r2)"
      using reserve_free [OF inv Suc(3)] by metis
    with reserve_once [OF Suc(2,3)] Suc(4) have "reserved_from len r res_i r1"
      by simp
    then show ?thesis by (metis same_frame_refl thinned_refl)
  next
    case False
    from reserve_occupied [OF inv Suc(3) this]
    have "reserve_loop (replicate k idle) (of_nat len) ?r = Some (res_i, r1)"
      using Suc(4) by (simp add: idle_def [of ?r])
    moreover have "ring_good ?r" "fits ?r len"
      using ring_good_reclaim [OF Suc(2)] Suc(3) fits_cong [of ?r r len] by auto
    moreover have "same_frame r ?r" "thinned r ?r"
      by (rule reclaim_frame [OF ring_invD(1) [OF inv]], rule ReclaimCommittedSlots_thins [OF inv])
    ultimately show ?thesis
      using Suc.IH [of ?r] by (metis same_frame_trans thinned_trans)
  qed
qed

lemma publish_thins:
  assumes "ring_good r" "publishable r p" "PublishCommittedPayload (replicate k idle) ns p r = Some (Inr s, r')"
  shows "\<exists>r0. ring_good r0 \<and> slot_state (slot r0 (target_slot r0)) = Some kEmpty \<and> r' = published ns p r0 \<and>
    thinned r r0 \<and> same_frame r r0"
proof -
  have inv: "ring_inv r" using assms(1) by (simp add: ring_good_def)
  obtain rs i r1 where loop: "reserve_loop (replicate k idle) (of_nat (length p)) r = Some ((rs, i), r1)"
    using assms(3) publish_guards [OF inv assms(2)] by (auto split: option.splits prod.splits)
  then obtain r0 where r0: "reserved_from (length p) r0 (rs, i) r1" "thinned r r0" "same_frame r r0"
    using reserve_loop_thins [OF assms(1) assms(2) [unfolded publishable_def] loop] by blast
  have "r' = published ns p r0"
    using assms(3) publish_guards [OF inv assms(2)] loop publish_commit [OF r0(1)] by auto
  with r0 show ?thesis
    by (auto simp: reserved_from_def)
qed

text \<open>
  A slot that is emptied before its claim flag is reset carries the flag into the next publication:
  nobody can claim that message.
\<close>

lemma stale_claim_survives_publish:
  assumes "ring_good r" "claimed (slot r (target_slot r)) \<noteq> 0"
  shows "\<not> fst (TryClaimSlot (of_nat (target_slot r)) (published ns p r))"
proof -
  have "unat (of_nat (target_slot r) :: u32) = target_slot r"
    using target_slot_less [of r] assms(1) unat_u32_less [of "slot_count (header r)"]
    by (intro unat_of_nat_len) (auto simp: ring_good_def)
  then show ?thesis
    using assms(2) by (simp add: TryClaimSlot_effect slot_published [OF assms(1)])
qed

section \<open>Claims and handled messages\<close>

text \<open>A slot is claimed exactly when its message was handled; an empty slot is unclaimed.\<close>

definition claims_exact :: "nat set \<Rightarrow> ring \<Rightarrow> bool" where
  "claims_exact handled r \<longleftrightarrow>
     (\<forall>i < n_slots r. (slot_state (slot r i) = Some kEmpty \<longrightarrow> claimed (slot r i) = 0) \<and>
        (slot_state (slot r i) = Some kCommitted \<longrightarrow> (claimed (slot r i) \<noteq> 0 \<longleftrightarrow> slot_seq (slot r i) \<in> handled)))"

lemma claims_thinned:
  assumes "claims_exact handled r" "thinned r r'"
  shows "claims_exact handled r'"
  unfolding claims_exact_def
proof (intro allI impI)
  fix i assume "i < n_slots r'"
  then have "i < n_slots r" "slot r' i = slot r i \<or> slot_state (slot r' i) = Some kEmpty \<and> claimed (slot r' i) = 0"
    using assms(2) by (simp_all add: thinned_def)
  then show "(slot_state (slot r' i) = Some kEmpty \<longrightarrow> claimed (slot r' i) = 0) \<and>
        (slot_state (slot r' i) = Some kCommitted \<longrightarrow> (claimed (slot r' i) \<noteq> 0 \<longleftrightarrow> slot_seq (slot r' i) \<in> handled))"
    using assms(1) by (auto simp: claims_exact_def)
qed

lemma claims_published:
  assumes "claims_exact handled r" "ring_good r" "slot_state (slot r (target_slot r)) = Some kEmpty" "\<forall>s \<in> handled. s < head_seq r"
  shows "claims_exact handled (published ns p r)"
proof -
  have "ring_inv r" "unat (next_sequence (header r)) < 2 ^ 32"
    using assms(2) by (simp_all add: ring_good_def)
  then show ?thesis
    using assms target_slot_less [of r] by (auto simp: claims_exact_def slot_published [OF assms(2)])
qed

text \<open>The slot a consumer reads next.\<close>

lemma read_slot:
  assumes inv: "bus_inv r" and read: "TryReadNextForConsumer c r = Some (res, i)"
  shows "unat i < n_slots r" "slot_state (slot r (unat i)) = Some kCommitted" "slot_seq (slot r (unat i)) = cursor r (unat c)"
    "unat (res_sequence res) = cursor r (unat c)" "online r (unat c)" "pending r (unat c) \<noteq> []"
proof -
  have on: "online r (unat c)" and lt: "cursor r (unat c) < head_seq r"
    and eq: "res_sequence res = read_sequence (consumer r (unat c))"
      "i = slot_index_of (slot_count (header r)) (read_sequence (consumer r (unat c)))"
    using read by (auto simp: read_next [OF inv] Let_def split: if_splits)
  have n0: "slot_count (header r) \<noteq> 0" and s0: "read_sequence (consumer r (unat c)) \<noteq> 0"
    using bus_invD(1) [OF inv] coveredD(1) [OF bus_invD(1) [OF inv] on] by (auto simp: ring_inv_def ring_shape_def)
  have i: "unat i = (cursor r (unat c) - 1) mod n_slots r"
    by (simp add: eq unat_slot_index_of [OF n0 s0])
  show "unat i < n_slots r" "slot_state (slot r (unat i)) = Some kCommitted" "slot_seq (slot r (unat i)) = cursor r (unat c)"
    using waiting_committed [OF inv on order_refl lt] by (simp_all add: i)
  show "unat (res_sequence res) = cursor r (unat c)" "online r (unat c)" "pending r (unat c) \<noteq> []"
    using on lt by (simp_all add: eq pending_def)
qed

text \<open>Claiming changes the flag only.\<close>

lemma claim_effect:
  assumes "bus_inv r" "unat i < n_slots r"
  defines "r1 \<equiv> snd (TryClaimSlot i r)"
  shows "bus_inv r1" "abs_bus r1 = abs_bus r" "same_frame r r1" "TryReadNextForConsumer c r1 = TryReadNextForConsumer c r"
    "fst (TryClaimSlot i r) \<longleftrightarrow> claimed (slot r (unat i)) = 0"
    "slot r1 j = (if j = unat i \<and> claimed (slot r j) = 0 then (slot r j)\<lparr>claimed := 1\<rparr> else slot r j)"
proof -
  have len: "unat i < length (slots r)"
    using assms(2) shape_slots [OF bus_invD(1) [OF assms(1)]] by simp
  have sl: "slot r1 j = (if j = unat i \<and> claimed (slot r j) = 0 then (slot r j)\<lparr>claimed := 1\<rparr> else slot r j)" for j
    using assms(2) len by (auto simp: r1_def TryClaimSlot_effect slot_set_slot)
  have eqs: "header r1 = header r" "consumers r1 = consumers r" "payload_region r1 = payload_region r"
    using assms(2) by (auto simp: r1_def TryClaimSlot_effect)
  show "fst (TryClaimSlot i r) \<longleftrightarrow> claimed (slot r (unat i)) = 0"
    using assms(2) by (simp add: TryClaimSlot_effect)
  show "slot r1 j = (if j = unat i \<and> claimed (slot r j) = 0 then (slot r j)\<lparr>claimed := 1\<rparr> else slot r j)"
    by (rule sl)
  have con: "consumer r1 d = consumer r d" "online r1 d = online r d" for d
    by (simp_all add: consumer_def online_def eqs)
  have "message r1 s = message r s" for s
    by (intro message_frame) (simp_all add: eqs sl)
  then have "pending r1 d = pending r d" for d
    by (intro pending_frame) (simp_all add: con eqs)
  then show "abs_bus r1 = abs_bus r"
    by (simp add: abs_bus_def con fun_eq_iff)
  show inv: "bus_inv r1"
    using assms(1) TryClaimSlot_inv [of r i] bus_invD [OF assms(1)]
    by (auto simp: bus_inv_def quiescent_def r1_def [symmetric] eqs sl)
  show "same_frame r r1"
    by (simp add: same_frame_def eqs)
  show "TryReadNextForConsumer c r1 = TryReadNextForConsumer c r"
    using inv assms(1) by (simp add: read_next con eqs sl Let_def)
qed

lemma compete_dispatch:
  assumes inv: "bus_inv (ds_ring d)" and go: "\<not> su_stop (ds_subscriber d)" and on: "dispatch_online d" and q: "dispatch_queue d \<noteq> []"
    and claims: "claims_exact handled (ds_ring d)"
  shows "\<exists>d' calls. TryDispatchOneRingMessage ys throws kCompete d = Some (True, d') \<and> bus_inv (ds_ring d') \<and>
    same_frame (ds_ring d) (ds_ring d') \<and>
    abs_bus (ds_ring d') = spec_complete (unat (su_consumer_index (ds_subscriber d))) (abs_bus (ds_ring d)) \<and>
    claims_exact (insert (dispatch_cursor d) handled) (ds_ring d') \<and> ds_calls d' = ds_calls d @ calls \<and>
    map (\<lambda>e. unat (me_sequence e)) calls = (if dispatch_cursor d \<in> handled then [] else [dispatch_cursor d])"
proof -
  let ?r = "ds_ring d" and ?ci = "su_consumer_index (ds_subscriber d)"
  let ?c = "unat ?ci"
  have lt: "cursor ?r ?c < head_seq ?r"
    using q by (simp add: pending_def)
  then obtain res i where read: "TryReadNextForConsumer ?ci ?r = Some (res, i)" and seq: "res_sequence res = read_sequence (consumer ?r ?c)"
    using on by (auto simp: read_next [OF inv] Let_def)
  note at = read_slot [OF inv read]
  have cur: "LoadConsumerCursor ?ci ?r = Some (read_sequence (consumer ?r ?c))" "read_sequence (consumer ?r ?c) \<noteq> 0" "slot_count (header ?r) \<noteq> 0"
    using on coveredD(1) [OF bus_invD(1) [OF inv] on] bus_invD(1) [OF inv]
    by (auto simp: LoadConsumerCursor_def online_def word_less_nat_alt not_le ring_inv_def ring_shape_def)
  obtain won r1 where cl: "TryClaimSlot i ?r = (won, r1)" by (cases "TryClaimSlot i ?r")
  note ce = claim_effect [OF inv at(1), unfolded cl fst_conv snd_conv]
  have won: "won \<longleftrightarrow> cursor ?r ?c \<notin> handled"
    using claims at(1-3) ce(5) by (auto simp: claims_exact_def)
  have read1: "TryReadNextForConsumer ?ci r1 = Some (res, i)"
    using read by (simp add: ce(4))
  let ?done = "CompleteConsumerSlot ?ci i (res_sequence res + 1) (ds_count d) r1"
  obtain ok count r2 where fin: "?done = (ok, count, r2)" by (cases ?done)
  have eff: "ok" "abs_bus r2 = spec_complete ?c (abs_bus ?r)" "bus_inv r2" "same_frame ?r r2" "thinned r1 r2"
    using complete_bus [OF ce(1) read1, of "ds_count d"] complete_frame [OF ce(1) read1, of "ds_count d"]
      CompleteConsumerSlot_thins [OF ce(1) read1, of "ds_count d"] same_frame_trans [OF ce(3)] by (simp_all add: fin ce(2))
  let ?env = "envelope_of res d"
  let ?d1 = "d\<lparr>ds_subscriber := remember_key (BuildDedupKey (su_channel (ds_subscriber d)) (res_sequence res)) (ds_subscriber d), ds_ring := r1\<rparr>"
  let ?d' = "(if won then call_handler throws ?env ?d1 else ?d1)\<lparr>ds_count := count, ds_ring := r2\<rparr>"
  have "TryDispatchOneRingMessage ys throws kCompete d = Some (True, ?d')"
    using go cur fin eff(1) cl by (simp add: TryDispatchOneRingMessage_def Let_def read seq dispatch_message_def)
  moreover have "claims_exact (insert (cursor ?r ?c) handled) r1"
    unfolding claims_exact_def
  proof (intro allI impI)
    fix j assume "j < n_slots r1"
    then have j: "j < n_slots ?r"
      using ce(3) by (simp add: same_frame_def)
    have "slot_seq (slot ?r j) \<noteq> cursor ?r ?c" if "slot_state (slot ?r j) = Some kCommitted" "j \<noteq> unat i"
    proof
      assume "slot_seq (slot ?r j) = cursor ?r ?c"
      then have "(cursor ?r ?c - 1) mod n_slots ?r = j" "(cursor ?r ?c - 1) mod n_slots ?r = unat i"
        using bus_invD(1) [OF inv] j that(1) at(1-3) unfolding ring_inv_def slots_placed_iff by (metis insertI1 insertI2)+
      with that(2) show False by simp
    qed
    then show "(slot_state (slot r1 j) = Some kEmpty \<longrightarrow> claimed (slot r1 j) = 0) \<and>
        (slot_state (slot r1 j) = Some kCommitted \<longrightarrow> (claimed (slot r1 j) \<noteq> 0 \<longleftrightarrow> slot_seq (slot r1 j) \<in> insert (cursor ?r ?c) handled))"
      using claims j at(2,3) by (cases "j = unat i") (auto simp: claims_exact_def ce(6))
  qed
  then have "claims_exact (insert (cursor ?r ?c) handled) r2"
    by (rule claims_thinned [OF _ eff(5)])
  ultimately show ?thesis
    using eff won at(4) by (intro exI [of _ ?d'] exI [of _ "if won then [?env] else []"]) simp
qed

section \<open>Any order of calls\<close>

record compete_world =
  cw_ring :: ring
  cw_handled :: "nat list"
  cw_since :: "nat \<Rightarrow> nat"

text \<open>
  \<open>cw_handled\<close> lists the sequence numbers the handlers of all consumers were called with, \<open>cw_since\<close>
  where each consumer joined.
\<close>

inductive compete_step :: "compete_world \<Rightarrow> compete_world \<Rightarrow> bool" where
  publish: "PublishCommittedPayload [idle] ns p (cw_ring w) = Some (Inr s, r1) \<Longrightarrow> publishable (cw_ring w) p \<Longrightarrow>
    head_seq (cw_ring w) < 2 ^ 32 \<Longrightarrow> compete_step w (w\<lparr>cw_ring := r1\<rparr>)"
| dispatch: "TryDispatchOneRingMessage [] throws kCompete
      \<lparr>ds_ring = cw_ring w, ds_subscriber = sub, ds_metrics = m, ds_count = k, ds_calls = []\<rparr> = Some (ok, d) \<Longrightarrow>
    compete_step w (w\<lparr>cw_ring := ds_ring d, cw_handled := cw_handled w @ map (\<lambda>e. unat (me_sequence e)) (ds_calls d)\<rparr>)"
| join: "AddConsumerOnline pid ci (cw_ring w) = (True, r1) \<Longrightarrow>
    compete_step w (w\<lparr>cw_ring := r1, cw_since := (cw_since w)(unat ci := head_seq (cw_ring w))\<rparr>)"
| leave: "UnregisterConsumer ci (cw_ring w) = (ok, r1) \<Longrightarrow> compete_step w (w\<lparr>cw_ring := r1\<rparr>)"

definition compete_inv :: "compete_world \<Rightarrow> bool" where
  "compete_inv w \<longleftrightarrow> bus_inv (cw_ring w) \<and> claims_exact (set (cw_handled w)) (cw_ring w) \<and> distinct (cw_handled w) \<and>
     (\<forall>s \<in> set (cw_handled w). s < head_seq (cw_ring w)) \<and>
     (\<forall>c q. abs_bus (cw_ring w) c = Some q \<longrightarrow>
        (\<forall>s. cw_since w c \<le> s \<and> s + length q < head_seq (cw_ring w) \<longrightarrow> s \<in> set (cw_handled w)))"

lemma compete_publish:
  assumes inv: "compete_inv w" and pub: "PublishCommittedPayload [idle] ns p (cw_ring w) = Some (Inr s, r1)"
    and fits: "publishable (cw_ring w) p" "head_seq (cw_ring w) < 2 ^ 32"
  shows "compete_inv (w\<lparr>cw_ring := r1\<rparr>)"
proof -
  let ?r = "cw_ring w"
  have good: "ring_good ?r" "quiescent ?r"
    using inv fits(2) bus_invD [of ?r] by (simp_all add: compete_inv_def ring_good_def)
  have rep: "PublishCommittedPayload (replicate 1 idle) ns p ?r = Some (Inr s, r1)"
    using pub by simp
  note eff = publish_bus [OF good fits(1) rep]
  have head: "head_seq r1 = Suc (head_seq ?r)"
    using eff(5) head_reserved [OF good(1)] by simp
  obtain r0 where r0: "ring_good r0" "slot_state (slot r0 (target_slot r0)) = Some kEmpty" "r1 = published ns p r0" "thinned ?r r0" "same_frame ?r r0"
    using publish_thins [OF good(1) fits(1) rep] by blast
  have "claims_exact (set (cw_handled w)) r1"
    unfolding r0(3) using inv r0 by (intro claims_published claims_thinned [OF _ r0(4)]) (auto simp: compete_inv_def same_frame_def)
  then show ?thesis
    using inv eff(1,2) head by (fastforce simp: compete_inv_def spec_publish_def)
qed

lemma compete_dispatch_keeps:
  assumes inv: "compete_inv w" and run: "TryDispatchOneRingMessage [] throws kCompete
      \<lparr>ds_ring = cw_ring w, ds_subscriber = sub, ds_metrics = m, ds_count = k, ds_calls = []\<rparr> = Some (ok, d)"
  shows "compete_inv (w\<lparr>cw_ring := ds_ring d, cw_handled := cw_handled w @ map (\<lambda>e. unat (me_sequence e)) (ds_calls d)\<rparr>)"
proof -
  let ?r = "cw_ring w"
  let ?d = "\<lparr>ds_ring = ?r, ds_subscriber = sub, ds_metrics = m, ds_count = k, ds_calls = []\<rparr>"
  let ?c = "unat (su_consumer_index sub)"
  have bus: "bus_inv ?r" and claims: "claims_exact (set (cw_handled w)) ?r"
    using inv by (simp_all add: compete_inv_def)
  show ?thesis
  proof (cases "online ?r ?c \<and> pending ?r ?c \<noteq> [] \<and> \<not> su_stop sub")
    case False
    then have "Some (ok, d) = Some (False, ?d)"
      using dispatch_none [of ?d "[]" throws kCompete] bus run by auto
    then show ?thesis
      using inv by simp
  next
    case True
    obtain d' calls where d': "TryDispatchOneRingMessage [] throws kCompete ?d = Some (True, d')" "bus_inv (ds_ring d')" "same_frame ?r (ds_ring d')"
      "abs_bus (ds_ring d') = spec_complete ?c (abs_bus ?r)" "claims_exact (insert (cursor ?r ?c) (set (cw_handled w))) (ds_ring d')"
      "ds_calls d' = calls" "map (\<lambda>e. unat (me_sequence e)) calls = (if cursor ?r ?c \<in> set (cw_handled w) then [] else [cursor ?r ?c])"
      using compete_dispatch [of ?d "set (cw_handled w)" "[]" throws] bus claims True by auto
    have d: "d = d'" using run d'(1) by simp
    have q: "abs_bus ?r ?c = Some (pending ?r ?c)" and lt: "cursor ?r ?c < head_seq ?r"
      using True by (simp_all add: abs_bus_def pending_def)
    let ?h = "cw_handled w @ map (\<lambda>e. unat (me_sequence e)) (ds_calls d)"
    have h: "set ?h = insert (cursor ?r ?c) (set (cw_handled w))" "distinct ?h"
      using inv d'(7) by (auto simp: d d'(6) compete_inv_def)
    have head: "head_seq (ds_ring d) = head_seq ?r"
      using d'(3) by (simp add: d same_frame_def)
    have "s \<in> set ?h" if q': "abs_bus (ds_ring d) c = Some q'" "cw_since w c \<le> s" "s + length q' < head_seq ?r" for c q' s
    proof (cases "c = ?c")
      case True
      then have "length q' = head_seq ?r - cursor ?r ?c - 1"
        using q'(1) d'(4) q by (auto simp: d spec_complete_def)
      then have "s = cursor ?r ?c \<or> s + length (pending ?r ?c) < head_seq ?r"
        using q'(3) lt by auto
      then show ?thesis
        using inv q q'(2) True unfolding h(1) compete_inv_def by blast
    next
      case False
      then show ?thesis
        using inv q' d'(4) unfolding h(1) by (auto simp: d spec_complete_def compete_inv_def)
    qed
    moreover have "bus_inv (ds_ring d)" "claims_exact (set ?h) (ds_ring d)"
      unfolding h(1) using d'(2,5) by (simp_all add: d)
    moreover have "\<forall>s \<in> set ?h. s < head_seq ?r"
      unfolding h(1) using inv lt by (simp add: compete_inv_def)
    ultimately show ?thesis
      using h(2) by (simp add: compete_inv_def head)
  qed
qed

lemma compete_join:
  assumes inv: "compete_inv w" and add: "AddConsumerOnline pid ci (cw_ring w) = (True, r1)"
  shows "compete_inv (w\<lparr>cw_ring := r1, cw_since := (cw_since w)(unat ci := head_seq (cw_ring w))\<rparr>)"
proof -
  let ?r = "cw_ring w"
  have bus: "bus_inv ?r" using inv by (simp add: compete_inv_def)
  have eff: "abs_bus r1 = spec_join (unat ci) (abs_bus ?r)" "bus_inv r1" "same_frame ?r r1" "slots r1 = slots ?r"
    using join_bus [OF bus, of pid ci] join_frame [OF bus_invD(1) [OF bus], of pid ci] AddConsumerOnline_slots [of pid ci ?r]
    unfolding add by (simp_all only: fst_conv snd_conv if_True)
  have "claims_exact (set (cw_handled w)) r1"
    by (rule claims_thinned [of _ ?r, OF _ thinned_same]) (use inv eff(3,4) in \<open>simp_all add: compete_inv_def same_frame_def\<close>)
  moreover have head: "head_seq r1 = head_seq ?r"
    using eff(3) by (simp add: same_frame_def)
  moreover have "s \<in> set (cw_handled w)"
    if "abs_bus r1 c = Some q" "((cw_since w)(unat ci := head_seq ?r)) c \<le> s" "s + length q < head_seq ?r" for c q s
    using that inv by (cases "c = unat ci") (auto simp: eff(1) spec_join_def compete_inv_def)
  ultimately show ?thesis
    using inv eff(2) by (simp add: compete_inv_def del: fun_upd_apply)
qed

lemma compete_leave:
  assumes inv: "compete_inv w" and rm: "UnregisterConsumer ci (cw_ring w) = (ok, r1)"
  shows "compete_inv (w\<lparr>cw_ring := r1\<rparr>)"
proof -
  let ?r = "cw_ring w"
  have bus: "bus_inv ?r" using inv by (simp add: compete_inv_def)
  have eff: "abs_bus r1 = (if ok then spec_leave (unat ci) (abs_bus ?r) else abs_bus ?r)" "bus_inv r1" "same_frame ?r r1" "thinned ?r r1"
    using leave_bus [OF bus, of ci] leave_frame [OF bus_invD(1) [OF bus], of ci] UnregisterConsumer_thins [OF bus_invD(1) [OF bus], of ci]
    by (simp_all add: rm)
  have "abs_bus ?r c = Some q" if "abs_bus r1 c = Some q" for c q
    using that by (simp add: eff(1) spec_leave_def split: if_splits)
  moreover have "claims_exact (set (cw_handled w)) r1"
    by (rule claims_thinned [OF _ eff(4)]) (use inv in \<open>simp add: compete_inv_def\<close>)
  ultimately show ?thesis
    using inv eff(2,3) by (simp add: compete_inv_def same_frame_def) blast
qed

lemma compete_step_keeps: "compete_step w w' \<Longrightarrow> compete_inv w \<Longrightarrow> compete_inv w'"
  by (induction rule: compete_step.induct)
    (blast intro: compete_publish compete_dispatch_keeps compete_join compete_leave)+

interpretation consumers: state_machine compete_step compete_inv
  by unfold_locales (rule compete_step_keeps)

lemma compete_inv_start:
  assumes "Initialize open_fd sz n c region = Inr (cw_ring w)" "cw_handled w = []"
  shows "compete_inv w"
proof -
  have "slot (cw_ring w) i = zero_slot" if "i < n_slots (cw_ring w)" for i
    using that by (simp add: Initialize_Inr(4,6) [OF assms(1)] fresh_header_def slot_def)
  then show ?thesis
    using assms(2) Initialize_inv(1-3) [OF assms(1)]
    by (auto simp: compete_inv_def bus_inv_def ring_good_def claims_exact_def zero_slot_def abs_bus_def)
qed


text \<open>Two consumers, one message: both dispatch it, one of them handles it.\<close>

definition demo_pair :: ring where
  "demo_pair = snd (AddConsumerOnline 8 1 demo_joined)"

definition demo_pair_sent :: ring where
  "demo_pair_sent = snd (the (PublishCommittedPayload [idle] 0 [1] demo_pair))"

definition demo_member :: "u32 \<Rightarrow> SubscriberEntry" where
  "demo_member ci = \<lparr>su_channel = ''c'', su_module_name = ''m'', su_consumer_index = ci, su_event_fd = 10, su_stop = False,
     su_dedup_capacity = 4, su_dedup_window = [], su_dedup_keys = {}\<rparr>"

definition demo_turn :: "u32 \<Rightarrow> ring \<Rightarrow> (bool \<times> dispatch_state) option" where
  "demo_turn ci r = TryDispatchOneRingMessage [] (\<lambda>e. False) kCompete
     \<lparr>ds_ring = r, ds_subscriber = demo_member ci, ds_metrics = no_reliability_metrics, ds_count = 0, ds_calls = []\<rparr>"

definition demo_first :: dispatch_state where
  "demo_first = snd (the (demo_turn 0 demo_pair_sent))"

definition demo_second :: dispatch_state where
  "demo_second = snd (the (demo_turn 1 (ds_ring demo_first)))"

lemma demo_turns:
  "demo_turn 0 demo_pair_sent = Some (True, demo_first)" "demo_turn 1 (ds_ring demo_first) = Some (True, demo_second)"
proof -
  have some: "x = Some (b, snd (the x))" if "map_option fst x = Some b" for x :: "(bool \<times> dispatch_state) option" and b
    using that by auto
  have "map_option fst (demo_turn 0 demo_pair_sent) = Some True"
    by code_simp
  from some [OF this] show "demo_turn 0 demo_pair_sent = Some (True, demo_first)"
    unfolding demo_first_def .
  have "map_option fst (demo_turn 1 (ds_ring demo_first)) = Some True"
    by code_simp
  from some [OF this] show "demo_turn 1 (ds_ring demo_first) = Some (True, demo_second)"
    unfolding demo_second_def .
qed

lemma demo_pair_steps:
  "AddConsumerOnline 7 0 demo_ring = (True, demo_joined)" "AddConsumerOnline 8 1 demo_joined = (True, demo_pair)"
  "PublishCommittedPayload [idle] 0 [1] demo_pair = Some (Inr 1, demo_pair_sent)"
  "publishable demo_pair [1]" "head_seq demo_pair < 2 ^ 32" "head_seq demo_joined = 1"
proof -
  show "AddConsumerOnline 7 0 demo_ring = (True, demo_joined)" "AddConsumerOnline 8 1 demo_joined = (True, demo_pair)"
    unfolding demo_joined_def demo_pair_def by code_simp+
  show "PublishCommittedPayload [idle] 0 [1] demo_pair = Some (Inr 1, demo_pair_sent)"
    by code_simp
  have "same_frame demo_ring demo_joined" "same_frame demo_joined demo_pair"
    unfolding demo_joined_def demo_pair_def by (rule join_frame [OF demo_good(2)], rule join_frame [OF demo_joined_inv(1) [unfolded demo_joined_def]])
  then show "publishable demo_pair [1]" "head_seq demo_pair < 2 ^ 32" "head_seq demo_joined = 1"
    using demo_header(2) demo_header(1)
    by (simp_all add: publishable_def fits_def same_frame_def per_slot_capacity_def fresh_header_def)
qed


end
