(* ===== verification/Stop_Properties.thy ===== *)
theory Stop_Properties
  imports Dispatch_Properties
begin

text \<open>
  What stopping one runtime does to the others. \<^verbatim>\<open>StopAllSubscribers\<close> clears the notification
  descriptors of all consumers of the channels it mapped, in the shared table.
\<close>

definition silent :: "ring \<Rightarrow> bool" where
  "silent r \<longleftrightarrow> (\<forall>fd \<in> set (notification_mappings r). fd < 0)"

text \<open>\<open>r'\<close> is \<open>r\<close> with some descriptors cleared.\<close>

definition fds_cleared :: "ring \<Rightarrow> ring \<Rightarrow> bool" where
  "fds_cleared r r' \<longleftrightarrow> r' = r\<lparr>notification_mappings := notification_mappings r'\<rparr> \<and>
     length (notification_mappings r') = length (notification_mappings r) \<and>
     (\<forall>i. notification_mappings r' ! i = notification_mappings r ! i \<or> notification_mappings r' ! i < 0)"

lemma fds_cleared_refl [simp]: "fds_cleared r r"
  by (simp add: fds_cleared_def)

lemma fds_cleared_trans:
  assumes "fds_cleared a b" "fds_cleared b c"
  shows "fds_cleared a c"
proof -
  have "c = (a\<lparr>notification_mappings := notification_mappings b\<rparr>)\<lparr>notification_mappings := notification_mappings c\<rparr>"
    using assms unfolding fds_cleared_def by metis
  then have "c = a\<lparr>notification_mappings := notification_mappings c\<rparr>" by simp
  then show ?thesis
    using assms unfolding fds_cleared_def by metis
qed

lemma fds_cleared_simps:
  assumes "fds_cleared r r'"
  shows "header r' = header r" "consumers r' = consumers r" "consumer r' c = consumer r c" "online r' c = online r c"
proof -
  show h: "header r' = header r" "consumers r' = consumers r"
    using assms unfolding fds_cleared_def by (metis ring.select_convs ring.surjective ring.update_convs)+
  then show "consumer r' c = consumer r c" "online r' c = online r c"
    by (simp_all add: consumer_def online_def)
qed

lemma fds_cleared_silent: "fds_cleared r r' \<Longrightarrow> silent r \<Longrightarrow> silent r'"
  unfolding silent_def fds_cleared_def by (metis in_set_conv_nth)

lemma close_consumer_fds_effect:
  assumes "i + k = unat (notification_capacity (header r))" "length (notification_mappings r) = unat (notification_capacity (header r))"
  shows "fds_cleared r (snd (close_consumer_fds i k r)) \<and>
    (\<forall>j. i \<le> j \<and> j < i + k \<longrightarrow> notification_mappings (snd (close_consumer_fds i k r)) ! j < 0)"
  using assms
proof (induction k arbitrary: i r)
  case (Suc k)
  have idx: "unat (of_nat i :: u32) = i"
    using Suc.prems(1) unat_u32_less [of "notification_capacity (header r)"] by (intro unat_of_nat_len) simp
  have load: "LoadConsumerNotificationFd (of_nat i) r = Some (notification_mappings r ! i)"
    using Suc.prems(1) by (simp add: LoadConsumerNotificationFd_def word_le_nat_alt idx)
  let ?r1 = "if notification_mappings r ! i < 0 then r else snd (SetConsumerNotificationFd (of_nat i) (-1) r)"
  have r1: "fds_cleared r ?r1" "notification_mappings ?r1 ! i < 0" "header ?r1 = header r"
    "length (notification_mappings ?r1) = length (notification_mappings r)"
    using Suc.prems by (auto simp: SetConsumerNotificationFd_def word_le_nat_alt idx fds_cleared_def nth_list_update)
  have "snd (close_consumer_fds i (Suc k) r) = snd (close_consumer_fds (Suc i) k ?r1)"
    by (simp add: load split: prod.split)
  moreover have IH: "fds_cleared ?r1 (snd (close_consumer_fds (Suc i) k ?r1)) \<and>
      (\<forall>j. Suc i \<le> j \<and> j < Suc i + k \<longrightarrow> notification_mappings (snd (close_consumer_fds (Suc i) k ?r1)) ! j < 0)"
    using Suc.prems r1(3,4) by (intro Suc.IH) simp_all
  moreover have "notification_mappings (snd (close_consumer_fds (Suc i) k ?r1)) ! i < 0"
    using IH r1(2) unfolding fds_cleared_def by metis
  ultimately show ?case
    using fds_cleared_trans [OF r1(1)] by (metis Suc_leI add_Suc_right add_Suc le_neq_implies_less)
qed simp

definition tables_ok :: "ring \<Rightarrow> bool" where
  "tables_ok r \<longleftrightarrow> notification_capacity (header r) = consumer_capacity (header r) \<and> length (notification_mappings r) = n_consumers r"

lemma tables_ok_cleared: "fds_cleared r r' \<Longrightarrow> tables_ok r \<Longrightarrow> tables_ok r'"
  using fds_cleared_simps [of r r'] by (simp add: tables_ok_def) (simp add: fds_cleared_def)

lemma close_all_silent:
  assumes "tables_ok r"
  shows "fds_cleared r (snd (close_consumer_fds 0 (n_consumers r) r))" "silent (snd (close_consumer_fds 0 (n_consumers r) r))"
proof -
  note eff = close_consumer_fds_effect [of 0 "n_consumers r" r]
  show cl: "fds_cleared r (snd (close_consumer_fds 0 (n_consumers r) r))"
    using eff assms by (simp add: tables_ok_def)
  then show "silent (snd (close_consumer_fds 0 (n_consumers r) r))"
    using eff assms by (auto simp: tables_ok_def silent_def fds_cleared_def in_set_conv_nth)
qed

section \<open>All channels of the runtime\<close>

text \<open>The object of every segment is what it was, but for descriptors cleared in its ring.\<close>

definition segments_cleared :: "posix_shm \<Rightarrow> posix_shm \<Rightarrow> bool" where
  "segments_cleared shm shm' \<longleftrightarrow> (\<forall>name. rel_option (\<lambda>a b. fds_cleared (obj_ring a) (obj_ring b)) (shm name) (shm' name))"

lemma segments_cleared_refl [simp]: "segments_cleared shm shm"
  by (simp add: segments_cleared_def option.rel_refl)

lemma segments_cleared_ring:
  assumes "segments_cleared shm shm'" "shm (cr_segment cr) = Some obj"
  shows "fds_cleared (channel_ring cr shm) (channel_ring cr shm')"
proof -
  have "rel_option (\<lambda>a b. fds_cleared (obj_ring a) (obj_ring b)) (shm (cr_segment cr)) (shm' (cr_segment cr))"
    using assms(1) by (simp add: segments_cleared_def)
  then show ?thesis
    using assms(2) by (auto simp: channel_ring_def option_rel_Some1)
qed

lemma segments_cleared_trans:
  assumes "segments_cleared a b" "segments_cleared b c"
  shows "segments_cleared a c"
  unfolding segments_cleared_def
proof
  fix name
  have "rel_option (\<lambda>x y. fds_cleared (obj_ring x) (obj_ring y)) (a name) (b name)"
    "rel_option (\<lambda>x y. fds_cleared (obj_ring x) (obj_ring y)) (b name) (c name)"
    using assms by (simp_all add: segments_cleared_def)
  then show "rel_option (\<lambda>x y. fds_cleared (obj_ring x) (obj_ring y)) (a name) (c name)"
    by (cases "a name"; cases "b name"; cases "c name") (auto intro: fds_cleared_trans)
qed

lemma close_channels_effect:
  assumes "\<forall>(ch, cr) \<in> set channels. \<exists>obj. shm (cr_segment cr) = Some obj \<and> tables_ok (obj_ring obj)"
    "close_channels channels shm = (fds, shm')"
  shows "segments_cleared shm shm' \<and> (\<forall>(ch, cr) \<in> set channels. silent (channel_ring cr shm'))"
  using assms
proof (induction channels arbitrary: shm fds)
  case (Cons e channels)
  obtain ch cr where e: "e = (ch, cr)" by (cases e)
  obtain obj where obj: "shm (cr_segment cr) = Some obj" "tables_ok (obj_ring obj)"
    using Cons.prems(1) by (auto simp: e)
  let ?r = "channel_ring cr shm"
  let ?r1 = "snd (close_consumer_fds 0 (n_consumers ?r) ?r)"
  let ?shm1 = "store_ring (cr_segment cr) ?r1 shm"
  have r: "?r = obj_ring obj" using obj by (simp add: channel_ring_def)
  note eff = close_all_silent [of ?r, unfolded r, OF obj(2), folded r]
  have cl: "segments_cleared shm ?shm1"
    using eff(1) obj(1) r by (simp add: segments_cleared_def store_ring_def option.rel_refl)
  have others: "\<exists>obj. ?shm1 (cr_segment cr') = Some obj \<and> tables_ok (obj_ring obj)" if "(ch', cr') \<in> set channels" for ch' cr'
  proof -
    have "\<exists>obj. shm (cr_segment cr') = Some obj \<and> tables_ok (obj_ring obj)"
      using bspec [OF Cons.prems(1), of "(ch', cr')"] that by simp
    then obtain o' where o': "shm (cr_segment cr') = Some o'" "tables_ok (obj_ring o')"
      by blast
    have "tables_ok ?r1"
      using obj(2) tables_ok_cleared [OF eff(1)] r by simp
    then show ?thesis
      using o' by (simp add: store_ring_def obj(1))
  qed
  obtain fds' where rest: "close_channels channels ?shm1 = (fds', shm')"
    using Cons.prems(2) by (auto simp: e split: prod.splits)
  have "\<forall>(ch, cr) \<in> set channels. \<exists>obj. ?shm1 (cr_segment cr) = Some obj \<and> tables_ok (obj_ring obj)"
    using others by blast
  from Cons.IH [OF this rest]
  have IH: "segments_cleared ?shm1 shm' \<and> (\<forall>(ch, cr) \<in> set channels. silent (channel_ring cr shm'))" .
  have "?shm1 (cr_segment cr) = Some (obj\<lparr>obj_ring := ?r1\<rparr>)" "channel_ring cr ?shm1 = ?r1"
    by (simp_all add: store_ring_def obj(1) channel_ring_def)
  then have "silent (channel_ring cr shm')"
    using fds_cleared_silent [OF segments_cleared_ring [OF conjunct1 [OF IH], of cr]] eff(2) by simp
  then show ?case
    using IH segments_cleared_trans [OF cl] by (simp add: e)
qed simp

section \<open>Nobody is notified any more\<close>

definition table_length_ok :: "ring \<Rightarrow> bool" where
  "table_length_ok r \<longleftrightarrow> length (notification_mappings r) = unat (notification_capacity (header r))"

lemma silent_load:
  assumes "silent r" "table_length_ok r" "LoadConsumerNotificationFd c r = Some fd"
  shows "fd < 0"
  using assms by (auto simp: silent_def table_length_ok_def LoadConsumerNotificationFd_def word_le_nat_alt split: if_splits)

lemma online_fds_silent: "silent r \<Longrightarrow> table_length_ok r \<Longrightarrow> online_fds i k r = []"
  by (induction k arbitrary: i) (auto split: option.splits dest: silent_load)

lemma silent_fd_table: "fd_table r' = fd_table r \<Longrightarrow> silent r \<Longrightarrow> table_length_ok r \<Longrightarrow> silent r' \<and> table_length_ok r'"
  by (simp add: fd_table_def silent_def table_length_ok_def)

lemma acquire_scan_fds: "fd_table (snd (acquire_scan pid i k r)) = fd_table r"
proof (induction k arbitrary: i r)
  case (Suc k)
  obtain ok r1 where "AddConsumerOnline pid (of_nat i) r = (ok, r1)" by fastforce
  then show ?case
    using Suc.IH [of "Suc i" r1] AddConsumerOnline_fds [of pid "of_nat i" r] by simp
qed simp

lemma acquire_rounds_fds: "fd_table (snd (acquire_rounds pid k r)) = fd_table r"
proof (induction k arbitrary: r)
  case (Suc k)
  obtain c r1 where sc: "acquire_scan pid 0 (n_consumers r) r = (c, r1)" by fastforce
  then have "fd_table r1 = fd_table r"
    using acquire_scan_fds [of pid 0 "n_consumers r" r] by simp
  then show ?case
    using sc Suc.IH [of r1] by (cases c) simp_all
qed simp

lemma TryAcquire_fds: "fd_table (snd (TryAcquireConsumerOnlineSlot pid r)) = fd_table r"
  by (simp add: TryAcquireConsumerOnlineSlot_def acquire_rounds_fds)

lemma silent_subscribe:
  assumes "silent (channel_ring cr shm)" "table_length_ok (channel_ring cr shm)" "map_of (rt_runtime_by_channel rt) ch = Some cr"
  shows "\<not> fst (Subscribe pid m ch h (rt, shm))"
proof -
  obtain c r1 where acq: "TryAcquireConsumerOnlineSlot pid (channel_ring cr shm) = (c, r1)" by fastforce
  then have "silent r1 \<and> table_length_ok r1"
    using silent_fd_table [OF _ assms(1,2), of r1] TryAcquire_fds [of pid "channel_ring cr shm"] by simp
  then show ?thesis
    using acq assms(3) by (auto simp: Subscribe_def Let_def split: option.splits dest: silent_load)
qed

text \<open>
  C18: Stopping one module silences the others. After \<open>StopAllSubscribers\<close> in one process, on every
  channel it had mapped (it maps all channels of the topology), whoever subscribed: the other
  modules' consumers are still online and still hold their messages back, but a publish notifies
  nobody, so no pump wakes for them again; and no module, a restarted one included, can subscribe
  to the channel any more.
\<close>

theorem stop_silences_other_modules:
  assumes "StopAllSubscribers (rt, (shm, efds)) = (fds, (rt', (shm', efds')))"
    and "\<forall>(ch, cr) \<in> set (rt_runtime_by_channel rt). \<exists>obj. shm (cr_segment cr) = Some obj \<and> tables_ok (obj_ring obj)"
    and "(ch, cr) \<in> set (rt_runtime_by_channel rt)"
  shows "consumers (channel_ring cr shm') = consumers (channel_ring cr shm) \<and>
    (\<forall>ns p e res r1 e1. publish_and_notify [idle] ns p (channel_ring cr shm', e) = Some (res, (r1, e1)) \<longrightarrow> e1 = e) \<and>
    (\<forall>rt2 ch2 pid m h. map_of (rt_runtime_by_channel rt2) ch2 = Some cr \<longrightarrow> \<not> fst (Subscribe pid m ch2 h (rt2, shm')))"
proof -
  have close: "close_channels (rt_runtime_by_channel rt) shm = (fds, shm')"
    using assms(1) by (auto simp: StopAllSubscribers_def Let_def split: prod.splits)
  note eff = close_channels_effect [OF assms(2) close]
  obtain obj where obj: "shm (cr_segment cr) = Some obj" "tables_ok (obj_ring obj)"
    using bspec [OF assms(2,3)] by auto
  have cl: "fds_cleared (channel_ring cr shm) (channel_ring cr shm')"
    by (rule segments_cleared_ring [OF conjunct1 [OF eff] obj(1)])
  have sil: "silent (channel_ring cr shm')"
    using bspec [OF conjunct2 [OF eff] assms(3)] by simp
  have "tables_ok (channel_ring cr shm')"
    using tables_ok_cleared [OF cl] obj by (simp add: channel_ring_def)
  then have len: "table_length_ok (channel_ring cr shm')"
    by (simp add: tables_ok_def table_length_ok_def)
  have "e1 = e" if pub: "publish_and_notify [idle] ns p (channel_ring cr shm', e) = Some (res, (r1, e1))" for ns p e res r1 e1
  proof (cases "PublishCommittedPayload (replicate 1 idle) ns p (channel_ring cr shm')")
    case (Some x)
    obtain out r2 where x: "x = (out, r2)" by (cases x)
    have "silent r2 \<and> table_length_ok r2"
      by (rule silent_fd_table [OF publish_fds [OF Some [unfolded x]] sil len])
    then show ?thesis
      using pub Some by (cases out) (simp_all add: publish_and_notify_def x online_fds_silent)
  qed (use pub in \<open>simp add: publish_and_notify_def\<close>)
  moreover have "\<not> fst (Subscribe pid m ch2 h (rt2, shm'))" if "map_of (rt_runtime_by_channel rt2) ch2 = Some cr" for rt2 ch2 pid m h
    by (rule silent_subscribe [OF sil len that])
  ultimately show ?thesis
    using fds_cleared_simps(2) [OF cl] by blast
qed

text \<open>A runtime without subscribers of its own stops; consumer 0 of the channel belongs to another process.\<close>

definition demo_runtime :: bus_runtime where
  "demo_runtime = (new_runtime default_config)\<lparr>rt_topology_initialized := True,
     rt_runtime_by_channel := [(''c'', \<lparr>cr_segment = ''s'', cr_delivery_mode = kBroadcast\<rparr>)]\<rparr>"

definition demo_segments :: posix_shm where
  "demo_segments = [''s'' \<mapsto> \<lparr>obj_size = 0, obj_header = \<lparr>seg_magic = 0, seg_version = 0, seg_payload_capacity = 0\<rparr>, obj_ring = demo_joined\<rparr>]"

theorem stop_silences_other_modules_witness:
  "\<exists>fds rt' shm' efds' r'. StopAllSubscribers (demo_runtime, (demo_segments, Map.empty)) = (fds, (rt', (shm', efds'))) \<and>
     r' = channel_ring \<lparr>cr_segment = ''s'', cr_delivery_mode = kBroadcast\<rparr> shm' \<and>
     cstate (consumer r' 0) = kOnline \<and> \<not> fst (Subscribe 9 ''m'' ''c'' True (demo_runtime, shm')) \<and>
     map_option (\<lambda>x. snd (snd x) 10) (publish_and_notify [idle] 0 [1] (demo_joined, [10 \<mapsto> 0])) = Some (Some 1)"
proof -
  let ?cr = "\<lparr>cr_segment = ''s'', cr_delivery_mode = kBroadcast\<rparr>"
  have rt: "rt_runtime_by_channel demo_runtime = [(''c'', ?cr)]"
    by (simp add: demo_runtime_def)
  have "n_consumers demo_joined = 2" "notification_mappings demo_joined = [10, 11]" "notification_capacity (header demo_joined) = 2"
    "consumer_capacity (header demo_joined) = 2" and on: "cstate (consumer demo_joined 0) = kOnline"
    by code_simp+
  then have tables: "tables_ok demo_joined"
    by (simp add: tables_ok_def)
  obtain fds rt' shm' efds' where stop: "StopAllSubscribers (demo_runtime, (demo_segments, Map.empty)) = (fds, (rt', (shm', efds')))"
    by (metis prod.collapse)
  have ok: "\<forall>(ch, cr) \<in> set (rt_runtime_by_channel demo_runtime). \<exists>obj. demo_segments (cr_segment cr) = Some obj \<and> tables_ok (obj_ring obj)"
    using tables by (simp add: rt demo_segments_def)
  note main = stop_silences_other_modules [OF stop ok, of "''c''" ?cr, unfolded rt]
  have "cstate (consumer (channel_ring ?cr shm') 0) = kOnline"
    using main on by (simp add: consumer_def channel_ring_def demo_segments_def)
  moreover have "\<not> fst (Subscribe 9 ''m'' ''c'' True (demo_runtime, shm'))"
    using main rt by simp
  moreover have "map_option (\<lambda>x. snd (snd x) 10) (publish_and_notify [idle] 0 [1] (demo_joined, [10 \<mapsto> 0])) = Some (Some 1)"
    by code_simp
  ultimately show ?thesis
    using stop by blast
qed

end
