(* ===== verification/Module_Properties.thy ===== *)
theory Module_Properties
  imports Module_Base
begin

text \<open>
  The module frame: no message that the pump queued is lost or reordered on the way to the main
  thread, up to and including the shutdown; timers keep their distance.
\<close>

section \<open>Draining\<close>

definition somes :: "'c option list \<Rightarrow> 'c list" where
  "somes cs = map the (filter (\<lambda>c. c \<noteq> None) cs)"

lemma somes_simps [simp]:
  "somes [] = []" "somes (None # cs) = somes cs" "somes (Some c # cs) = c # somes cs" "somes (a @ b) = somes a @ somes b"
  by (simp_all add: somes_def)

lemma fold_Push [simp]: "fold Push cs queue = queue @ cs"
  by (induction cs arbitrary: queue) (simp_all add: Push_def)

lemma run_callbacks_all: "run_callbacks throws cs k = (ran_cs, Some n) \<Longrightarrow> ran_cs = somes cs \<and> n = k + length cs"
  by (induction throws cs k arbitrary: ran_cs rule: run_callbacks.induct) (auto split: if_splits prod.splits)

lemma DrainAll_all:
  "DrainAll throws pushed queue = ((ran_cs, Some n), queue') \<Longrightarrow> ran_cs = somes queue \<and> n = length queue \<and> queue' = pushed"
  using run_callbacks_all [of throws queue 0] by (auto simp: DrainAll_def)

text \<open>A callback that throws takes the ones behind it with it.\<close>

lemma throwing_callback_drops_rest:
  assumes "\<forall>c \<in> set (somes before). \<not> throws c" "throws c"
  shows "run_callbacks throws (before @ Some c # rest) k = (somes before @ [c], None)"
  using assms(1)
proof (induction before arbitrary: k)
  case (Cons b bs)
  then show ?case by (cases b) (simp_all add: assms(2))
qed (simp add: assms(2))

section \<open>Timers\<close>

text \<open>A timer that has fired is not due again before its interval is over, however often the timers are pumped.\<close>

lemma timer_distance:
  assumes "PumpDueTimers now ts = (tasks, ts')" "t \<in> set (ts_timers ts)" "timer_due now t"
  shows "tm_task t \<in> set tasks"
    and "\<exists>t' \<in> set (ts_timers ts'). tm_id t' = tm_id t \<and> tm_active t' \<and>
      (\<forall>later. timer_due later t' \<longleftrightarrow> now + tm_interval t * millisecond \<le> later)"
proof -
  show "tm_task t \<in> set tasks"
    using assms by (auto simp: PumpDueTimers_def)
  let ?f = "\<lambda>t. if timer_due now t then t\<lparr>tm_next_fire_at := now + tm_interval t * millisecond\<rparr> else t"
  have "?f t \<in> set (ts_timers ts')"
    using assms by (auto simp: PumpDueTimers_def timer_due_def)
  then show "\<exists>t' \<in> set (ts_timers ts'). tm_id t' = tm_id t \<and> tm_active t' \<and>
      (\<forall>later. timer_due later t' \<longleftrightarrow> now + tm_interval t * millisecond \<le> later)"
    using assms(3) by (intro bexI [of _ "?f t"]) (auto simp: timer_due_def)
qed

section \<open>The loop\<close>

fun is_callback :: "'t module_event \<Rightarrow> bool" where
  "is_callback (Handled ch msg) \<longleftrightarrow> True"
| "is_callback (Ignored ch msg) \<longleftrightarrow> True"
| "is_callback e \<longleftrightarrow> False"

definition callback_events :: "'t module_event list \<Rightarrow> 't module_event list" where
  "callback_events es = filter is_callback es"

lemma callback_events_simps [simp]:
  "callback_events (a @ b) = callback_events a @ callback_events b" "callback_events [] = []"
  "callback_events [RunIteration] = []" "callback_events (map TimerFired ts) = []"
  "callback_events (map (callback_event m) cs) = map (callback_event m) cs"
proof -
  show "callback_events (map (callback_event m) cs) = map (callback_event m) cs"
    unfolding callback_events_def by (rule filter_True) (auto simp: callback_event_def)
qed (simp_all add: callback_events_def filter_empty_conv)

lemma until_throw_none: "until_throw throws es = (es', False) \<Longrightarrow> es' = es"
  by (induction throws es arbitrary: es' rule: until_throw.induct) (auto split: if_splits prod.splits)

lemma callback_event_declared: "mb_declared m' = mb_declared m \<Longrightarrow> callback_event m' = callback_event m"
  by (simp add: callback_event_def fun_eq_iff)

text \<open>What a step of the loop leaves alone.\<close>

definition same_module :: "'t ModuleBase \<Rightarrow> 't ModuleBase \<Rightarrow> bool" where
  "same_module m m' \<longleftrightarrow> mb_declared m' = mb_declared m \<and> mb_bus m' = mb_bus m \<and> mb_module_name m' = mb_module_name m \<and>
     mb_config m' = mb_config m"

lemma same_module_trans: "same_module a b \<Longrightarrow> same_module b c \<Longrightarrow> same_module a c"
  by (simp add: same_module_def)

lemma iteration_callbacks:
  assumes "module_iteration throws x m = ((es, False), m')"
  shows "callback_events es = map (callback_event m) (somes (mb_queue m @ mr_arriving x)) \<and> mb_queue m' = mr_pushed x \<and> same_module m m'"
proof -
  obtain tasks ts where pump: "PumpDueTimers (mr_now x) (the (mb_timers m)) = (tasks, ts)" by fastforce
  let ?m1 = "m\<lparr>mb_timers := Some ts\<rparr>"
  obtain es1 t where tt: "until_throw throws (map TimerFired tasks) = (es1, t)" by fastforce
  have t: "\<not> t"
    using assms by (auto simp: module_iteration_def pump Let_def tt split: bool.splits)
  with tt have es1: "es1 = map TimerFired tasks"
    using until_throw_none by auto
  obtain cbs n queue where dr: "WaitAndDrain (throws \<circ> callback_event ?m1) (mr_arriving x) (mr_pushed x) (mb_queue ?m1) = ((cbs, n), queue)"
    by (metis prod.collapse)
  have n: "n \<noteq> None" and es: "es = es1 @ map (callback_event ?m1) cbs @ [RunIteration]" and m': "m' = ?m1\<lparr>mb_queue := queue\<rparr>"
    using assms t dr by (auto simp: module_iteration_def pump Let_def tt split: if_splits)
  then obtain k where "n = Some k" by auto
  then have "cbs = somes (mb_queue m @ mr_arriving x)" "queue = mr_pushed x"
    using dr DrainAll_all by (fastforce simp: WaitAndDrain_def)+
  then show ?thesis
    by (simp add: es es1 m' same_module_def callback_event_declared [of ?m1 m])
qed

definition arrivals :: "module_round list \<Rightarrow> (string \<times> MessageEnvelope) option list" where
  "arrivals rounds = concat (map (\<lambda>x. mr_arriving x @ mr_pushed x) (takeWhile mr_running rounds))"

lemma loop_callbacks:
  assumes "module_loop throws rounds m = Some ((es, False), m')"
  shows "callback_events es @ map (callback_event m) (somes (mb_queue m')) = map (callback_event m) (somes (mb_queue m @ arrivals rounds)) \<and>
    same_module m m'"
  using assms
proof (induction rounds arbitrary: m es)
  case (Cons x xs)
  show ?case
  proof (cases "mr_running x")
    case False
    then show ?thesis
      using Cons.prems by (auto simp: arrivals_def same_module_def module_Stop_def)
  next
    case True
    obtain es1 t1 m1 where it1: "module_iteration throws x m = ((es1, t1), m1)"
      by (metis prod.collapse)
    have "\<not> t1"
    proof
      assume t1
      then show False
        using Cons.prems True it1 by simp
    qed
    with it1 have it: "module_iteration throws x m = ((es1, False), m1)"
      by simp
    have mo: "map_option (\<lambda>((es2, t), m2). ((es1 @ es2, t), m2)) (module_loop throws xs m1) = Some ((es, False), m')"
      using Cons.prems by (simp only: module_loop.simps True it if_False not_True_eq_False prod.case bool.case)
    note one = iteration_callbacks [OF it]
    have ev: "callback_event m1 = callback_event m"
      using one by (intro callback_event_declared) (simp add: same_module_def)
    show ?thesis
    proof (cases "module_loop throws xs m1")
      case None
      then show ?thesis using mo by simp
    next
      case (Some y)
      obtain es2 t m2 where y: "y = ((es2, t), m2)"
        by (metis prod.collapse)
      have eqs: "es = es1 @ es2" "\<not> t" "m2 = m'"
        using mo by (simp_all add: Some y)
      then have "module_loop throws xs m1 = Some ((es2, False), m')"
        by (simp add: Some y)
      note IH = Cons.IH [OF this]
      show ?thesis
        using one IH True same_module_trans [of m m1 m'] by (simp add: eqs(1) ev arrivals_def)
    qed
  qed
qed simp

section \<open>From Run to its return\<close>

lemma start_pump_queue: "mb_queue (snd (start_pump sy m)) = mb_queue m"
  by (simp add: start_pump_def split: option.split module_bus.split prod.split)

lemma module_Init_queue:
  assumes "\<And>m. mb_queue (snd (setup m)) = mb_queue m" "\<And>m. mb_queue (snd (do_init m)) = mb_queue m"
    and "module_Init setup do_init sy (m, shm) = (res, (m', shm'))"
  shows "mb_queue m' = mb_queue m"
proof -
  obtain ok1 m1 where 1: "setup (m\<lparr>mb_declared := {}, mb_stage := kSetupSubscriptions\<rparr>) = (ok1, m1)" by fastforce
  have q1: "mb_queue m1 = mb_queue m"
    using assms(1) [of "m\<lparr>mb_declared := {}, mb_stage := kSetupSubscriptions\<rparr>"] by (simp add: 1)
  show ?thesis
  proof (cases ok1)
    case False
    then show ?thesis using assms(3) q1 by (simp add: module_Init_def 1)
  next
    case True
    obtain e2 bus where 2: "module_topology sy shm m1 = (e2, bus)" by fastforce
    let ?m2 = "m1\<lparr>mb_bus := bus\<rparr>"
    show ?thesis
    proof (cases "(\<exists>e. e2 = Inl e) \<or> (\<exists>e. module_channels sy ?m2 = Inl e)")
      case True
      then show ?thesis
        using assms(3) \<open>ok1\<close> q1 by (auto simp: module_Init_def 1 2 Let_def split: sum.splits)
    next
      case False
      then obtain mc where mc: "e2 = Inr ()" "module_channels sy ?m2 = Inr mc"
        by (cases e2; cases "module_channels sy ?m2") auto
      obtain e3 bus3 shm3 where 3: "subscribe_inputs (sy_pid sy) (mb_module_name m1) (mc_inputs mc) (the bus) shm = (e3, bus3, shm3)"
        by (metis prod.collapse)
      obtain ok4 m4 where 4: "start_pump sy (m1\<lparr>mb_bus := Some bus3\<rparr>) = (ok4, m4)"
        by (metis prod.collapse)
      obtain ok5 m5 where 5: "do_init m4 = (ok5, m5)"
        by (metis prod.collapse)
      have q4: "mb_queue m4 = mb_queue m" "mb_queue m5 = mb_queue m"
        using start_pump_queue [of sy "m1\<lparr>mb_bus := Some bus3\<rparr>"] q1 assms(2) [of m4] by (simp_all add: 4 5)
      have run: "module_Init setup do_init sy (m, shm) =
          (case e3 of Inl err \<Rightarrow> (Inl err, (m1\<lparr>mb_bus := Some bus3\<rparr>, shm3))
           | Inr _ \<Rightarrow> if \<not> ok4 then (Inl PumpFailed, (m4, shm3)) else if \<not> ok5 then (Inl DoInitFailed, (m5, shm3)) else (Inr (), (m5, shm3)))"
        using \<open>ok1\<close> 4
        by (cases e3; cases ok4; cases ok5) (simp_all add: module_Init_def 1 2 Let_def mc 3 5)
      have "m' = m1\<lparr>mb_bus := Some bus3\<rparr> \<or> m' = m4 \<or> m' = m5"
        using assms(3) unfolding run by (cases e3) (auto split: if_splits)
      then show ?thesis
        using q1 q4 by auto
    qed
  qed
qed

text \<open>The shutdown drains what is left.\<close>

lemma shutdown_callbacks:
  assumes "module_shutdown throws final (m, sw) = ((RunReturned True, es), (m', sw'))"
  shows "es = map (callback_event m) (somes (mb_queue m @ final)) \<and> mb_queue m' = [] \<and> mb_stage m' = kStopped \<and>
    mb_declared m' = mb_declared m \<and> (\<forall>rt. mb_bus m' = Some (ShmBus rt) \<longrightarrow> rt_subscribers_by_channel rt = [] \<and> \<not> rt_pump_running rt)"
proof -
  obtain m2 sw2 where st: "stop_bus (m\<lparr>mb_queue := mb_queue m @ final\<rparr>, sw) = (m2, sw2)"
    by (rule prod.exhaust)
  have m2: "mb_queue m2 = mb_queue m @ final" "mb_declared m2 = mb_declared m"
    "\<forall>rt. mb_bus m2 = Some (ShmBus rt) \<longrightarrow> rt_subscribers_by_channel rt = [] \<and> \<not> rt_pump_running rt"
    using st by (auto simp: stop_bus_def StopAllSubscribers_def Let_def split: option.splits module_bus.splits prod.splits)
  obtain cbs n queue where dr: "DrainAll (throws \<circ> callback_event m2) [] (mb_queue m2) = ((cbs, n), queue)"
    by (metis prod.collapse)
  have run: "module_shutdown throws final (m, sw) =
      ((if n = None then RunThrew else RunReturned True, map (callback_event m2) cbs),
       (m2\<lparr>mb_queue := queue, mb_stage := (if n = None then kRunning else kStopped)\<rparr>, sw2))"
    using st dr by (simp add: module_shutdown_def)
  have n: "n \<noteq> None"
    using assms unfolding run by (auto split: if_splits)
  then obtain k where "n = Some k" by auto
  then have "cbs = somes (mb_queue m @ final)" "queue = []"
    using dr DrainAll_all m2(1) by fastforce+
  then show ?thesis
    using assms m2 n callback_event_declared [OF m2(2)] unfolding run by auto
qed

text \<open>
  C7: A module that ran to its end has handled every message its pump queued: while it waited, while
  other callbacks ran, and up to the moment the pump was stopped, once each and in the order they were
  queued. Afterwards the queue is empty, nothing is subscribed, and publishing is refused. The hooks
  of the module do not touch the queue, which is private.
\<close>

theorem module_handles_every_message:
  assumes "\<And>m. mb_queue (snd (setup m)) = mb_queue m" "\<And>m. mb_queue (snd (do_init m)) = mb_queue m"
    and "module_Run setup do_init env sy throws rounds final (m, w) = Some ((RunReturned True, es), (m', w'))"
  shows "callback_events es = map (callback_event m') (somes (mb_queue m @ arrivals rounds @ final)) \<and>
    mb_queue m' = [] \<and> mb_stage m' = kStopped \<and>
    (\<forall>rt. mb_bus m' = Some (ShmBus rt) \<longrightarrow> rt_subscribers_by_channel rt = [] \<and> \<not> rt_pump_running rt) \<and>
    (\<forall>ys ns ch p. module_PublishWithStatus ys ns ch p m' w' = Some (Inl NotRunningStage, w'))"
proof -
  obtain shm efds where w: "w = (shm, efds)" by fastforce
  let ?m1 = "m\<lparr>mb_running := True, mb_stage := kInit\<rparr>"
  obtain ierr m2 shm2 where init: "module_Init setup do_init sy (?m1, shm) = (ierr, (m2, shm2))"
    by (metis prod.collapse)
  have ierr: "ierr = Inr ()"
    using assms(3) init by (auto simp: module_Run_def w Let_def split: if_splits sum.splits)
  have q2: "mb_queue m2 = mb_queue m"
    using module_Init_queue [OF assms(1,2) init] by simp
  let ?loop = "module_loop throws rounds (m2\<lparr>mb_stage := kRunning\<rparr>)"
  obtain y where y: "?loop = Some y"
    using assms(3) init ierr by (cases ?loop) (simp_all add: module_Run_def w Let_def split: if_splits)
  obtain es1 t m3 where yy: "y = ((es1, t), m3)"
    by (metis prod.collapse)
  obtain fin_end es2 m4 w4 where sd: "module_shutdown throws final (m3, (shm2, efds)) = ((fin_end, es2), (m4, w4))"
    by (metis prod.collapse)
  have fin: "\<not> t" "fin_end = RunReturned True" "es = es1 @ es2" "m4 = m'" "w4 = w'"
    using assms(3) init ierr y yy sd by (cases t; simp add: module_Run_def w Let_def split: if_splits)+
  have "?loop = Some ((es1, False), m3)"
    using y yy fin(1) by simp
  note loop = loop_callbacks [OF this]
  note sh = shutdown_callbacks [OF sd [unfolded fin(2)], unfolded fin(4)]
  have ev: "callback_event (m2\<lparr>mb_stage := kRunning\<rparr>) = callback_event m'" "callback_event m3 = callback_event m'"
    using loop sh by (intro callback_event_declared; simp add: same_module_def)+
  have "callback_events es2 = es2"
    using sh by (metis callback_events_simps(5))
  then have "callback_events es = map (callback_event m') (somes (mb_queue m @ arrivals rounds @ final))"
    using loop sh by (simp add: fin(3) ev q2)
  then show ?thesis
    using sh by (simp add: module_PublishWithStatus_def RequireStage_def)
qed

text \<open>A module on the stub bus: one message arrives in the wait, one during the drain, one at the shutdown.\<close>

definition example_module :: "unit ModuleBase" where
  "example_module = new_module ''sink'' \<lparr>rc_bus_kind = kGrpc, rc_module_config_files = [], rc_module_channel_config_path = []\<rparr> (Some GrpcBus)"

definition example_message :: "u64 \<Rightarrow> (string \<times> MessageEnvelope) option" where
  "example_message n = Some (''frames'',
     \<lparr>me_channel = ''frames'', me_publisher_module = ''source'', me_delivery_id = n, me_sequence = n,
      me_maybe_duplicate = False, me_payload = [1]\<rparr>)"

definition example_rounds :: "module_round list" where
  "example_rounds =
     [\<lparr>mr_running = True, mr_now = 0, mr_arriving = [example_message 1], mr_pushed = [example_message 2]\<rparr>,
      \<lparr>mr_running = False, mr_now = 0, mr_arriving = [], mr_pushed = []\<rparr>]"

definition example_system :: module_system where
  "example_system = \<lparr>sy_pid = 7, sy_files = Map.empty,
     sy_segments = (\<lambda>_. \<lparr>sa_create = True, sa_truncate = True, sa_open = True, sa_stat = True, sa_map = True\<rparr>),
     sy_epoll_create_ok = True, sy_epoll_add_ok = (\<lambda>_. True)\<rparr>"

lemmas example_run_simps = example_module_def example_message_def example_rounds_def new_module_def module_Run_def
  module_Init_def module_topology_def module_channels_def start_pump_def SubscribeOneChannel_def RequireStage_def
  module_iteration_def PumpDueTimers_def new_timer_scheduler_def WaitAndDrain_def DrainAll_def module_Stop_def
  module_shutdown_def stop_bus_def callback_event_def empty_module_def Push_def

lemma example_run:
  "\<exists>es m'. module_Run (SubscribeOneChannel ''frames'' True) (\<lambda>m. (True, m)) [] example_system (\<lambda>_. False)
     example_rounds [example_message 3] (example_module, (Map.empty, Map.empty)) =
     Some ((RunReturned True, es), (m', (Map.empty, Map.empty))) \<and> mb_declared m' = {''frames''}"
  by (simp add: example_run_simps Let_def del: fold_Push)

theorem module_handles_every_message_witness:
  "\<exists>es m'. module_Run (SubscribeOneChannel ''frames'' True) (\<lambda>m. (True, m)) [] example_system (\<lambda>_. False)
     example_rounds [example_message 3] (example_module, (Map.empty, Map.empty)) =
     Some ((RunReturned True, es), (m', (Map.empty, Map.empty))) \<and>
     callback_events es = map (\<lambda>n. Handled ''frames'' (snd (the (example_message n)))) [1, 2, 3] \<and> mb_queue m' = []"
proof -
  obtain es m' where run: "module_Run (SubscribeOneChannel ''frames'' True) (\<lambda>m. (True, m)) [] example_system
      (\<lambda>_. False) example_rounds [example_message 3] (example_module, (Map.empty, Map.empty)) =
      Some ((RunReturned True, es), (m', (Map.empty, Map.empty)))" and d: "mb_declared m' = {''frames''}"
    using example_run by blast
  have "callback_events es = map (callback_event m') (somes (mb_queue example_module @ arrivals example_rounds @ [example_message 3])) \<and>
      mb_queue m' = []"
    using module_handles_every_message [OF _ _ run] by (simp add: SubscribeOneChannel_def)
  then show ?thesis
    using run d
    by (simp add: example_module_def new_module_def arrivals_def example_rounds_def example_message_def callback_event_def)
qed

end
