(* ===== verification/Sample_Modules.thy ===== *)
theory Sample_Modules
  imports Module_Base
begin

text \<open>
  The sample modules of \<^verbatim>\<open>services/backend/modules/sample_modules.cpp\<close>: a source that numbers its
  frames, and receivers that check what arrives and count. Handlers run on the main thread of their
  module, one at a time; the source publishes from a thread of its own. Times are nanoseconds of the
  steady clock except the report times of \<^verbatim>\<open>VerifyStats\<close>, which are milliseconds.
\<close>

section \<open>Payloads\<close>

definition bytes_of :: "string \<Rightarrow> u8 list" where
  "bytes_of t = map of_char t"

definition EncodeRawPayload :: "u64 \<Rightarrow> u8 list" where
  "EncodeRawPayload seq = bytes_of (''msg-'' @ nat_digits (unat seq))"

text \<open>The loop over the digits; the number wraps at \<open>2 ^ 64\<close>.\<close>

fun decode_digits :: "u8 list \<Rightarrow> u64 \<Rightarrow> u64 option" where
  "decode_digits [] acc = Some acc"
| "decode_digits (ch # rest) acc = (if ch < 48 \<or> ch > 57 then None else decode_digits rest (acc * 10 + ucast (ch - 48)))"

definition DecodeSeqFromRawPayload :: "u8 list \<Rightarrow> u64 option" where
  "DecodeSeqFromRawPayload payload =
     (if length payload \<le> 4 then None
      else if take 4 payload \<noteq> bytes_of ''msg-'' then None
      else decode_digits (drop 4 payload) 0)"

section \<open>Verification\<close>

record VerifyStats =
  ok_count :: u64
  decode_fail_count :: u64
  mismatch_count :: u64
  too_short_count :: u64
  next_report_at_ms :: int

definition fresh_stats :: VerifyStats where
  "fresh_stats = \<lparr>ok_count = 0, decode_fail_count = 0, mismatch_count = 0, too_short_count = 0, next_report_at_ms = 0\<rparr>"

text \<open>Whether a summary was logged. One thread uses each counter block, so the exchange finds what was loaded.\<close>

definition MaybeLogVerifyStats :: "int \<Rightarrow> VerifyStats \<Rightarrow> bool \<times> VerifyStats" where
  "MaybeLogVerifyStats now_ms stats =
     (let scheduled_ms = next_report_at_ms stats in
      if now_ms < scheduled_ms then (False, stats)
      else (case cas (next_report_at_ms stats) scheduled_ms (now_ms + 1000) of
              (False, cell) \<Rightarrow> (False, stats\<lparr>next_report_at_ms := cell\<rparr>)
            | (True, cell) \<Rightarrow> (True, stats\<lparr>next_report_at_ms := cell\<rparr>)))"

definition VerifyRawPayloadOrLogError :: "int \<Rightarrow> u8 list \<Rightarrow> VerifyStats \<Rightarrow> VerifyStats" where
  "VerifyRawPayloadOrLogError now_ms payload stats =
     (case DecodeSeqFromRawPayload payload of
        None \<Rightarrow> snd (MaybeLogVerifyStats now_ms (stats\<lparr>decode_fail_count := decode_fail_count stats + 1\<rparr>))
      | Some seq \<Rightarrow>
          let expected = EncodeRawPayload seq in
          if payload \<noteq> expected
          then snd (MaybeLogVerifyStats now_ms (stats\<lparr>mismatch_count := mismatch_count stats + 1\<rparr>))
          else snd (MaybeLogVerifyStats now_ms (stats\<lparr>ok_count := ok_count stats + 1\<rparr>)))"

definition VerifyFeaturePayloadOrLogError :: "int \<Rightarrow> u8 list \<Rightarrow> VerifyStats \<Rightarrow> VerifyStats" where
  "VerifyFeaturePayloadOrLogError now_ms payload stats =
     (if length payload \<le> 1
      then snd (MaybeLogVerifyStats now_ms (stats\<lparr>too_short_count := too_short_count stats + 1\<rparr>))
      else
        (let marker = last payload; raw_payload = butlast payload in
         case DecodeSeqFromRawPayload raw_payload of
           None \<Rightarrow> snd (MaybeLogVerifyStats now_ms (stats\<lparr>decode_fail_count := decode_fail_count stats + 1\<rparr>))
         | Some seq \<Rightarrow>
             (let expected = EncodeRawPayload seq @ [marker] in
              if payload \<noteq> expected
              then snd (MaybeLogVerifyStats now_ms (stats\<lparr>mismatch_count := mismatch_count stats + 1\<rparr>))
              else snd (MaybeLogVerifyStats now_ms (stats\<lparr>ok_count := ok_count stats + 1\<rparr>)))))"

text \<open>Whether the warning is logged, and the next time it may be.\<close>

definition MaybeLogNoMessageWarning :: "int \<Rightarrow> int \<Rightarrow> int \<Rightarrow> bool \<times> int" where
  "MaybeLogNoMessageWarning now last_recv_at next_report_at =
     (if now < next_report_at then (False, next_report_at)
      else if now - last_recv_at < 1000 * millisecond then (False, next_report_at)
      else (True, now + 1000 * millisecond))"

section \<open>The modules\<close>

text \<open>The producer thread of \<^verbatim>\<open>FrameSourceModule\<close>: one round of its loop at time \<open>now\<close>; it sleeps or publishes.\<close>

record FrameSource =
  fs_producer_started :: bool
  fs_next_publish_at :: int
  fs_publish_seq :: u64

definition source_DoInit :: "int \<Rightarrow> FrameSource \<Rightarrow> bool \<times> FrameSource" where
  "source_DoInit now s =
     (case cas (fs_producer_started s) False True of
        (False, cell) \<Rightarrow> (False, s)
      | (True, cell) \<Rightarrow> (True, s\<lparr>fs_producer_started := cell, fs_next_publish_at := now\<rparr>))"

definition source_round :: "int \<Rightarrow> FrameSource \<Rightarrow> (string \<times> u8 list) option \<times> FrameSource" where
  "source_round now s =
     (if now < fs_next_publish_at s then (None, s)
      else (Some (''frame.raw'', EncodeRawPayload (fs_publish_seq s)),
            s\<lparr>fs_next_publish_at := now + 7000, fs_publish_seq := fs_publish_seq s + 1\<rparr>))"

fun source_loop :: "int list \<Rightarrow> FrameSource \<Rightarrow> u8 list list \<times> FrameSource" where
  "source_loop [] s = ([], s)"
| "source_loop (now # nows) s =
     (case source_round now s of
        (None, s1) \<Rightarrow> source_loop nows s1
      | (Some (channel, payload), s1) \<Rightarrow> (case source_loop nows s1 of (ps, s2) \<Rightarrow> (payload # ps, s2)))"

text \<open>The receivers. \<open>now\<close> is the clock at the handler's start, \<open>now_ms\<close> when the verification asks.\<close>

record Receiver =
  rc_received_count :: u64
  rc_last_payload_size :: u64
  rc_last_recv_at :: int
  rc_next_no_msg_report_at :: int
  rc_stats :: VerifyStats

definition extract_handler :: "int \<Rightarrow> int \<Rightarrow> u8 list \<Rightarrow> Receiver \<Rightarrow> Receiver" where
  "extract_handler now now_ms payload r =
     r\<lparr>rc_last_recv_at := now, rc_received_count := rc_received_count r + 1,
       rc_stats := VerifyRawPayloadOrLogError now_ms payload (rc_stats r)\<rparr>"

text \<open>The replica also publishes; whether that succeeds changes nothing.\<close>

definition replica_handler :: "int \<Rightarrow> int \<Rightarrow> u8 list \<Rightarrow> Receiver \<Rightarrow> (string \<times> u8 list) \<times> Receiver" where
  "replica_handler now now_ms payload r =
     ((''feature.vec.replica'', payload @ [35]),
      r\<lparr>rc_last_recv_at := now, rc_received_count := rc_received_count r + 1,
        rc_stats := VerifyRawPayloadOrLogError now_ms payload (rc_stats r)\<rparr>)"

definition sink_handler :: "int \<Rightarrow> int \<Rightarrow> u8 list \<Rightarrow> Receiver \<Rightarrow> Receiver" where
  "sink_handler now now_ms payload r =
     r\<lparr>rc_last_recv_at := now, rc_stats := VerifyFeaturePayloadOrLogError now_ms payload (rc_stats r),
       rc_received_count := rc_received_count r + 1, rc_last_payload_size := of_nat (length payload)\<rparr>"

definition receiver_OnRunIteration :: "int \<Rightarrow> Receiver \<Rightarrow> bool \<times> Receiver" where
  "receiver_OnRunIteration now r =
     (case MaybeLogNoMessageWarning now (rc_last_recv_at r) (rc_next_no_msg_report_at r) of
        (warned, next_at) \<Rightarrow> (warned, r\<lparr>rc_next_no_msg_report_at := next_at\<rparr>))"

definition extract_setup :: "'t ModuleBase \<Rightarrow> bool \<times> 't ModuleBase" where
  "extract_setup m = SubscribeOneChannel ''frame.raw'' True m"

definition sink_setup :: "'t ModuleBase \<Rightarrow> bool \<times> 't ModuleBase" where
  "sink_setup m = SubscribeOneChannel ''feature.vec'' True m"

definition sink_replica_setup :: "'t ModuleBase \<Rightarrow> bool \<times> 't ModuleBase" where
  "sink_replica_setup m = SubscribeOneChannel ''feature.vec.replica'' True m"

section \<open>Facts\<close>

lemma stats_report [simp]:
  "ok_count (snd (MaybeLogVerifyStats now s)) = ok_count s"
  "decode_fail_count (snd (MaybeLogVerifyStats now s)) = decode_fail_count s"
  "mismatch_count (snd (MaybeLogVerifyStats now s)) = mismatch_count s"
  "too_short_count (snd (MaybeLogVerifyStats now s)) = too_short_count s"
  by (simp_all add: MaybeLogVerifyStats_def Let_def split: prod.split bool.split)

text \<open>Digits as bytes.\<close>

lemma of_char_byte: "unat (of_char c :: u8) = of_char c"
proof -
  have "(of_char c :: u8) = of_nat (of_char c)"
    by (simp add: of_nat_of_char)
  then show ?thesis
    by (simp add: unat_of_nat)
qed

lemma bytes_of_surj: "\<exists>t. payload = bytes_of t"
proof
  have "of_char (char_of (unat b)) = b" for b :: u8
  proof -
    have "unat b < 2 ^ LENGTH(8)"
      by (rule unsigned_less)
    then have "unat (of_char (char_of (unat b)) :: u8) = unat b"
      by (simp add: of_char_byte)
    then show ?thesis by (simp add: word_unat_eq_iff)
  qed
  then show "payload = bytes_of (map (\<lambda>b. char_of (unat b)) payload)"
    by (simp add: bytes_of_def comp_def map_idI)
qed

lemma bytes_of_inject: "bytes_of s = bytes_of t \<longleftrightarrow> s = t"
proof -
  have "inj (of_char :: char \<Rightarrow> u8)"
    by (rule injI) (metis of_char_byte of_char_eq_iff)
  then show ?thesis
    by (simp add: bytes_of_def inj_map_eq_map)
qed

lemma digit_byte:
  "((of_char c :: u8) < 48 \<or> (of_char c :: u8) > 57) \<longleftrightarrow> \<not> is_digit c"
  "is_digit c \<Longrightarrow> ucast ((of_char c :: u8) - 48) = (of_nat (digit_value c) :: u64)"
proof -
  show "((of_char c :: u8) < 48 \<or> (of_char c :: u8) > 57) \<longleftrightarrow> \<not> is_digit c"
    by (auto simp: word_less_nat_alt of_char_byte is_digit_def)
  assume "is_digit c"
  then have le: "48 \<le> (of_char c :: nat)" by (simp add: is_digit_def)
  then have "unat ((of_char c :: u8) - 48) = of_char c - 48"
    by (subst unat_sub) (simp_all add: word_le_nat_alt of_char_byte)
  then show "ucast ((of_char c :: u8) - 48) = (of_nat (digit_value c) :: u64)"
    unfolding digit_value_def by (metis of_nat_unat)
qed

lemma decode_digits_bytes:
  "decode_digits (bytes_of t) (of_nat n) =
     (if list_all is_digit t then Some (of_nat (foldl (\<lambda>n c. 10 * n + digit_value c) n t)) else None)"
proof (induction t arbitrary: n)
  case (Cons c t)
  show ?case
  proof (cases "is_digit c")
    case True
    have "decode_digits (bytes_of (c # t)) (of_nat n) = decode_digits (bytes_of t) (of_nat n * 10 + of_nat (digit_value c))"
      using True digit_byte by (simp add: bytes_of_def)
    also have "(of_nat n * 10 + of_nat (digit_value c) :: u64) = of_nat (10 * n + digit_value c)"
      by simp
    finally show ?thesis
      using Cons.IH [of "10 * n + digit_value c"] True by simp
  next
    case False
    then show ?thesis
      using digit_byte(1) [of c] by (simp add: bytes_of_def)
  qed
qed (simp add: bytes_of_def)

text \<open>What the decoder accepts, and what it reads.\<close>

definition raw_text :: "string \<Rightarrow> u8 list \<Rightarrow> bool" where
  "raw_text ds payload \<longleftrightarrow> ds \<noteq> [] \<and> list_all is_digit ds \<and> payload = bytes_of (''msg-'' @ ds)"

lemma decode_exact:
  "DecodeSeqFromRawPayload payload = Some seq \<longleftrightarrow> (\<exists>ds. raw_text ds payload \<and> seq = of_nat (digits_value ds))"
proof -
  obtain t where t: "payload = bytes_of t"
    using bytes_of_surj by blast
  have "DecodeSeqFromRawPayload payload = Some seq \<longleftrightarrow>
      4 < length t \<and> take 4 t = ''msg-'' \<and> list_all is_digit (drop 4 t) \<and> seq = of_nat (digits_value (drop 4 t))"
  proof -
    have "take 4 payload = bytes_of (take 4 t)" "drop 4 payload = bytes_of (drop 4 t)" "length payload = length t"
      by (simp_all add: t bytes_of_def take_map drop_map)
    then show ?thesis
      using decode_digits_bytes [of "drop 4 t" 0]
      by (auto simp: DecodeSeqFromRawPayload_def bytes_of_inject digits_value_def)
  qed
  also have "\<dots> \<longleftrightarrow> (\<exists>ds. raw_text ds payload \<and> seq = of_nat (digits_value ds))"
  proof
    assume *: "4 < length t \<and> take 4 t = ''msg-'' \<and> list_all is_digit (drop 4 t) \<and> seq = of_nat (digits_value (drop 4 t))"
    then have "raw_text (drop 4 t) payload"
      unfolding raw_text_def t bytes_of_inject by (metis append_take_drop_id drop_eq_Nil not_le)
    with * show "\<exists>ds. raw_text ds payload \<and> seq = of_nat (digits_value ds)"
      by blast
  qed (auto simp: raw_text_def t bytes_of_inject)
  finally show ?thesis .
qed

lemma raw_text_unique: "raw_text ds payload \<Longrightarrow> raw_text es payload \<Longrightarrow> es = ds"
  by (auto simp: raw_text_def bytes_of_inject)

lemma decode_encode: "DecodeSeqFromRawPayload (EncodeRawPayload seq) = Some seq"
  unfolding decode_exact
  by (rule exI [of _ "nat_digits (unat seq)"]) (simp add: raw_text_def EncodeRawPayload_def nat_digits_digits nat_digits_nonempty)

section \<open>What the counters say\<close>

lemma raw_verdict:
  "DecodeSeqFromRawPayload payload = None \<longleftrightarrow> (\<nexists>ds. raw_text ds payload)"
  "DecodeSeqFromRawPayload payload = Some seq \<Longrightarrow> payload = EncodeRawPayload seq \<longleftrightarrow> (\<exists>s. payload = EncodeRawPayload s)"
proof -
  show "DecodeSeqFromRawPayload payload = None \<longleftrightarrow> (\<nexists>ds. raw_text ds payload)"
    using decode_exact [of payload] by (metis not_None_eq option.distinct(1))
  show "DecodeSeqFromRawPayload payload = Some seq \<Longrightarrow> payload = EncodeRawPayload seq \<longleftrightarrow> (\<exists>s. payload = EncodeRawPayload s)"
    using decode_encode by force
qed

lemma encoded_is_text: "\<exists>ds. raw_text ds (EncodeRawPayload seq)"
  using decode_encode decode_exact by blast

text \<open>
  C40: The counters are exact. A frame is counted as good precisely if it is the encoding of some
  64-bit number, as undecodable precisely if it is not the prefix with at least one digit behind it
  and nothing else, and as a mismatch in the cases between: leading zeros and numbers of
  \<open>2 ^ 64\<close> and more, which the decoder reads with wrap-around. Each call counts once. Features are
  judged in the same way without their last byte, and apart from that are too short.
\<close>

theorem verification_counts_exactly:
  "(let s' = VerifyRawPayloadOrLogError now payload s; good = (\<exists>seq. payload = EncodeRawPayload seq); numbered = (\<exists>ds. raw_text ds payload) in
     ok_count s' = ok_count s + (if good then 1 else 0) \<and>
     decode_fail_count s' = decode_fail_count s + (if numbered then 0 else 1) \<and>
     mismatch_count s' = mismatch_count s + (if numbered \<and> \<not> good then 1 else 0) \<and> too_short_count s' = too_short_count s) \<and>
   (let s' = VerifyFeaturePayloadOrLogError now payload s; long = (length payload > 1);
       good = (\<exists>seq. butlast payload = EncodeRawPayload seq); numbered = (\<exists>ds. raw_text ds (butlast payload)) in
     ok_count s' = ok_count s + (if long \<and> good then 1 else 0) \<and>
     decode_fail_count s' = decode_fail_count s + (if long \<and> \<not> numbered then 1 else 0) \<and>
     mismatch_count s' = mismatch_count s + (if long \<and> numbered \<and> \<not> good then 1 else 0) \<and>
     too_short_count s' = too_short_count s + (if long then 0 else 1))"
proof (rule conjI)
  show "let s' = VerifyRawPayloadOrLogError now payload s; good = (\<exists>seq. payload = EncodeRawPayload seq); numbered = (\<exists>ds. raw_text ds payload) in
     ok_count s' = ok_count s + (if good then 1 else 0) \<and>
     decode_fail_count s' = decode_fail_count s + (if numbered then 0 else 1) \<and>
     mismatch_count s' = mismatch_count s + (if numbered \<and> \<not> good then 1 else 0) \<and> too_short_count s' = too_short_count s"
  proof (cases "DecodeSeqFromRawPayload payload")
    case None
    then show ?thesis
      using raw_verdict(1) [of payload] encoded_is_text by (auto simp: VerifyRawPayloadOrLogError_def Let_def)
  next
    case (Some seq)
    then show ?thesis
      using raw_verdict(1) [of payload] raw_verdict(2) [OF Some] by (auto simp: VerifyRawPayloadOrLogError_def Let_def)
  qed
  show "let s' = VerifyFeaturePayloadOrLogError now payload s; long = (length payload > 1);
       good = (\<exists>seq. butlast payload = EncodeRawPayload seq); numbered = (\<exists>ds. raw_text ds (butlast payload)) in
     ok_count s' = ok_count s + (if long \<and> good then 1 else 0) \<and>
     decode_fail_count s' = decode_fail_count s + (if long \<and> \<not> numbered then 1 else 0) \<and>
     mismatch_count s' = mismatch_count s + (if long \<and> numbered \<and> \<not> good then 1 else 0) \<and>
     too_short_count s' = too_short_count s + (if long then 0 else 1)"
  proof (cases "length payload \<le> 1")
    case True
    then show ?thesis
      by (simp add: VerifyFeaturePayloadOrLogError_def Let_def)
  next
    case False
    then have "payload = butlast payload @ [last payload]"
      by (metis append_butlast_last_id le_zero_eq list.size(3) nat_le_linear)
    then have ends: "payload = e @ [last payload] \<longleftrightarrow> butlast payload = e" for e
      by (metis butlast_snoc)
    show ?thesis
    proof (cases "DecodeSeqFromRawPayload (butlast payload)")
      case None
      then have "butlast payload \<noteq> EncodeRawPayload seq" for seq
        using decode_encode by force
      then show ?thesis
        using False None raw_verdict(1) [of "butlast payload"] by (simp add: VerifyFeaturePayloadOrLogError_def Let_def)
    next
      case (Some seq)
      then show ?thesis
        using False ends raw_verdict(1) [of "butlast payload"] raw_verdict(2) [OF Some]
        by (auto simp: VerifyFeaturePayloadOrLogError_def Let_def)
    qed
  qed
qed

text \<open>The source numbers its frames without gaps, whatever the clock does, so all it sends is good.\<close>

lemma source_frames:
  "source_loop nows s = (ps, s') \<Longrightarrow>
     ps = map (\<lambda>i. EncodeRawPayload (fs_publish_seq s + of_nat i)) [0..<length ps] \<and> fs_publish_seq s' = fs_publish_seq s + of_nat (length ps)"
proof (induction nows arbitrary: s ps)
  case (Cons now nows)
  show ?case
  proof (cases "now < fs_next_publish_at s")
    case True
    then show ?thesis
      using Cons by (simp add: source_round_def)
  next
    case False
    let ?s1 = "s\<lparr>fs_next_publish_at := now + 7000, fs_publish_seq := fs_publish_seq s + 1\<rparr>"
    obtain qs where rest: "source_loop nows ?s1 = (qs, s')" and "ps = EncodeRawPayload (fs_publish_seq s) # qs"
      using Cons.prems False by (auto simp: source_round_def split: prod.splits)
    moreover have "map f [0..<Suc n] = f 0 # map (\<lambda>i. f (Suc i)) [0..<n]" for f :: "nat \<Rightarrow> u8 list" and n
      by (simp add: upt_conv_Cons map_Suc_upt [symmetric] comp_def del: upt_Suc)
    ultimately show ?thesis
      using Cons.IH [OF rest] by (simp add: algebra_simps del: upt_Suc)
  qed
qed simp

text \<open>The chain of the replica: what it forwards passes the check of its sink.\<close>

lemma replica_chain:
  "replica_handler now now_ms (EncodeRawPayload seq) r = ((''feature.vec.replica'', p), r1) \<Longrightarrow>
     VerifyFeaturePayloadOrLogError t p s = snd (MaybeLogVerifyStats t (s\<lparr>ok_count := ok_count s + 1\<rparr>))"
  using decode_encode [of seq] nat_digits_nonempty
  by (auto simp: replica_handler_def VerifyFeaturePayloadOrLogError_def Let_def EncodeRawPayload_def bytes_of_def)

end
