(* ===== verification/Image_Pipeline.thy ===== *)
theory Image_Pipeline
  imports Prelude
begin

text \<open>
  \<^verbatim>\<open>common/comm/src/image_pipeline.cpp\<close>: which backend prepares an image and how it is bound to
  the inference provider. A buffer is reached through a shared pointer; it is never written here.
\<close>

datatype PreprocessBackend = kGpuPreferred | kCpuOnly

datatype OrtExecutionProvider = kCpu | kCuda

record SharedImageHandle =
  ih_bytes :: "u8 list option"
  ih_width :: u32
  ih_height :: u32
  ih_channels :: u32

record PreprocessResult =
  pp_handle :: SharedImageHandle
  pp_used_gpu :: bool

record OrtInputBinding =
  ob_provider :: OrtExecutionProvider
  ob_uses_external_cpu_memory :: bool
  ob_requires_h2d_transfer :: bool
  ob_transfer_strategy :: string
  ob_handle :: SharedImageHandle

definition image_Prepare :: "PreprocessBackend \<Rightarrow> SharedImageHandle \<Rightarrow> PreprocessResult" where
  "image_Prepare backend input =
     (let result = \<lparr>pp_handle = input, pp_used_gpu = (backend = kGpuPreferred)\<rparr> in
      if ih_bytes (pp_handle result) = None
      then result\<lparr>pp_handle := (pp_handle result)\<lparr>ih_bytes := Some []\<rparr>, pp_used_gpu := False\<rparr>
      else result)"

definition BindInput :: "OrtExecutionProvider \<Rightarrow> SharedImageHandle \<Rightarrow> OrtInputBinding" where
  "BindInput provider handle =
     (if provider = kCpu
      then \<lparr>ob_provider = provider, ob_uses_external_cpu_memory = True, ob_requires_h2d_transfer = False,
            ob_transfer_strategy = ''external-cpu-memory'', ob_handle = handle\<rparr>
      else \<lparr>ob_provider = provider, ob_uses_external_cpu_memory = False, ob_requires_h2d_transfer = True,
            ob_transfer_strategy = ''pinned-memory-async-h2d'', ob_handle = handle\<rparr>)"

text \<open>What comes out of the preparation always has a buffer, so binding never sees a null pointer; exactly one transfer applies.\<close>

lemma prepared_input_bound:
  "ih_bytes (ob_handle (BindInput provider (pp_handle (image_Prepare backend input)))) \<noteq> None \<and>
   ob_uses_external_cpu_memory (BindInput provider h) \<noteq> ob_requires_h2d_transfer (BindInput provider h) \<and>
   (pp_used_gpu (image_Prepare backend input) \<longrightarrow> ih_bytes input \<noteq> None)"
  by (auto simp: BindInput_def image_Prepare_def Let_def)

end
