(* ===== verification/Log_Pipeline.thy ===== *)
theory Log_Pipeline
  imports Log_Collector
begin

text \<open>
  The logging module, \<^verbatim>\<open>logging/module/logging_module.cpp\<close>: how it sets up its collector and dump
  manager, and the pipeline from the pipes of the modules to the files, composed of the poll thread,
  the queue and the write thread. The pipeline refines a plain text: the lines of the modules.
\<close>

unbundle bit_operations_syntax

section \<open>Setting up\<close>

text \<open>\<^verbatim>\<open>fcntl\<close> answers the flags or a negative number; the calls that follow, and the result.\<close>

definition O_NONBLOCK :: int where "O_NONBLOCK = 2048"

definition SetNonBlocking :: "(int \<Rightarrow> int) \<Rightarrow> (int \<Rightarrow> int \<Rightarrow> int) \<Rightarrow> int \<Rightarrow> int" where
  "SetNonBlocking get_flags set_flags fd =
     (let flags = get_flags fd in if flags < 0 then -1 else set_flags fd (flags OR O_NONBLOCK))"

text \<open>A source the collector refuses is logged and left out; \<open>address i\<close> is the state object of the \<open>i\<close>-th source.\<close>

definition add_pipe_source :: "(nat \<Rightarrow> nat) \<Rightarrow> (int \<Rightarrow> bool) \<Rightarrow> string \<times> int \<Rightarrow> source_state list \<Rightarrow> source_state list" where
  "add_pipe_source address epoll_ok src sources =
     (case AddSource (address (length sources)) (snd src) (fst src) (epoll_ok (snd src)) sources of
        Inl err \<Rightarrow> sources
      | Inr sources1 \<Rightarrow> sources1)"

definition SetupPipeSourcesFromFlags :: "(nat \<Rightarrow> nat) \<Rightarrow> (int \<Rightarrow> bool) \<Rightarrow> string \<Rightarrow> source_state list \<Rightarrow> bool \<times> source_state list" where
  "SetupPipeSourcesFromFlags address epoll_ok sources_csv sources =
     (if sources_csv = [] then (True, sources)
      else (True, fold (add_pipe_source address epoll_ok) (pipe_sources_of sources_csv) sources))"

text \<open>The globals of the module. The second component of the manager is its queue.\<close>

record logging_state =
  ls_manager :: "(dumper \<times> log_queue) option"
  ls_collector :: "source_state list option"
  ls_sink :: bool
  ls_ready_event_fd :: int

definition fresh_logging :: logging_state where
  "fresh_logging = \<lparr>ls_manager = None, ls_collector = None, ls_sink = False, ls_ready_event_fd = -1\<rparr>"

text \<open>What the system answers. \<open>lo_dirs_ok\<close>: the directories exist or can be made.\<close>

record logging_system =
  lo_flags :: logging_flags
  lo_sources_csv :: string
  lo_ready_event_fd :: int
  lo_dirs_ok :: bool
  lo_env :: dump_env
  lo_list_dir :: "(string \<Rightarrow> string option) \<Rightarrow> string \<Rightarrow> string list"
  lo_address :: "nat \<Rightarrow> nat"
  lo_epoll_ok :: "int \<Rightarrow> bool"

text \<open>READY is a write of 1 to the eventfd, which is then closed; its failure is only logged.\<close>

datatype logging_call = WriteReady int u64 | CloseReady int

definition logging_DoInit :: "logging_system \<Rightarrow> (string \<Rightarrow> string option) \<Rightarrow> logging_state \<Rightarrow> bool \<times> logging_call list \<times> logging_state" where
  "logging_DoInit sys fs st =
     (let cfg = LoadConfigFromFlags (lo_flags sys); st1 = st\<lparr>ls_ready_event_fd := lo_ready_event_fd sys\<rparr> in
      if \<not> lo_dirs_ok sys then (False, [], st1)
      else
        (let d = dump_Init cfg (lo_env sys) (lo_list_dir sys) fs;
             sources = snd (SetupPipeSourcesFromFlags (lo_address sys) (lo_epoll_ok sys) (lo_sources_csv sys) []);
             st2 = st1\<lparr>ls_manager := Some (d, empty_queue), ls_collector := Some sources, ls_sink := True\<rparr>
         in if ls_ready_event_fd st2 \<ge> 0
            then (True, [WriteReady (ls_ready_event_fd st2) 1, CloseReady (ls_ready_event_fd st2)], st2\<lparr>ls_ready_event_fd := -1\<rparr>)
            else (True, [], st2)))"

section \<open>The pipeline\<close>

record pipeline =
  pl_sources :: "source_state list"
  pl_queue :: log_queue
  pl_dumper :: dumper

text \<open>
  One event of the poll thread, or one batch of the write thread; \<open>envs i\<close> is what the system answers
  to the \<open>i\<close>-th record of the batch.
\<close>

datatype pipeline_step = Poll poll_event | WriteOut "nat \<Rightarrow> dump_env"

definition with_envs :: "(nat \<Rightarrow> dump_env) \<Rightarrow> (string \<times> string) list \<Rightarrow> (dump_env \<times> (string \<times> string)) list" where
  "with_envs envs items = map (\<lambda>(i, item). (envs i, item)) (enumerate 0 items)"

definition poll_into_queue :: "dump_config \<Rightarrow> poll_event \<Rightarrow> pipeline \<Rightarrow> pipeline" where
  "poll_into_queue cfg ev p =
     (case poll_one ev (pl_sources p) of
        (sources, out) \<Rightarrow> p\<lparr>pl_sources := sources, pl_queue := fold (AddLog cfg) out (pl_queue p)\<rparr>)"

definition write_out :: "dump_config \<Rightarrow> (nat \<Rightarrow> dump_env) \<Rightarrow> pipeline \<Rightarrow> pipeline" where
  "write_out cfg envs p =
     (case take_batch (pl_queue p) of
        (batch, q) \<Rightarrow> p\<lparr>pl_queue := q, pl_dumper := write_batch cfg (map (\<lambda>(en, item). (en, False, item)) (with_envs envs batch)) (pl_dumper p)\<rparr>)"

text \<open>The run, with the records written in it and the answers they got.\<close>

fun pipeline_run :: "dump_config \<Rightarrow> pipeline_step list \<Rightarrow> pipeline \<Rightarrow> (dump_env \<times> (string \<times> string)) list \<times> pipeline" where
  "pipeline_run cfg [] p = ([], p)"
| "pipeline_run cfg (Poll ev # steps) p = pipeline_run cfg steps (poll_into_queue cfg ev p)"
| "pipeline_run cfg (WriteOut envs # steps) p =
     (case pipeline_run cfg steps (write_out cfg envs p) of
        (ws, p1) \<Rightarrow> (with_envs envs (lq_items (pl_queue p)) @ ws, p1))"

text \<open>\<^verbatim>\<open>Stop\<close> of the module: the sink goes, the collector stops, the manager flushes what is queued.\<close>

definition pipeline_Stop :: "dump_config \<Rightarrow> (nat \<Rightarrow> dump_env) \<Rightarrow> pipeline \<Rightarrow> dumper" where
  "pipeline_Stop cfg envs p = dump_Stop cfg (with_envs envs (lq_items (pl_queue p))) (pl_dumper p)"

section \<open>Refinement\<close>

fun polled :: "pipeline_step list \<Rightarrow> poll_event list" where
  "polled [] = []"
| "polled (Poll ev # steps) = ev # polled steps"
| "polled (WriteOut envs # steps) = polled steps"

lemma with_envs_items [simp]: "map snd (with_envs envs items) = items"
proof -
  have "map snd (map (\<lambda>(i, item). (envs i, item)) (enumerate k items)) = items" for k
    by (induction items arbitrary: k) (simp_all add: enumerate_simps)
  then show ?thesis by (simp add: with_envs_def)
qed

lemma write_batch_flush: "write_batch cfg (map (\<lambda>(en, item). (en, False, item)) ws) d = flush_remaining cfg ws d"
  by (induction ws arbitrary: d) auto

lemma flush_append: "flush_remaining cfg (ws @ vs) d = flush_remaining cfg vs (flush_remaining cfg ws d)"
  by (induction cfg ws d rule: flush_remaining.induct) simp_all

lemma queue_run_append: "queue_run cfg (xs @ ys) s = queue_run cfg ys (queue_run cfg xs s)"
  by (induction cfg xs s rule: queue_run.induct) (simp_all split: prod.split)

lemma queue_run_adds: "queue_run cfg (map Add items) (t, q) = (t, fold (AddLog cfg) items q)"
  by (induction items arbitrary: q) simp_all

lemma added_append [simp]: "added (xs @ ys) = added xs @ added ys" "added (map Add items) = items"
proof -
  show "added (xs @ ys) = added xs @ added ys"
    by (induction xs rule: added.induct) simp_all
  show "added (map Add items) = items"
    by (induction items) simp_all
qed

text \<open>A run of the pipeline is a run of the queue between the poll loop and the writer.\<close>

lemma pipeline_run_parts:
  assumes "pipeline_run cfg steps p = (ws, p')"
  shows "\<exists>ops. pl_dumper p' = flush_remaining cfg ws (pl_dumper p) \<and>
    poll_loop (polled steps) (pl_sources p) = (pl_sources p', added ops) \<and>
    queue_run cfg ops (t, pl_queue p) = (t @ map snd ws, pl_queue p')"
  using assms
proof (induction cfg steps p arbitrary: ws t rule: pipeline_run.induct)
  case (1 cfg p)
  then show ?case
    by (intro exI [of _ "[]"]) simp
next
  case (2 cfg ev steps p)
  obtain sources out where ev: "poll_one ev (pl_sources p) = (sources, out)" by fastforce
  have run: "pipeline_run cfg steps (poll_into_queue cfg ev p) = (ws, p')"
    using "2.prems" by simp
  obtain ops where "pl_dumper p' = flush_remaining cfg ws (pl_dumper p)"
    "poll_loop (polled steps) sources = (pl_sources p', added ops)"
    "queue_run cfg ops (t, fold (AddLog cfg) out (pl_queue p)) = (t @ map snd ws, pl_queue p')"
    using "2.IH" [OF run, of t] by (auto simp: poll_into_queue_def ev)
  then show ?case
    by (intro exI [of _ "map Add out @ ops"]) (simp add: ev queue_run_append queue_run_adds)
next
  case (3 cfg envs steps p)
  let ?b = "with_envs envs (lq_items (pl_queue p))"
  obtain vs where run: "pipeline_run cfg steps (write_out cfg envs p) = (vs, p')" and ws: "ws = ?b @ vs"
    using "3.prems" by (auto split: prod.splits)
  obtain ops where "pl_dumper p' = flush_remaining cfg vs (flush_remaining cfg ?b (pl_dumper p))"
    "poll_loop (polled steps) (pl_sources p) = (pl_sources p', added ops)"
    "queue_run cfg ops (t @ lq_items (pl_queue p), snd (take_batch (pl_queue p))) = ((t @ lq_items (pl_queue p)) @ map snd vs, pl_queue p')"
    using "3.IH" [OF run, of "t @ lq_items (pl_queue p)"] by (auto simp: write_out_def take_batch_def write_batch_flush)
  then show ?case
    by (intro exI [of _ "Take # ops"]) (simp add: ws flush_append take_batch_def)
qed

text \<open>Nothing dropped means nothing missing.\<close>

lemma no_drops:
  assumes "queue_run cfg ops ([], empty_queue) = (taken, q)" "lq_total_dropped q = 0" "length (added ops) < 2 ^ 64"
  shows "taken @ lq_items q = added ops"
proof -
  have "queue_inv cfg [] ([], empty_queue)"
    by (simp add: queue_inv_def empty_queue_def DroppedCount_def)
  then have inv: "queue_inv cfg (added ops) (taken, q)"
    using queue_run_inv [of cfg "[]" "([], empty_queue)" ops] assms(1) by simp
  then have sub: "subseq (taken @ lq_items q) (added ops)"
    and len: "of_nat (length (added ops)) = (of_nat (length (taken @ lq_items q)) :: u64)"
    using assms(2) by (simp_all add: queue_inv_def)
  have "length (taken @ lq_items q) < 2 ^ 64"
    using list_emb_length [OF sub] assms(3) by simp
  moreover have "n < 2 ^ 64 \<Longrightarrow> unat (of_nat n :: u64) = n" for n
    by (simp add: unat_of_nat take_bit_nat_eq_self)
  ultimately have "length (added ops) = length (taken @ lq_items q)"
    using len assms(3) by metis
  then show ?thesis
    using subseq_same_length [OF sub] by simp
qed


text \<open>A line and a rest: the line is written by the writer, the rest comes with the hang-up and is flushed by the stop.\<close>

definition small_pipeline :: pipeline where
  "small_pipeline = \<lparr>pl_sources = [one_source], pl_queue = empty_queue, pl_dumper = opened\<rparr>"

definition small_steps :: "pipeline_step list" where
  "small_steps = [Poll (input_event 1 [[CHR ''a'', LF, CHR ''b'']]), WriteOut (\<lambda>_. good_env), Poll (hangup_event 1 [])]"

lemma small_pipeline_run:
  "\<exists>p'. pipeline_run small_files small_steps small_pipeline = ([(good_env, (''m'', ''a''))], p') \<and>
     lq_items (pl_queue p') = [(''m'', ''b'')] \<and> lq_total_dropped (pl_queue p') = 0"
  "snd (poll_loop (polled small_steps) (pl_sources small_pipeline)) = [(''m'', ''a''), (''m'', ''b'')]"
proof -
  have cut: "lines_of [CHR ''a'', LF, CHR ''b''] = ([''a''], ''b'')"
    by code_simp
  show "\<exists>p'. pipeline_run small_files small_steps small_pipeline = ([(good_env, (''m'', ''a''))], p') \<and>
     lq_items (pl_queue p') = [(''m'', ''b'')] \<and> lq_total_dropped (pl_queue p') = 0"
    "snd (poll_loop (polled small_steps) (pl_sources small_pipeline)) = [(''m'', ''a''), (''m'', ''b'')]"
    by (simp_all add: small_steps_def small_pipeline_def poll_into_queue_def write_out_def poll_one_def one_source_def input_event_def
        hangup_event_def chunk_reads_def cut HandleHangup_def AddLog_def empty_queue_def small_files_def take_batch_def with_envs_def
        enumerate_simps Let_def)
qed


section \<open>The module\<close>

text \<open>READY is sent once, after the manager and the collector exist; a failed set-up sends nothing.\<close>

lemma logging_ready:
  assumes "logging_DoInit sys fs st = (ok, calls, st')"
  shows "ok \<longleftrightarrow> lo_dirs_ok sys"
    and "calls = (if ok \<and> lo_ready_event_fd sys \<ge> 0 then [WriteReady (lo_ready_event_fd sys) 1, CloseReady (lo_ready_event_fd sys)] else [])"
    and "ok \<Longrightarrow> ls_manager st' \<noteq> None \<and> ls_collector st' \<noteq> None \<and> ls_ready_event_fd st' < 0"
  using assms by (auto simp: logging_DoInit_def Let_def split: if_splits)

text \<open>The collector gets one source for each pipe the launcher opened, under the launcher's name for it.\<close>

lemma pipe_sources_added:
  assumes "list_all (\<lambda>(n, ps). source_name_ok n \<and> 0 \<le> mp_read_fd ps \<and> mp_read_fd ps < 2 ^ 31) pipes" "\<And>fd. epoll_ok fd"
  shows "map (\<lambda>s. (so_module_name s, so_fd s)) (snd (SetupPipeSourcesFromFlags address epoll_ok (pipe_sources_text pipes) [])) =
    map (\<lambda>(n, ps). (n, mp_read_fd ps)) pipes"
proof -
  have add: "map (\<lambda>s. (so_module_name s, so_fd s)) (fold (add_pipe_source address epoll_ok) srcs sources) =
      map (\<lambda>s. (so_module_name s, so_fd s)) sources @ srcs"
    if "list_all (\<lambda>(n, fd). n \<noteq> [] \<and> 0 \<le> fd) srcs" for srcs sources
    using that assms(2)
    by (induction srcs arbitrary: sources) (auto simp: add_pipe_source_def AddSource_def)
  have ok: "list_all (\<lambda>(n, fd). n \<noteq> [] \<and> 0 \<le> fd) (map (\<lambda>(n, ps). (n, mp_read_fd ps)) pipes)"
    using assms(1) by (auto simp: list_all_iff source_name_ok_def)
  show ?thesis
  proof (cases "pipe_sources_text pipes = []")
    case True
    then have "pipes = []"
      using pipe_sources_round_trip [OF assms(1)] by (cases pipes) (auto simp: pipe_sources_of_def)
    then show ?thesis
      using True by (simp add: SetupPipeSourcesFromFlags_def)
  next
    case False
    then show ?thesis
      using add [OF ok, of "[]"] pipe_sources_round_trip [OF assms(1)] by (simp add: SetupPipeSourcesFromFlags_def)
  qed
qed

end
