(* ===== verification/Message_Store.thy ===== *)
theory Message_Store
  imports Prelude
begin

text \<open>
  \<^verbatim>\<open>common/comm/src/refcounted_message_store.cpp\<close>: a table of slots with generation-checked
  handles. A slot goes free, reserved, visible and back to free when its last reference is
  released or a sweep finds it stale. Every method holds the slot's mutex, so a call is one
  step. \<open>now\<close> is \<^verbatim>\<open>Clock::now()\<close> in milliseconds.
\<close>

section \<open>State and operations\<close>

record StoreHandle =
  hslot :: nat
  hgeneration :: u32

record StoreSlot =
  sgeneration :: u32
  ref_count :: u32
  visible :: bool
  is_reserved :: bool
  spayload :: "u8 list"
  reserve_ts :: int

definition fresh_store :: "nat \<Rightarrow> int \<Rightarrow> StoreSlot list" where
  "fresh_store capacity now = replicate capacity
     \<lparr>sgeneration = 1, ref_count = 0, visible = False, is_reserved = False, spayload = [], reserve_ts = now\<rparr>"

definition MatchHandle :: "StoreHandle \<Rightarrow> StoreSlot \<Rightarrow> bool" where
  "MatchHandle h s \<longleftrightarrow> hgeneration h = sgeneration s"

definition ResetSlotLocked :: "StoreSlot \<Rightarrow> StoreSlot" where
  "ResetSlotLocked s = s\<lparr>spayload := [], ref_count := 0, visible := False, is_reserved := False,
                         sgeneration := sgeneration s + 1\<rparr>"

fun reserve_scan :: "int \<Rightarrow> nat \<Rightarrow> StoreSlot list \<Rightarrow> (StoreHandle \<times> StoreSlot list) option" where
  "reserve_scan now i [] = None"
| "reserve_scan now i (s # ss) =
     (if is_reserved s \<or> visible s
      then map_option (\<lambda>(h, ss'). (h, s # ss')) (reserve_scan now (Suc i) ss)
      else Some (\<lparr>hslot = i, hgeneration = sgeneration s\<rparr>,
                 s\<lparr>is_reserved := True, reserve_ts := now, ref_count := 0\<rparr> # ss))"

definition Reserve :: "int \<Rightarrow> StoreSlot list \<Rightarrow> StoreHandle option \<times> StoreSlot list" where
  "Reserve now st = (case reserve_scan now 0 st of None \<Rightarrow> (None, st) | Some (h, st') \<Rightarrow> (Some h, st'))"

definition WritePayload :: "StoreHandle \<Rightarrow> u8 list \<Rightarrow> StoreSlot list \<Rightarrow> bool \<times> StoreSlot list" where
  "WritePayload h p st =
     (if hslot h \<ge> length st then (False, st)
      else let s = st ! hslot h in
        if \<not> MatchHandle h s \<or> \<not> is_reserved s \<or> visible s then (False, st)
        else (True, st[hslot h := s\<lparr>spayload := p\<rparr>]))"

definition CommitVisible :: "StoreHandle \<Rightarrow> u32 \<Rightarrow> StoreSlot list \<Rightarrow> bool \<times> StoreSlot list" where
  "CommitVisible h initial_ref_count st =
     (if hslot h \<ge> length st \<or> initial_ref_count = 0 then (False, st)
      else let s = st ! hslot h in
        if \<not> MatchHandle h s \<or> \<not> is_reserved s \<or> spayload s = [] then (False, st)
        else (True, st[hslot h := s\<lparr>ref_count := initial_ref_count, visible := True, is_reserved := False\<rparr>]))"

definition AcquireVisible :: "StoreHandle \<Rightarrow> StoreSlot list \<Rightarrow> u8 list option \<times> StoreSlot list" where
  "AcquireVisible h st =
     (if hslot h \<ge> length st then (None, st)
      else let s = st ! hslot h in
        if \<not> MatchHandle h s \<or> \<not> visible s then (None, st)
        else (Some (spayload s), st[hslot h := s\<lparr>ref_count := ref_count s + 1\<rparr>]))"

definition ReleaseRef :: "StoreHandle \<Rightarrow> StoreSlot list \<Rightarrow> bool \<times> StoreSlot list" where
  "ReleaseRef h st =
     (if hslot h \<ge> length st then (False, st)
      else let s = st ! hslot h in
        if \<not> MatchHandle h s \<or> \<not> visible s then (False, st)
        else let previous = ref_count s; s1 = s\<lparr>ref_count := previous - 1\<rparr> in
          if previous = 0 then (False, st[hslot h := s1\<lparr>ref_count := 0\<rparr>])
          else if previous = 1 then (True, st[hslot h := ResetSlotLocked s1])
          else (True, st[hslot h := s1]))"

definition stale :: "int \<Rightarrow> int \<Rightarrow> StoreSlot \<Rightarrow> bool" where
  "stale now max_age s \<longleftrightarrow>
     is_reserved s \<and> now - reserve_ts s > max_age \<or>
     visible s \<and> ref_count s = 0 \<and> now - reserve_ts s > max_age"

definition SweepExpired :: "int \<Rightarrow> int \<Rightarrow> StoreSlot list \<Rightarrow> nat \<times> StoreSlot list" where
  "SweepExpired now max_age st =
     (length (filter (stale now max_age) st),
      map (\<lambda>s. if stale now max_age s then ResetSlotLocked s else s) st)"

section \<open>The invariant\<close>

text \<open>A slot is free, reserved, or visible with a payload and at least one reference.\<close>

definition slot_inv :: "StoreSlot \<Rightarrow> bool" where
  "slot_inv s \<longleftrightarrow>
     (visible s \<longrightarrow> \<not> is_reserved s \<and> spayload s \<noteq> [] \<and> ref_count s \<noteq> 0) \<and>
     (\<not> visible s \<longrightarrow> ref_count s = 0) \<and>
     (\<not> visible s \<and> \<not> is_reserved s \<longrightarrow> spayload s = [])"

definition store_inv :: "StoreSlot list \<Rightarrow> bool" where
  "store_inv st \<longleftrightarrow> (\<forall>s \<in> set st. slot_inv s)"

lemma store_inv_nth: "store_inv st \<Longrightarrow> i < length st \<Longrightarrow> slot_inv (st ! i)"
  by (simp add: store_inv_def)

lemma store_inv_update: "store_inv st \<Longrightarrow> slot_inv s \<Longrightarrow> store_inv (st[i := s])"
  by (auto simp: store_inv_def dest!: set_update_subset_insert [THEN subsetD])

lemma slot_inv_reset [simp]: "slot_inv (ResetSlotLocked s)"
  by (simp add: slot_inv_def ResetSlotLocked_def)

lemma reserve_scan_inv:
  "reserve_scan now i st = Some (h, st') \<Longrightarrow> store_inv st \<Longrightarrow> store_inv st'"
  by (induction now i st arbitrary: h st' rule: reserve_scan.induct)
    (auto simp: store_inv_def slot_inv_def split: if_splits)

lemma reserve_scan_Some:
  "reserve_scan now i st = Some (h, st') \<Longrightarrow>
   \<exists>k < length st. hslot h = i + k \<and> hgeneration h = sgeneration (st ! k) \<and>
     \<not> is_reserved (st ! k) \<and> \<not> visible (st ! k) \<and>
     st' = st[k := (st ! k)\<lparr>is_reserved := True, reserve_ts := now, ref_count := 0\<rparr>]"
proof (induction now i st arbitrary: h st' rule: reserve_scan.induct)
  case (2 now i s ss)
  show ?case
  proof (cases "is_reserved s \<or> visible s")
    case True
    then obtain ss' where "reserve_scan now (Suc i) ss = Some (h, ss')" "st' = s # ss'"
      using 2(2) by auto
    with 2(1) [OF True] obtain k where "k < length ss" "hslot h = Suc i + k" "hgeneration h = sgeneration (ss ! k)"
      "\<not> is_reserved (ss ! k)" "\<not> visible (ss ! k)"
      "ss' = ss[k := (ss ! k)\<lparr>is_reserved := True, reserve_ts := now, ref_count := 0\<rparr>]"
      by blast
    then show ?thesis
      using \<open>st' = s # ss'\<close> by (intro exI [of _ "Suc k"]) simp
  next
    case False
    with 2(2) show ?thesis
      by (intro exI [of _ 0]) auto
  qed
qed simp

text \<open>With fewer than \<open>2 ^ 32\<close> references the counter does not wrap.\<close>

definition refs_below_max :: "StoreHandle \<Rightarrow> StoreSlot list \<Rightarrow> bool" where
  "refs_below_max h st \<longleftrightarrow> (hslot h < length st \<longrightarrow> ref_count (st ! hslot h) \<noteq> -1)"

lemma AcquireVisible_inv:
  "store_inv st \<Longrightarrow> refs_below_max h st \<Longrightarrow> store_inv (snd (AcquireVisible h st))"
  using store_inv_nth [of st "hslot h"]
  by (auto simp: AcquireVisible_def Let_def refs_below_max_def slot_inv_def add_eq_0_iff2
      intro!: store_inv_update)

lemma ReleaseRef_inv: "store_inv st \<Longrightarrow> store_inv (snd (ReleaseRef h st))"
  using store_inv_nth [of st "hslot h"]
  by (auto simp: ReleaseRef_def Let_def slot_inv_def ResetSlotLocked_def intro!: store_inv_update)

section \<open>A live message and a dead handle\<close>

definition holds_message :: "StoreHandle \<Rightarrow> u8 list \<Rightarrow> nat \<Rightarrow> StoreSlot list \<Rightarrow> bool" where
  "holds_message h p c st \<longleftrightarrow> hslot h < length st \<and> MatchHandle h (st ! hslot h) \<and>
     visible (st ! hslot h) \<and> \<not> is_reserved (st ! hslot h) \<and> spayload (st ! hslot h) = p \<and>
     unat (ref_count (st ! hslot h)) = c"

definition dead_handle :: "StoreHandle \<Rightarrow> StoreSlot list \<Rightarrow> bool" where
  "dead_handle h st \<longleftrightarrow> hslot h < length st \<and> \<not> MatchHandle h (st ! hslot h)"

lemma acquire_holds:
  assumes "holds_message h p c st" "c + 1 < 2 ^ 32"
  shows "fst (AcquireVisible h st) = Some p" "holds_message h p (c + 1) (snd (AcquireVisible h st))"
  using assms by (auto simp: AcquireVisible_def holds_message_def MatchHandle_def Let_def unat_plus_1)

lemma release_holds:
  assumes "holds_message h p c st" "1 \<le> c"
  shows "fst (ReleaseRef h st)"
    and "2 \<le> c \<Longrightarrow> holds_message h p (c - 1) (snd (ReleaseRef h st))"
    and "c = 1 \<Longrightarrow> dead_handle h (snd (ReleaseRef h st))"
proof -
  let ?s = "st ! hslot h"
  have s: "hslot h < length st" "MatchHandle h ?s" "visible ?s" "ref_count ?s \<noteq> 0" "unat (ref_count ?s) = c"
    using assms by (auto simp: holds_message_def)
  have one: "ref_count ?s = 1 \<longleftrightarrow> c = 1"
    using s(5) by (auto simp: word_unat_eq_iff)
  show "fst (ReleaseRef h st)"
    using s by (simp add: ReleaseRef_def Let_def)
  show "holds_message h p (c - 1) (snd (ReleaseRef h st))" if "2 \<le> c"
    using assms(1) s one that
    by (simp add: ReleaseRef_def Let_def holds_message_def MatchHandle_def unat_minus_1)
  show "dead_handle h (snd (ReleaseRef h st))" if "c = 1"
    using s one that
    by (simp add: ReleaseRef_def Let_def dead_handle_def MatchHandle_def ResetSlotLocked_def)
qed

lemma dead_refused:
  assumes "dead_handle h st"
  shows "AcquireVisible h st = (None, st)" "ReleaseRef h st = (False, st)"
    "WritePayload h p st = (False, st)" "CommitVisible h n st = (False, st)"
  using assms by (simp_all add: dead_handle_def AcquireVisible_def ReleaseRef_def WritePayload_def
      CommitVisible_def Let_def)

lemma holds_frame:
  "st' ! hslot h = st ! hslot h \<Longrightarrow> length st' = length st \<Longrightarrow> holds_message h p c st \<Longrightarrow> holds_message h p c st'"
  by (simp add: holds_message_def)

section \<open>Properties\<close>

text \<open>
  The slot invariant (a visible slot is not reserved, has a payload and a reference; a free
  slot has neither payload nor references) is kept by every operation of the store, as long as
  no message collects \<open>2 ^ 32\<close> references.
\<close>

lemma store_operations_keep_invariant:
  assumes inv: "store_inv st" and "refs_below_max h st"
  shows "store_inv (snd (Reserve now st)) \<and> store_inv (snd (WritePayload h p st)) \<and>
         store_inv (snd (CommitVisible h n st)) \<and> store_inv (snd (AcquireVisible h st)) \<and>
         store_inv (snd (ReleaseRef h st)) \<and> store_inv (snd (SweepExpired now age st))"
proof (intro conjI)
  show "store_inv (snd (Reserve now st))"
    using inv by (auto simp: Reserve_def dest: reserve_scan_inv split: option.splits)
  show "store_inv (snd (WritePayload h p st))" "store_inv (snd (CommitVisible h n st))"
    using inv store_inv_nth [OF inv, of "hslot h"]
    by (auto simp: WritePayload_def CommitVisible_def Let_def slot_inv_def intro!: store_inv_update)
  show "store_inv (snd (AcquireVisible h st))" "store_inv (snd (ReleaseRef h st))"
    using assms by (simp_all add: AcquireVisible_inv ReleaseRef_inv)
  show "store_inv (snd (SweepExpired now age st))"
    using inv by (auto simp: store_inv_def SweepExpired_def)
qed


definition demo_store :: "StoreSlot list" where
  "demo_store = snd (CommitVisible \<lparr>hslot = 0, hgeneration = 1\<rparr> 1
     (snd (WritePayload \<lparr>hslot = 0, hgeneration = 1\<rparr> [7] (snd (Reserve 5 (fresh_store 2 0))))))"

lemma demo_store_eval: "holds_message \<lparr>hslot = 0, hgeneration = 1\<rparr> [7] 1 demo_store" "store_inv demo_store"
  by code_simp+


text \<open>
  Isolation. Nobody without the handle can take a message away while it is referenced:
  reservations, sweeps of any age, and every call with a handle of another slot leave the
  message, its payload and its reference count as they are.
\<close>

lemma message_isolation:
  assumes "holds_message h p c st" "1 \<le> c" "hslot g \<noteq> hslot h"
  shows "holds_message h p c (snd (Reserve now st)) \<and> holds_message h p c (snd (SweepExpired now age st)) \<and>
         holds_message h p c (snd (WritePayload g q st)) \<and> holds_message h p c (snd (CommitVisible g n st)) \<and>
         holds_message h p c (snd (AcquireVisible g st)) \<and> holds_message h p c (snd (ReleaseRef g st))"
proof (intro conjI)
  have live: "hslot h < length st" "visible (st ! hslot h)" "\<not> is_reserved (st ! hslot h)"
    "ref_count (st ! hslot h) \<noteq> 0"
    using assms(1,2) by (auto simp: holds_message_def)
  show "holds_message h p c (snd (Reserve now st))"
  proof (cases "reserve_scan now 0 st")
    case None
    with assms(1) show ?thesis by (simp add: Reserve_def)
  next
    case (Some x)
    then obtain g' st' where g': "reserve_scan now 0 st = Some (g', st')" by (cases x) auto
    then obtain k where "k < length st" "\<not> visible (st ! k)"
      "st' = st[k := (st ! k)\<lparr>is_reserved := True, reserve_ts := now, ref_count := 0\<rparr>]"
      using reserve_scan_Some by blast
    then have "st' ! hslot h = st ! hslot h" "length st' = length st"
      using live(2) by (auto simp: nth_list_update)
    with g' show ?thesis
      using holds_frame [OF _ _ assms(1)] by (simp add: Reserve_def)
  qed
  have "\<not> stale now age (st ! hslot h)"
    using live by (simp add: stale_def)
  then show "holds_message h p c (snd (SweepExpired now age st))"
    using live(1) by (intro holds_frame [OF _ _ assms(1)]) (simp_all add: SweepExpired_def)
  show "holds_message h p c (snd (WritePayload g q st))" "holds_message h p c (snd (CommitVisible g n st))"
    "holds_message h p c (snd (AcquireVisible g st))" "holds_message h p c (snd (ReleaseRef g st))"
    using assms(3)
    by (intro holds_frame [OF _ _ assms(1)];
        simp add: WritePayload_def CommitVisible_def AcquireVisible_def ReleaseRef_def Let_def)+
qed

end
