(* ===== verification/Gate_Validation.thy ===== *)
theory Gate_Validation
  imports Text
begin

text \<open>
  The request validator of \<^verbatim>\<open>gate/handler/request_validator.hpp\<close>: required fields, field lengths,
  the time format and the first bytes of the image, with the grammar the time check decides.
\<close>

section \<open>The validator\<close>

record ValidationResult =
  vr_valid :: bool
  vr_missing :: "string list"
  vr_invalid :: "string list"
  vr_image_format_error :: string
  vr_status :: int
  vr_message :: string

definition initial_result :: ValidationResult where
  "initial_result = \<lparr>vr_valid = False, vr_missing = [], vr_invalid = [], vr_image_format_error = [], vr_status = 422, vr_message = []\<rparr>"

definition ValidateFieldLength :: "nat \<Rightarrow> string \<Rightarrow> bool" where
  "ValidateFieldLength max_field_length v \<longleftrightarrow> length v \<le> max_field_length"

text \<open>The scan of a fraction: the position after the digits that follow a dot at the position.\<close>

definition skip_fraction :: "string \<Rightarrow> nat \<Rightarrow> nat" where
  "skip_fraction t pos =
     (if pos < length t \<and> t ! pos = CHR ''.''
      then pos + 1 + length (takeWhile is_digit (drop (pos + 1) t)) else pos)"

text \<open>The zone at a position, up to the end of the text.\<close>

definition zone_at :: "string \<Rightarrow> nat \<Rightarrow> bool" where
  "zone_at t pos =
     (if pos \<ge> length t then False
      else if t ! pos = CHR ''Z'' then pos + 1 = length t
      else if t ! pos = CHR ''+'' \<or> t ! pos = CHR ''-''
      then (let p = pos + 1 in
            if p + 5 > length t then False
            else if \<not> is_digit (t ! p) \<or> \<not> is_digit (t ! (p + 1)) then False
            else if t ! (p + 2) \<noteq> CHR '':'' then False
            else if \<not> is_digit (t ! (p + 3)) \<or> \<not> is_digit (t ! (p + 4)) then False
            else p + 5 = length t)
      else False)"

definition ValidateCaptureTimeFormat :: "string \<Rightarrow> bool" where
  "ValidateCaptureTimeFormat t =
     (if length t < 20 then False
      else if t ! 4 \<noteq> CHR ''-'' \<or> t ! 7 \<noteq> CHR ''-'' \<or> t ! 10 \<noteq> CHR ''T'' \<or> t ! 13 \<noteq> CHR '':'' \<or> t ! 16 \<noteq> CHR '':''
      then False
      else if \<not> list_all (\<lambda>i. is_digit (t ! i)) [0, 1, 2, 3, 5, 6, 8, 9, 11, 12, 14, 15, 17, 18] then False
      else zone_at t (skip_fraction t 19))"

definition jpeg_magic :: string where "jpeg_magic = [CHR 0xFF, CHR 0xD8, CHR 0xFF]"
definition png_magic :: string where "png_magic = [CHR 0x89, CHR ''P'', CHR ''N'', CHR ''G'']"
definition bmp_magic :: string where "bmp_magic = [CHR 0x42, CHR 0x4D]"

definition detected_format :: "string \<Rightarrow> string option" where
  "detected_format d =
     (if starts_with jpeg_magic d then Some ''jpeg''
      else if starts_with png_magic d then Some ''png''
      else if starts_with bmp_magic d then Some ''bmp''
      else None)"

definition ValidateImageMagicBytes :: "string \<Rightarrow> string \<Rightarrow> string" where
  "ValidateImageMagicBytes image_data image_format =
     (if image_data = [] then ''Empty image data''
      else case detected_format image_data of
        None \<Rightarrow> ''Unrecognized image format: magic bytes do not match JPEG, PNG, or BMP''
      | Some f \<Rightarrow>
          if f \<noteq> image_format
          then ''Image format mismatch: declared '' @ quoted image_format @ '' but magic bytes indicate '' @ quoted f
          else [])"

definition Validate :: "nat \<Rightarrow> string \<Rightarrow> string \<Rightarrow> string \<Rightarrow> string \<Rightarrow> ValidationResult" where
  "Validate max_field_length node_id capture_time image_data image_format =
     (let missing = (if node_id = [] then [''node_id''] else []) @
                    (if capture_time = [] then [''capture_time''] else []) @
                    (if image_data = [] then [''image_data''] else []);
          long = (if \<not> ValidateFieldLength max_field_length node_id then [''node_id''] else []) @
                 (if \<not> ValidateFieldLength max_field_length capture_time then [''capture_time''] else []);
          magic_error = (if image_format = [] then [] else ValidateImageMagicBytes image_data image_format)
      in
      if missing \<noteq> [] then initial_result\<lparr>vr_missing := missing, vr_message := ''Missing required fields''\<rparr>
      else if long \<noteq> [] then initial_result\<lparr>vr_invalid := long, vr_message := ''Field length exceeds maximum allowed''\<rparr>
      else if \<not> ValidateCaptureTimeFormat capture_time
      then initial_result\<lparr>vr_invalid := [''capture_time''],
             vr_message := ''Invalid capture_time format, expected ISO 8601''\<rparr>
      else if magic_error \<noteq> []
      then initial_result\<lparr>vr_image_format_error := magic_error, vr_invalid := [''image_data''], vr_status := 415,
             vr_message := magic_error\<rparr>
      else initial_result\<lparr>vr_valid := True, vr_status := 200\<rparr>)"

section \<open>The grammar of times\<close>

definition digits :: "nat \<Rightarrow> string \<Rightarrow> bool" where
  "digits n s \<longleftrightarrow> length s = n \<and> list_all is_digit s"

text \<open>The fraction is empty or a dot with any number of digits; the zone \<open>Z\<close> or a signed offset.\<close>

definition fraction :: "string \<Rightarrow> bool" where
  "fraction f \<longleftrightarrow> f = [] \<or> (\<exists>ds. f = CHR ''.'' # ds \<and> list_all is_digit ds)"

definition zone :: "string \<Rightarrow> bool" where
  "zone z \<longleftrightarrow> z = ''Z'' \<or>
     (\<exists>s h m. z = s # h @ CHR '':'' # m \<and> (s = CHR ''+'' \<or> s = CHR ''-'') \<and> digits 2 h \<and> digits 2 m)"

definition capture_time_grammar :: "string \<Rightarrow> bool" where
  "capture_time_grammar t \<longleftrightarrow>
     (\<exists>y mo d h mi s f z. t = y @ ''-'' @ mo @ ''-'' @ d @ ''T'' @ h @ '':'' @ mi @ '':'' @ s @ f @ z \<and>
        digits 4 y \<and> digits 2 mo \<and> digits 2 d \<and> digits 2 h \<and> digits 2 mi \<and> digits 2 s \<and> fraction f \<and> zone z)"

lemma digits_2: "digits 2 s \<longleftrightarrow> (\<exists>a b. s = [a, b] \<and> is_digit a \<and> is_digit b)"
  by (auto simp: digits_def length_Suc_conv numeral_2_eq_2)

lemma digits_4: "digits 4 s \<longleftrightarrow> (\<exists>a b c d. s = [a, b, c, d] \<and> is_digit a \<and> is_digit b \<and> is_digit c \<and> is_digit d)"
  by (auto simp: digits_def length_Suc_conv eval_nat_numeral)

text \<open>The check from position 19 on, as a check of the rest of the text.\<close>

definition zone_check :: "string \<Rightarrow> bool" where
  "zone_check z \<longleftrightarrow>
     (case z of
        [] \<Rightarrow> False
      | c # w \<Rightarrow>
          if c = CHR ''Z'' then w = []
          else if c = CHR ''+'' \<or> c = CHR ''-''
          then length w = 5 \<and> is_digit (w ! 0) \<and> is_digit (w ! 1) \<and> w ! 2 = CHR '':'' \<and> is_digit (w ! 3) \<and> is_digit (w ! 4)
          else False)"

lemma zone_check_iff: "zone_check z \<longleftrightarrow> zone z"
proof
  assume "zone_check z"
  then consider "z = ''Z''"
    | c w where "z = c # w" "c = CHR ''+'' \<or> c = CHR ''-''" "length w = 5" "is_digit (w ! 0)" "is_digit (w ! 1)"
        "w ! 2 = CHR '':''" "is_digit (w ! 3)" "is_digit (w ! 4)"
    by (auto simp: zone_check_def split: list.splits if_splits)
  then show "zone z"
  proof cases
    case 2
    then obtain w0 w1 w2 w3 w4 where w: "w = [w0, w1, w2, w3, w4]"
      by (auto simp: length_Suc_conv eval_nat_numeral)
    have "w = [w0, w1] @ CHR '':'' # [w3, w4]" "digits 2 [w0, w1]" "digits 2 [w3, w4]"
      using 2 by (simp_all add: w digits_def)
    then show ?thesis
      unfolding zone_def 2(1) using 2(2) by blast
  qed (simp add: zone_def)
next
  assume "zone z"
  then show "zone_check z"
    by (auto simp: zone_def zone_check_def digits_2)
qed

lemma skip_after_prefix: "skip_fraction (p @ r) (length p) = length p + skip_fraction r 0"
  by (cases r) (simp_all add: skip_fraction_def nth_append)

lemma zone_first: "zone z \<Longrightarrow> z \<noteq> [] \<and> \<not> is_digit (hd z) \<and> hd z \<noteq> CHR ''.''"
  by (auto simp: zone_def is_digit_def)

lemma skip_zone:
  "zone_check (drop (skip_fraction r 0) r) \<longleftrightarrow> (\<exists>f z. r = f @ z \<and> fraction f \<and> zone z)"
proof
  assume z: "zone_check (drop (skip_fraction r 0) r)"
  let ?k = "skip_fraction r 0"
  have "fraction (take ?k r)"
  proof (cases r)
    case (Cons c cs)
    then show ?thesis
      by (simp add: skip_fraction_def fraction_def takeWhile_eq_take [symmetric] list_all_iff)
        (metis set_takeWhileD takeWhile_eq_take)
  qed (simp add: fraction_def)
  then show "\<exists>f z. r = f @ z \<and> fraction f \<and> zone z"
    using z unfolding zone_check_iff by (metis append_take_drop_id)
next
  assume "\<exists>f z. r = f @ z \<and> fraction f \<and> zone z"
  then obtain f z where fz: "r = f @ z" "fraction f" "zone z" by blast
  note z = zone_first [OF fz(3)]
  have "skip_fraction r 0 = length f"
  proof (cases "f = []")
    case True
    then show ?thesis
      using z by (simp add: fz(1) skip_fraction_def hd_conv_nth [symmetric])
  next
    case False
    then obtain ds where ds: "f = CHR ''.'' # ds" "list_all is_digit ds"
      using fz(2) by (auto simp: fraction_def)
    then have "takeWhile is_digit (ds @ z) = ds"
      using takeWhile_digits [OF ds(2), of z] z by blast
    then show ?thesis
      by (simp add: fz(1) ds(1) skip_fraction_def)
  qed
  then show "zone_check (drop (skip_fraction r 0) r)"
    using fz by (simp add: zone_check_iff)
qed

lemma zone_at_drop: "zone_at t pos \<longleftrightarrow> zone_check (drop pos t)"
proof (cases "pos < length t")
  case True
  have w: "drop (Suc pos) t ! i = t ! (Suc pos + i)" for i
    using True by simp
  show ?thesis
    using True w [of 0] w [of 1] w [of 2] w [of 3] w [of 4]
    by (auto simp: zone_at_def zone_check_def Let_def Cons_nth_drop_Suc [OF True, symmetric] add.assoc)
qed (simp add: zone_at_def zone_check_def)

lemma time_tail:
  assumes "length p = 19"
  shows "zone_at (p @ r) (skip_fraction (p @ r) 19) \<longleftrightarrow> (\<exists>f z. r = f @ z \<and> fraction f \<and> zone z)"
proof -
  have "drop (skip_fraction (p @ r) 19) (p @ r) = drop (skip_fraction r 0) r"
    using skip_after_prefix [of p r] assms by simp
  then show ?thesis
    by (simp add: zone_at_drop skip_zone)
qed

lemma long_list:
  assumes "19 \<le> length t"
  obtains c0 c1 c2 c3 c4 c5 c6 c7 c8 c9 c10 c11 c12 c13 c14 c15 c16 c17 c18 r where
    "t = c0 # c1 # c2 # c3 # c4 # c5 # c6 # c7 # c8 # c9 # c10 # c11 # c12 # c13 # c14 # c15 # c16 # c17 # c18 # r"
  using assms by (auto simp: Suc_le_length_iff eval_nat_numeral)

lemma capture_time_grammarI:
  "t = y @ ''-'' @ mo @ ''-'' @ d @ ''T'' @ h @ '':'' @ mi @ '':'' @ s @ f @ z \<Longrightarrow> digits 4 y \<Longrightarrow> digits 2 mo \<Longrightarrow>
   digits 2 d \<Longrightarrow> digits 2 h \<Longrightarrow> digits 2 mi \<Longrightarrow> digits 2 s \<Longrightarrow> fraction f \<Longrightarrow> zone z \<Longrightarrow> capture_time_grammar t"
  unfolding capture_time_grammar_def by blast

lemma capture_time_equivalence: "ValidateCaptureTimeFormat t \<longleftrightarrow> capture_time_grammar t"
proof (cases "19 \<le> length t")
  case True
  then obtain c0 c1 c2 c3 c4 c5 c6 c7 c8 c9 c10 c11 c12 c13 c14 c15 c16 c17 c18 r where t:
    "t = [c0, c1, c2, c3, c4, c5, c6, c7, c8, c9, c10, c11, c12, c13, c14, c15, c16, c17, c18] @ r"
    by (rule long_list) simp
  let ?tail = "\<exists>f z. r = f @ z \<and> fraction f \<and> zone z"
  have short: "r = [] \<Longrightarrow> \<not> ?tail"
    using zone_first by auto
  have code: "ValidateCaptureTimeFormat t \<longleftrightarrow>
      c4 = CHR ''-'' \<and> c7 = CHR ''-'' \<and> c10 = CHR ''T'' \<and> c13 = CHR '':'' \<and> c16 = CHR '':'' \<and>
      list_all is_digit [c0, c1, c2, c3, c5, c6, c8, c9, c11, c12, c14, c15, c17, c18] \<and> ?tail"
    using time_tail [of "[c0, c1, c2, c3, c4, c5, c6, c7, c8, c9, c10, c11, c12, c13, c14, c15, c16, c17, c18]" r] short
    by (cases r) (auto simp: ValidateCaptureTimeFormat_def t)
  have "capture_time_grammar t \<longleftrightarrow>
      c4 = CHR ''-'' \<and> c7 = CHR ''-'' \<and> c10 = CHR ''T'' \<and> c13 = CHR '':'' \<and> c16 = CHR '':'' \<and>
      list_all is_digit [c0, c1, c2, c3, c5, c6, c8, c9, c11, c12, c14, c15, c17, c18] \<and> ?tail"
  proof
    assume "capture_time_grammar t"
    then obtain y mo d h mi s f z where parts:
        "t = y @ ''-'' @ mo @ ''-'' @ d @ ''T'' @ h @ '':'' @ mi @ '':'' @ s @ f @ z" "digits 4 y" "digits 2 mo" "digits 2 d"
        "digits 2 h" "digits 2 mi" "digits 2 s" and fz: "fraction f" "zone z"
      unfolding capture_time_grammar_def by blast
    obtain y0 y1 y2 y3 where y: "y = [y0, y1, y2, y3]" "list_all is_digit [y0, y1, y2, y3]"
      using parts(2) by (auto simp: digits_4)
    obtain mo0 mo1 d0 d1 where mo: "mo = [mo0, mo1]" "d = [d0, d1]" "list_all is_digit [mo0, mo1, d0, d1]"
      using parts(3,4) by (auto simp: digits_2)
    obtain h0 h1 mi0 mi1 s0 s1 where h: "h = [h0, h1]" "mi = [mi0, mi1]" "s = [s0, s1]"
        "list_all is_digit [h0, h1, mi0, mi1, s0, s1]"
      using parts(5-7) by (auto simp: digits_2)
    note eq = parts(1) [unfolded t y(1) mo(1,2) h(1-3), simplified]
    have "r = f @ z"
      using eq by simp
    moreover have "c4 = CHR ''-'' \<and> c7 = CHR ''-'' \<and> c10 = CHR ''T'' \<and> c13 = CHR '':'' \<and> c16 = CHR '':'' \<and>
      list_all is_digit [c0, c1, c2, c3, c5, c6, c8, c9, c11, c12, c14, c15, c17, c18]"
      using eq y(2) mo(3) h(4) by simp
    ultimately show "c4 = CHR ''-'' \<and> c7 = CHR ''-'' \<and> c10 = CHR ''T'' \<and> c13 = CHR '':'' \<and> c16 = CHR '':'' \<and>
      list_all is_digit [c0, c1, c2, c3, c5, c6, c8, c9, c11, c12, c14, c15, c17, c18] \<and> ?tail"
      using fz by blast
  next
    assume "c4 = CHR ''-'' \<and> c7 = CHR ''-'' \<and> c10 = CHR ''T'' \<and> c13 = CHR '':'' \<and> c16 = CHR '':'' \<and>
      list_all is_digit [c0, c1, c2, c3, c5, c6, c8, c9, c11, c12, c14, c15, c17, c18] \<and> ?tail"
    then obtain f z where "r = f @ z" "fraction f" "zone z" "c4 = CHR ''-''" "c7 = CHR ''-''" "c10 = CHR ''T''"
        "c13 = CHR '':''" "c16 = CHR '':''"
        "list_all is_digit [c0, c1, c2, c3, c5, c6, c8, c9, c11, c12, c14, c15, c17, c18]" by blast
    then show "capture_time_grammar t"
      by (intro capture_time_grammarI [of t "[c0, c1, c2, c3]" "[c5, c6]" "[c8, c9]" "[c11, c12]" "[c14, c15]" "[c17, c18]" f z])
        (simp_all add: t digits_def)
  qed
  with code show ?thesis by simp
next
  case False
  have "\<not> capture_time_grammar t"
    using False zone_first by (auto simp: capture_time_grammar_def digits_4 digits_2)
  then show ?thesis
    using False by (simp add: ValidateCaptureTimeFormat_def)
qed

section \<open>Which requests pass\<close>

definition image_matches :: "string \<Rightarrow> string \<Rightarrow> bool" where
  "image_matches image_data image_format \<longleftrightarrow> image_format = [] \<or> detected_format image_data = Some image_format"

definition fields_ok :: "nat \<Rightarrow> string \<Rightarrow> string \<Rightarrow> string \<Rightarrow> bool" where
  "fields_ok n node_id capture_time image_data \<longleftrightarrow>
     node_id \<noteq> [] \<and> image_data \<noteq> [] \<and> length node_id \<le> n \<and> length capture_time \<le> n \<and> capture_time_grammar capture_time"

lemma magic_error_iff: "image_data \<noteq> [] \<Longrightarrow> ValidateImageMagicBytes image_data f = [] \<longleftrightarrow> detected_format image_data = Some f"
  by (auto simp: ValidateImageMagicBytes_def split: option.splits)

lemma grammar_empty: "\<not> capture_time_grammar []"
  by (simp add: capture_time_grammar_def)

lemma validator_exact:
  "(vr_valid (Validate n node_id capture_time image_data image_format) \<longleftrightarrow>
     fields_ok n node_id capture_time image_data \<and> image_matches image_data image_format) \<and>
   vr_status (Validate n node_id capture_time image_data image_format) =
     (if \<not> fields_ok n node_id capture_time image_data then 422
      else if image_matches image_data image_format then 200 else 415)"
  using magic_error_iff [of image_data image_format] grammar_empty
  by (cases "image_data = []"; cases "capture_time = []"; cases "image_format = []")
    (simp_all add: Validate_def Let_def fields_ok_def image_matches_def capture_time_equivalence ValidateFieldLength_def
      initial_result_def)


end
