(* ===== verification/Rate_Limiter.thy ===== *)
theory Rate_Limiter
  imports Prelude Complex_Main
begin

text \<open>
  The two token buckets of the gateway: \<^verbatim>\<open>TokenBucketRateLimiter\<close> of \<^verbatim>\<open>gate/handler/rate_limiter.hpp\<close>,
  which counts milliseconds and may be driven by explicit time stamps, and \<^verbatim>\<open>TokenBucket\<close> of
  \<^verbatim>\<open>gate/http/muduo_http_server.cpp\<close>, which measures seconds. Both keep one contract, the locale
  \<open>token_bucket\<close>, in which the admission bound is proved once. A \<^verbatim>\<open>double\<close> is a rational here. Each
  operation holds the bucket's mutex, so a call is one step; the clock is an argument.
\<close>

section \<open>TokenBucketRateLimiter\<close>

record rate_limiter =
  rl_rate :: rat
  rl_burst :: rat
  rl_tokens :: rat
  rl_last_refill_ms :: int

definition positive_or_one :: "rat \<Rightarrow> rat" where
  "positive_or_one x = (if x > 0 then x else 1)"

definition new_rate_limiter :: "rat \<Rightarrow> rat \<Rightarrow> int \<Rightarrow> rate_limiter" where
  "new_rate_limiter rate burst now_ms =
     \<lparr>rl_rate = positive_or_one rate, rl_burst = positive_or_one burst, rl_tokens = positive_or_one burst,
      rl_last_refill_ms = now_ms\<rparr>"

definition Refill :: "int \<Rightarrow> rate_limiter \<Rightarrow> rate_limiter" where
  "Refill now_ms b =
     (if now_ms < rl_last_refill_ms b then b\<lparr>rl_last_refill_ms := now_ms\<rparr>
      else if now_ms = rl_last_refill_ms b then b
      else (let elapsed = of_int (now_ms - rl_last_refill_ms b) / 1000 in
            b\<lparr>rl_tokens := min (rl_tokens b + elapsed * rl_rate b) (rl_burst b), rl_last_refill_ms := now_ms\<rparr>))"

definition Acquire :: "int \<Rightarrow> rate_limiter \<Rightarrow> bool \<times> rate_limiter" where
  "Acquire now_ms b =
     (let b1 = Refill now_ms b in
      if rl_tokens b1 \<ge> 1 then (True, b1\<lparr>rl_tokens := rl_tokens b1 - 1\<rparr>) else (False, b1))"

definition Tokens :: "int \<Rightarrow> rate_limiter \<Rightarrow> rat" where
  "Tokens now_ms b =
     (if now_ms > rl_last_refill_ms b
      then (let elapsed = of_int (now_ms - rl_last_refill_ms b) / 1000 in min (rl_tokens b + elapsed * rl_rate b) (rl_burst b))
      else rl_tokens b)"

definition ResetLimiter :: "rat \<Rightarrow> rat \<Rightarrow> int \<Rightarrow> rate_limiter \<Rightarrow> rate_limiter" where
  "ResetLimiter rate burst now_ms b = new_rate_limiter rate burst now_ms"

section \<open>TokenBucket of the HTTP server\<close>

record conn_bucket =
  cb_rate :: rat
  cb_burst_size :: rat
  cb_tokens :: rat
  cb_last_refill :: rat

definition new_conn_bucket :: "rat \<Rightarrow> rat \<Rightarrow> rat \<Rightarrow> conn_bucket" where
  "new_conn_bucket rate burst now =
     \<lparr>cb_rate = positive_or_one rate, cb_burst_size = positive_or_one burst, cb_tokens = positive_or_one burst,
      cb_last_refill = now\<rparr>"

definition Consume :: "rat \<Rightarrow> conn_bucket \<Rightarrow> bool \<times> conn_bucket" where
  "Consume now b =
     (let elapsed = now - cb_last_refill b;
          b1 = (if elapsed > 0
                then b\<lparr>cb_tokens := min (cb_burst_size b) (cb_tokens b + elapsed * cb_rate b), cb_last_refill := now\<rparr>
                else b)
      in if cb_tokens b1 \<ge> 1 then (True, b1\<lparr>cb_tokens := cb_tokens b1 - 1\<rparr>) else (False, b1))"

definition ResetBucket :: "rat \<Rightarrow> rat \<Rightarrow> rat \<Rightarrow> conn_bucket \<Rightarrow> conn_bucket" where
  "ResetBucket rate burst now b = new_conn_bucket rate burst now"

definition bucket_tokens :: "rat \<Rightarrow> conn_bucket \<Rightarrow> rat" where
  "bucket_tokens now b =
     (let elapsed = now - cb_last_refill b in
      if elapsed > 0 then min (cb_burst_size b) (cb_tokens b + elapsed * cb_rate b) else cb_tokens b)"

section \<open>The contract\<close>

text \<open>Calls at the given times, and how many of them are granted.\<close>

fun calls :: "('t \<Rightarrow> 's \<Rightarrow> bool \<times> 's) \<Rightarrow> 't list \<Rightarrow> 's \<Rightarrow> nat \<times> 's" where
  "calls acquire [] s = (0, s)"
| "calls acquire (t # ts) s =
     (let (ok, s1) = acquire t s; (n, s2) = calls acquire ts s1 in ((if ok then 1 else 0) + n, s2))"

locale token_bucket =
  fixes acquire :: "'t::linorder \<Rightarrow> 's \<Rightarrow> bool \<times> 's"
    and level :: "'s \<Rightarrow> rat" and rate :: "'s \<Rightarrow> rat" and burst :: "'s \<Rightarrow> rat" and stamp :: "'s \<Rightarrow> 't"
    and seconds :: "'t \<Rightarrow> rat" and valid :: "'s \<Rightarrow> bool"
  assumes monotone: "t \<le> u \<Longrightarrow> seconds t \<le> seconds u"
    and valid_level: "valid s \<Longrightarrow> 0 \<le> level s \<and> level s \<le> burst s \<and> 0 < rate s"
    and keeps: "valid s \<Longrightarrow> stamp s \<le> t \<Longrightarrow> acquire t s = (ok, s') \<Longrightarrow>
        valid s' \<and> rate s' = rate s \<and> burst s' = burst s \<and> stamp s' = t"
    and grant: "valid s \<Longrightarrow> stamp s \<le> t \<Longrightarrow> acquire t s = (ok, s') \<Longrightarrow>
        (ok \<longleftrightarrow> 1 \<le> min (burst s) (level s + (seconds t - seconds (stamp s)) * rate s)) \<and>
        level s' = min (burst s) (level s + (seconds t - seconds (stamp s)) * rate s) - (if ok then 1 else 0)"
begin

lemma calls_keep:
  "valid s \<Longrightarrow> sorted (stamp s # ts) \<Longrightarrow> calls acquire ts s = (n, s') \<Longrightarrow>
     valid s' \<and> rate s' = rate s \<and> burst s' = burst s \<and> stamp s' = last (stamp s # ts)"
proof (induction ts arbitrary: s n)
  case (Cons t ts)
  obtain ok s1 m where s1: "acquire t s = (ok, s1)" "calls acquire ts s1 = (m, s')"
    using Cons.prems(3) by (auto simp: split: prod.splits)
  have k: "valid s1" "rate s1 = rate s" "burst s1 = burst s" "stamp s1 = t"
    using keeps [OF Cons.prems(1) _ s1(1)] Cons.prems(2) by auto
  show ?case
    using Cons.IH [OF k(1) _ s1(2)] Cons.prems(2) k by auto
qed simp

lemma conservation:
  "valid s \<Longrightarrow> sorted (stamp s # ts) \<Longrightarrow> calls acquire ts s = (n, s') \<Longrightarrow>
     of_nat n + level s' \<le> level s + (seconds (stamp s') - seconds (stamp s)) * rate s"
proof (induction ts arbitrary: s n)
  case (Cons t ts)
  obtain ok s1 m where s1: "acquire t s = (ok, s1)" "calls acquire ts s1 = (m, s')"
    and n: "n = (if ok then 1 else 0) + m"
    using Cons.prems(3) by (auto split: prod.splits)
  have k: "valid s1" "rate s1 = rate s" "stamp s1 = t"
    using keeps [OF Cons.prems(1) _ s1(1)] Cons.prems(2) by auto
  have "sorted (stamp s1 # ts)"
    using Cons.prems(2) k(3) by simp
  then have IH: "of_nat m + level s' \<le> level s1 + (seconds (stamp s') - seconds t) * rate s"
    using Cons.IH [OF k(1) _ s1(2)] k by simp
  have "level s1 \<le> level s + (seconds t - seconds (stamp s)) * rate s - (if ok then 1 else 0)"
    using grant [OF Cons.prems(1) _ s1(1)] Cons.prems(2) by auto
  moreover have "(seconds (stamp s') - seconds (stamp s)) * rate s =
      (seconds (stamp s') - seconds t) * rate s + (seconds t - seconds (stamp s)) * rate s"
    by (simp add: algebra_simps)
  ultimately show ?case
    using IH by (simp add: n split: if_splits)
qed simp

text \<open>What passes between the state and the last call is at most the burst plus the rate times the time.\<close>

lemma admission_bound:
  assumes "valid s" "sorted (stamp s # ts)"
  shows "of_nat (fst (calls acquire ts s)) \<le> burst s + rate s * (seconds (last (stamp s # ts)) - seconds (stamp s))"
proof -
  obtain n s' where r: "calls acquire ts s = (n, s')" by fastforce
  have "0 \<le> level s'" "level s \<le> burst s" "stamp s' = last (stamp s # ts)"
    using calls_keep [OF assms r] valid_level assms(1) by auto
  then show ?thesis
    using conservation [OF assms r] by (simp add: r mult.commute)
qed

text \<open>A bucket that can hold a token grants a call after the time it takes to make one.\<close>

lemma granted_after_wait:
  assumes "valid s" "stamp s \<le> t" "1 \<le> burst s" "1 \<le> (seconds t - seconds (stamp s)) * rate s"
  shows "fst (acquire t s)"
  using grant [OF assms(1,2), of "fst (acquire t s)" "snd (acquire t s)"] assms(3,4) valid_level [OF assms(1)] by auto

lemma small_burst_refuses:
  assumes "valid s" "sorted (stamp s # ts)" "burst s < 1"
  shows "fst (calls acquire ts s) = 0"
  using assms
proof (induction ts arbitrary: s)
  case (Cons t ts)
  obtain ok s1 where s1: "acquire t s = (ok, s1)" by fastforce
  have "\<not> ok" "valid s1" "burst s1 = burst s" "stamp s1 = t"
    using grant [OF Cons.prems(1) _ s1] keeps [OF Cons.prems(1) _ s1] Cons.prems(2,3) by auto
  then show ?case
    using Cons.IH [of s1] Cons.prems(2,3) s1 by (auto split: prod.splits)
qed simp

end

section \<open>Both buckets keep it\<close>

definition limiter_valid :: "rate_limiter \<Rightarrow> bool" where
  "limiter_valid b \<longleftrightarrow> 0 \<le> rl_tokens b \<and> rl_tokens b \<le> rl_burst b \<and> 0 < rl_rate b"

definition bucket_valid :: "conn_bucket \<Rightarrow> bool" where
  "bucket_valid b \<longleftrightarrow> 0 \<le> cb_tokens b \<and> cb_tokens b \<le> cb_burst_size b \<and> 0 < cb_rate b"

definition ms_seconds :: "int \<Rightarrow> rat" where
  "ms_seconds t = of_int t / 1000"

lemma refill_level:
  assumes "limiter_valid b" "rl_last_refill_ms b \<le> t"
  shows "rl_tokens (Refill t b) = min (rl_burst b) (rl_tokens b + (ms_seconds t - ms_seconds (rl_last_refill_ms b)) * rl_rate b)"
    "0 \<le> rl_tokens (Refill t b)" "rl_tokens (Refill t b) \<le> rl_burst b" "rl_last_refill_ms (Refill t b) = t"
    "rl_rate (Refill t b) = rl_rate b" "rl_burst (Refill t b) = rl_burst b"
proof -
  have "0 \<le> (ms_seconds t - ms_seconds (rl_last_refill_ms b)) * rl_rate b"
    using assms by (simp add: ms_seconds_def limiter_valid_def divide_right_mono)
  then show "rl_tokens (Refill t b) = min (rl_burst b) (rl_tokens b + (ms_seconds t - ms_seconds (rl_last_refill_ms b)) * rl_rate b)"
    "0 \<le> rl_tokens (Refill t b)" "rl_tokens (Refill t b) \<le> rl_burst b" "rl_last_refill_ms (Refill t b) = t"
    "rl_rate (Refill t b) = rl_rate b" "rl_burst (Refill t b) = rl_burst b"
    using assms by (auto simp: Refill_def Let_def ms_seconds_def limiter_valid_def min.commute diff_divide_distrib)
qed

interpretation gateway_limiter: token_bucket Acquire rl_tokens rl_rate rl_burst rl_last_refill_ms ms_seconds limiter_valid
proof
  fix t u :: int show "t \<le> u \<Longrightarrow> ms_seconds t \<le> ms_seconds u"
    by (simp add: ms_seconds_def divide_right_mono)
next
  fix s :: rate_limiter show "limiter_valid s \<Longrightarrow> 0 \<le> rl_tokens s \<and> rl_tokens s \<le> rl_burst s \<and> 0 < rl_rate s"
    by (simp add: limiter_valid_def)
next
  fix s s' t ok assume a: "limiter_valid s" "rl_last_refill_ms s \<le> t" "Acquire t s = (ok, s')"
  note r = refill_level [OF a(1,2)]
  show "limiter_valid s' \<and> rl_rate s' = rl_rate s \<and> rl_burst s' = rl_burst s \<and> rl_last_refill_ms s' = t"
    using a r by (auto simp: Acquire_def Let_def limiter_valid_def split: if_splits)
  show "(ok \<longleftrightarrow> 1 \<le> min (rl_burst s) (rl_tokens s + (ms_seconds t - ms_seconds (rl_last_refill_ms s)) * rl_rate s)) \<and>
      rl_tokens s' = min (rl_burst s) (rl_tokens s + (ms_seconds t - ms_seconds (rl_last_refill_ms s)) * rl_rate s) -
        (if ok then 1 else 0)"
    using a(3) unfolding r(1) [symmetric] by (auto simp: Acquire_def Let_def split: if_splits)
qed

interpretation connection_bucket: token_bucket Consume cb_tokens cb_rate cb_burst_size cb_last_refill "\<lambda>t. t" bucket_valid
proof
  fix s s' :: conn_bucket and t ok assume a: "bucket_valid s" "cb_last_refill s \<le> t" "Consume t s = (ok, s')"
  have nonneg: "0 \<le> (t - cb_last_refill s) * cb_rate s"
    using a by (simp add: bucket_valid_def)
  show "bucket_valid s' \<and> cb_rate s' = cb_rate s \<and> cb_burst_size s' = cb_burst_size s \<and> cb_last_refill s' = t"
    using a nonneg by (auto simp: Consume_def Let_def bucket_valid_def split: if_splits)
  show "(ok \<longleftrightarrow> 1 \<le> min (cb_burst_size s) (cb_tokens s + (t - cb_last_refill s) * cb_rate s)) \<and>
      cb_tokens s' = min (cb_burst_size s) (cb_tokens s + (t - cb_last_refill s) * cb_rate s) - (if ok then 1 else 0)"
    using a nonneg by (auto simp: Consume_def Let_def bucket_valid_def split: if_splits)
qed (simp_all add: bucket_valid_def)

section \<open>Admission\<close>

lemma new_valid: "limiter_valid (new_rate_limiter r b t)" "bucket_valid (new_conn_bucket r b u)"
  by (simp_all add: limiter_valid_def bucket_valid_def new_rate_limiter_def new_conn_bucket_def positive_or_one_def)

lemma new_fields [simp]:
  "rl_rate (new_rate_limiter r b t) = positive_or_one r" "rl_burst (new_rate_limiter r b t) = positive_or_one b"
  "rl_last_refill_ms (new_rate_limiter r b t) = t" "cb_rate (new_conn_bucket r b u) = positive_or_one r"
  "cb_burst_size (new_conn_bucket r b u) = positive_or_one b" "cb_last_refill (new_conn_bucket r b u) = u"
  by (simp_all add: new_rate_limiter_def new_conn_bucket_def)



text \<open>
  No starvation by the limiter: a valid bucket that can hold a whole token grants a call once
  the time to make one has passed; but a bucket configured with a burst below one, which the
  constructors accept, refuses every call for ever.
\<close>

lemma limiter_liveness:
  assumes "limiter_valid b" "sorted (rl_last_refill_ms b # t # ts)"
  shows "(1 \<le> rl_burst b \<longrightarrow> 1000 \<le> of_int (t - rl_last_refill_ms b) * rl_rate b \<longrightarrow> fst (Acquire t b)) \<and>
    (rl_burst b < 1 \<longrightarrow> fst (calls Acquire (t # ts) b) = 0)"
proof (intro conjI impI)
  assume "1 \<le> rl_burst b" "1000 \<le> of_int (t - rl_last_refill_ms b) * rl_rate b"
  then show "fst (Acquire t b)"
    using assms by (intro gateway_limiter.granted_after_wait)
      (simp_all add: ms_seconds_def diff_divide_distrib [symmetric] field_simps)
qed (rule gateway_limiter.small_burst_refuses [OF assms])

end
