(* ===== verification/Multipart.thy ===== *)
theory Multipart
  imports Gate_Validation
begin

text \<open>
  The multipart parser of \<^verbatim>\<open>gate/handler/body_parser.hpp\<close>: the boundary of the content type, the
  parts between the delimiters, the headers of a part and the parameters of its disposition, and
  the result with the image and the text fields.
\<close>

section \<open>Cutting\<close>

definition strip_eol :: "string \<Rightarrow> string" where
  "strip_eol s = rev (dropWhile (\<lambda>c. c = CR \<or> c = LF) (rev s))"

definition strip_spaces :: "string \<Rightarrow> string" where
  "strip_spaces s = dropWhile (\<lambda>c. c = CHR 0x20) s"

definition strip_back :: "char \<Rightarrow> string \<Rightarrow> string" where
  "strip_back c s = rev (dropWhile (\<lambda>x. x = c) (rev s))"

definition drop_first :: "char \<Rightarrow> string \<Rightarrow> string" where
  "drop_first c s = (if s \<noteq> [] \<and> hd s = c then tl s else s)"

definition drop_last :: "char \<Rightarrow> string \<Rightarrow> string" where
  "drop_last c s = (if s \<noteq> [] \<and> last s = c then butlast s else s)"

section \<open>The parser\<close>

record multipart_result =
  mp_success :: bool
  mp_error :: string
  mp_image_data :: string
  mp_image_format :: string
  mp_image_filename :: string
  mp_fields :: "(string \<times> string) list"

definition empty_multipart :: multipart_result where
  "empty_multipart = \<lparr>mp_success = False, mp_error = [], mp_image_data = [], mp_image_format = [], mp_image_filename = [], mp_fields = []\<rparr>"

definition ExtractBoundary :: "string \<Rightarrow> string" where
  "ExtractBoundary content_type =
     (case find_text ''boundary='' content_type of
        None \<Rightarrow> []
      | Some pos \<Rightarrow>
          (let b = takeWhile (\<lambda>c. c \<noteq> CHR '';'') (drop (pos + 9) content_type) in
           drop_last quote_char (drop_first quote_char (strip_back (CHR 0x20) (strip_spaces b)))))"

text \<open>
  The loop of \<open>SplitByBoundary\<close> on the rest of the body from \<^verbatim>\<open>start\<close> on. Every round drops at least
  the delimiter, so as many rounds as the body has characters are enough.
\<close>

fun split_parts :: "nat \<Rightarrow> string \<Rightarrow> string \<Rightarrow> string list \<Rightarrow> string list" where
  "split_parts 0 delimiter rest parts = parts"
| "split_parts (Suc fuel) delimiter rest parts =
     (case find_text delimiter rest of
        None \<Rightarrow> parts
      | Some pos \<Rightarrow>
          (let after = drop (pos + length delimiter) rest in
           if after \<noteq> [] \<and> hd after = CHR ''-'' then parts
           else
             (let content = drop_first LF (drop_first CR after); next_delim = find_text delimiter content;
                  part = strip_eol (case next_delim of None \<Rightarrow> content | Some n \<Rightarrow> take n content);
                  parts' = (if part \<noteq> [] then parts @ [part] else parts)
              in case next_delim of None \<Rightarrow> parts' | Some n \<Rightarrow> split_parts fuel delimiter (drop n content) parts')))"

definition SplitByBoundary :: "string \<Rightarrow> string \<Rightarrow> string list" where
  "SplitByBoundary body delimiter = split_parts (Suc (length body)) delimiter body []"

text \<open>One parameter of a disposition per round; \<open>pos\<close> is the index the loop has reached.\<close>

fun disposition_loop :: "nat \<Rightarrow> string \<Rightarrow> nat \<Rightarrow> (string \<times> string) list \<Rightarrow> (string \<times> string) list" where
  "disposition_loop 0 disposition pos params = params"
| "disposition_loop (Suc fuel) disposition pos params =
     (if pos \<ge> length disposition then params
      else case find_text ''='' (drop pos disposition) of
        None \<Rightarrow> params
      | Some i \<Rightarrow>
          (let eq_pos = pos + i;
               key = strip_spaces (rev (takeWhile (\<lambda>c. c \<noteq> CHR '';'') (rev (take eq_pos disposition))));
               raw = takeWhile (\<lambda>c. c \<noteq> CHR '';'') (drop (eq_pos + 1) disposition);
               v = drop_last quote_char (drop_first quote_char (strip_spaces raw))
           in disposition_loop fuel disposition (eq_pos + 1 + length raw) (if key \<noteq> [] then assign key v params else params)))"

definition ParseDispositionParams :: "string \<Rightarrow> (string \<times> string) list" where
  "ParseDispositionParams disposition = disposition_loop (Suc (length disposition)) disposition 0 []"

text \<open>Both loops are given more rounds than they can use: a larger number changes nothing.\<close>

lemma drop_first_length: "length (drop_first c s) \<le> length s"
  by (simp add: drop_first_def)

lemma split_parts_fuel:
  "\<lbrakk>d \<noteq> []; length rest < f; length rest < g\<rbrakk> \<Longrightarrow> split_parts f d rest parts = split_parts g d rest parts"
proof (induction f arbitrary: rest g parts)
  case (Suc f)
  then obtain g' where g: "g = Suc g'"
    by (cases g) auto
  show ?case
  proof (cases "find_text d rest")
    case (Some pos)
    let ?c = "drop_first LF (drop_first CR (drop (pos + length d) rest))"
    have "length ?c \<le> length rest - (pos + length d)"
      using drop_first_length [of LF "drop_first CR (drop (pos + length d) rest)"]
        drop_first_length [of CR "drop (pos + length d) rest"] by simp
    then have shorter: "length ?c < length rest"
      using Suc.prems(1) find_length [OF Some] by (cases d) auto
    have "split_parts f d (drop n ?c) ps = split_parts g' d (drop n ?c) ps" for n ps
      by (rule Suc.IH) (use shorter Suc.prems g in auto)
    then show ?thesis
      by (cases "find_text d ?c") (simp_all only: g Some split_parts.simps Let_def option.simps if_False split: if_splits)
  qed (simp add: g)
qed simp

lemma disposition_loop_fuel:
  "\<lbrakk>length s < pos + f; length s < pos + g\<rbrakk> \<Longrightarrow> disposition_loop f s pos ps = disposition_loop g s pos ps"
proof (induction f arbitrary: pos g ps)
  case 0
  then show ?case
    by (cases g) auto
next
  case (Suc f)
  show ?case
  proof (cases g)
    case 0
    then show ?thesis
      using Suc.prems by simp
  next
    case (Suc g')
    have "disposition_loop f s (pos + i + 1 + k) qs = disposition_loop g' s (pos + i + 1 + k) qs" for i k qs
      by (rule Suc.IH) (use Suc.prems Suc in auto)
    then show ?thesis
      by (simp add: Suc Let_def add.assoc split: option.splits)
  qed
qed

record part_headers =
  ph_headers :: "(string \<times> string) list"
  ph_params :: "(string \<times> string) list"
  ph_body_start :: nat

definition header_line :: "string \<Rightarrow> part_headers \<Rightarrow> part_headers" where
  "header_line line0 ph =
     (let line = drop_last CR line0 in
      if line = [] \<or> CHR '':'' \<notin> set line then ph
      else
        (let key = map to_lower (takeWhile (\<lambda>c. c \<noteq> CHR '':'') line);
             v = strip_spaces (tl (dropWhile (\<lambda>c. c \<noteq> CHR '':'') line));
             ph1 = ph\<lparr>ph_headers := assign key v (ph_headers ph)\<rparr>
         in if key = ''content-disposition'' then ph1\<lparr>ph_params := ParseDispositionParams v\<rparr> else ph1))"

definition ParsePartHeaders :: "string \<Rightarrow> part_headers" where
  "ParsePartHeaders part =
     (let none = \<lparr>ph_headers = [], ph_params = [], ph_body_start = 0\<rparr>;
          run = (\<lambda>header_end body_start.
             fold header_line (split_at LF (take header_end part)) (none\<lparr>ph_body_start := body_start\<rparr>))
      in case find_text [CR, LF, CR, LF] part of
           Some h \<Rightarrow> run h (h + 4)
         | None \<Rightarrow> (case find_text [LF, LF] part of None \<Rightarrow> none | Some h \<Rightarrow> run h (h + 2)))"

definition MapImageFormat :: "string \<Rightarrow> string \<Rightarrow> string" where
  "MapImageFormat otherwise_format v =
     (if contains_text ''image/jpeg'' v \<or> contains_text ''image/jpg'' v then ''jpeg''
      else if contains_text ''image/png'' v then ''png''
      else if contains_text ''image/bmp'' v \<or> contains_text ''image/x-ms-bmp'' v then ''bmp''
      else otherwise_format)"

definition image_format_of :: "part_headers \<Rightarrow> string \<Rightarrow> string" where
  "image_format_of ph data =
     (case map_of (ph_headers ph) ''content-type'' of
        Some v \<Rightarrow> if v \<noteq> [] then MapImageFormat ''unknown'' v
                  else (case detected_format data of Some f \<Rightarrow> f | None \<Rightarrow> ''unknown'')
      | None \<Rightarrow> (case detected_format data of Some f \<Rightarrow> f | None \<Rightarrow> ''unknown''))"

text \<open>One part; the flag says whether an image was found.\<close>

definition take_part :: "string \<Rightarrow> multipart_result \<times> bool \<Rightarrow> multipart_result \<times> bool" where
  "take_part part st =
     (let ph = ParsePartHeaders part; result = fst st in
      if part = [] \<or> ph_body_start ph \<ge> length part then st
      else
        (let part_body = strip_eol (drop (ph_body_start ph) part);
             field_name = (case map_of (ph_params ph) ''name'' of Some n \<Rightarrow> n | None \<Rightarrow> [])
         in
         if field_name = [] then st
         else if field_name = ''image''
         then (result\<lparr>mp_image_data := part_body,
                 mp_image_filename := (case map_of (ph_params ph) ''filename'' of Some f \<Rightarrow> f | None \<Rightarrow> mp_image_filename result),
                 mp_image_format := image_format_of ph part_body\<rparr>, True)
         else (result\<lparr>mp_fields := assign field_name part_body (mp_fields result)\<rparr>, snd st)))"

definition Parse_multipart :: "string \<Rightarrow> string \<Rightarrow> multipart_result" where
  "Parse_multipart body content_type =
     (if body = [] then empty_multipart\<lparr>mp_error := ''Empty request body''\<rparr>
      else
        (let boundary = ExtractBoundary content_type in
         if boundary = [] then empty_multipart\<lparr>mp_error := ''No multipart boundary found in Content-Type''\<rparr>
         else
           (let parts = SplitByBoundary body (''--'' @ boundary) in
            if parts = [] then empty_multipart\<lparr>mp_error := ''No multipart parts found''\<rparr>
            else
              (let (result, image_found) = fold take_part parts (empty_multipart, False) in
               if \<not> image_found then result\<lparr>mp_error := ''Missing '' @ quoted ''image'' @ '' field in multipart data''\<rparr>
               else result\<lparr>mp_success := True\<rparr>))))"

section \<open>Splitting a well-formed body\<close>

definition multipart_text :: "string \<Rightarrow> string list \<Rightarrow> string" where
  "multipart_text delimiter contents =
     concat (map (\<lambda>c. delimiter @ [CR, LF] @ c @ [CR, LF]) contents) @ delimiter @ ''--''"

definition proper_delimiter :: "string \<Rightarrow> bool" where
  "proper_delimiter d \<longleftrightarrow> d \<noteq> [] \<and> CR \<notin> set d \<and> LF \<notin> set d"

definition proper_content :: "string \<Rightarrow> string \<Rightarrow> bool" where
  "proper_content d c \<longleftrightarrow> c \<noteq> [] \<and> last c \<noteq> CR \<and> last c \<noteq> LF \<and> find_text d c = None"

lemma find_across:
  assumes "proper_delimiter d" "find_text d c = None"
  shows "find_text d (c @ CR # LF # d @ r) = Some (length c + 2)"
  using assms(2)
proof (induction c)
  case Nil
  have "hd d \<noteq> CR" "hd d \<noteq> LF" "d \<noteq> []"
    using assms(1) by (cases d; auto simp: proper_delimiter_def)+
  then have "\<not> starts_with d (CR # LF # d @ r)" "\<not> starts_with d (LF # d @ r)"
    using starts_with_hd by blast+
  then show ?case
    using \<open>d \<noteq> []\<close> by (simp add: find_here)
next
  case (Cons a c)
  have "\<not> starts_with d (a # c @ CR # LF # d @ r)"
  proof
    assume s: "starts_with d (a # c @ CR # LF # d @ r)"
    show False
    proof (cases "length d \<le> length (a # c)")
      case True
      then have "starts_with d (a # c)"
        using s by (simp add: starts_with_def take_Cons' split: if_splits)
      then show False
        using Cons.prems by simp
    next
      case False
      then have "d ! length (a # c) = CR"
        using s by (metis append_Cons nat_le_linear not_le nth_append_length nth_take starts_with_def)
      then show False
        using assms(1) False by (metis not_le nth_mem proper_delimiter_def)
    qed
  qed
  then show ?case
    using Cons by (auto split: if_splits)
qed

lemma strip_eol_content: "proper_content d c \<Longrightarrow> strip_eol (c @ [CR, LF]) = c"
  by (cases c rule: rev_cases) (simp_all add: strip_eol_def proper_content_def)

lemma multipart_text_first: "\<exists>r. multipart_text d cs = d @ r"
  by (cases cs) (simp_all add: multipart_text_def)

lemma split_multipart:
  assumes "proper_delimiter d"
  shows "list_all (proper_content d) cs \<Longrightarrow> length cs < fuel \<Longrightarrow> split_parts fuel d (multipart_text d cs) acc = acc @ cs"
proof (induction cs arbitrary: fuel acc)
  case Nil
  then obtain f where "fuel = Suc f" by (cases fuel) auto
  then show ?case
    using assms by (simp add: multipart_text_def find_here proper_delimiter_def)
next
  case (Cons c cs)
  then obtain f where f: "fuel = Suc f" "length cs < f" by (cases fuel) auto
  have d: "d \<noteq> []"
    using assms by (simp add: proper_delimiter_def)
  have c: "proper_content d c" "c \<noteq> []" "find_text d c = None"
    using Cons.prems(1) by (simp_all add: proper_content_def)
  obtain r where r: "multipart_text d cs = d @ r"
    using multipart_text_first by blast
  have body: "multipart_text d (c # cs) = d @ CR # LF # c @ CR # LF # multipart_text d cs"
    by (simp add: multipart_text_def)
  have next_d: "find_text d (c @ CR # LF # d @ r) = Some (length c + 2)"
    by (rule find_across [OF assms c(3)])
  have "split_parts fuel d (multipart_text d (c # cs)) acc = split_parts f d (multipart_text d cs) (acc @ [c])"
    using d c(2) strip_eol_content [OF c(1)]
    by (simp add: f(1) body find_here drop_first_def Let_def r next_d)
  then show ?case
    using Cons.IH [OF _ f(2)] Cons.prems(1) by simp
qed

text \<open>
  Splitting is exact: a body that is built from parts in the way RFC 2046 says, with a
  delimiter that occurs in none of them, is split into exactly these parts, in their order. Each
  part must be non-empty and not end in a line break.
\<close>

lemma multipart_split_exact:
  assumes "proper_delimiter d" "list_all (proper_content d) contents"
  shows "SplitByBoundary (multipart_text d contents) d = contents"
proof -
  have "length contents \<le> length (multipart_text d contents)"
    by (induction contents) (simp_all add: multipart_text_def)
  then show ?thesis
    using split_multipart [OF assms, of "Suc (length (multipart_text d contents))" "[]"]
    by (simp add: SplitByBoundary_def)
qed

definition image_part :: "string \<Rightarrow> string" where
  "image_part data = ''Content-Disposition: form-data; name='' @ [quote_char] @ ''image'' @ [quote_char] @
     [CR, LF, CR, LF] @ data"

definition node_part :: string where
  "node_part = ''Content-Disposition: form-data; name=node_id'' @ [CR, LF, CR, LF] @ ''cam-1''"

lemma parts_example:
  "proper_delimiter ''--B'' \<and> list_all (proper_content ''--B'') [node_part, image_part (jpeg_magic @ ''x'')]"
  by code_simp

text \<open>
  A whole request, and the loss the parser has: the line breaks an image ends with are cut off,
  although they are image bytes.
\<close>

lemma multipart_example:
  "let r = Parse_multipart (multipart_text ''--B'' [node_part, image_part (jpeg_magic @ ''x'' @ [LF])]) ''multipart/form-data; boundary=B''
   in mp_success r \<and> mp_fields r = [(''node_id'', ''cam-1'')] \<and> mp_image_format r = ''jpeg'' \<and> mp_image_data r = jpeg_magic @ ''x''"
  by code_simp

end
