(* ===== verification/Gate_Request.thy ===== *)
theory Gate_Request
  imports Text
begin

text \<open>
  The types the gateway's parts pass around: the request view of \<^verbatim>\<open>gate/http/request_view.hpp\<close> and
  the result of a handler, \<^verbatim>\<open>gate/handler/ihandler.hpp\<close>.
\<close>

record RequestView =
  rv_request_id :: string
  rv_method :: string
  rv_path :: string
  rv_body :: string
  rv_headers :: "(string \<times> string) list"
  rv_client_ip :: string
  rv_content_type :: string
  rv_content_length :: nat
  rv_arrival_ms :: int

record HandlerResult =
  hr_success :: bool
  hr_status :: int
  hr_error :: string
  hr_request_id :: string
  hr_resource_id :: string

definition initial_handler_result :: HandlerResult where
  "initial_handler_result = \<lparr>hr_success = False, hr_status = 500, hr_error = [], hr_request_id = [], hr_resource_id = []\<rparr>"

end
