(* ===== verification/Gate_Handlers.thy ===== *)
theory Gate_Handlers
  imports Gate_Validation Rate_Limiter Multipart Gate_Request
begin

text \<open>
  The request handlers of the gateway: the fixed skeleton of \<^verbatim>\<open>gate/handler/ihandler.hpp\<close>, the
  router, the metrics, the image handler with its limiter, validator, publisher and uploader, and
  the counter. The protobuf encoder (generated code) and the publisher are arguments; an upload is
  what is put into the uploader's queue. An unordered map is an association list with distinct keys.
\<close>

section \<open>Metrics\<close>

record RequestMetrics =
  rm_request_id :: string
  rm_node_id :: string
  rm_status :: int
  rm_latency_ms :: int
  rm_shm_publish_success :: bool
  rm_oss_result :: string

definition no_metrics :: RequestMetrics where
  "no_metrics = \<lparr>rm_request_id = [], rm_node_id = [], rm_status = 0, rm_latency_ms = 0, rm_shm_publish_success = False, rm_oss_result = []\<rparr>"

record metrics_recorder =
  mr_total :: u64
  mr_success :: u64
  mr_failed :: u64
  mr_latency_ms :: i64

definition new_recorder :: metrics_recorder where
  "new_recorder = \<lparr>mr_total = 0, mr_success = 0, mr_failed = 0, mr_latency_ms = 0\<rparr>"

definition RecordRequest :: "RequestMetrics \<Rightarrow> metrics_recorder \<Rightarrow> metrics_recorder" where
  "RecordRequest m r =
     (let r1 = r\<lparr>mr_total := mr_total r + 1\<rparr>;
          r2 = (if 200 \<le> rm_status m \<and> rm_status m < 300 then r1\<lparr>mr_success := mr_success r1 + 1\<rparr>
                else r1\<lparr>mr_failed := mr_failed r1 + 1\<rparr>)
      in r2\<lparr>mr_latency_ms := mr_latency_ms r2 + word_of_int (rm_latency_ms m)\<rparr>)"

definition AvgLatencyMs :: "metrics_recorder \<Rightarrow> rat" where
  "AvgLatencyMs r = (if mr_total r = 0 then 0 else of_int (sint (mr_latency_ms r)) / rat_of_nat (unat (mr_total r)))"

section \<open>The skeleton of a handler\<close>

record 'c ParseResult =
  pr_ok :: bool
  pr_status :: int
  pr_error :: string
  pr_ctx :: "'c option"

record 'c ProcessResult =
  ps_ok :: bool
  ps_status :: int
  ps_error :: string
  ps_request_id :: string
  ps_resource_id :: string
  ps_ctx :: "'c option"

definition initial_parse :: "'c ParseResult" where
  "initial_parse = \<lparr>pr_ok = False, pr_status = 400, pr_error = [], pr_ctx = None\<rparr>"

definition initial_process :: "'c ProcessResult" where
  "initial_process = \<lparr>ps_ok = False, ps_status = 500, ps_error = [], ps_request_id = [], ps_resource_id = [], ps_ctx = None\<rparr>"

text \<open>The hooks of a subclass over its state, and the template method.\<close>

record ('c, 's) hooks =
  DoParse :: "RequestView \<Rightarrow> 's \<Rightarrow> 'c ParseResult \<times> RequestView \<times> 's"
  DoProcess :: "'c ParseResult \<Rightarrow> 's \<Rightarrow> 'c ProcessResult \<times> 's"
  PostProcess :: "'c ProcessResult \<Rightarrow> 's \<Rightarrow> 's"

definition Handle :: "('c, 's) hooks \<Rightarrow> RequestView \<Rightarrow> 's \<Rightarrow> HandlerResult \<times> RequestView \<times> 's" where
  "Handle h view s =
     (case DoParse h view s of (parse_result, view1, s1) \<Rightarrow>
        if \<not> pr_ok parse_result
        then (initial_handler_result\<lparr>hr_status := pr_status parse_result, hr_error := pr_error parse_result,
                hr_request_id := rv_request_id view1\<rparr>, view1, s1)
        else case DoProcess h parse_result s1 of (process_result, s2) \<Rightarrow>
          if \<not> ps_ok process_result
          then (initial_handler_result\<lparr>hr_status := ps_status process_result, hr_error := ps_error process_result,
                  hr_request_id := rv_request_id view1\<rparr>, view1, s2)
          else (initial_handler_result\<lparr>hr_success := True, hr_status := 200, hr_request_id := ps_request_id process_result,
                  hr_resource_id := ps_resource_id process_result\<rparr>, view1, PostProcess h process_result s2))"

section \<open>The image handler\<close>

record FrameContext =
  fc_node_id :: string
  fc_capture_time :: string
  fc_image_data :: string
  fc_image_format :: string
  fc_image_filename :: string
  fc_request_id :: string
  fc_fields :: "(string \<times> string) list"

definition empty_frame :: FrameContext where
  "empty_frame = \<lparr>fc_node_id = [], fc_capture_time = [], fc_image_data = [], fc_image_format = [], fc_image_filename = [],
     fc_request_id = [], fc_fields = []\<rparr>"

record ShmPublishResult =
  sp_success :: bool
  sp_error_message :: string
  sp_image_id :: string

text \<open>The collaborators that are not state: the encoder, the publisher over a world, the path policy.\<close>

record 'w collaborators =
  co_max_field_length :: nat
  co_build :: "string \<Rightarrow> string \<Rightarrow> string \<Rightarrow> string \<Rightarrow> string \<Rightarrow> (string \<times> string) list \<Rightarrow> string"
  co_publish :: "string \<Rightarrow> string \<Rightarrow> 'w \<Rightarrow> ShmPublishResult \<times> 'w"
  co_path_policy :: "((string \<times> string) list \<Rightarrow> string) option"

record 'w ingest =
  ig_limiter :: rate_limiter
  ig_metrics :: metrics_recorder
  ig_world :: 'w
  ig_uploads :: "(string \<times> (string \<times> string) list) list"

definition value_or_empty :: "string \<Rightarrow> (string \<times> string) list \<Rightarrow> string" where
  "value_or_empty k al = (case map_of al k of Some v \<Rightarrow> v | None \<Rightarrow> [])"

definition metadata_prefix :: string where "metadata_prefix = ''x-mould-''"

definition metadata_fields :: "(string \<times> string) list \<Rightarrow> (string \<times> string) list" where
  "metadata_fields headers =
     fold (\<lambda>(k, v) m. if starts_with metadata_prefix k then assign (drop (length metadata_prefix) k) v m else m) headers []"

definition DetectImageFormat :: "string \<Rightarrow> string" where
  "DetectImageFormat d = (case detected_format d of Some f \<Rightarrow> f | None \<Rightarrow> [])"

definition frame_of :: "RequestView \<Rightarrow> FrameContext" where
  "frame_of view =
     (let mapped = (case map_of (rv_headers view) ''content-type'' of Some v \<Rightarrow> MapImageFormat [] v | None \<Rightarrow> []);
          format = (if mapped = [] \<and> rv_body view \<noteq> [] then DetectImageFormat (rv_body view) else mapped)
      in empty_frame\<lparr>fc_request_id := rv_request_id view, fc_node_id := value_or_empty ''x-node-id'' (rv_headers view),
           fc_capture_time := value_or_empty ''x-capture-time'' (rv_headers view), fc_image_data := rv_body view,
           fc_image_format := format, fc_fields := metadata_fields (rv_headers view)\<rparr>)"

definition ingest_parse :: "'w collaborators \<Rightarrow> int \<Rightarrow> RequestView \<Rightarrow> 'w ingest \<Rightarrow> FrameContext ParseResult \<times> RequestView \<times> 'w ingest" where
  "ingest_parse co now_ms view s =
     (let (ok, limiter) = Acquire now_ms (ig_limiter s); s1 = s\<lparr>ig_limiter := limiter\<rparr> in
      if \<not> ok
      then (initial_parse\<lparr>pr_status := 429, pr_error := ''Rate limit exceeded''\<rparr>, view,
            s1\<lparr>ig_metrics := RecordRequest (no_metrics\<lparr>rm_request_id := rv_request_id view, rm_status := 429,
                 rm_oss_result := ''skipped''\<rparr>) (ig_metrics s1)\<rparr>)
      else
        (let frame = frame_of view;
             vr = Validate (co_max_field_length co) (fc_node_id frame) (fc_capture_time frame) (fc_image_data frame) (fc_image_format frame);
             view1 = view\<lparr>rv_body := []\<rparr>
         in if \<not> vr_valid vr
            then (initial_parse\<lparr>pr_status := vr_status vr, pr_error := vr_message vr, pr_ctx := Some frame\<rparr>, view1,
                  s1\<lparr>ig_metrics := RecordRequest (no_metrics\<lparr>rm_request_id := rv_request_id view, rm_node_id := fc_node_id frame,
                       rm_status := vr_status vr, rm_oss_result := ''skipped''\<rparr>) (ig_metrics s1)\<rparr>)
            else (initial_parse\<lparr>pr_ok := True, pr_status := 200, pr_ctx := Some frame\<rparr>, view1, s1)))"

definition shm_channel_name :: string where "shm_channel_name = ''ImageFrameIngress''"

text \<open>A result without a context is the \<^verbatim>\<open>std::bad_any_cast\<close> of the code, which \<open>Handle\<close> never causes.\<close>

definition ingest_process :: "'w collaborators \<Rightarrow> FrameContext ParseResult \<Rightarrow> 'w ingest \<Rightarrow> FrameContext ProcessResult \<times> 'w ingest" where
  "ingest_process co input s =
     (case pr_ctx input of
        None \<Rightarrow> (initial_process, s)
      | Some frame \<Rightarrow>
          (let payload = co_build co (fc_request_id frame) (fc_node_id frame) (fc_capture_time frame) (fc_image_data frame)
                 (fc_image_format frame) (fc_fields frame);
               (shm_result, w) = co_publish co shm_channel_name payload (ig_world s);
               s1 = s\<lparr>ig_world := w\<rparr>
           in if \<not> sp_success shm_result
              then (initial_process\<lparr>ps_status := 503, ps_error := sp_error_message shm_result\<rparr>,
                    s1\<lparr>ig_metrics := RecordRequest (no_metrics\<lparr>rm_status := 503, rm_oss_result := ''skipped''\<rparr>) (ig_metrics s1)\<rparr>)
              else (initial_process\<lparr>ps_ok := True, ps_status := 200, ps_request_id := fc_request_id frame, ps_ctx := pr_ctx input\<rparr>,
                    s1\<lparr>ig_metrics := RecordRequest (no_metrics\<lparr>rm_node_id := fc_node_id frame, rm_status := 200,
                         rm_shm_publish_success := True, rm_oss_result := ''enqueued''\<rparr>) (ig_metrics s1)\<rparr>)))"

definition oss_metadata :: "'w collaborators \<Rightarrow> FrameContext ProcessResult \<Rightarrow> FrameContext \<Rightarrow> (string \<times> string) list" where
  "oss_metadata co result frame =
     (let m = [(''request_id'', ps_request_id result), (''image_id'', ps_resource_id result), (''node_id'', fc_node_id frame),
               (''image_filename'', fc_image_filename frame), (''image_format'', fc_image_format frame),
               (''capture_time'', fc_capture_time frame)]
      in case co_path_policy co of None \<Rightarrow> m | Some policy \<Rightarrow> assign ''object_key'' (policy m) m)"

definition ingest_post :: "'w collaborators \<Rightarrow> FrameContext ProcessResult \<Rightarrow> 'w ingest \<Rightarrow> 'w ingest" where
  "ingest_post co result s =
     (case ps_ctx result of
        None \<Rightarrow> s
      | Some frame \<Rightarrow> s\<lparr>ig_uploads := ig_uploads s @ [(fc_image_data frame, oss_metadata co result frame)]\<rparr>)"

definition ingest_handler :: "'w collaborators \<Rightarrow> int \<Rightarrow> (FrameContext, 'w ingest) hooks" where
  "ingest_handler co now_ms =
     \<lparr>DoParse = ingest_parse co now_ms, DoProcess = ingest_process co, PostProcess = ingest_post co\<rparr>"

section \<open>Other handlers and the router\<close>

text \<open>The counter.\<close>

definition counter_handler :: "(unit, u64) hooks" where
  "counter_handler =
     \<lparr>DoParse = (\<lambda>view s. (initial_parse\<lparr>pr_ok := True, pr_status := 200\<rparr>, view, s)),
      DoProcess = (\<lambda>input s.
        (let count = s + 1; n = nat_digits (unat count) in
         (initial_process\<lparr>ps_ok := True, ps_status := 200, ps_request_id := n, ps_resource_id := n\<rparr>, count))),
      PostProcess = (\<lambda>result s. s)\<rparr>"

record 's RouteEntry =
  rt_method :: string
  rt_path_pattern :: string
  rt_handler :: "RequestView \<Rightarrow> 's \<Rightarrow> HandlerResult \<times> RequestView \<times> 's"

record 's RouterDispatcher =
  rd_routes :: "'s RouteEntry list"
  rd_fallback :: "(RequestView \<Rightarrow> 's \<Rightarrow> HandlerResult \<times> RequestView \<times> 's) option"

definition RegisterRoute :: "string \<Rightarrow> string \<Rightarrow> (RequestView \<Rightarrow> 's \<Rightarrow> HandlerResult \<times> RequestView \<times> 's) \<Rightarrow> 's RouterDispatcher \<Rightarrow> 's RouterDispatcher" where
  "RegisterRoute meth pattern h r =
     r\<lparr>rd_routes := rd_routes r @ [\<lparr>rt_method = meth, rt_path_pattern = pattern, rt_handler = h\<rparr>]\<rparr>"

definition SetFallback :: "(RequestView \<Rightarrow> 's \<Rightarrow> HandlerResult \<times> RequestView \<times> 's) \<Rightarrow> 's RouterDispatcher \<Rightarrow> 's RouterDispatcher" where
  "SetFallback h r = r\<lparr>rd_fallback := Some h\<rparr>"

definition MatchMethod :: "string \<Rightarrow> string \<Rightarrow> bool" where
  "MatchMethod pattern actual \<longleftrightarrow> pattern = [] \<or> pattern = ''*'' \<or> pattern = actual"

definition MatchPath :: "string \<Rightarrow> string \<Rightarrow> bool" where
  "MatchPath pattern actual =
     (if pattern = actual then True
      else if length pattern \<ge> 2 \<and> drop (length pattern - 2) pattern = ''/*''
      then (let prefix = take (length pattern - 2) pattern in
            if prefix = [] then True
            else length actual \<ge> length prefix \<and> take (length prefix) actual = prefix \<and>
                 (length actual = length prefix \<or> actual ! length prefix = CHR ''/''))
      else False)"

definition MakeNotFoundResult :: "string \<Rightarrow> HandlerResult" where
  "MakeNotFoundResult request_id =
     initial_handler_result\<lparr>hr_status := 404, hr_error := ''Not Found'', hr_request_id := request_id\<rparr>"

fun dispatch_routes :: "'s RouteEntry list \<Rightarrow> RequestView \<Rightarrow> (RequestView \<Rightarrow> 's \<Rightarrow> HandlerResult \<times> RequestView \<times> 's) option" where
  "dispatch_routes [] view = None"
| "dispatch_routes (route # routes) view =
     (if \<not> MatchMethod (rt_method route) (rv_method view) then dispatch_routes routes view
      else if \<not> MatchPath (rt_path_pattern route) (rv_path view) then dispatch_routes routes view
      else Some (rt_handler route))"

definition Dispatch :: "'s RouterDispatcher \<Rightarrow> RequestView \<Rightarrow> 's \<Rightarrow> HandlerResult \<times> RequestView \<times> 's" where
  "Dispatch r view s =
     (case dispatch_routes (rd_routes r) view of
        Some h \<Rightarrow> h view s
      | None \<Rightarrow> (case rd_fallback r of Some f \<Rightarrow> f view s | None \<Rightarrow> (MakeNotFoundResult (rv_request_id view), view, s)))"

section \<open>What the image handler does\<close>

definition admitted :: "int \<Rightarrow> 'w ingest \<Rightarrow> bool" where
  "admitted now_ms s \<longleftrightarrow> fst (Acquire now_ms (ig_limiter s))"

definition frame_fields_ok :: "'w collaborators \<Rightarrow> FrameContext \<Rightarrow> bool" where
  "frame_fields_ok co f \<longleftrightarrow> fields_ok (co_max_field_length co) (fc_node_id f) (fc_capture_time f) (fc_image_data f)"

definition frame_image_ok :: "FrameContext \<Rightarrow> bool" where
  "frame_image_ok f \<longleftrightarrow> image_matches (fc_image_data f) (fc_image_format f)"

definition publication :: "'w collaborators \<Rightarrow> FrameContext \<Rightarrow> 'w ingest \<Rightarrow> ShmPublishResult \<times> 'w" where
  "publication co f s =
     co_publish co shm_channel_name
       (co_build co (fc_request_id f) (fc_node_id f) (fc_capture_time f) (fc_image_data f) (fc_image_format f) (fc_fields f)) (ig_world s)"

definition ingest_status :: "'w collaborators \<Rightarrow> int \<Rightarrow> RequestView \<Rightarrow> 'w ingest \<Rightarrow> int" where
  "ingest_status co now_ms view s =
     (if \<not> admitted now_ms s then 429
      else if \<not> frame_fields_ok co (frame_of view) then 422
      else if \<not> frame_image_ok (frame_of view) then 415
      else if \<not> sp_success (fst (publication co (frame_of view) s)) then 503
      else 200)"

definition upload_of :: "'w collaborators \<Rightarrow> RequestView \<Rightarrow> string \<times> (string \<times> string) list" where
  "upload_of co view =
     (rv_body view, oss_metadata co (initial_process\<lparr>ps_ok := True, ps_status := 200, ps_request_id := rv_request_id view,
        ps_ctx := Some (frame_of view)\<rparr>) (frame_of view))"

lemma frame_of_fields: "fc_request_id (frame_of view) = rv_request_id view" "fc_image_data (frame_of view) = rv_body view"
  by (simp_all add: frame_of_def Let_def empty_frame_def)

lemma RecordRequest_counts [simp]:
  "mr_total (RecordRequest m r) = mr_total r + 1"
  "mr_success (RecordRequest m r) = mr_success r + of_bool (200 \<le> rm_status m \<and> rm_status m < 300)"
  "mr_failed (RecordRequest m r) = mr_failed r + of_bool (\<not> (200 \<le> rm_status m \<and> rm_status m < 300))"
  "mr_latency_ms (RecordRequest m r) = mr_latency_ms r + word_of_int (rm_latency_ms m)"
  by (simp_all add: RecordRequest_def Let_def)

lemma no_metrics_simps [simp]: "rm_latency_ms no_metrics = 0"
  by (simp add: no_metrics_def)

definition frame_error :: "'w collaborators \<Rightarrow> FrameContext \<Rightarrow> string" where
  "frame_error co f =
     vr_message (Validate (co_max_field_length co) (fc_node_id f) (fc_capture_time f) (fc_image_data f) (fc_image_format f))"

lemma frame_validity:
  fixes f :: FrameContext and co :: "'w collaborators"
  defines "vr \<equiv> Validate (co_max_field_length co) (fc_node_id f) (fc_capture_time f) (fc_image_data f) (fc_image_format f)"
  shows "vr_valid vr \<longleftrightarrow> frame_fields_ok co f \<and> frame_image_ok f"
    "vr_status vr = (if \<not> frame_fields_ok co f then 422 else if frame_image_ok f then 200 else 415)"
  using validator_exact [of "co_max_field_length co" "fc_node_id f" "fc_capture_time f" "fc_image_data f" "fc_image_format f"]
  unfolding vr_def frame_fields_ok_def frame_image_ok_def by simp_all

text \<open>The four ways a request goes.\<close>

lemma handle_throttled:
  "\<not> admitted now_ms s \<Longrightarrow> Handle (ingest_handler co now_ms) view s =
     (initial_handler_result\<lparr>hr_status := 429, hr_error := ''Rate limit exceeded'', hr_request_id := rv_request_id view\<rparr>, view,
      s\<lparr>ig_limiter := snd (Acquire now_ms (ig_limiter s)),
        ig_metrics := RecordRequest (no_metrics\<lparr>rm_request_id := rv_request_id view, rm_status := 429, rm_oss_result := ''skipped''\<rparr>) (ig_metrics s)\<rparr>)"
  by (cases "Acquire now_ms (ig_limiter s)")
    (simp add: admitted_def Handle_def ingest_handler_def ingest_parse_def initial_parse_def)

lemma handle_rejected:
  assumes "admitted now_ms s" "\<not> (frame_fields_ok co (frame_of view) \<and> frame_image_ok (frame_of view))"
  shows "Handle (ingest_handler co now_ms) view s =
     (initial_handler_result\<lparr>hr_status := if frame_fields_ok co (frame_of view) then 415 else 422, hr_error := frame_error co (frame_of view),
        hr_request_id := rv_request_id view\<rparr>, view\<lparr>rv_body := []\<rparr>,
      s\<lparr>ig_limiter := snd (Acquire now_ms (ig_limiter s)),
        ig_metrics := RecordRequest (no_metrics\<lparr>rm_request_id := rv_request_id view, rm_node_id := fc_node_id (frame_of view),
          rm_status := if frame_fields_ok co (frame_of view) then 415 else 422, rm_oss_result := ''skipped''\<rparr>) (ig_metrics s)\<rparr>)"
  using assms frame_validity [of co "frame_of view"] by (cases "Acquire now_ms (ig_limiter s)")
    (simp add: admitted_def Handle_def ingest_handler_def ingest_parse_def initial_parse_def Let_def frame_error_def)

lemma parse_accepted:
  assumes "admitted now_ms s" "frame_fields_ok co (frame_of view)" "frame_image_ok (frame_of view)"
  shows "ingest_parse co now_ms view s =
    (initial_parse\<lparr>pr_ok := True, pr_status := 200, pr_ctx := Some (frame_of view)\<rparr>, view\<lparr>rv_body := []\<rparr>,
     s\<lparr>ig_limiter := snd (Acquire now_ms (ig_limiter s))\<rparr>)"
  using assms frame_validity [of co "frame_of view"] by (cases "Acquire now_ms (ig_limiter s)")
    (simp add: admitted_def ingest_parse_def Let_def)

lemma handle_unpublished:
  assumes "admitted now_ms s" "frame_fields_ok co (frame_of view)" "frame_image_ok (frame_of view)"
    "publication co (frame_of view) s = (res, w)" "\<not> sp_success res"
  shows "Handle (ingest_handler co now_ms) view s =
     (initial_handler_result\<lparr>hr_status := 503, hr_error := sp_error_message res, hr_request_id := rv_request_id view\<rparr>,
      view\<lparr>rv_body := []\<rparr>,
      s\<lparr>ig_limiter := snd (Acquire now_ms (ig_limiter s)), ig_world := w,
        ig_metrics := RecordRequest (no_metrics\<lparr>rm_status := 503, rm_oss_result := ''skipped''\<rparr>) (ig_metrics s)\<rparr>)"
  using assms by (simp add: Handle_def ingest_handler_def parse_accepted initial_parse_def ingest_process_def publication_def
      initial_process_def)

lemma handle_published:
  assumes "admitted now_ms s" "frame_fields_ok co (frame_of view)" "frame_image_ok (frame_of view)"
    "publication co (frame_of view) s = (res, w)" "sp_success res"
  shows "Handle (ingest_handler co now_ms) view s =
     (initial_handler_result\<lparr>hr_success := True, hr_status := 200, hr_request_id := rv_request_id view\<rparr>,
      view\<lparr>rv_body := []\<rparr>,
      s\<lparr>ig_limiter := snd (Acquire now_ms (ig_limiter s)), ig_world := w,
        ig_metrics := RecordRequest (no_metrics\<lparr>rm_node_id := fc_node_id (frame_of view), rm_status := 200,
          rm_shm_publish_success := True, rm_oss_result := ''enqueued''\<rparr>) (ig_metrics s),
        ig_uploads := ig_uploads s @ [upload_of co view]\<rparr>)"
  using assms by (simp add: Handle_def ingest_handler_def parse_accepted initial_parse_def ingest_process_def publication_def
      initial_process_def ingest_post_def upload_of_def frame_of_fields initial_handler_result_def)

lemma ingest_outcome:
  "case Handle (ingest_handler co now_ms) view s of (r, view', s') \<Rightarrow>
     hr_status r = ingest_status co now_ms view s \<and> hr_success r = (hr_status r = 200) \<and> hr_request_id r = rv_request_id view \<and>
     ig_world s' = (if hr_status r = 503 \<or> hr_status r = 200 then snd (publication co (frame_of view) s) else ig_world s) \<and>
     ig_uploads s' = ig_uploads s @ (if hr_status r = 200 then [upload_of co view] else []) \<and>
     mr_total (ig_metrics s') = mr_total (ig_metrics s) + 1 \<and>
     mr_success (ig_metrics s') = mr_success (ig_metrics s) + of_bool (hr_status r = 200) \<and>
     mr_failed (ig_metrics s') = mr_failed (ig_metrics s) + of_bool (hr_status r \<noteq> 200)"
proof (cases "admitted now_ms s \<and> frame_fields_ok co (frame_of view) \<and> frame_image_ok (frame_of view)")
  case True
  then show ?thesis
    by (cases "publication co (frame_of view) s"; cases "sp_success (fst (publication co (frame_of view) s))")
      (simp_all add: handle_unpublished handle_published ingest_status_def initial_handler_result_def)
next
  case False
  show ?thesis
  proof (cases "admitted now_ms s")
    case True
    have "\<not> (frame_fields_ok co (frame_of view) \<and> frame_image_ok (frame_of view))"
      using False True by blast
    note handle_rejected [OF True this]
    then show ?thesis
      using True False by (simp add: ingest_status_def initial_handler_result_def)
  qed (simp add: handle_throttled ingest_status_def initial_handler_result_def)
qed


section \<open>What the router does\<close>

text \<open>A path is covered by itself, and by a pattern ending in \<open>/*\<close> whose prefix it is or extends by a segment.\<close>

definition path_covered :: "string \<Rightarrow> string \<Rightarrow> bool" where
  "path_covered p a \<longleftrightarrow> p = a \<or> (\<exists>q. p = q @ ''/*'' \<and> (q = [] \<or> a = q \<or> (\<exists>r. a = q @ CHR ''/'' # r)))"

lemma prefix_segment:
  "(length a \<ge> length q \<and> take (length q) a = q \<and> (length a = length q \<or> a ! length q = CHR ''/'')) \<longleftrightarrow>
   (a = q \<or> (\<exists>r. a = q @ CHR ''/'' # r))"
proof
  assume a: "length a \<ge> length q \<and> take (length q) a = q \<and> (length a = length q \<or> a ! length q = CHR ''/'')"
  then obtain r where r: "a = q @ r"
    by (metis append_take_drop_id)
  show "a = q \<or> (\<exists>r. a = q @ CHR ''/'' # r)"
    using a by (cases r) (simp_all add: r)
qed auto

lemma MatchPath_iff: "MatchPath p a \<longleftrightarrow> path_covered p a"
proof (cases "\<exists>q. p = q @ ''/*''")
  case True
  then obtain q where q: "p = q @ ''/*''" by blast
  have "path_covered p a \<longleftrightarrow> p = a \<or> q = [] \<or> a = q \<or> (\<exists>r. a = q @ CHR ''/'' # r)"
    by (auto simp: path_covered_def q)
  then show ?thesis
    using prefix_segment [of q a] by (simp add: MatchPath_def q)
next
  case False
  have "drop (length p - 2) p \<noteq> ''/*''"
    using False by (metis append_take_drop_id)
  then show ?thesis
    using False by (auto simp: MatchPath_def path_covered_def)
qed

lemma dispatch_find:
  "dispatch_routes routes view =
     map_option rt_handler (find (\<lambda>rt. MatchMethod (rt_method rt) (rv_method view) \<and> path_covered (rt_path_pattern rt) (rv_path view)) routes)"
  by (induction routes) (simp_all add: MatchPath_iff)

text \<open>
  C39: A request goes to the first registered route whose method is the request's, empty or \<open>*\<close>,
  and whose pattern is the path, or ends in \<open>/*\<close> with a prefix that is the path or one of its
  ancestors; where there is none, to the fallback, and without a fallback the answer is 404.
\<close>

theorem router_first_match:
  "Dispatch r view s =
     (case find (\<lambda>rt. MatchMethod (rt_method rt) (rv_method view) \<and> path_covered (rt_path_pattern rt) (rv_path view)) (rd_routes r) of
        Some rt \<Rightarrow> rt_handler rt view s
      | None \<Rightarrow> (case rd_fallback r of Some f \<Rightarrow> f view s | None \<Rightarrow> (MakeNotFoundResult (rv_request_id view), view, s)))"
  by (simp add: Dispatch_def dispatch_find split: option.split)

end
