(* ===== verification/Frame_Payload.thy ===== *)
theory Frame_Payload
  imports Gate_Handlers "HOL-Library.Countable"
begin

text \<open>
  The message the gateway publishes, \<^verbatim>\<open>gate/handler/frame_payload_builder.hpp\<close>: how its fields are
  filled and how a consumer reads them back. \<^verbatim>\<open>SerializeAsString\<close> and \<^verbatim>\<open>ParseFromString\<close> are generated
  by protobuf and arguments here; a field of type \<^verbatim>\<open>string\<close> must hold text, one of type \<^verbatim>\<open>bytes\<close>
  may hold anything.
\<close>

record ImageFrameIngress =
  fi_request_id :: string
  fi_node_id :: string
  fi_capture_time :: string
  fi_image_format :: string
  fi_image_data :: string
  fi_extra_metadata :: "string \<Rightarrow> string option"

definition empty_ingress :: ImageFrameIngress where
  "empty_ingress = \<lparr>fi_request_id = [], fi_node_id = [], fi_capture_time = [], fi_image_format = [], fi_image_data = [],
     fi_extra_metadata = Map.empty\<rparr>"

definition BuildPayload :: "(ImageFrameIngress \<Rightarrow> string) \<Rightarrow> string \<Rightarrow> string \<Rightarrow> string \<Rightarrow> string \<Rightarrow> string \<Rightarrow>
    (string \<times> string) list \<Rightarrow> string" where
  "BuildPayload serialize request_id node_id capture_time image_data image_format extra_metadata =
     (let frame = empty_ingress\<lparr>fi_request_id := request_id, fi_node_id := node_id, fi_capture_time := capture_time,
            fi_image_format := image_format, fi_image_data := image_data\<rparr>
      in serialize (fold (\<lambda>(key, v) f. f\<lparr>fi_extra_metadata := (fi_extra_metadata f)(key \<mapsto> v)\<rparr>) extra_metadata frame))"

definition ParseFramePayload :: "(string \<Rightarrow> ImageFrameIngress option) \<Rightarrow> string \<Rightarrow> string + ImageFrameIngress" where
  "ParseFramePayload parse data =
     (case parse data of
        None \<Rightarrow> Inl ''ParseFramePayload: failed to parse ImageFrameIngress proto''
      | Some frame \<Rightarrow> Inr frame)"

section \<open>What a consumer reads\<close>

text \<open>
  The law of the generated code: a message whose strings are all text is read back, one with any
  other string is refused by the parser.
\<close>

definition holds_text :: "(string \<Rightarrow> bool) \<Rightarrow> ImageFrameIngress \<Rightarrow> bool" where
  "holds_text is_text f \<longleftrightarrow> is_text (fi_request_id f) \<and> is_text (fi_node_id f) \<and> is_text (fi_capture_time f) \<and>
     is_text (fi_image_format f) \<and> (\<forall>(k, v) \<in> Map.graph (fi_extra_metadata f). is_text k \<and> is_text v)"

definition protobuf_law :: "(string \<Rightarrow> bool) \<Rightarrow> (ImageFrameIngress \<Rightarrow> string) \<Rightarrow> (string \<Rightarrow> ImageFrameIngress option) \<Rightarrow> bool" where
  "protobuf_law is_text serialize parse \<longleftrightarrow>
     (\<forall>f. finite (dom (fi_extra_metadata f)) \<longrightarrow> parse (serialize f) = (if holds_text is_text f then Some f else None))"

text \<open>There are functions that keep the law: some code numbers the messages.\<close>

lemma finite_map_list:
  assumes "finite (dom m)"
  shows "\<exists>al. map_of al = m"
  using finite_list [OF assms] map_of_map_keys [of _ m] by metis

lemma protobuf_law_possible: "\<exists>serialize parse. protobuf_law is_text serialize parse"
proof -
  define entries where "entries f = (SOME al. map_of al = fi_extra_metadata f)" for f :: ImageFrameIngress
  define code where "code f = replicate (to_nat (fi_request_id f, fi_node_id f, fi_capture_time f, fi_image_format f, fi_image_data f, entries f))
      CHR ''a''" for f
  define parse where "parse d = (if \<exists>f. finite (dom (fi_extra_metadata f)) \<and> code f = d \<and> holds_text is_text f
      then Some (THE f. finite (dom (fi_extra_metadata f)) \<and> code f = d) else None)" for d
  have entries: "map_of (entries f) = fi_extra_metadata f" if "finite (dom (fi_extra_metadata f))" for f
    using someI_ex [OF finite_map_list [OF that]] by (simp add: entries_def)
  have unique: "f = g" if "finite (dom (fi_extra_metadata f))" "finite (dom (fi_extra_metadata g))" "code f = code g" for f g :: ImageFrameIngress
  proof -
    have "to_nat (fi_request_id f, fi_node_id f, fi_capture_time f, fi_image_format f, fi_image_data f, entries f) =
        to_nat (fi_request_id g, fi_node_id g, fi_capture_time g, fi_image_format g, fi_image_data g, entries g)"
      using that(3) by (metis code_def length_replicate)
    then have same: "fi_request_id f = fi_request_id g" "fi_node_id f = fi_node_id g" "fi_capture_time f = fi_capture_time g"
        "fi_image_format f = fi_image_format g" "fi_image_data f = fi_image_data g" "entries f = entries g"
      by simp_all
    then have "fi_extra_metadata f = fi_extra_metadata g"
      using entries that(1,2) by metis
    with same show ?thesis by simp
  qed
  have "protobuf_law is_text code parse"
    unfolding protobuf_law_def
  proof (intro allI impI)
    fix f :: ImageFrameIngress assume f: "finite (dom (fi_extra_metadata f))"
    have "(THE g. finite (dom (fi_extra_metadata g)) \<and> code g = code f) = f"
      using f unique by (intro the_equality) auto
    then show "parse (code f) = (if holds_text is_text f then Some f else None)"
      using f unique by (auto simp: parse_def)
  qed
  then show ?thesis by blast
qed

definition message_of :: "FrameContext \<Rightarrow> ImageFrameIngress" where
  "message_of f = \<lparr>fi_request_id = fc_request_id f, fi_node_id = fc_node_id f, fi_capture_time = fc_capture_time f,
     fi_image_format = fc_image_format f, fi_image_data = fc_image_data f, fi_extra_metadata = map_of (fc_fields f)\<rparr>"

text \<open>Where a key stands once, the order of the entries is of no matter.\<close>

lemma map_of_rev_distinct: "distinct (map fst al) \<Longrightarrow> map_of (rev al) = map_of al"
proof
  fix k assume d: "distinct (map fst al)"
  then have r: "distinct (map fst (rev al))"
    by (simp add: rev_map [symmetric])
  show "map_of (rev al) k = map_of al k"
    using map_of_eq_Some_iff [OF d] map_of_eq_Some_iff [OF r] by (metis not_None_eq set_rev)
qed

lemma fold_metadata:
  "fold (\<lambda>(key, v) f. f\<lparr>fi_extra_metadata := (fi_extra_metadata f)(key \<mapsto> v)\<rparr>) al f =
     f\<lparr>fi_extra_metadata := fi_extra_metadata f ++ map_of (rev al)\<rparr>"
  by (induction al rule: rev_induct) (simp_all add: case_prod_beta del: fun_upd_apply)

text \<open>A field of the metadata is the last header with the prefix and its name.\<close>

lemma metadata_lookup: "map_of (metadata_fields headers) k = map_of (rev headers) (metadata_prefix @ k)"
proof (induction headers rule: rev_induct)
  case (snoc kv headers)
  obtain k' v where kv: "kv = (k', v)" by fastforce
  have "starts_with metadata_prefix k' \<and> drop (length metadata_prefix) k' = k \<longleftrightarrow> k' = metadata_prefix @ k"
    by (auto simp: starts_with_def) (metis append_take_drop_id)
  then show ?case
    using snoc by (auto simp: kv metadata_fields_def)
qed (simp add: metadata_fields_def)

lemma metadata_distinct: "distinct (map fst (metadata_fields headers))"
proof -
  have "distinct (map fst (fold (\<lambda>(k, v) m. if starts_with metadata_prefix k then assign (drop (length metadata_prefix) k) v m else m) hs m))"
    if "distinct (map fst m)" for hs and m :: "(string \<times> string) list"
    using that by (induction hs arbitrary: m) (auto simp: distinct_assign)
  then show ?thesis
    by (simp add: metadata_fields_def)
qed

lemma BuildPayload_message:
  assumes "distinct (map fst (fc_fields f))"
  shows "BuildPayload serialize (fc_request_id f) (fc_node_id f) (fc_capture_time f) (fc_image_data f) (fc_image_format f) (fc_fields f) =
    serialize (message_of f)"
  using assms by (simp add: BuildPayload_def message_of_def fold_metadata empty_ingress_def map_of_rev_distinct)

lemma fields_distinct: "distinct (map fst (fc_fields (frame_of view)))"
  using metadata_distinct by (simp add: frame_of_def Let_def)

text \<open>
  What a consumer of the channel gets for a request: the message with the fields of the request and
  its image unchanged, or, where a header holds something that is no text, an error. The gateway
  checks the lengths of the node and the time but not that headers are text.
\<close>

lemma payload_round_trip:
  assumes "protobuf_law is_text serialize parse"
  shows "ParseFramePayload parse (BuildPayload serialize (fc_request_id (frame_of view)) (fc_node_id (frame_of view))
      (fc_capture_time (frame_of view)) (fc_image_data (frame_of view)) (fc_image_format (frame_of view)) (fc_fields (frame_of view))) =
    (if holds_text is_text (message_of (frame_of view)) then Inr (message_of (frame_of view))
     else Inl ''ParseFramePayload: failed to parse ImageFrameIngress proto'')"
  using assms fields_distinct [of view]
  by (simp add: BuildPayload_message protobuf_law_def ParseFramePayload_def message_of_def finite_dom_map_of)

text \<open>A request with such a header is accepted and published all the same, and no consumer can read it.\<close>

lemma unreadable_header:
  assumes "protobuf_law is_text serialize parse" "(metadata_prefix @ k, v) \<in> set (rv_headers view)" "distinct (map fst (rv_headers view))"
    "\<not> is_text v"
  shows "\<exists>e. ParseFramePayload parse (BuildPayload serialize (fc_request_id (frame_of view)) (fc_node_id (frame_of view))
      (fc_capture_time (frame_of view)) (fc_image_data (frame_of view)) (fc_image_format (frame_of view)) (fc_fields (frame_of view))) = Inl e"
proof -
  have "map_of (metadata_fields (rv_headers view)) k = Some v"
    using assms(2,3) by (simp add: metadata_lookup map_of_rev_distinct)
  then have "(k, v) \<in> Map.graph (fi_extra_metadata (message_of (frame_of view)))"
    by (simp add: message_of_def frame_of_def Let_def in_graphI)
  then have "\<not> holds_text is_text (message_of (frame_of view))"
    using assms(4) by (auto simp: holds_text_def)
  then show ?thesis
    using payload_round_trip [OF assms(1)] by simp
qed

end
