(* ===== verification/Http_Server.thy ===== *)
theory Http_Server
  imports Gate_Request Rate_Limiter
begin

text \<open>
  The HTTP server of \<^verbatim>\<open>gate/http/muduo_http_server.cpp\<close>: the parser of one connection as a state
  machine over the bytes received so far, the connection count, the rate limit per client, and the
  responses. muduo (event loops, buffers, sockets) is outside: a connection's buffer is the list
  of unread bytes, what the server does to the connection is a list of effects. The callbacks of
  one connection run one after another; the counters are atomic.
\<close>

section \<open>Parsing a request\<close>

datatype HttpState = kRequestLine | kHeaders | kBody | kComplete | kError

record HttpContext =
  hc_state :: HttpState
  hc_method :: string
  hc_path :: string
  hc_headers :: "(string \<times> string) list"
  hc_body :: string
  hc_content_length :: nat

definition fresh_context :: HttpContext where
  "fresh_context = \<lparr>hc_state = kRequestLine, hc_method = [], hc_path = [], hc_headers = [], hc_body = [], hc_content_length = 0\<rparr>"

definition content_length_of :: "(string \<times> string) list \<Rightarrow> nat" where
  "content_length_of headers =
     (case map_of headers ''content-length'' of None \<Rightarrow> 0 | Some v \<Rightarrow> nat (atoll v mod 2 ^ 64))"

text \<open>
  One round of the loop: it goes on, waits for more data (the buffer left), or fails with the
  response sent.
\<close>

datatype parse_step = More HttpContext string | Wait HttpContext string | Fail HttpContext string int string

definition request_line_step :: "HttpContext \<Rightarrow> string \<Rightarrow> parse_step" where
  "request_line_step ctx buf =
     (case find_text [CR, LF] buf of
        None \<Rightarrow> Wait ctx buf
      | Some crlf \<Rightarrow>
          (let line = take crlf buf;
               rest1 = dropWhile (\<lambda>c. c \<noteq> CHR 0x20) line;
               m = takeWhile (\<lambda>c. c \<noteq> CHR 0x20) line
           in if rest1 = [] then Fail (ctx\<lparr>hc_state := kError\<rparr>) buf 400 ''Bad Request''
              else
                (let rest2 = dropWhile (\<lambda>c. c \<noteq> CHR 0x20) (tl rest1); p = takeWhile (\<lambda>c. c \<noteq> CHR 0x20) (tl rest1)
                 in if rest2 = [] then Fail (ctx\<lparr>hc_method := m, hc_state := kError\<rparr>) buf 400 ''Bad Request''
                    else More (ctx\<lparr>hc_method := m, hc_path := p, hc_state := kHeaders\<rparr>) (drop (crlf + 2) buf))))"

definition end_of_headers :: "nat \<Rightarrow> HttpContext \<Rightarrow> string \<Rightarrow> parse_step" where
  "end_of_headers max_body ctx buf =
     (let n = (case map_of (hc_headers ctx) ''content-length'' of
                 None \<Rightarrow> hc_content_length ctx | Some _ \<Rightarrow> content_length_of (hc_headers ctx));
          ctx1 = ctx\<lparr>hc_content_length := n\<rparr>
      in if n > max_body then Fail (ctx1\<lparr>hc_state := kError\<rparr>) (drop 2 buf) 413 ''Request Entity Too Large''
         else More (ctx1\<lparr>hc_state := (if n = 0 then kComplete else kBody)\<rparr>) (drop 2 buf))"

definition add_header :: "string \<Rightarrow> HttpContext \<Rightarrow> HttpContext" where
  "add_header line ctx =
     (let rest = dropWhile (\<lambda>c. c \<noteq> CHR '':'') line in
      if rest = [] then ctx
      else
        (let key = map to_lower (takeWhile (\<lambda>c. c \<noteq> CHR '':'') line);
             v = dropWhile (\<lambda>c. c = CHR 0x20 \<or> c = CHR 0x09) (tl rest)
         in ctx\<lparr>hc_headers := assign key v (hc_headers ctx)\<rparr>))"

definition headers_step :: "nat \<Rightarrow> HttpContext \<Rightarrow> string \<Rightarrow> parse_step" where
  "headers_step max_body ctx buf =
     (case find_text [CR, LF] buf of
        None \<Rightarrow> Wait ctx buf
      | Some crlf \<Rightarrow>
          if crlf = 0 then end_of_headers max_body ctx buf
          else More (add_header (take crlf buf) ctx) (drop (crlf + 2) buf))"

definition body_step :: "HttpContext \<Rightarrow> string \<Rightarrow> parse_step" where
  "body_step ctx buf =
     (let to_read = min (length buf) (hc_content_length ctx - length (hc_body ctx));
          ctx1 = ctx\<lparr>hc_body := hc_body ctx @ take to_read buf\<rparr>
      in if length (hc_body ctx1) \<ge> hc_content_length ctx then More (ctx1\<lparr>hc_state := kComplete\<rparr>) (drop to_read buf)
         else Wait ctx1 (drop to_read buf))"

definition http_step :: "nat \<Rightarrow> HttpContext \<Rightarrow> string \<Rightarrow> parse_step" where
  "http_step max_body ctx buf =
     (case hc_state ctx of
        kRequestLine \<Rightarrow> request_line_step ctx buf
      | kHeaders \<Rightarrow> headers_step max_body ctx buf
      | kBody \<Rightarrow> body_step ctx buf
      | _ \<Rightarrow> Wait ctx buf)"

definition finished :: "HttpContext \<Rightarrow> bool" where
  "finished ctx \<longleftrightarrow> hc_state ctx = kComplete \<or> hc_state ctx = kError"

text \<open>
  The loop. Every round that goes on consumes at least a byte, so the length of the buffer is
  fuel enough. The result is the context, the bytes left and the error response.
\<close>

fun parse_loop :: "nat \<Rightarrow> nat \<Rightarrow> HttpContext \<Rightarrow> string \<Rightarrow> HttpContext \<times> string \<times> (int \<times> string) option" where
  "parse_loop 0 max_body ctx buf = (ctx, buf, None)"
| "parse_loop (Suc fuel) max_body ctx buf =
     (if buf = [] \<or> finished ctx then (ctx, buf, None)
      else case http_step max_body ctx buf of
             Wait c b \<Rightarrow> (c, b, None)
           | Fail c b status msg \<Rightarrow> (c, b, Some (status, msg))
           | More c b \<Rightarrow> parse_loop fuel max_body c b)"

definition parse_buffer :: "nat \<Rightarrow> HttpContext \<Rightarrow> string \<Rightarrow> HttpContext \<times> string \<times> (int \<times> string) option" where
  "parse_buffer max_body ctx buf = parse_loop (length buf) max_body ctx buf"

section \<open>The server\<close>

record http_options =
  op_max_connections :: nat
  op_max_body_size :: nat
  op_max_rate_per_conn :: rat

record HealthMetrics =
  hm_total_requests :: u64
  hm_success_count :: u64
  hm_failure_count :: u64
  hm_avg_latency_ms :: rat
  hm_p99_latency_ms :: rat
  hm_shm_rejected_count :: u64
  hm_oss_failure_count :: u64
  hm_oss_retry_count :: u64

record http_server =
  sv_options :: http_options
  sv_started :: bool
  sv_active_connections :: int
  sv_rate_limiters :: "(string \<times> conn_bucket) list"

datatype effect = SendBytes string | ForceClose | Callback RequestView

definition crlf :: string where "crlf = [CR, LF]"

definition SendErrorResponse :: "int \<Rightarrow> string \<Rightarrow> string \<Rightarrow> effect" where
  "SendErrorResponse status_code status_msg extra_headers =
     SendBytes (''HTTP/1.1 '' @ int_to_string status_code @ '' '' @ status_msg @ crlf @
       ''Content-Length: 0'' @ crlf @ ''Connection: close'' @ crlf @
       (if extra_headers = [] then [] else extra_headers @ (if last extra_headers \<noteq> LF then crlf else [])) @ crlf)"

text \<open>The bytes the response sender of a request sends.\<close>

definition response_bytes :: "int \<Rightarrow> string \<Rightarrow> string \<Rightarrow> string" where
  "response_bytes status_code json_body status_msg =
     ''HTTP/1.1 '' @ int_to_string status_code @ '' '' @ status_msg @ crlf @ ''Content-Type: application/json'' @ crlf @
     ''Content-Length: '' @ nat_digits (length json_body) @ crlf @ ''Connection: keep-alive'' @ crlf @ crlf @ json_body"

definition json_key :: "string \<Rightarrow> string" where
  "json_key k = quote_char # k @ [quote_char, CHR '':'']"

definition health_json :: "int \<Rightarrow> HealthMetrics option \<Rightarrow> string" where
  "health_json conn_count metrics =
     ''{'' @ json_key ''status'' @ [quote_char] @ ''ok'' @ [quote_char] @ '','' @ json_key ''active_connections'' @ int_to_string conn_count @
     (case metrics of
        Some m \<Rightarrow>
          '','' @ json_key ''total_requests'' @ nat_digits (unat (hm_total_requests m)) @
          '','' @ json_key ''success_count'' @ nat_digits (unat (hm_success_count m)) @
          '','' @ json_key ''failure_count'' @ nat_digits (unat (hm_failure_count m)) @
          '','' @ json_key ''avg_latency_ms'' @ format_double (hm_avg_latency_ms m) @
          '','' @ json_key ''p99_latency_ms'' @ format_double (hm_p99_latency_ms m) @
          '','' @ json_key ''shm_rejected_count'' @ nat_digits (unat (hm_shm_rejected_count m)) @
          '','' @ json_key ''oss_failure_count'' @ nat_digits (unat (hm_oss_failure_count m)) @
          '','' @ json_key ''oss_retry_count'' @ nat_digits (unat (hm_oss_retry_count m)) @ ''}''
      | None \<Rightarrow> '','' @ json_key ''note'' @ [quote_char] @ ''health callback not registered'' @ [quote_char] @ ''}'')"

definition request_view :: "HttpContext \<Rightarrow> string \<Rightarrow> int \<Rightarrow> RequestView" where
  "request_view ctx client_ip receive_us =
     \<lparr>rv_request_id = [], rv_method = hc_method ctx, rv_path = hc_path ctx, rv_body = hc_body ctx,
      rv_headers = hc_headers ctx, rv_client_ip = client_ip,
      rv_content_type = (case map_of (hc_headers ctx) ''content-type'' of Some v \<Rightarrow> v | None \<Rightarrow> []),
      rv_content_length = length (hc_body ctx), rv_arrival_ms = (if receive_us \<ge> 0 then receive_us div 1000 else - (- receive_us div 1000))\<rparr>"

definition ProcessRequest :: "http_server \<Rightarrow> HealthMetrics option \<Rightarrow> HttpContext \<Rightarrow> string \<Rightarrow> int \<Rightarrow> effect" where
  "ProcessRequest sv health ctx client_ip receive_us =
     (if hc_path ctx = ''/health''
      then SendBytes (response_bytes 200 (health_json (sv_active_connections sv) health) ''OK'')
      else Callback (request_view ctx client_ip receive_us))"

definition CheckRateLimit :: "string \<Rightarrow> rat \<Rightarrow> http_server \<Rightarrow> bool \<times> http_server" where
  "CheckRateLimit client_ip now sv =
     (let r = op_max_rate_per_conn (sv_options sv);
          bucket = (case map_of (sv_rate_limiters sv) client_ip of Some b \<Rightarrow> b | None \<Rightarrow> new_conn_bucket r r now);
          (ok, bucket') = Consume now bucket
      in (ok, sv\<lparr>sv_rate_limiters := assign client_ip bucket' (sv_rate_limiters sv)\<rparr>))"

text \<open>The cast of the limit to \<^verbatim>\<open>int\<close>.\<close>

definition to_int32 :: "nat \<Rightarrow> int" where
  "to_int32 n = (int n + 2 ^ 31) mod 2 ^ 32 - 2 ^ 31"

text \<open>The context of a connection is \<open>None\<close> where the connection was refused.\<close>

definition OnConnection :: "bool \<Rightarrow> http_server \<Rightarrow> HttpContext option \<Rightarrow> http_server \<times> HttpContext option \<times> effect list" where
  "OnConnection is_connected sv ctx =
     (if is_connected
      then (if sv_active_connections sv \<ge> to_int32 (op_max_connections (sv_options sv))
            then (sv, None, [SendErrorResponse 503 ''Service Unavailable'' [], ForceClose])
            else (sv\<lparr>sv_active_connections := sv_active_connections sv + 1\<rparr>, Some fresh_context, []))
      else (sv\<lparr>sv_active_connections := sv_active_connections sv - 1\<rparr>, ctx, []))"

definition OnMessage ::
  "HealthMetrics option \<Rightarrow> string \<Rightarrow> rat \<Rightarrow> int \<Rightarrow> http_server \<Rightarrow> HttpContext option \<Rightarrow> string \<Rightarrow>
   http_server \<times> HttpContext option \<times> string \<times> effect list" where
  "OnMessage health client_ip now receive_us sv ctx_shared buf =
     (case ctx_shared of
        None \<Rightarrow> (sv, None, buf, [ForceClose])
      | Some ctx \<Rightarrow>
          (let (allowed, sv1) = (if hc_state ctx = kRequestLine then CheckRateLimit client_ip now sv else (True, sv)) in
           if \<not> allowed
           then (sv1, Some (ctx\<lparr>hc_state := kError\<rparr>), buf,
                 [SendErrorResponse 429 ''Too Many Requests'' (''Retry-After: 1'' @ crlf)])
           else
             (case parse_buffer (op_max_body_size (sv_options sv1)) ctx buf of
                (c, rest, Some (status, msg)) \<Rightarrow> (sv1, Some c, rest, [SendErrorResponse status msg []])
              | (c, rest, None) \<Rightarrow>
                  (case hc_state c of
                     kComplete \<Rightarrow>
                       if \<not> sv_started sv1 then (sv1, Some fresh_context, rest, [SendErrorResponse 503 ''Service Unavailable'' []])
                       else (sv1, Some fresh_context, rest, [ProcessRequest sv1 health c client_ip receive_us])
                   | kError \<Rightarrow> (sv1, Some c, rest, [ForceClose])
                   | _ \<Rightarrow> (sv1, Some c, rest, [])))))"

text \<open>\<open>Start\<close> and \<open>DoCleanup\<close>: the flag, and whether the call did anything.\<close>

definition StartServer :: "http_server \<Rightarrow> bool \<times> http_server" where
  "StartServer sv = (if sv_started sv then (False, sv) else (True, sv\<lparr>sv_started := True\<rparr>))"

definition DoCleanup :: "http_server \<Rightarrow> bool \<times> http_server" where
  "DoCleanup sv = (if \<not> sv_started sv then (False, sv) else (True, sv\<lparr>sv_started := False\<rparr>))"

section \<open>Segments do not matter\<close>

text \<open>While a body is read, it is shorter than the length announced.\<close>

definition context_ok :: "HttpContext \<Rightarrow> bool" where
  "context_ok ctx \<longleftrightarrow> (hc_state ctx = kBody \<longrightarrow> length (hc_body ctx) < hc_content_length ctx)"

text \<open>Nothing is in the body before it is read.\<close>

definition body_empty :: "HttpContext \<Rightarrow> bool" where
  "body_empty ctx \<longleftrightarrow> (hc_state ctx = kRequestLine \<or> hc_state ctx = kHeaders \<longrightarrow> hc_body ctx = [])"

definition parse_ok :: "HttpContext \<Rightarrow> bool" where
  "parse_ok ctx \<longleftrightarrow> context_ok ctx \<and> body_empty ctx"

lemma fresh_ok: "parse_ok fresh_context" "\<not> finished fresh_context"
  by (simp_all add: parse_ok_def context_ok_def body_empty_def fresh_context_def finished_def)

lemma find_crlf_bound: "find_text [CR, LF] buf = Some i \<Longrightarrow> i + 2 \<le> length buf"
  using find_length [of "[CR, LF]" buf i] by simp

lemma add_header_frame [simp]:
  "hc_state (add_header line ctx) = hc_state ctx" "hc_body (add_header line ctx) = hc_body ctx"
  "hc_content_length (add_header line ctx) = hc_content_length ctx"
  by (simp_all add: add_header_def Let_def)

text \<open>A round that does not wait is the same with bytes that arrive later, which stay unread.\<close>

fun extend_step :: "string \<Rightarrow> parse_step \<Rightarrow> parse_step" where
  "extend_step l (More c r) = More c (r @ l)"
| "extend_step l (Wait c r) = Wait c (r @ l)"
| "extend_step l (Fail c r s m) = Fail c (r @ l) s m"

lemma crlf_append:
  assumes "find_text [CR, LF] buf = Some i"
  shows "find_text [CR, LF] (buf @ l) = Some i" "take i (buf @ l) = take i buf"
    "drop (i + 2) (buf @ l) = drop (i + 2) buf @ l" "drop 2 (buf @ l) = drop 2 buf @ l"
  using find_append [OF assms, of l] find_crlf_bound [OF assms] by simp_all

lemma extend_if: "extend_step l (if b then x else y) = (if b then extend_step l x else extend_step l y)"
  by simp

lemma request_line_append:
  assumes "find_text [CR, LF] buf = Some i"
  shows "request_line_step ctx (buf @ l) = extend_step l (request_line_step ctx buf)"
  unfolding request_line_step_def crlf_append [OF assms] assms option.case Let_def extend_if extend_step.simps ..

lemma headers_append:
  assumes "find_text [CR, LF] buf = Some i"
  shows "headers_step mb ctx (buf @ l) = extend_step l (headers_step mb ctx buf)"
  unfolding headers_step_def end_of_headers_def crlf_append [OF assms] assms option.case Let_def extend_if extend_step.simps ..

lemma request_line_More:
  assumes "request_line_step ctx buf = More c r"
  shows "\<exists>i. find_text [CR, LF] buf = Some i \<and> r = drop (i + 2) buf \<and> hc_state c = kHeaders \<and> hc_body c = hc_body ctx"
proof -
  obtain i where i: "find_text [CR, LF] buf = Some i"
    using assms by (cases "find_text [CR, LF] buf") (simp_all add: request_line_step_def)
  let ?rest = "dropWhile (\<lambda>c. c \<noteq> CHR 0x20) (take i buf)"
  have "?rest \<noteq> []" "dropWhile (\<lambda>c. c \<noteq> CHR 0x20) (tl ?rest) \<noteq> []"
    using assms unfolding request_line_step_def i option.case Let_def
    by (metis parse_step.distinct(3))+
  then have "c = ctx\<lparr>hc_method := takeWhile (\<lambda>c. c \<noteq> CHR 0x20) (take i buf),
      hc_path := takeWhile (\<lambda>c. c \<noteq> CHR 0x20) (tl ?rest), hc_state := kHeaders\<rparr>" "r = drop (i + 2) buf"
    using assms unfolding request_line_step_def i option.case Let_def
    by (simp_all only: if_False parse_step.inject)
  then show ?thesis
    using i by simp
qed

lemma headers_More:
  assumes "headers_step mb ctx buf = More c r"
  shows "\<exists>i. find_text [CR, LF] buf = Some i \<and> length r + 2 \<le> length buf \<and> hc_body c = hc_body ctx \<and>
       (hc_state c = hc_state ctx \<or> hc_state c = kComplete \<or> hc_state c = kBody \<and> hc_content_length c \<noteq> 0)"
proof -
  obtain i where i: "find_text [CR, LF] buf = Some i" "i + 2 \<le> length buf"
    using assms find_crlf_bound by (auto simp: headers_step_def split: option.splits)
  show ?thesis
  proof (cases "i = 0")
    case True
    then show ?thesis
      using assms i by (simp add: headers_step_def end_of_headers_def Let_def split: if_splits) auto
  next
    case False
    then have "c = add_header (take i buf) ctx" "r = drop (i + 2) buf"
      using assms i(1) by (simp_all add: headers_step_def)
    then show ?thesis
      using i by simp
  qed
qed

lemma body_More:
  assumes "body_step ctx buf = More c r" "length (hc_body ctx) < hc_content_length ctx" "buf \<noteq> []"
  shows "length r < length buf" "hc_state c = kComplete" "body_step ctx (buf @ l) = More c (r @ l)"
proof -
  define n where "n = hc_content_length ctx - length (hc_body ctx)"
  have n: "n \<le> length buf" "0 < n" "hc_content_length ctx \<le> length (hc_body ctx) + n"
    using assms by (auto simp: body_step_def Let_def n_def split: if_splits)
  then show "length r < length buf" "hc_state c = kComplete" "body_step ctx (buf @ l) = More c (r @ l)"
    using assms by (auto simp: body_step_def Let_def n_def [symmetric] min_absorb2)
qed

lemma request_line_Wait: "request_line_step ctx buf = Wait c r \<Longrightarrow> c = ctx \<and> r = buf"
  unfolding request_line_step_def Let_def
  by (cases "find_text [CR, LF] buf")
    (simp_all only: option.case parse_step.distinct parse_step.inject simp_thms split: if_splits)

lemma headers_Wait: "headers_step mb ctx buf = Wait c r \<Longrightarrow> c = ctx \<and> r = buf"
  unfolding headers_step_def end_of_headers_def Let_def
  by (cases "find_text [CR, LF] buf")
    (simp_all only: option.case parse_step.distinct parse_step.inject simp_thms split: if_splits)

lemma step_More:
  assumes "http_step mb ctx buf = More c r" "parse_ok ctx" "buf \<noteq> []" "\<not> finished ctx"
  shows "parse_ok c" "length r < length buf" "http_step mb ctx (buf @ later) = More c (r @ later)"
proof -
  consider "hc_state ctx = kRequestLine" "request_line_step ctx buf = More c r"
    | "hc_state ctx = kHeaders" "headers_step mb ctx buf = More c r"
    | "hc_state ctx = kBody" "body_step ctx buf = More c r"
    using assms(1) by (cases "hc_state ctx") (simp_all add: http_step_def)
  then have "parse_ok c \<and> length r < length buf \<and> http_step mb ctx (buf @ later) = More c (r @ later)"
  proof cases
    case 1
    then obtain i where i: "find_text [CR, LF] buf = Some i" "r = drop (i + 2) buf" "hc_state c = kHeaders" "hc_body c = hc_body ctx"
      using request_line_More by blast
    show ?thesis
      using assms(2,3) 1 i request_line_append [OF i(1), of ctx later]
      by (simp add: http_step_def parse_ok_def context_ok_def body_empty_def)
  next
    case 2
    then obtain i where i: "find_text [CR, LF] buf = Some i" "length r + 2 \<le> length buf" "hc_body c = hc_body ctx"
        "hc_state c = hc_state ctx \<or> hc_state c = kComplete \<or> hc_state c = kBody \<and> hc_content_length c \<noteq> 0"
      using headers_More by blast
    have "parse_ok c"
      using assms(2) 2(1) i(3,4) by (auto simp: parse_ok_def context_ok_def body_empty_def)
    then show ?thesis
      using 2 i(2) headers_append [OF i(1), of mb ctx later] by (simp add: http_step_def)
  next
    case 3
    have "length (hc_body ctx) < hc_content_length ctx"
      using assms(2) 3(1) by (simp add: parse_ok_def context_ok_def)
    then show ?thesis
      using body_More(1,2) [OF 3(2) _ assms(3)] body_More(3) [OF 3(2) _ assms(3), of later] 3(1)
      by (simp add: http_step_def parse_ok_def context_ok_def body_empty_def)
  qed
  then show "parse_ok c" "length r < length buf" "http_step mb ctx (buf @ later) = More c (r @ later)"
    by simp_all
qed

lemma step_Fail:
  assumes "http_step mb ctx buf = Fail c r s m"
  shows "http_step mb ctx (buf @ later) = Fail c (r @ later) s m"
proof -
  have state: "hc_state ctx = kRequestLine \<or> hc_state ctx = kHeaders"
    using assms by (cases "hc_state ctx") (auto simp: http_step_def body_step_def Let_def split: if_splits)
  then obtain i where i: "find_text [CR, LF] buf = Some i"
    using assms by (auto simp: http_step_def request_line_step_def headers_step_def split: option.splits)
  show ?thesis
    using state assms request_line_append [OF i, of ctx later] headers_append [OF i, of mb ctx later]
    by (auto simp: http_step_def)
qed

lemma step_Wait:
  assumes "http_step mb ctx buf = Wait c r" "parse_ok ctx" "\<not> finished ctx"
  shows "\<not> finished c" "parse_ok c" "(c = ctx \<and> r = buf) \<or> (r = [] \<and> http_step mb c later = http_step mb ctx (buf @ later) \<and> hc_state c = kBody)"
proof -
  have "\<not> finished c \<and> parse_ok c \<and>
    ((c = ctx \<and> r = buf) \<or> (r = [] \<and> http_step mb c later = http_step mb ctx (buf @ later) \<and> hc_state c = kBody))"
  proof (cases "hc_state ctx = kBody")
    case True
    define n where "n = hc_content_length ctx - length (hc_body ctx)"
    have short: "length buf < n" "c = ctx\<lparr>hc_body := hc_body ctx @ buf\<rparr>" "r = []"
    proof -
      have "length buf < n"
        using assms True unfolding n_def by (auto simp: http_step_def body_step_def Let_def parse_ok_def context_ok_def split: if_splits)
      then show "length buf < n" "c = ctx\<lparr>hc_body := hc_body ctx @ buf\<rparr>" "r = []"
        using assms True
        by (simp_all add: http_step_def body_step_def Let_def n_def [symmetric] min_absorb1 split: if_splits)
    qed
    have read: "min (length (buf @ later)) n = length buf + min (length later) (n - length buf)"
      using short(1) by simp
    have left: "hc_content_length c - length (hc_body c) = n - length buf"
      by (simp add: short(2) n_def)
    have total: "hc_content_length ctx = length (hc_body ctx) + n"
      using short(1) by (simp add: n_def)
    have "take (min (length (buf @ later)) n) (buf @ later) = buf @ take (min (length later) (n - length buf)) later"
      "drop (min (length (buf @ later)) n) (buf @ later) = drop (min (length later) (n - length buf)) later"
      unfolding read by simp_all
    then have "body_step c later = body_step ctx (buf @ later)"
      unfolding body_step_def n_def [symmetric] left Let_def by (simp add: short(2) del: take_append drop_append length_append)
    moreover have "length (hc_body c) < hc_content_length c"
      using short(1) by (simp add: short(2) n_def)
    moreover have "hc_state c = kBody"
      using True by (simp add: short(2))
    ultimately show ?thesis
      using True short(3) by (simp add: finished_def parse_ok_def context_ok_def body_empty_def http_step_def)
  next
    case False
    then have "c = ctx" "r = buf"
      using assms(1,3) request_line_Wait headers_Wait
      by (cases "hc_state ctx"; fastforce simp: http_step_def finished_def)+
    then show ?thesis
      using assms by simp
  qed
  then show "\<not> finished c" "parse_ok c" "(c = ctx \<and> r = buf) \<or> (r = [] \<and> http_step mb c later = http_step mb ctx (buf @ later) \<and> hc_state c = kBody)"
    by simp_all
qed

text \<open>The fuel is enough: the result is the same for any larger one.\<close>

lemma parse_loop_fuel:
  "parse_ok ctx \<Longrightarrow> length buf \<le> f \<Longrightarrow> length buf \<le> g \<Longrightarrow> parse_loop f mb ctx buf = parse_loop g mb ctx buf"
proof (induction f arbitrary: g ctx buf)
  case 0
  then show ?case by (cases g) simp_all
next
  case (Suc f)
  show ?case
  proof (cases "buf = [] \<or> finished ctx")
    case True
    then show ?thesis by (cases g) auto
  next
    case False
    then obtain h where g: "g = Suc h"
      using Suc.prems(3) by (cases g) auto
    show ?thesis
    proof (cases "http_step mb ctx buf")
      case (More c r)
      then have "parse_loop f mb c r = parse_loop h mb c r"
        using step_More [OF More Suc.prems(1)] False Suc.prems(2,3) g by (intro Suc.IH) auto
      then show ?thesis
        using False by (simp add: g More)
    qed (simp_all add: g)
  qed
qed

lemma parse_buffer_step:
  assumes "parse_ok ctx"
  shows "parse_buffer mb ctx buf =
    (if buf = [] \<or> finished ctx then (ctx, buf, None)
     else case http_step mb ctx buf of
            Wait c b \<Rightarrow> (c, b, None)
          | Fail c b status msg \<Rightarrow> (c, b, Some (status, msg))
          | More c b \<Rightarrow> parse_buffer mb c b)"
proof (cases buf)
  case Nil
  then show ?thesis by (simp add: parse_buffer_def)
next
  case (Cons x xs)
  have "parse_loop (length xs) mb c b = parse_buffer mb c b"
    if "http_step mb ctx buf = More c b" "\<not> finished ctx" for c b
    using step_More(1,2) [OF that(1) assms _ that(2)] Cons parse_loop_fuel [of c b "length xs" "length b" mb]
    by (simp add: parse_buffer_def)
  then show ?thesis
    by (auto simp: parse_buffer_def Cons split: parse_step.splits)
qed

lemma parse_append:
  "parse_ok ctx \<Longrightarrow>
   parse_buffer mb ctx (a @ b) =
     (case parse_buffer mb ctx a of
        (c, r, Some e) \<Rightarrow> (c, r @ b, Some e)
      | (c, r, None) \<Rightarrow> if finished c then (c, r @ b, None) else parse_buffer mb c (r @ b))"
proof (induction a arbitrary: ctx rule: length_induct)
  case (1 a)
  show ?case
  proof (cases "a = [] \<or> finished ctx")
    case True
    then show ?thesis
      using parse_buffer_step [OF 1(2)] by auto
  next
    case False
    then have a: "a \<noteq> []" "\<not> finished ctx" by simp_all
    show ?thesis
    proof (cases "http_step mb ctx a")
      case (More c r)
      note m = step_More [OF More 1(2) a]
      have "parse_buffer mb ctx a = parse_buffer mb c r" "parse_buffer mb ctx (a @ b) = parse_buffer mb c (r @ b)"
        using parse_buffer_step [OF 1(2)] a More m(3) by simp_all
      then show ?thesis
        using 1(1) m(1,2) by simp
    next
      case (Fail c r s msg)
      then show ?thesis
        using parse_buffer_step [OF 1(2)] a step_Fail [OF Fail, of b] by simp
    next
      case (Wait c r)
      have res: "parse_buffer mb ctx a = (c, r, None)"
        using parse_buffer_step [OF 1(2)] a Wait by simp
      show ?thesis
        using step_Wait(3) [OF Wait 1(2) a(2), of b]
      proof
        assume "c = ctx \<and> r = a"
        then show ?thesis using res a(2) by simp
      next
        assume w: "r = [] \<and> http_step mb c b = http_step mb ctx (a @ b) \<and> hc_state c = kBody"
        show ?thesis
        proof (cases "b = []")
          case True
          then show ?thesis
            using res w step_Wait(1,2) [OF Wait 1(2) a(2)] parse_buffer_step [of c mb "[]"] by simp
        next
          case False
          then show ?thesis
            using res w step_Wait(1,2) [OF Wait 1(2) a(2)] parse_buffer_step [of c mb b] parse_buffer_step [OF 1(2), of mb "a @ b"] a
            by simp
        qed
      qed
    qed
  qed
qed

text \<open>The messages of one request: each appends its segment to what was left unread.\<close>

fun receive_segments :: "nat \<Rightarrow> HttpContext \<Rightarrow> string \<Rightarrow> string list \<Rightarrow> HttpContext \<times> string \<times> (int \<times> string) option" where
  "receive_segments max_body ctx buf [] = (ctx, buf, None)"
| "receive_segments max_body ctx buf (seg # segs) =
     (case parse_buffer max_body ctx (buf @ seg) of
        (c, rest, Some e) \<Rightarrow> (c, rest @ concat segs, Some e)
      | (c, rest, None) \<Rightarrow>
          if finished c then (c, rest @ concat segs, None) else receive_segments max_body c rest segs)"

lemma parse_keeps_ok:
  "parse_ok ctx \<Longrightarrow> parse_buffer mb ctx a = (c, r, None) \<Longrightarrow> parse_ok c"
proof (induction a arbitrary: ctx rule: length_induct)
  case (1 a)
  show ?case
  proof (cases "a = [] \<or> finished ctx")
    case True
    then show ?thesis
      using 1(2,3) parse_buffer_step [OF 1(2), of mb a] by simp
  next
    case False
    then have a: "a \<noteq> []" "\<not> finished ctx" by simp_all
    show ?thesis
    proof (cases "http_step mb ctx a")
      case (More c' r')
      then show ?thesis
        using 1(1,3) step_More [OF More 1(2) a] parse_buffer_step [OF 1(2), of mb a] a by auto
    next
      case (Wait c' r')
      then show ?thesis
        using 1(3) step_Wait [OF Wait 1(2) a(2)] parse_buffer_step [OF 1(2), of mb a] a by simp
    next
      case (Fail c' r' s msg)
      then show ?thesis
        using 1(3) parse_buffer_step [OF 1(2), of mb a] a by simp
    qed
  qed
qed

lemma segments_irrelevant:
  assumes "parse_ok ctx" "\<not> finished ctx" "parse_buffer mb ctx buf = (ctx, buf, None)"
  shows "receive_segments mb ctx buf segs = parse_buffer mb ctx (buf @ concat segs)"
  using assms
proof (induction segs arbitrary: ctx buf)
  case Nil
  then show ?case by simp
next
  case (Cons seg segs)
  obtain c r e where p: "parse_buffer mb ctx (buf @ seg) = (c, r, e)"
    by (cases "parse_buffer mb ctx (buf @ seg)") auto
  note app = parse_append [OF Cons.prems(1), of mb "buf @ seg" "concat segs"]
  show ?case
  proof (cases "e = None \<and> \<not> finished c")
    case False
    then show ?thesis
      using app p by (cases e) auto
  next
    case True
    have "parse_buffer mb c r = (c, r, None)"
      using parse_append [OF Cons.prems(1), of mb "buf @ seg" "[]"] p True by simp
    then have "receive_segments mb c r segs = parse_buffer mb c (r @ concat segs)"
      using True p by (intro Cons.IH) (auto intro: parse_keeps_ok [OF Cons.prems(1)])
    then show ?thesis
      using app p True by simp
  qed
qed

lemma segments_fresh: "receive_segments mb fresh_context [] segs = parse_buffer mb fresh_context (concat segs)"
  using segments_irrelevant [OF fresh_ok, of mb "[]" segs] by (simp add: parse_buffer_def)


section \<open>A request is read back\<close>

definition header_text :: "string \<times> string \<Rightarrow> string" where
  "header_text kv = fst kv @ '': '' @ snd kv @ [CR, LF]"

definition length_header :: "string \<Rightarrow> string \<times> string" where
  "length_header body = (''content-length'', nat_digits (length body))"

definition request_text :: "string \<Rightarrow> string \<Rightarrow> (string \<times> string) list \<Rightarrow> string \<Rightarrow> string" where
  "request_text meth path headers body =
     meth @ '' '' @ path @ '' HTTP/1.1'' @ [CR, LF] @ concat (map header_text (headers @ [length_header body])) @ [CR, LF] @ body"

definition token_text :: "string \<Rightarrow> bool" where
  "token_text t \<longleftrightarrow> CHR 0x20 \<notin> set t \<and> CR \<notin> set t"

definition header_ok :: "string \<times> string \<Rightarrow> bool" where
  "header_ok kv \<longleftrightarrow> CHR '':'' \<notin> set (fst kv) \<and> CR \<notin> set (fst kv) \<and> map to_lower (fst kv) = fst kv \<and> CR \<notin> set (snd kv) \<and>
     (snd kv \<noteq> [] \<longrightarrow> hd (snd kv) \<noteq> CHR 0x20 \<and> hd (snd kv) \<noteq> CHR 0x09)"

lemma find_line: "CR \<notin> set line \<Longrightarrow> find_text [CR, LF] (line @ CR # LF # r) = Some (length line)"
  by (induction line) (auto simp: starts_with_def)

lemma line_split:
  "take (length line) (line @ CR # LF # r) = line" "drop (length line + 2) (line @ CR # LF # r) = r"
  by simp_all

lemma take_until:
  "c \<notin> set t \<Longrightarrow> takeWhile (\<lambda>x. x \<noteq> c) (t @ c # r) = t"
  "c \<notin> set t \<Longrightarrow> dropWhile (\<lambda>x. x \<noteq> c) (t @ c # r) = c # r"
  by (induction t) auto

lemma assign_new: "k \<notin> fst ` set al \<Longrightarrow> assign k v al = al @ [(k, v)]"
  by (induction k v al rule: assign.induct) auto

lemma request_line_parsed:
  assumes "token_text meth" "token_text path"
  shows "parse_buffer mb fresh_context (meth @ '' '' @ path @ '' HTTP/1.1'' @ [CR, LF] @ r) =
    parse_buffer mb (fresh_context\<lparr>hc_method := meth, hc_path := path, hc_state := kHeaders\<rparr>) r"
proof -
  let ?line = "meth @ CHR 0x20 # path @ CHR 0x20 # ''HTTP/1.1''"
  have line: "meth @ '' '' @ path @ '' HTTP/1.1'' @ [CR, LF] @ r = ?line @ CR # LF # r"
    by simp
  have "CR \<notin> set ?line"
    using assms by (auto simp: token_text_def)
  note crlf = find_line [OF this, of r]
  have m: "takeWhile (\<lambda>c. c \<noteq> CHR 0x20) ?line = meth"
    "dropWhile (\<lambda>c. c \<noteq> CHR 0x20) ?line = CHR 0x20 # path @ CHR 0x20 # ''HTTP/1.1''"
    using take_until [of "CHR 0x20" meth] assms(1) unfolding token_text_def by blast+
  have p: "takeWhile (\<lambda>c. c \<noteq> CHR 0x20) (path @ CHR 0x20 # ''HTTP/1.1'') = path"
    "dropWhile (\<lambda>c. c \<noteq> CHR 0x20) (path @ CHR 0x20 # ''HTTP/1.1'') = CHR 0x20 # ''HTTP/1.1''"
    using take_until [of "CHR 0x20" path] assms(2) unfolding token_text_def by blast+
  have "request_line_step fresh_context (?line @ CR # LF # r) =
      More (fresh_context\<lparr>hc_method := meth, hc_path := path, hc_state := kHeaders\<rparr>) r"
    unfolding request_line_step_def crlf option.case Let_def line_split m list.sel p by simp
  then have step: "http_step mb fresh_context (?line @ CR # LF # r) =
      More (fresh_context\<lparr>hc_method := meth, hc_path := path, hc_state := kHeaders\<rparr>) r"
    by (simp add: http_step_def fresh_context_def)
  show ?thesis
    unfolding line using parse_buffer_step [OF fresh_ok(1), of mb "?line @ CR # LF # r"] fresh_ok(2)
    by (simp only: step append_is_Nil_conv list.distinct simp_thms if_False parse_step.case)
qed

lemma add_header_line:
  assumes "header_ok (k, v)"
  shows "add_header (k @ '': '' @ v) ctx = ctx\<lparr>hc_headers := assign k v (hc_headers ctx)\<rparr>"
proof -
  have k: "takeWhile (\<lambda>c. c \<noteq> CHR '':'') (k @ CHR '':'' # CHR 0x20 # v) = k"
    "dropWhile (\<lambda>c. c \<noteq> CHR '':'') (k @ CHR '':'' # CHR 0x20 # v) = CHR '':'' # CHR 0x20 # v"
    using take_until [of "CHR '':''" k] assms unfolding header_ok_def fst_conv by blast+
  have v: "dropWhile (\<lambda>c. c = CHR 0x20 \<or> c = CHR 0x09) v = v"
    using assms by (cases v) (auto simp: header_ok_def)
  show ?thesis
    using assms by (simp add: add_header_def k v header_ok_def)
qed

lemma header_parsed:
  assumes "header_ok (k, v)" "hc_state ctx = kHeaders" "parse_ok ctx"
  shows "parse_buffer mb ctx (header_text (k, v) @ r) = parse_buffer mb (ctx\<lparr>hc_headers := assign k v (hc_headers ctx)\<rparr>) r"
proof -
  let ?line = "k @ '': '' @ v"
  have line: "header_text (k, v) @ r = ?line @ CR # LF # r"
    by (simp add: header_text_def)
  have "CR \<notin> set ?line"
    using assms(1) by (auto simp: header_ok_def)
  note crlf = find_line [OF this, of r]
  have "headers_step mb ctx (?line @ CR # LF # r) = More (ctx\<lparr>hc_headers := assign k v (hc_headers ctx)\<rparr>) r"
    unfolding headers_step_def crlf option.case line_split add_header_line [OF assms(1)] by simp
  then have step: "http_step mb ctx (?line @ CR # LF # r) = More (ctx\<lparr>hc_headers := assign k v (hc_headers ctx)\<rparr>) r"
    using assms(2) by (simp add: http_step_def)
  show ?thesis
    unfolding line using parse_buffer_step [OF assms(3), of mb "?line @ CR # LF # r"] assms(2) step
    by (simp add: finished_def)
qed

lemma headers_parsed:
  assumes "\<forall>kv\<in>set hs. header_ok kv" "distinct (map fst hs)" "fst ` set hs \<inter> fst ` set (hc_headers ctx) = {}"
    "hc_state ctx = kHeaders" "parse_ok ctx"
  shows "parse_buffer mb ctx (concat (map header_text hs) @ r) = parse_buffer mb (ctx\<lparr>hc_headers := hc_headers ctx @ hs\<rparr>) r"
  using assms
proof (induction hs arbitrary: ctx)
  case Nil
  then show ?case by simp
next
  case (Cons kv hs)
  obtain k v where kv: "kv = (k, v)" by (cases kv)
  have new: "assign k v (hc_headers ctx) = hc_headers ctx @ [(k, v)]"
    using Cons.prems(3) by (intro assign_new) (auto simp: kv)
  have "parse_buffer mb ctx (header_text kv @ concat (map header_text hs) @ r) =
      parse_buffer mb (ctx\<lparr>hc_headers := hc_headers ctx @ [(k, v)]\<rparr>) (concat (map header_text hs) @ r)"
    using header_parsed [of k v ctx mb] Cons.prems(1,4,5) by (simp add: kv new)
  also have "\<dots> = parse_buffer mb (ctx\<lparr>hc_headers := hc_headers ctx @ kv # hs\<rparr>) r"
    using Cons.prems by (subst Cons.IH) (auto simp: kv parse_ok_def context_ok_def body_empty_def)
  finally show ?case by simp
qed

lemma length_header_ok: "header_ok (length_header body)"
proof -
  obtain c cs where c: "nat_digits (length body) = c # cs" "is_digit c"
    using nat_digits_Cons by blast
  have "\<forall>x\<in>set (nat_digits (length body)). is_digit x"
    using nat_digits_digits by (simp add: list_all_iff)
  then have "CR \<notin> set (nat_digits (length body))"
    by (auto simp: is_digit_def)
  moreover have "c \<noteq> CHR 0x20" "c \<noteq> CHR 0x09"
    using c(2) by (auto simp: is_digit_def)
  moreover have "map to_lower ''content-length'' = ''content-length''" by code_simp
  ultimately show ?thesis
    using c by (simp add: header_ok_def length_header_def)
qed

lemma end_of_headers_parsed:
  assumes "hc_state ctx = kHeaders" "parse_ok ctx" "map_of (hc_headers ctx) ''content-length'' = Some (nat_digits (length body))"
    "length body \<le> mb" "mb < 2 ^ 63"
  shows "parse_buffer mb ctx (CR # LF # body @ later) =
    (ctx\<lparr>hc_content_length := length body, hc_body := body, hc_state := kComplete\<rparr>, later, None)"
proof -
  have "length body < 2 ^ 63"
    using assms(4,5) by linarith
  moreover from this have "int (length body) < 2 ^ 64"
    by simp
  ultimately have n: "content_length_of (hc_headers ctx) = length body"
    using assms(3) by (simp add: content_length_of_def atoll_nat_digits)
  have body0: "hc_body ctx = []"
    using assms(1,2) by (simp add: parse_ok_def body_empty_def)
  let ?c = "ctx\<lparr>hc_content_length := length body, hc_state := (if length body = 0 then kComplete else kBody)\<rparr>"
  have "http_step mb ctx (CR # LF # body @ later) = More ?c (body @ later)"
    using assms(1,3,4) n by (simp add: http_step_def headers_step_def end_of_headers_def find_line [of "[]", simplified] Let_def)
  then have 1: "parse_buffer mb ctx (CR # LF # body @ later) = parse_buffer mb ?c (body @ later)"
    using parse_buffer_step [OF assms(2), of mb "CR # LF # body @ later"] assms(1) by (simp add: finished_def)
  have ok: "parse_ok ?c"
    using body0 by (simp add: parse_ok_def context_ok_def body_empty_def)
  show ?thesis
  proof (cases "body = []")
    case True
    then show ?thesis
      using 1 parse_buffer_step [OF ok, of mb later] body0 by (simp add: finished_def)
  next
    case False
    have "http_step mb ?c (body @ later) = More (ctx\<lparr>hc_content_length := length body, hc_body := body, hc_state := kComplete\<rparr>) later"
      using False body0 by (simp add: http_step_def body_step_def)
    then show ?thesis
      using 1 parse_buffer_step [OF ok, of mb "body @ later"] False body0
        parse_buffer_step [of "ctx\<lparr>hc_content_length := length body, hc_body := body, hc_state := kComplete\<rparr>" mb later]
      by (simp add: finished_def parse_ok_def context_ok_def body_empty_def)
  qed
qed

lemma request_parsed:
  assumes "token_text meth" "token_text path" "\<forall>kv\<in>set headers. header_ok kv" "distinct (map fst headers)"
    "''content-length'' \<notin> fst ` set headers" "length body \<le> mb" "mb < 2 ^ 63"
  shows "parse_buffer mb fresh_context (request_text meth path headers body @ later) =
    (\<lparr>hc_state = kComplete, hc_method = meth, hc_path = path, hc_headers = headers @ [length_header body],
      hc_body = body, hc_content_length = length body\<rparr>, later, None)"
proof -
  let ?all = "headers @ [length_header body]"
  let ?c = "fresh_context\<lparr>hc_method := meth, hc_path := path, hc_state := kHeaders\<rparr>"
  have ok: "parse_ok ?c" "parse_ok (?c\<lparr>hc_headers := ?all\<rparr>)"
    by (simp_all add: fresh_context_def parse_ok_def context_ok_def body_empty_def)
  have none: "map_of headers ''content-length'' = None"
    using assms(5) by (simp add: map_of_eq_None_iff)
  have "parse_buffer mb fresh_context (request_text meth path headers body @ later) =
      parse_buffer mb ?c (concat (map header_text ?all) @ CR # LF # body @ later)"
    using request_line_parsed [OF assms(1,2), of mb "concat (map header_text ?all) @ CR # LF # body @ later"]
    by (simp add: request_text_def)
  also have "\<dots> = parse_buffer mb (?c\<lparr>hc_headers := ?all\<rparr>) (CR # LF # body @ later)"
    using assms(3,4,5) length_header_ok [of body] headers_parsed [of ?all ?c mb "CR # LF # body @ later"] ok
    by (auto simp: length_header_def fresh_context_def)
  also have "\<dots> = (?c\<lparr>hc_headers := ?all, hc_content_length := length body, hc_body := body, hc_state := kComplete\<rparr>, later, None)"
    using none assms(6,7) ok by (subst end_of_headers_parsed) (simp_all add: length_header_def map_add_def)
  finally show ?thesis
    by (simp add: fresh_context_def)
qed

text \<open>
  C28: A request whose method and path hold no space, whose header names are in lower case, distinct
  and free of colons, whose values do not begin with a blank, and whose body fits the limit is read
  back exactly, in whatever segments it arrives: method, path, headers in order, body. The bytes
  after it are left unread.
\<close>

theorem http_request_round_trip:
  assumes "token_text meth" "token_text path" "\<forall>kv\<in>set headers. header_ok kv" "distinct (map fst headers)"
    "''content-length'' \<notin> fst ` set headers" "length body \<le> mb" "mb < 2 ^ 63"
    "concat segs = request_text meth path headers body @ later"
  shows "receive_segments mb fresh_context [] segs =
    (\<lparr>hc_state = kComplete, hc_method = meth, hc_path = path, hc_headers = headers @ [length_header body],
      hc_body = body, hc_content_length = length body\<rparr>, later, None)"
  unfolding segments_fresh assms(8) by (rule request_parsed [OF assms(1-7)])

theorem http_request_round_trip_witness:
  "receive_segments 1000 fresh_context [] [request_text ''POST'' ''/upload'' [(''host'', ''a'')] ''{}'', ''GET'']
     = (\<lparr>hc_state = kComplete, hc_method = ''POST'', hc_path = ''/upload'', hc_headers = [(''host'', ''a''), length_header ''{}''],
      hc_body = ''{}'', hc_content_length = 2\<rparr>, ''GET'', None)"
proof -
  have "header_ok (''host'', ''a'')" by code_simp
  then show ?thesis
    using http_request_round_trip [of "''POST''" "''/upload''" "[(''host'', ''a'')]" "''{}''" 1000
      "[request_text ''POST'' ''/upload'' [(''host'', ''a'')] ''{}'', ''GET'']" "''GET''"]
    by (simp add: token_text_def)
qed

section \<open>The connection limit\<close>

text \<open>
  The server with its open connections: the accepted ones, the refused ones that are still open,
  and how many refused ones were closed. muduo calls the connection callback when a connection
  opens and when it closes, for the refused ones too.
\<close>

record connections =
  cn_server :: http_server
  cn_accepted :: "nat set"
  cn_refused :: "nat set"
  cn_refused_closed :: nat

definition no_connections :: "http_options \<Rightarrow> connections" where
  "no_connections opts =
     \<lparr>cn_server = \<lparr>sv_options = opts, sv_started = True, sv_active_connections = 0, sv_rate_limiters = []\<rparr>,
      cn_accepted = {}, cn_refused = {}, cn_refused_closed = 0\<rparr>"

inductive connection_step :: "connections \<Rightarrow> connections \<Rightarrow> bool" where
  accept: "c \<notin> cn_accepted w \<union> cn_refused w \<Longrightarrow> OnConnection True (cn_server w) None = (sv, Some ctx, es) \<Longrightarrow>
    connection_step w (w\<lparr>cn_server := sv, cn_accepted := insert c (cn_accepted w)\<rparr>)"
| refuse: "c \<notin> cn_accepted w \<union> cn_refused w \<Longrightarrow> OnConnection True (cn_server w) None = (sv, None, es) \<Longrightarrow>
    connection_step w (w\<lparr>cn_server := sv, cn_refused := insert c (cn_refused w)\<rparr>)"
| close_accepted: "c \<in> cn_accepted w \<Longrightarrow> OnConnection False (cn_server w) ctx = (sv, ctx', es) \<Longrightarrow>
    connection_step w (w\<lparr>cn_server := sv, cn_accepted := cn_accepted w - {c}\<rparr>)"
| close_refused: "c \<in> cn_refused w \<Longrightarrow> OnConnection False (cn_server w) None = (sv, ctx', es) \<Longrightarrow>
    connection_step w (w\<lparr>cn_server := sv, cn_refused := cn_refused w - {c}, cn_refused_closed := cn_refused_closed w + 1\<rparr>)"
| message: "OnMessage health ip now us (cn_server w) ctx buf = (sv, ctx', rest, es) \<Longrightarrow>
    connection_step w (w\<lparr>cn_server := sv\<rparr>)"

definition connections_reachable :: "http_options \<Rightarrow> connections \<Rightarrow> bool" where
  "connections_reachable opts w \<longleftrightarrow> connection_step\<^sup>*\<^sup>* (no_connections opts) w"

lemma CheckRateLimit_frame:
  "CheckRateLimit ip now sv = (ok, sv') \<Longrightarrow>
   sv_active_connections sv' = sv_active_connections sv \<and> sv_options sv' = sv_options sv \<and> sv_started sv' = sv_started sv"
  by (auto simp: CheckRateLimit_def Let_def split: prod.splits)

lemma OnMessage_frame:
  assumes "OnMessage health ip now us sv ctx buf = (sv', ctx', rest, es)"
  shows "sv_active_connections sv' = sv_active_connections sv" "sv_options sv' = sv_options sv"
proof -
  have "sv' = sv \<or> (\<exists>ok. CheckRateLimit ip now sv = (ok, sv'))"
    using assms by (auto simp: OnMessage_def split: option.splits prod.splits if_splits HttpState.splits)
  then show "sv_active_connections sv' = sv_active_connections sv" "sv_options sv' = sv_options sv"
    using CheckRateLimit_frame by blast+
qed

definition connections_inv :: "http_options \<Rightarrow> connections \<Rightarrow> bool" where
  "connections_inv opts w \<longleftrightarrow> finite (cn_accepted w) \<and> sv_options (cn_server w) = opts \<and>
     sv_active_connections (cn_server w) = int (card (cn_accepted w)) - int (cn_refused_closed w) \<and>
     int (card (cn_accepted w)) \<le> max 0 (to_int32 (op_max_connections opts)) + int (cn_refused_closed w)"

lemma connection_step_inv: "connection_step w w' \<Longrightarrow> connections_inv opts w \<Longrightarrow> connections_inv opts w'"
proof (induction rule: connection_step.induct)
  case (close_accepted c w ctx sv ctx' es)
  then show ?case
    using card_Diff_singleton [of c "cn_accepted w"] card_gt_0_iff [of "cn_accepted w"]
    by (auto simp: connections_inv_def OnConnection_def of_nat_diff)
next
  case (message health ip now us w ctx buf sv ctx' rest es)
  then show ?case
    using OnMessage_frame [OF message(1)] by (simp add: connections_inv_def)
qed (auto simp: connections_inv_def OnConnection_def split: if_splits)

interpretation server_connections: state_machine connection_step "connections_inv opts" for opts
  by unfold_locales (rule connection_step_inv)

lemma connections_inv_reachable: "connections_reachable opts w \<Longrightarrow> connections_inv opts w"
  unfolding connections_reachable_def
  by (erule server_connections.reachable_keeps) (simp add: connections_inv_def no_connections_def)

text \<open>
  The counter of active connections is the number of accepted open ones less the refused ones
  already closed, because the closing of a refused connection is counted too. The accepted ones
  therefore stay within the limit only up to the number of refused connections closed so far.
\<close>

lemma connection_count_drifts:
  assumes "connections_reachable opts w"
  shows "sv_active_connections (cn_server w) = int (card (cn_accepted w)) - int (cn_refused_closed w) \<and>
     int (card (cn_accepted w)) \<le> max 0 (to_int32 (op_max_connections opts)) + int (cn_refused_closed w)"
  using connections_inv_reachable [OF assms] by (simp add: connections_inv_def)

text \<open>With a limit of one, a refused connection that closes lets a second one in.\<close>

definition one_connection :: http_options where
  "one_connection = \<lparr>op_max_connections = 1, op_max_body_size = 1000, op_max_rate_per_conn = 0\<rparr>"

definition two_accepted :: connections where
  "two_accepted = (no_connections one_connection)
     \<lparr>cn_server := cn_server (no_connections one_connection)\<lparr>sv_active_connections := 1\<rparr>, cn_accepted := {1, 3}, cn_refused := {},
      cn_refused_closed := 1\<rparr>"

lemma two_accepted_reachable: "connections_reachable one_connection two_accepted"
proof -
  let ?w0 = "no_connections one_connection"
  let ?sv = "\<lambda>n. cn_server ?w0\<lparr>sv_active_connections := n\<rparr>"
  let ?w1 = "?w0\<lparr>cn_server := ?sv 1, cn_accepted := {1}\<rparr>"
  let ?w2 = "?w1\<lparr>cn_refused := {2}\<rparr>"
  let ?w3 = "?w1\<lparr>cn_server := ?sv 0, cn_refused := {}, cn_refused_closed := 1\<rparr>"
  note d = OnConnection_def no_connections_def one_connection_def to_int32_def two_accepted_def
  have 1: "connection_step ?w0 ?w1"
    using accept [of 1 ?w0 "?sv 1" fresh_context "[]"] by (simp add: d)
  have 2: "connection_step ?w1 ?w2"
    using refuse [of 2 ?w1 "?sv 1" "[SendErrorResponse 503 ''Service Unavailable'' [], ForceClose]"] by (simp add: d)
  have 3: "connection_step ?w2 ?w3"
    using close_refused [of 2 ?w2 "?sv 0" None "[]"] by (simp add: d)
  have 4: "connection_step ?w3 two_accepted"
    using accept [of 3 ?w3 "?sv 1" fresh_context "[]"] by (simp add: d insert_commute)
  show ?thesis
    unfolding connections_reachable_def using 1 2 3 4 by (meson converse_rtranclp_into_rtranclp rtranclp.rtrancl_refl)
qed

text \<open>A request line that arrives in pieces pays a token for each piece.\<close>

lemma partial_line_costs_a_token:
  assumes "find_text [CR, LF] buf = None" "CheckRateLimit ip now sv = (True, sv')" "buf \<noteq> []"
  shows "OnMessage health ip now us sv (Some fresh_context) buf = (sv', Some fresh_context, buf, [])"
proof -
  have "http_step mb fresh_context buf = Wait fresh_context buf" for mb
    using assms(1) by (simp add: http_step_def request_line_step_def fresh_context_def)
  then have "parse_buffer mb fresh_context buf = (fresh_context, buf, None)" for mb
    using parse_buffer_step [OF fresh_ok(1), of mb buf] fresh_ok(2) assms(3) by simp
  then show ?thesis
    using assms(2) by (simp add: OnMessage_def fresh_context_def)
qed

end
