(* ===== verification/Gateway_Module.thy ===== *)
theory Gateway_Module
  imports Frame_Payload Http_Server Json
begin

text \<open>
  The gateway module of \<^verbatim>\<open>gate/module/http_gateway_module.cpp\<close>: its configuration, the publisher
  adapter, the routes, the callback of the HTTP server with its JSON response, request ids
  (\<^verbatim>\<open>gate/handler/uuid_generator.hpp\<close>) and the default path policy and local uploaders. gflags, the
  clock, the random digits and the module's publish function are arguments.
\<close>

unbundle bit_operations_syntax

section \<open>Request ids\<close>

definition hex_digit :: "nat \<Rightarrow> char" where
  "hex_digit n = (if n < 10 then char_of (48 + n) else char_of (87 + n))"

text \<open>\<^verbatim>\<open>std::hex << std::setw(4) << std::setfill('0')\<close> of a 16-bit number.\<close>

definition hex4 :: "nat \<Rightarrow> string" where
  "hex4 n = map hex_digit [n div 4096 mod 16, n div 256 mod 16, n div 16 mod 16, n mod 16]"

definition GenerateRequestId :: "int \<Rightarrow> nat list \<Rightarrow> u64 \<Rightarrow> string \<times> u64" where
  "GenerateRequestId ms random_digits global_seq =
     (''gw-'' @ int_to_string ms @ ''-'' @ hex4 (unat (global_seq AND 0xFFFF)) @ map hex_digit random_digits, global_seq + 1)"

section \<open>Configuration\<close>

record gateway_flags =
  fl_listen_addr :: string
  fl_port :: int
  fl_max_connections :: int
  fl_max_body_size :: int
  fl_max_rate :: rat
  fl_qps_limit :: rat
  fl_io_threads :: int
  fl_timeout_ms :: int
  fl_oss_retry :: int

record GatewayConfig =
  gc_listen_addr :: string
  gc_port :: int
  gc_max_connections :: int
  gc_max_body_size :: int
  gc_max_rate_per_conn :: rat
  gc_qps_limit :: rat
  gc_io_thread_count :: int
  gc_oss_retry_count :: int
  gc_timeout_ms :: int

definition ParseConfig :: "gateway_flags \<Rightarrow> GatewayConfig" where
  "ParseConfig fl =
     \<lparr>gc_listen_addr = fl_listen_addr fl,
      gc_port = (if fl_port fl \<le> 0 \<or> fl_port fl > 65535 then 8080 else fl_port fl),
      gc_max_connections = (if fl_max_connections fl \<le> 0 then 10000 else fl_max_connections fl),
      gc_max_body_size = fl_max_body_size fl,
      gc_max_rate_per_conn = (if fl_max_rate fl \<le> 0 then 10000 else fl_max_rate fl),
      gc_qps_limit = (if fl_qps_limit fl \<le> 0 then 10000 else fl_qps_limit fl),
      gc_io_thread_count = (if fl_io_threads fl < 0 then 4 else fl_io_threads fl),
      gc_oss_retry_count = (if fl_oss_retry fl < 0 then 3 else fl_oss_retry fl),
      gc_timeout_ms = (if fl_timeout_ms fl \<le> 0 then 5000 else fl_timeout_ms fl)\<rparr>"

text \<open>The server's options; the casts to \<^verbatim>\<open>size_t\<close> wrap.\<close>

definition size_of_int :: "int \<Rightarrow> nat" where
  "size_of_int i = nat (i mod 2 ^ 64)"

definition http_options_of :: "GatewayConfig \<Rightarrow> http_options" where
  "http_options_of cfg =
     \<lparr>op_max_connections = size_of_int (gc_max_connections cfg), op_max_body_size = size_of_int (gc_max_body_size cfg),
      op_max_rate_per_conn = gc_max_rate_per_conn cfg\<rparr>"

section \<open>Publisher, path policy, local uploaders\<close>

text \<open>The adapter: the module's publish function answers a sequence number or a status message.\<close>

definition adapter_Publish :: "(string \<Rightarrow> string \<Rightarrow> 'w \<Rightarrow> (string + u64) \<times> 'w) \<Rightarrow> string \<Rightarrow> string \<Rightarrow> 'w \<Rightarrow> ShmPublishResult \<times> 'w" where
  "adapter_Publish publish_fn channel_name payload w =
     (case publish_fn channel_name payload w of
        (Inr seq, w1) \<Rightarrow> (\<lparr>sp_success = True, sp_error_message = [], sp_image_id = []\<rparr>, w1)
      | (Inl message, w1) \<Rightarrow> (\<lparr>sp_success = False, sp_error_message = message, sp_image_id = []\<rparr>, w1))"

definition GeneratePath :: "string \<Rightarrow> (string \<times> string) list \<Rightarrow> string" where
  "GeneratePath today metadata =
     (let node_id = (case map_of metadata ''node_id'' of Some n \<Rightarrow> n | None \<Rightarrow> ''unknown_node'');
          request_or_unknown = (case map_of metadata ''request_id'' of Some r \<Rightarrow> if r \<noteq> [] then r else ''unknown_image'' | None \<Rightarrow> ''unknown_image'');
          image_id = (case map_of metadata ''image_id'' of Some i \<Rightarrow> if i \<noteq> [] then i else request_or_unknown | None \<Rightarrow> request_or_unknown);
          filename = (case map_of metadata ''image_filename'' of Some f \<Rightarrow> if f \<noteq> [] then f else image_id @ ''.jpg'' | None \<Rightarrow> image_id @ ''.jpg'')
      in ''images/'' @ node_id @ ''/'' @ today @ ''/'' @ filename)"

record UploadResult =
  ur_success :: bool
  ur_error_code :: string
  ur_error_message :: string
  ur_object_key :: string

definition initial_upload :: UploadResult where
  "initial_upload = \<lparr>ur_success = False, ur_error_code = [], ur_error_message = [], ur_object_key = []\<rparr>"

definition request_id_of :: "(string \<times> string) list \<Rightarrow> string" where
  "request_id_of metadata = (case map_of metadata ''request_id'' of Some r \<Rightarrow> r | None \<Rightarrow> ''unknown'')"

text \<open>What the callback gets; the file system answers whether the file opened and the write went well.\<close>

definition local_UploadAsync :: "string \<Rightarrow> (string \<Rightarrow> bool) \<Rightarrow> (string \<Rightarrow> string \<Rightarrow> bool) \<Rightarrow> string \<Rightarrow> (string \<times> string) list \<Rightarrow> UploadResult" where
  "local_UploadAsync output_dir opens writes image_data metadata =
     (let key = request_id_of metadata @ ''.jpg''; path = output_dir @ ''/'' @ key; r = initial_upload\<lparr>ur_object_key := key\<rparr> in
      if \<not> opens path
      then r\<lparr>ur_error_code := ''IO_ERROR'', ur_error_message := ''Failed to open file for writing: '' @ path\<rparr>
      else if \<not> writes path image_data
      then r\<lparr>ur_error_code := ''IO_ERROR'', ur_error_message := ''Failed to write image data to: '' @ path\<rparr>
      else r\<lparr>ur_success := True\<rparr>)"

definition noop_UploadAsync :: "(string \<times> string) list \<Rightarrow> UploadResult" where
  "noop_UploadAsync metadata = initial_upload\<lparr>ur_success := True, ur_object_key := ''noop/'' @ request_id_of metadata\<rparr>"

section \<open>The module\<close>

record 'w gateway =
  gw_ingest :: "'w ingest"
  gw_counter :: u64
  gw_metrics :: metrics_recorder
  gw_seq :: u64

text \<open>A handler over its own part of the module's state.\<close>

definition on_ingest :: "(RequestView \<Rightarrow> 'w ingest \<Rightarrow> HandlerResult \<times> RequestView \<times> 'w ingest) \<Rightarrow>
    RequestView \<Rightarrow> 'w gateway \<Rightarrow> HandlerResult \<times> RequestView \<times> 'w gateway" where
  "on_ingest h view g = (case h view (gw_ingest g) of (r, view1, s) \<Rightarrow> (r, view1, g\<lparr>gw_ingest := s\<rparr>))"

definition on_counter :: "(RequestView \<Rightarrow> u64 \<Rightarrow> HandlerResult \<times> RequestView \<times> u64) \<Rightarrow>
    RequestView \<Rightarrow> 'w gateway \<Rightarrow> HandlerResult \<times> RequestView \<times> 'w gateway" where
  "on_counter h view g = (case h view (gw_counter g) of (r, view1, c) \<Rightarrow> (r, view1, g\<lparr>gw_counter := c\<rparr>))"

definition gateway_router :: "'w collaborators \<Rightarrow> int \<Rightarrow> 'w gateway RouterDispatcher" where
  "gateway_router co now_ms =
     SetFallback (\<lambda>view g. (MakeNotFoundResult (rv_request_id view), view, g))
       (RegisterRoute ''POST'' ''/api/v1/counter'' (on_counter (Handle counter_handler))
         (RegisterRoute ''GET'' ''/api/v1/counter'' (on_counter (Handle counter_handler))
           (RegisterRoute ''POST'' ''/api/v1/frames/upload'' (on_ingest (Handle (ingest_handler co now_ms)))
             \<lparr>rd_routes = [], rd_fallback = None\<rparr>)))"

definition CreateFrameHandler ::
  "(ImageFrameIngress \<Rightarrow> string) \<Rightarrow> (string \<Rightarrow> string \<Rightarrow> 'w \<Rightarrow> (string + u64) \<times> 'w) \<Rightarrow> string \<Rightarrow> 'w collaborators" where
  "CreateFrameHandler serialize publish_fn today =
     \<lparr>co_max_field_length = 256, co_build = BuildPayload serialize, co_publish = adapter_Publish publish_fn, co_path_policy = Some (GeneratePath today)\<rparr>"

definition gateway_DoInit :: "GatewayConfig \<Rightarrow> int \<Rightarrow> 'w \<Rightarrow> 'w gateway" where
  "gateway_DoInit cfg now_ms w =
     \<lparr>gw_ingest = \<lparr>ig_limiter = new_rate_limiter (gc_qps_limit cfg) (gc_qps_limit cfg) now_ms, ig_metrics = new_recorder,
        ig_world = w, ig_uploads = []\<rparr>,
      gw_counter = 0, gw_metrics = new_recorder, gw_seq = 0\<rparr>"

definition json_response :: "HandlerResult \<Rightarrow> string" where
  "json_response r =
     (let field = (\<lambda>k v. json_key k @ [quote_char] @ v @ [quote_char]) in
      if hr_status r = 200
      then ''{'' @ field ''request_id'' (hr_request_id r) @ '','' @ field ''image_id'' (hr_resource_id r) @ '','' @ field ''message'' ''ok'' @ ''}''
      else ''{'' @ field ''request_id'' (hr_request_id r) @ '','' @ field ''error'' (int_to_string (hr_status r)) @ '','' @
           field ''message'' (hr_error r) @ ''}'')"

text \<open>The callback of the HTTP server: status, body and status text of the response, and the new state.\<close>

definition on_request :: "'w collaborators \<Rightarrow> int \<Rightarrow> int \<Rightarrow> nat list \<Rightarrow> RequestView \<Rightarrow> 'w gateway \<Rightarrow> (int \<times> string \<times> string) \<times> 'w gateway" where
  "on_request co now_ms system_ms random_digits view g =
     (let (view1, g1) =
        (if rv_request_id view = []
         then (case GenerateRequestId system_ms random_digits (gw_seq g) of (i, q) \<Rightarrow> (view\<lparr>rv_request_id := i\<rparr>, g\<lparr>gw_seq := q\<rparr>))
         else (view, g))
      in case Dispatch (gateway_router co now_ms) view1 g1 of
           (r, view2, g2) \<Rightarrow>
             ((hr_status r, json_response r, if hr_status r = 200 then ''OK'' else ''Error''),
              g2\<lparr>gw_metrics := RecordRequest (no_metrics\<lparr>rm_request_id := hr_request_id r, rm_status := hr_status r,
                   rm_shm_publish_success := hr_success r, rm_oss_result := if hr_success r then ''enqueued'' else ''skipped''\<rparr>) (gw_metrics g2)\<rparr>))"

definition health_metrics :: "'w gateway \<Rightarrow> HealthMetrics" where
  "health_metrics g =
     \<lparr>hm_total_requests = mr_total (gw_metrics g), hm_success_count = mr_success (gw_metrics g),
      hm_failure_count = mr_failed (gw_metrics g), hm_avg_latency_ms = AvgLatencyMs (gw_metrics g), hm_p99_latency_ms = 0,
      hm_shm_rejected_count = 0, hm_oss_failure_count = 0, hm_oss_retry_count = 0\<rparr>"

section \<open>Request ids repeat\<close>

lemma hex_digit_inject: "m < 16 \<Longrightarrow> n < 16 \<Longrightarrow> hex_digit m = hex_digit n \<longleftrightarrow> m = n"
  by (auto simp: hex_digit_def char_of_eq_iff take_bit_eq_mod split: if_splits)

lemma hex_digits_inject:
  "list_all (\<lambda>d. d < 16) xs \<Longrightarrow> list_all (\<lambda>d. d < 16) ys \<Longrightarrow> map hex_digit xs = map hex_digit ys \<longleftrightarrow> xs = ys"
proof (induction xs arbitrary: ys)
  case (Cons x xs)
  then show ?case by (cases ys) (auto simp: hex_digit_inject)
qed auto

lemma four_hex_digits:
  assumes "n < (65536 :: nat)"
  shows "n = ((n div 4096 mod 16 * 16 + n div 256 mod 16) * 16 + n div 16 mod 16) * 16 + n mod 16"
proof -
  have "n div 4096 < 16"
    using assms by (simp add: less_mult_imp_div_less)
  then have "n div 4096 mod 16 = n div 16 div 16 div 16" "n div 256 = n div 16 div 16"
    by (simp_all flip: div_mult2_eq)
  then show ?thesis
    using div_mult_mod_eq [of n 16] div_mult_mod_eq [of "n div 16" 16] div_mult_mod_eq [of "n div 16 div 16" 16] by simp
qed

lemma hex4_inject: "m < 65536 \<Longrightarrow> n < 65536 \<Longrightarrow> hex4 m = hex4 n \<longleftrightarrow> m = n"
  unfolding hex4_def by (subst hex_digits_inject) (simp_all, metis four_hex_digits)

lemma digits_dash_inject:
  assumes "nat_digits m @ CHR ''-'' # x = nat_digits n @ CHR ''-'' # y"
  shows "m = n \<and> x = y"
proof -
  have d: "CHR ''-'' \<notin> set (nat_digits k)" for k
    using nat_digits_digits [of k] by (auto simp: list_all_iff is_digit_def)
  have "takeWhile (\<lambda>c. c \<noteq> CHR ''-'') (nat_digits m @ CHR ''-'' # x) =
      takeWhile (\<lambda>c. c \<noteq> CHR ''-'') (nat_digits n @ CHR ''-'' # y)"
    by (simp only: assms)
  then have "nat_digits m = nat_digits n"
    by (simp only: take_until(1) [OF d])
  then show ?thesis
    using assms by (simp add: nat_digits_inject)
qed

lemma digits_dash_iff:
  "nat_digits m @ CHR ''-'' # x = nat_digits n @ CHR ''-'' # y \<longleftrightarrow> m = n \<and> x = y"
  by (intro iffI digits_dash_inject) simp_all

lemma low_16_bits: "unat (w AND 0xFFFF :: u64) = unat w mod 65536"
proof -
  have "w AND 0xFFFF = take_bit 16 w"
    by (simp add: take_bit_eq_mask mask_eq_exp_minus_1)
  then show ?thesis
    by (simp only: unsigned_take_bit_eq) (simp add: take_bit_eq_mod)
qed

text \<open>
  Two request ids are equal exactly where they were made in the same millisecond, with the same
  random digits, and the sequence numbers agree modulo 65536: the sequence number in the id is cut
  to 16 bits, so it does not tell all requests of a process apart.
\<close>

lemma request_ids_equal:
  assumes "0 \<le> ms" "0 \<le> ms'" "list_all (\<lambda>d. d < 16) ds" "list_all (\<lambda>d. d < 16) ds'"
  shows "fst (GenerateRequestId ms ds s) = fst (GenerateRequestId ms' ds' s') \<longleftrightarrow>
     ms = ms' \<and> ds = ds' \<and> unat s mod 65536 = unat s' mod 65536"
proof -
  have len: "length (hex4 n) = 4" for n
    by (simp add: hex4_def)
  have int_text: "int_to_string i = nat_digits (nat i)" if "0 \<le> i" for i
    using that by (simp add: int_to_string_def)
  have "fst (GenerateRequestId ms ds s) = fst (GenerateRequestId ms' ds' s') \<longleftrightarrow>
      nat_digits (nat ms) @ CHR ''-'' # hex4 (unat s mod 65536) @ map hex_digit ds =
      nat_digits (nat ms') @ CHR ''-'' # hex4 (unat s' mod 65536) @ map hex_digit ds'"
    unfolding GenerateRequestId_def fst_conv low_16_bits by (simp only: int_text assms same_append_eq append.simps list.inject simp_thms)
  also have "\<dots> \<longleftrightarrow> nat ms = nat ms' \<and> hex4 (unat s mod 65536) @ map hex_digit ds = hex4 (unat s' mod 65536) @ map hex_digit ds'"
    by (rule digits_dash_iff)
  also have "\<dots> \<longleftrightarrow> nat ms = nat ms' \<and> unat s mod 65536 = unat s' mod 65536 \<and> ds = ds'"
    by (subst append_eq_append_conv) (simp_all add: len hex4_inject hex_digits_inject [OF assms(3,4)])
  finally show ?thesis
    using assms(1,2) by auto
qed

section \<open>Responses are JSON\<close>

definition plain_text :: "string \<Rightarrow> bool" where
  "plain_text s \<longleftrightarrow> quote_char \<notin> set s \<and> backslash \<notin> set s"

lemma escaped_plain: "plain_text s \<Longrightarrow> escaped s = s @ [quote_char]"
  by (induction s) (auto simp: plain_text_def)

lemma plain_int: "plain_text (int_to_string i)"
proof -
  have "\<not> is_digit quote_char" "\<not> is_digit backslash"
    by (simp_all add: is_digit_def)
  then have "plain_text (nat_digits n)" for n
    using nat_digits_digits [of n] by (auto simp: plain_text_def list_all_iff)
  then show ?thesis
    by (simp add: int_to_string_def plain_text_def)
qed

definition response_value :: "HandlerResult \<Rightarrow> json" where
  "response_value r =
     (if hr_status r = 200
      then JObject [(''request_id'', JString (hr_request_id r)), (''image_id'', JString (hr_resource_id r)), (''message'', JString ''ok'')]
      else JObject [(''request_id'', JString (hr_request_id r)), (''error'', JString (int_to_string (hr_status r))),
             (''message'', JString (hr_error r))])"

lemma json_response_text:
  assumes "plain_text (hr_request_id r)" "plain_text (hr_resource_id r)" "plain_text (hr_error r)"
  shows "json_response r = json_text (response_value r)"
proof -
  have names: "plain_text ''request_id''" "plain_text ''image_id''" "plain_text ''message''" "plain_text ''error''" "plain_text ''ok''"
    by code_simp+
  show ?thesis
    using assms by (simp add: json_response_def response_value_def json_key_def escaped_plain names plain_int)
qed

text \<open>
  The body of every response is a JSON text that both parsers of the repository read back as
  its fields, as long as the id and the message hold no quote and no backslash.
\<close>

lemma response_is_json:
  assumes "plain_text (hr_request_id r)" "plain_text (hr_resource_id r)" "plain_text (hr_error r)"
  shows "JParser_ParseDocument (json_response r) = Inr (response_value r) \<and>
    JsonParser_ParseDocument (json_response r) = Inr (response_value r)"
proof -
  have "json_wf (response_value r)" "json_exact (response_value r)"
    by (simp_all add: response_value_def)
  then show ?thesis
    unfolding json_response_text [OF assms]
    using ParseDocument_text by (simp add: JsonParser_ParseDocument_def JParser_ParseDocument_def)
qed

section \<open>What the module counts\<close>

fun serve_all :: "'w collaborators \<Rightarrow> (int \<times> int \<times> nat list \<times> RequestView) list \<Rightarrow> 'w gateway \<Rightarrow> int list \<times> 'w gateway" where
  "serve_all co [] g = ([], g)"
| "serve_all co ((now_ms, system_ms, ds, view) # rs) g =
     (case on_request co now_ms system_ms ds view g of
        ((status, body, msg), g1) \<Rightarrow> (case serve_all co rs g1 of (ss, g2) \<Rightarrow> (status # ss, g2)))"

lemma ingest_status_value: "hr_status (fst (Handle (ingest_handler co now_ms) view s)) = ingest_status co now_ms view s"
  using ingest_outcome [of co now_ms view s] by (auto split: prod.splits)

lemma status_ranges: "ingest_status co now_ms view s \<in> {200, 415, 422, 429, 503}"
  by (simp add: ingest_status_def)

lemma counter_result:
  "Handle counter_handler view n =
     (initial_handler_result\<lparr>hr_success := True, hr_status := 200, hr_request_id := nat_digits (unat (n + 1)),
        hr_resource_id := nat_digits (unat (n + 1))\<rparr>, view, n + 1)"
  by (simp add: Handle_def counter_handler_def initial_parse_def initial_process_def Let_def)

lemma dispatch_gateway:
  "case Dispatch (gateway_router co now_ms) view g of (r, view', g') \<Rightarrow>
     gw_metrics g' = gw_metrics g \<and> (200 \<le> hr_status r \<and> hr_status r < 300) = (hr_status r = 200)"
proof -
  have "(case on_ingest (Handle (ingest_handler co now_ms)) view g of (r, view', g') \<Rightarrow>
     gw_metrics g' = gw_metrics g \<and> (200 \<le> hr_status r \<and> hr_status r < 300) = (hr_status r = 200))"
    using ingest_status_value [of co now_ms view "gw_ingest g"] status_ranges [of co now_ms view "gw_ingest g"]
    by (auto simp: on_ingest_def split: prod.splits)
  moreover have "(case on_counter (Handle counter_handler) view g of (r, view', g') \<Rightarrow>
     gw_metrics g' = gw_metrics g \<and> (200 \<le> hr_status r \<and> hr_status r < 300) = (hr_status r = 200))"
    by (simp add: on_counter_def counter_result initial_handler_result_def)
  ultimately show ?thesis
    by (simp add: Dispatch_def gateway_router_def RegisterRoute_def SetFallback_def MakeNotFoundResult_def initial_handler_result_def)
qed

lemma on_request_counts:
  "case on_request co now_ms system_ms ds view g of ((status, body, msg), g') \<Rightarrow>
     mr_total (gw_metrics g') = mr_total (gw_metrics g) + 1 \<and>
     mr_success (gw_metrics g') = mr_success (gw_metrics g) + of_bool (status = 200) \<and>
     mr_failed (gw_metrics g') = mr_failed (gw_metrics g) + of_bool (status \<noteq> 200) \<and>
     mr_latency_ms (gw_metrics g') = mr_latency_ms (gw_metrics g)"
proof -
  obtain view1 g1 where g1: "(if rv_request_id view = []
         then (case GenerateRequestId system_ms ds (gw_seq g) of (i, q) \<Rightarrow> (view\<lparr>rv_request_id := i\<rparr>, g\<lparr>gw_seq := q\<rparr>))
         else (view, g)) = (view1, g1)" "gw_metrics g1 = gw_metrics g"
    by (cases "GenerateRequestId system_ms ds (gw_seq g)") (cases "rv_request_id view = []"; simp)
  obtain r view2 g2 where d: "Dispatch (gateway_router co now_ms) view1 g1 = (r, view2, g2)"
    by (cases "Dispatch (gateway_router co now_ms) view1 g1") auto
  have "gw_metrics g2 = gw_metrics g" "(200 \<le> hr_status r \<and> hr_status r < 300) = (hr_status r = 200)"
    using dispatch_gateway [where co = co and now_ms = now_ms and view = view1 and g = g1] d g1(2) by simp_all
  then show ?thesis
    unfolding on_request_def g1(1) Let_def prod.case d by simp
qed

lemma serve_all_counts:
  "case serve_all co rs g of (statuses, g') \<Rightarrow>
     length statuses = length rs \<and>
     mr_total (gw_metrics g') = mr_total (gw_metrics g) + of_nat (length statuses) \<and>
     mr_success (gw_metrics g') = mr_success (gw_metrics g) + of_nat (length (filter (\<lambda>s. s = 200) statuses)) \<and>
     mr_failed (gw_metrics g') = mr_failed (gw_metrics g) + of_nat (length (filter (\<lambda>s. s \<noteq> 200) statuses)) \<and>
     mr_latency_ms (gw_metrics g') = mr_latency_ms (gw_metrics g)"
proof (induction rs arbitrary: g)
  case (Cons q rs)
  obtain now_ms system_ms ds view where q: "q = (now_ms, system_ms, ds, view)" by (cases q)
  obtain status body msg g1 where r: "on_request co now_ms system_ms ds view g = ((status, body, msg), g1)"
    by (cases "on_request co now_ms system_ms ds view g") auto
  obtain ss g2 where s: "serve_all co rs g1 = (ss, g2)" by (cases "serve_all co rs g1")
  show ?case
    using Cons.IH [of g1] on_request_counts [where co = co and now_ms = now_ms and system_ms = system_ms and ds = ds and view = view and g = g] by (simp add: q r s)
qed simp

text \<open>
  Counting: after any requests to a new module its metrics hold the number of requests, of
  those answered 200 and of the others (modulo 2^64), and the average latency it reports is 0,
  because no latency is ever recorded.
\<close>

lemma gateway_counts:
  "case serve_all co rs (gateway_DoInit cfg start_ms w) of (statuses, g) \<Rightarrow>
     length statuses = length rs \<and> hm_total_requests (health_metrics g) = of_nat (length rs) \<and>
     hm_success_count (health_metrics g) = of_nat (length (filter (\<lambda>s. s = 200) statuses)) \<and>
     hm_failure_count (health_metrics g) = of_nat (length (filter (\<lambda>s. s \<noteq> 200) statuses)) \<and>
     hm_avg_latency_ms (health_metrics g) = 0"
  using serve_all_counts [where co = co and rs = rs and g = "gateway_DoInit cfg start_ms w"]
  by (auto simp: health_metrics_def AvgLatencyMs_def gateway_DoInit_def new_recorder_def)

text \<open>A negative body size from the flags is not corrected: as \<^verbatim>\<open>size_t\<close> it is almost 2^64.\<close>

lemma negative_body_limit:
  "op_max_body_size (http_options_of (ParseConfig (fl\<lparr>fl_max_body_size := -1\<rparr>))) = 2 ^ 64 - 1"
  by (simp add: http_options_of_def ParseConfig_def size_of_int_def)

text \<open>The file name is never set, so the key of every upload ends in \<open>.jpg\<close>, whatever the format.\<close>

lemma upload_key_is_jpg:
  assumes "rv_request_id view \<noteq> []"
  shows "map_of (snd (upload_of (CreateFrameHandler serialize publish_fn today) view)) ''object_key'' =
    Some (''images/'' @ fc_node_id (frame_of view) @ ''/'' @ today @ ''/'' @ rv_request_id view @ ''.jpg'')"
  using assms by (simp add: upload_of_def oss_metadata_def CreateFrameHandler_def initial_process_def GeneratePath_def frame_of_def
      empty_frame_def Let_def)

end
