(* ===== verification/Oss_Client.thy ===== *)
theory Oss_Client
  imports Gateway_Module
begin

text \<open>
  The object-storage uploader of \<^verbatim>\<open>gate/oss/oss_client.cpp\<close>: its options, the retry loop of
  \<^verbatim>\<open>UploadAsync\<close> and the parts of \<^verbatim>\<open>UploadMultipartAsync\<close>. The SDK client is an argument: what each
  call answers. A task returns the result the callback gets and the calls it made, in order.
\<close>

unbundle bit_operations_syntax

section \<open>Options\<close>

record oss_options =
  oo_access_key_id :: string
  oo_access_key_secret :: string
  oo_endpoint :: string
  oo_bucket :: string
  oo_max_retries :: int
  oo_base_backoff_ms :: int

definition get_env :: "(string \<Rightarrow> string option) \<Rightarrow> string \<Rightarrow> string \<Rightarrow> string" where
  "get_env getenv key default_val = (case getenv key of Some v \<Rightarrow> v | None \<Rightarrow> default_val)"

definition FromEnv :: "(string \<Rightarrow> string option) \<Rightarrow> oss_options" where
  "FromEnv getenv =
     (let retries = atoi (get_env getenv ''MOULD_OSS_MAX_RETRIES'' ''3'');
          backoff = atoi (get_env getenv ''MOULD_OSS_BASE_BACKOFF_MS'' ''1000'')
      in \<lparr>oo_access_key_id = get_env getenv ''MOULD_OSS_ACCESS_KEY_ID'' [],
          oo_access_key_secret = get_env getenv ''MOULD_OSS_ACCESS_KEY_SECRET'' [],
          oo_endpoint = get_env getenv ''MOULD_OSS_ENDPOINT'' [], oo_bucket = get_env getenv ''MOULD_OSS_BUCKET'' [],
          oo_max_retries = (if retries < 0 then 0 else retries),
          oo_base_backoff_ms = (if backoff \<le> 0 then 1000 else backoff)\<rparr>)"

definition IsRetryable :: "string \<Rightarrow> bool" where
  "IsRetryable error_code \<longleftrightarrow> error_code \<in>
     {''RequestTimeout'', ''SlowDown'', ''ServiceUnavailable'', ''InternalError'', ''SocketException'', ''ConnectionTimeout'',
      ''OperationTimeoutTime''}"

section \<open>The retry loop\<close>

text \<open>An SDK error is its code and message.\<close>

datatype oss_error = OssError string string

datatype oss_call =
    Sleep "int option"
  | PutObject string string
  | InitiateMultipart string
  | UploadPart nat string string
  | AbortMultipart string
  | CompleteMultipart "(nat \<times> string) list" string

text \<open>
  \<^verbatim>\<open>base_backoff * (1 << k)\<close> with a 32-bit \<^verbatim>\<open>1\<close>: undefined (\<open>None\<close>) from 32 on, and negative at 31.
\<close>

definition backoff_ms :: "int \<Rightarrow> nat \<Rightarrow> int option" where
  "backoff_ms base k = (if k < 32 then Some (base * sint (push_bit k 1 :: 32 word)) else None)"

definition upload_failed :: "oss_error \<Rightarrow> UploadResult \<Rightarrow> UploadResult" where
  "upload_failed e r = (case e of OssError code message \<Rightarrow> r\<lparr>ur_error_code := code, ur_error_message := message\<rparr>)"

definition upload_succeeded :: "string \<Rightarrow> UploadResult \<Rightarrow> UploadResult" where
  "upload_succeeded key r = r\<lparr>ur_success := True, ur_object_key := key, ur_error_code := [], ur_error_message := []\<rparr>"

fun error_retryable :: "oss_error \<Rightarrow> bool" where
  "error_retryable (OssError code message) = IsRetryable code"

text \<open>\<open>put k\<close> is the answer to the call of attempt \<open>k\<close>, counted from 0: an error, or \<open>None\<close> for success.\<close>

function put_loop :: "(nat \<Rightarrow> oss_error option) \<Rightarrow> string \<Rightarrow> string \<Rightarrow> int \<Rightarrow> int \<Rightarrow> nat \<Rightarrow> UploadResult \<Rightarrow> oss_call list \<Rightarrow>
    UploadResult \<times> oss_call list" where
  "put_loop put key data base max_retries attempt result trace =
     (if int attempt \<le> max_retries
      then
        (let trace1 = trace @ (if attempt > 0 then [Sleep (backoff_ms base (attempt - 1))] else []) @ [PutObject key data] in
         case put attempt of
           None \<Rightarrow> (upload_succeeded key result, trace1)
         | Some e \<Rightarrow>
             (let result1 = upload_failed e result in
              if \<not> error_retryable e then (result1, trace1)
              else if int (attempt + 1) > max_retries then (result1, trace1)
              else put_loop put key data base max_retries (attempt + 1) result1 trace1))
      else (result, trace))"
  by pat_completeness auto
termination by (relation "measure (\<lambda>(put, key, data, base, m, attempt, r, c). nat (m + 1 - int attempt))") auto

declare put_loop.simps [simp del]

definition object_key_of :: "(string \<times> string) list \<Rightarrow> string" where
  "object_key_of metadata =
     (case map_of metadata ''object_key'' of Some k \<Rightarrow> k | None \<Rightarrow> request_id_of metadata @ ''.jpg'')"

definition no_client :: UploadResult where
  "no_client = initial_upload\<lparr>ur_error_code := ''CLIENT_ERROR'', ur_error_message := ''OSS client not initialized''\<rparr>"

definition UploadAsync_task ::
  "oss_options \<Rightarrow> bool \<Rightarrow> (nat \<Rightarrow> oss_error option) \<Rightarrow> string \<Rightarrow> (string \<times> string) list \<Rightarrow> UploadResult \<times> oss_call list" where
  "UploadAsync_task opts has_client put image_data metadata =
     (if \<not> has_client then (no_client, [])
      else put_loop put (object_key_of metadata) image_data (oo_base_backoff_ms opts) (oo_max_retries opts) 0 initial_upload [])"

section \<open>Uploading in parts\<close>

fun upload_parts :: "(nat \<Rightarrow> oss_error + string) \<Rightarrow> string \<Rightarrow> nat \<Rightarrow> string \<Rightarrow> nat list \<Rightarrow> (nat \<times> string) list \<Rightarrow> oss_call list \<Rightarrow>
    (oss_error + (nat \<times> string) list) \<times> oss_call list" where
  "upload_parts up upload_id part_size data [] parts trace = (Inr parts, trace)"
| "upload_parts up upload_id part_size data (i # is) parts trace =
     (let offset = i * part_size;
          this_part_size = min part_size (length data - offset);
          trace1 = trace @ [UploadPart (i + 1) upload_id (take this_part_size (drop offset data))]
      in case up i of
           Inl e \<Rightarrow> (Inl e, trace1 @ [AbortMultipart upload_id])
         | Inr etag \<Rightarrow> upload_parts up upload_id part_size data is (parts @ [(i + 1, etag)]) trace1)"

definition real_part_size :: "int \<Rightarrow> nat" where
  "real_part_size part_size = nat (if part_size \<le> 0 then 1024 * 1024 else part_size)"

definition part_count :: "nat \<Rightarrow> nat \<Rightarrow> int" where
  "part_count data_size n = to_int32 ((data_size + n - 1) div n)"

definition UploadMultipart_task ::
  "bool \<Rightarrow> oss_error + string \<Rightarrow> (nat \<Rightarrow> oss_error + string) \<Rightarrow> oss_error option \<Rightarrow> string \<Rightarrow> (string \<times> string) list \<Rightarrow> int \<Rightarrow>
   UploadResult \<times> oss_call list" where
  "UploadMultipart_task has_client init up finish image_data metadata part_size =
     (if \<not> has_client then (no_client, [])
      else
        (let key = object_key_of metadata in
         case init of
           Inl e \<Rightarrow> (upload_failed e initial_upload, [InitiateMultipart key])
         | Inr upload_id \<Rightarrow>
             (let psize = real_part_size part_size in
              case upload_parts up upload_id psize image_data [0..<nat (part_count (length image_data) psize)] [] [InitiateMultipart key] of
                (Inl e, trace) \<Rightarrow> (upload_failed e initial_upload, trace)
              | (Inr parts, trace) \<Rightarrow>
                  (case finish of
                     Some e \<Rightarrow> (upload_failed e initial_upload, trace @ [CompleteMultipart parts upload_id])
                   | None \<Rightarrow> (upload_succeeded key initial_upload, trace @ [CompleteMultipart parts upload_id])))))"

section \<open>The retry policy\<close>

definition retried :: "oss_error option \<Rightarrow> bool" where
  "retried o1 \<longleftrightarrow> (case o1 of None \<Rightarrow> False | Some e \<Rightarrow> error_retryable e)"

definition result_of :: "string \<Rightarrow> oss_error option \<Rightarrow> UploadResult" where
  "result_of key o1 = (case o1 of None \<Rightarrow> upload_succeeded key initial_upload | Some e \<Rightarrow> upload_failed e initial_upload)"

text \<open>The calls of attempts \<open>0\<close> to \<open>n\<close>.\<close>

definition attempt_calls :: "string \<Rightarrow> string \<Rightarrow> int \<Rightarrow> nat \<Rightarrow> oss_call list" where
  "attempt_calls key data base n =
     PutObject key data # concat (map (\<lambda>k. [Sleep (backoff_ms base k), PutObject key data]) [0..<n])"

lemma upload_overwrite:
  "upload_failed e (upload_failed e' r) = upload_failed e r" "upload_succeeded key (upload_failed e r) = upload_succeeded key r"
  by (cases e; cases e'; simp add: upload_failed_def) (cases e; simp add: upload_failed_def upload_succeeded_def)

definition before :: "(nat \<Rightarrow> oss_error option) \<Rightarrow> nat \<Rightarrow> UploadResult" where
  "before put k = (if k = 0 then initial_upload else result_of [] (put (k - 1)))"

definition trace_before :: "string \<Rightarrow> string \<Rightarrow> int \<Rightarrow> nat \<Rightarrow> oss_call list" where
  "trace_before key data base k = (if k = 0 then [] else attempt_calls key data base (k - 1))"

lemma trace_step:
  "trace_before key data base k @ (if k > 0 then [Sleep (backoff_ms base (k - 1))] else []) @ [PutObject key data] =
   attempt_calls key data base k"
  by (cases k) (simp_all add: attempt_calls_def trace_before_def)

lemma overwrite_before:
  assumes "list_all (\<lambda>j. retried (put j)) [0..<k]"
  shows "upload_failed e (before put k) = upload_failed e initial_upload"
    "upload_succeeded key (before put k) = upload_succeeded key initial_upload"
  using assms by (cases k; auto simp: before_def retried_def result_of_def upload_overwrite split: option.splits)+

lemma retry_step:
  assumes "k \<le> m" "list_all (\<lambda>j. retried (put j)) [0..<k]"
  shows "put_loop put key data base (int m) k (before put k) (trace_before key data base k) =
    (if retried (put k) \<and> k < m
     then put_loop put key data base (int m) (k + 1) (before put (k + 1)) (trace_before key data base (k + 1))
     else (result_of key (put k), attempt_calls key data base k))"
proof (cases "put k")
  case None
  then show ?thesis
    using assms(1) by (subst put_loop.simps)
      (simp add: trace_step [simplified] Let_def result_of_def retried_def overwrite_before [OF assms(2)])
next
  case (Some e)
  have next_trace: "trace_before key data base (k + 1) = attempt_calls key data base k" "before put (k + 1) = upload_failed e initial_upload"
    by (simp_all add: trace_before_def before_def result_of_def Some)
  show ?thesis
    using assms(1) unfolding next_trace by (subst put_loop.simps)
      (simp add: trace_step [simplified] Let_def result_of_def retried_def overwrite_before [OF assms(2)] Some)
qed

lemma put_loop_exact:
  assumes "k \<le> m" "list_all (\<lambda>j. retried (put j)) [0..<k]"
  shows "\<exists>n\<le>m. list_all (\<lambda>j. retried (put j)) [0..<n] \<and> (n = m \<or> \<not> retried (put n)) \<and>
    put_loop put key data base (int m) k (before put k) (trace_before key data base k) =
      (result_of key (put n), attempt_calls key data base n)"
  using assms
proof (induction "m - k" arbitrary: k)
  case 0
  then show ?case
    using retry_step [OF 0(2,3), of key data base] by (intro exI [of _ m]) simp
next
  case (Suc d)
  show ?case
  proof (cases "retried (put k)")
    case True
    have "k < m"
      using Suc(2) by simp
    then have "put_loop put key data base (int m) k (before put k) (trace_before key data base k) =
        put_loop put key data base (int m) (k + 1) (before put (k + 1)) (trace_before key data base (k + 1))"
      using retry_step [OF Suc(3,4), of key data base] True by simp
    moreover have "d = m - (k + 1)" "k + 1 \<le> m" "list_all (\<lambda>j. retried (put j)) [0..<k + 1]"
      using Suc(2,4) True by (auto simp: list_all_iff less_Suc_eq)
    ultimately show ?thesis
      using Suc(1) [of "k + 1"] by presburger
  next
    case False
    then show ?thesis
      using retry_step [OF Suc(3,4), of key data base] Suc(3,4) by (intro exI [of _ k]) simp
  qed
qed

text \<open>
  C29: The retry policy: an upload makes attempts 0 to n, where all before n failed with an
  error that can be retried, and n is the last allowed one or was not retried. It sleeps between
  attempts for the base delay doubled each time, and answers success with the object key exactly
  where attempt n succeeded, else the error of attempt n.
\<close>

theorem upload_retries:
  assumes "oo_max_retries opts = int m"
  shows "\<exists>n\<le>m. list_all (\<lambda>j. retried (put j)) [0..<n] \<and> (n = m \<or> \<not> retried (put n)) \<and>
    UploadAsync_task opts True put image_data metadata =
      (result_of (object_key_of metadata) (put n),
       attempt_calls (object_key_of metadata) image_data (oo_base_backoff_ms opts) n)"
  using put_loop_exact [of 0 m put "object_key_of metadata" image_data "oo_base_backoff_ms opts"]
  by (simp add: UploadAsync_task_def assms before_def trace_before_def)

definition busy_twice :: "nat \<Rightarrow> oss_error option" where
  "busy_twice k = (if k < 2 then Some (OssError ''SlowDown'' []) else None)"

theorem upload_retries_witness:
  "\<exists>n\<le>3. list_all (\<lambda>j. retried (busy_twice j)) [0..<n] \<and> (n = 3 \<or> \<not> retried (busy_twice n)) \<and>
    UploadAsync_task (FromEnv (\<lambda>k. None)) True busy_twice [] [] =
      (result_of ''unknown.jpg'' (busy_twice n), attempt_calls ''unknown.jpg'' [] 1000 n)"
proof -
  have "oo_max_retries (FromEnv (\<lambda>k. None)) = int 3" "oo_base_backoff_ms (FromEnv (\<lambda>k. None)) = 1000"
    "object_key_of [] = ''unknown.jpg''"
    by code_simp+
  then show ?thesis
    using upload_retries [of "FromEnv (\<lambda>k. None)" 3 busy_twice "[]" "[]"] by simp
qed

text \<open>The delays of the first 31 retries double; the 32nd is negative and the next one undefined.\<close>

lemma backoff_doubles: "k < 31 \<Longrightarrow> backoff_ms base k = Some (base * 2 ^ k)"
proof -
  assume k: "k < 31"
  have "(2 :: int) ^ k < 2 ^ 31"
    using k by (intro power_strict_increasing) simp_all
  then have "sint (word_of_int (2 ^ k) :: 32 word) = 2 ^ k"
    unfolding sint_sbintrunc' by (intro signed_take_bit_int_eq_self) (simp_all add: order_trans [of _ 0])
  moreover have "(push_bit k 1 :: 32 word) = word_of_int (2 ^ k)"
    by (simp add: push_bit_eq_mult)
  ultimately have "sint (push_bit k 1 :: 32 word) = 2 ^ k"
    by (simp only:)
  then show ?thesis
    using k by (simp add: backoff_ms_def)
qed

lemma backoff_breaks: "backoff_ms base 31 = Some (base * - (2 ^ 31))" "backoff_ms base 32 = None"
  by (simp_all add: backoff_ms_def)

section \<open>Parts cover the data\<close>

definition part_slice :: "nat \<Rightarrow> string \<Rightarrow> nat \<Rightarrow> string" where
  "part_slice n data i = take n (drop (i * n) data)"

lemma slices_prefix: "concat (map (part_slice n data) [0..<k]) = take (k * n) data"
proof (induction k)
  case (Suc k)
  have "take (k * n) data @ take n (drop (k * n) data) = take (Suc k * n) data"
    by (simp only: take_add [symmetric] mult_Suc add.commute)
  then show ?case
    using Suc by (simp add: part_slice_def)
qed simp

lemma parts_enough: "0 < n \<Longrightarrow> len \<le> (len + n - 1) div n * (n :: nat)"
  using div_mult_mod_eq [of "len + n - 1" n] mod_less_divisor [of n "len + n - 1"] by linarith

definition part_calls :: "string \<Rightarrow> nat \<Rightarrow> string \<Rightarrow> nat list \<Rightarrow> oss_call list" where
  "part_calls upload_id n data is = map (\<lambda>i. UploadPart (i + 1) upload_id (part_slice n data i)) is"

lemma slice_min: "take (min n (length data - i * n)) (drop (i * n) data) = part_slice n data i"
  by (simp add: part_slice_def min_def)

lemma upload_parts_all:
  assumes "\<And>i. i \<in> set is \<Longrightarrow> up i = Inr (etag i)"
  shows "upload_parts up upload_id n data is parts trace =
    (Inr (parts @ map (\<lambda>i. (i + 1, etag i)) is), trace @ part_calls upload_id n data is)"
  using assms by (induction "is" arbitrary: parts trace) (simp_all add: Let_def slice_min part_calls_def)

lemma upload_parts_fail:
  assumes "\<And>i. i \<in> set is \<Longrightarrow> up i = Inr (etag i)" "up k = Inl e"
  shows "upload_parts up upload_id n data (is @ k # rest) parts trace =
    (Inl e, trace @ part_calls upload_id n data (is @ [k]) @ [AbortMultipart upload_id])"
  using assms by (induction "is" arbitrary: parts trace) (simp_all add: Let_def slice_min part_calls_def)



text \<open>An upload whose completion fails is not aborted: its parts stay at the server.\<close>

lemma failed_completion_not_aborted:
  "snd (UploadMultipart_task True (Inr upload_id) (\<lambda>i. Inr []) (Some e) [] metadata 1) =
     [InitiateMultipart (object_key_of metadata), CompleteMultipart [] upload_id]"
  by (simp add: UploadMultipart_task_def real_part_size_def part_count_def to_int32_def)

end
