(* ===== verification/Thread_Pool.thy ===== *)
theory Thread_Pool
  imports Prelude
begin

text \<open>
  The thread pool of \<^verbatim>\<open>common/include/thread_pool.hpp\<close> under interleaving: workers that wait on the
  condition variable, callers of \<^verbatim>\<open>Submit\<close> and the destructor. A step is one access to shared state:
  taking the mutex, evaluating the predicate, blocking, taking a task, the store of the stop flag,
  a notification. A blocked worker runs on only when it is notified.
\<close>

section \<open>States\<close>

datatype worker_pc =
    Locking
  | Evaluating
  | Blocking
  | Waiting
  | Leaving
  | Exited
  | Executing nat

datatype shutdown_pc = NotStarted | Storing | Joining | Joined

record pool =
  po_tasks :: "nat list"
  po_stop :: bool
  po_mutex :: "nat option"
  po_workers :: "worker_pc list"
  po_checked :: "nat list"
  po_notify_one :: nat
  po_shutdown :: shutdown_pc
  po_pushed :: "nat list"
  po_taken :: "nat list"

definition new_pool :: "nat \<Rightarrow> pool" where
  "new_pool n =
     \<lparr>po_tasks = [], po_stop = False, po_mutex = None, po_workers = replicate (if n > 0 then n else 1) Locking, po_checked = [],
      po_notify_one = 0, po_shutdown = NotStarted, po_pushed = [], po_taken = []\<rparr>"

text \<open>What a step of \<^verbatim>\<open>worker_loop\<close> makes of worker \<open>i\<close>; \<open>None\<close> where it cannot move.\<close>

definition at_worker :: "nat \<Rightarrow> worker_pc \<Rightarrow> pool \<Rightarrow> pool" where
  "at_worker i pc p = p\<lparr>po_workers := (po_workers p)[i := pc]\<rparr>"

definition worker_step :: "nat \<Rightarrow> pool \<Rightarrow> pool option" where
  "worker_step i p =
     (if i \<ge> length (po_workers p) then None
      else case po_workers p ! i of
        Locking \<Rightarrow> if po_mutex p = None then Some (at_worker i Evaluating (p\<lparr>po_mutex := Some i\<rparr>)) else None
      | Evaluating \<Rightarrow> Some (at_worker i (if po_stop p \<or> po_tasks p \<noteq> [] then Leaving else Blocking) p)
      | Blocking \<Rightarrow> Some (at_worker i Waiting (p\<lparr>po_mutex := None\<rparr>))
      | Waiting \<Rightarrow> None
      | Leaving \<Rightarrow>
          (case po_tasks p of
             [] \<Rightarrow> Some (at_worker i Exited (p\<lparr>po_mutex := None\<rparr>))
           | t # ts \<Rightarrow> Some (at_worker i (Executing t) (p\<lparr>po_mutex := None, po_tasks := ts, po_taken := po_taken p @ [t]\<rparr>)))
      | Executing t \<Rightarrow> Some (at_worker i Locking p)
      | Exited \<Rightarrow> None)"

text \<open>\<^verbatim>\<open>Submit\<close>: the test of the flag, the push under the mutex, the notification.\<close>

definition submit_check :: "nat \<Rightarrow> pool \<Rightarrow> pool" where
  "submit_check t p = (if po_stop p then p else p\<lparr>po_checked := po_checked p @ [t]\<rparr>)"

definition submit_push :: "nat \<Rightarrow> pool \<Rightarrow> pool" where
  "submit_push t p =
     p\<lparr>po_checked := remove1 t (po_checked p), po_tasks := po_tasks p @ [t], po_pushed := po_pushed p @ [t],
       po_notify_one := po_notify_one p + 1\<rparr>"

definition wake :: "worker_pc \<Rightarrow> worker_pc" where
  "wake pc = (if pc = Waiting then Locking else pc)"

definition notify_all :: "pool \<Rightarrow> pool" where
  "notify_all p = p\<lparr>po_workers := map wake (po_workers p)\<rparr>"

inductive pool_step :: "pool \<Rightarrow> pool \<Rightarrow> bool" where
  worker: "worker_step i p = Some p' \<Longrightarrow> pool_step p p'"
| check: "\<not> po_stop p \<Longrightarrow> pool_step p (submit_check t p)"
| push: "t \<in> set (po_checked p) \<Longrightarrow> po_mutex p = None \<Longrightarrow> pool_step p (submit_push t p)"
| notify_waiting: "po_notify_one p > 0 \<Longrightarrow> i < length (po_workers p) \<Longrightarrow> po_workers p ! i = Waiting \<Longrightarrow>
    pool_step p (at_worker i Locking (p\<lparr>po_notify_one := po_notify_one p - 1\<rparr>))"
| notify_none: "po_notify_one p > 0 \<Longrightarrow> Waiting \<notin> set (po_workers p) \<Longrightarrow>
    pool_step p (p\<lparr>po_notify_one := po_notify_one p - 1\<rparr>)"
| stop: "po_shutdown p = NotStarted \<Longrightarrow> pool_step p (p\<lparr>po_shutdown := Storing, po_stop := True\<rparr>)"
| notify: "po_shutdown p = Storing \<Longrightarrow> pool_step p (notify_all (p\<lparr>po_shutdown := Joining\<rparr>))"
| join: "po_shutdown p = Joining \<Longrightarrow> set (po_workers p) \<subseteq> {Exited} \<Longrightarrow> pool_step p (p\<lparr>po_shutdown := Joined\<rparr>)"

inductive_cases pool_stepE: "pool_step p p'"

definition pool_reachable :: "nat \<Rightarrow> pool \<Rightarrow> bool" where
  "pool_reachable n p \<longleftrightarrow> pool_step\<^sup>*\<^sup>* (new_pool n) p"

section \<open>Tasks run once, in order\<close>

text \<open>A worker past the lock holds the mutex, and a worker that left has seen the stop flag.\<close>

definition holds_mutex :: "worker_pc \<Rightarrow> bool" where
  "holds_mutex pc \<longleftrightarrow> pc = Evaluating \<or> pc = Blocking \<or> pc = Leaving"

definition pool_inv :: "pool \<Rightarrow> bool" where
  "pool_inv p \<longleftrightarrow>
     po_taken p @ po_tasks p = po_pushed p \<and>
     (\<forall>i < length (po_workers p). holds_mutex (po_workers p ! i) \<longrightarrow> po_mutex p = Some i) \<and>
     (\<forall>i < length (po_workers p). po_workers p ! i = Leaving \<longrightarrow> po_stop p \<or> po_tasks p \<noteq> []) \<and>
     (Exited \<in> set (po_workers p) \<longrightarrow> po_stop p) \<and>
     (po_shutdown p = NotStarted \<longleftrightarrow> \<not> po_stop p) \<and>
     (po_shutdown p = Joined \<longrightarrow> set (po_workers p) \<subseteq> {Exited})"

lemma holds_mutex_simps [simp]:
  "\<not> holds_mutex Locking" "holds_mutex Evaluating" "holds_mutex Blocking" "\<not> holds_mutex Waiting" "holds_mutex Leaving"
  "\<not> holds_mutex Exited" "\<not> holds_mutex (Executing t)"
  by (simp_all add: holds_mutex_def)

lemma at_worker_fields [simp]:
  "po_tasks (at_worker i pc p) = po_tasks p" "po_stop (at_worker i pc p) = po_stop p" "po_mutex (at_worker i pc p) = po_mutex p"
  "po_workers (at_worker i pc p) = (po_workers p)[i := pc]" "po_pushed (at_worker i pc p) = po_pushed p"
  "po_taken (at_worker i pc p) = po_taken p" "po_shutdown (at_worker i pc p) = po_shutdown p"
  "po_notify_one (at_worker i pc p) = po_notify_one p" "po_checked (at_worker i pc p) = po_checked p"
  by (simp_all add: at_worker_def)

lemma pool_invD:
  assumes "pool_inv p"
  shows "po_taken p @ po_tasks p = po_pushed p"
    "\<And>i. i < length (po_workers p) \<Longrightarrow> holds_mutex (po_workers p ! i) \<Longrightarrow> po_mutex p = Some i"
    "\<And>i. i < length (po_workers p) \<Longrightarrow> po_workers p ! i = Leaving \<Longrightarrow> po_stop p \<or> po_tasks p \<noteq> []"
    "Exited \<in> set (po_workers p) \<Longrightarrow> po_stop p"
    "po_shutdown p = NotStarted \<longleftrightarrow> \<not> po_stop p"
    "po_shutdown p = Joined \<Longrightarrow> set (po_workers p) \<subseteq> {Exited}"
  using assms unfolding pool_inv_def by blast+

lemma set_update_subset: "x \<in> set (xs[i := y]) \<Longrightarrow> x = y \<or> x \<in> set xs"
  using set_update_subset_insert [of xs i y] by auto

lemma take_task_inv:
  assumes "pool_inv p" "i < length (po_workers p)" "po_mutex p = Some i" "po_shutdown p \<noteq> Joined" "tk @ ts = po_pushed p"
  shows "pool_inv (at_worker i (Executing t) (p\<lparr>po_mutex := None, po_tasks := ts, po_taken := tk\<rparr>))"
proof -
  note inv = pool_invD [OF assms(1)]
  have free: "\<not> holds_mutex ((po_workers p)[i := Executing t] ! j)" if "j < length (po_workers p)" for j
    using inv(2) [OF that] that assms(3) by (cases "j = i") auto
  then have "(po_workers p)[i := Executing t] ! j \<noteq> Leaving" if "j < length (po_workers p)" for j
    using that by fastforce
  then show ?thesis
    using free inv(4,5) assms(4,5) by (auto simp: pool_inv_def dest!: set_update_subset)
qed

lemma worker_step_inv:
  assumes "pool_inv p" "worker_step i p = Some p'"
  shows "pool_inv p'"
proof -
  note inv = pool_invD [OF assms(1)]
  have i: "i < length (po_workers p)" "po_workers p ! i \<noteq> Exited"
    using assms(2) by (auto simp: worker_step_def split: if_splits)
  have joined: "po_shutdown p \<noteq> Joined"
    using inv(6) i nth_mem [OF i(1)] by blast
  show ?thesis
  proof (cases "po_workers p ! i")
    case Locking
    then have "po_mutex p = None" "p' = at_worker i Evaluating (p\<lparr>po_mutex := Some i\<rparr>)"
      using assms(2) i by (auto simp: worker_step_def split: if_splits)
    then show ?thesis
      using inv joined i by (auto simp: pool_inv_def nth_list_update dest!: set_update_subset)
  next
    case Evaluating
    then have "p' = at_worker i (if po_stop p \<or> po_tasks p \<noteq> [] then Leaving else Blocking) p"
      using assms(2) i by (simp add: worker_step_def)
    moreover have m: "po_mutex p = Some i"
      using inv(2) [OF i(1)] Evaluating by simp
    ultimately show ?thesis
      using inv joined i Evaluating
      by (auto simp: pool_inv_def nth_list_update dest!: set_update_subset) (metis m inv(2) option.inject)+
  next
    case Blocking
    then have "p' = at_worker i Waiting (p\<lparr>po_mutex := None\<rparr>)" "po_mutex p = Some i"
      using assms(2) i inv(2) by (simp_all add: worker_step_def)
    then show ?thesis
      using inv joined i by (auto simp: pool_inv_def nth_list_update dest!: set_update_subset)
  next
    case Leaving
    have m: "po_mutex p = Some i"
      using Leaving i inv(2) by simp
    show ?thesis
    proof (cases "po_tasks p")
      case Nil
      then have "p' = at_worker i Exited (p\<lparr>po_mutex := None\<rparr>)" "po_stop p"
        using assms(2) i Leaving inv(3) by (auto simp: worker_step_def)
      then show ?thesis
        using inv joined i m Nil by (auto simp: pool_inv_def nth_list_update dest!: set_update_subset)
    next
      case (Cons t ts)
      then have "p' = at_worker i (Executing t) (p\<lparr>po_mutex := None, po_tasks := ts, po_taken := po_taken p @ [t]\<rparr>)"
        using assms(2) i Leaving by (simp add: worker_step_def)
      then show ?thesis
        using take_task_inv [OF assms(1) i(1) m joined] inv(1) Cons by simp
    qed
  next
    case Waiting
    then show ?thesis using assms(2) i by (simp add: worker_step_def)
  next
    case Exited
    then show ?thesis using i by simp
  next
    case (Executing t)
    then have "p' = at_worker i Locking p"
      using assms(2) i by (simp add: worker_step_def)
    then show ?thesis
      using inv joined i by (auto simp: pool_inv_def nth_list_update dest!: set_update_subset)
  qed
qed

lemma pool_step_inv: "pool_step p p' \<Longrightarrow> pool_inv p \<Longrightarrow> pool_inv p'"
proof (induction rule: pool_step.induct)
  case (worker i p p')
  then show ?case by (blast intro: worker_step_inv)
next
  case (check p t)
  then show ?case by (simp add: pool_inv_def submit_check_def)
next
  case (push t p)
  then show ?case by (auto simp: pool_inv_def submit_push_def)
next
  case (notify_waiting p i)
  have "Waiting \<in> set (po_workers p)"
    using notify_waiting(2,3) nth_mem by metis
  then show ?case
    using pool_invD [OF notify_waiting(4)] notify_waiting(2) by (auto simp: pool_inv_def nth_list_update dest!: set_update_subset)
next
  case (notify p)
  then show ?case by (auto simp: pool_inv_def notify_all_def wake_def image_iff split: if_splits)
qed (auto simp: pool_inv_def)

interpretation pool: state_machine pool_step pool_inv
  by unfold_locales (rule pool_step_inv)

lemma pool_inv_reachable: "pool_reachable n p \<Longrightarrow> pool_inv p"
  unfolding pool_reachable_def by (erule pool.reachable_keeps) (auto simp: pool_inv_def new_pool_def)

text \<open>
  C38: The tasks that workers took, followed by those still queued, are the tasks pushed: each is
  taken once, in the order of the pushes. At most one worker is between taking and releasing the
  mutex, a worker exits only after the pool was stopped, and the destructor returns only when all
  have exited.
\<close>

theorem pool_in_order:
  assumes "pool_reachable n p"
  shows "po_taken p @ po_tasks p = po_pushed p \<and>
    (\<forall>i < length (po_workers p). \<forall>j < length (po_workers p).
       holds_mutex (po_workers p ! i) \<longrightarrow> holds_mutex (po_workers p ! j) \<longrightarrow> i = j) \<and>
    (Exited \<in> set (po_workers p) \<longrightarrow> po_stop p) \<and> (po_shutdown p = Joined \<longrightarrow> set (po_workers p) \<subseteq> {Exited})"
  using pool_invD [OF pool_inv_reachable [OF assms]] by (metis option.inject)

section \<open>The destructor can wait for ever\<close>

text \<open>One worker tests the predicate before the flag is stored and blocks after the notification.\<close>

definition stuck_pool :: pool where
  "stuck_pool = (new_pool 1)\<lparr>po_stop := True, po_workers := [Waiting], po_shutdown := Joining\<rparr>"

lemma stuck_reachable: "pool_reachable 1 stuck_pool"
proof -
  let ?p0 = "new_pool 1"
  let ?p1 = "?p0\<lparr>po_mutex := Some 0, po_workers := [Evaluating]\<rparr>"
  let ?p2 = "?p1\<lparr>po_workers := [Blocking]\<rparr>"
  let ?p3 = "?p2\<lparr>po_stop := True, po_shutdown := Storing\<rparr>"
  let ?p4 = "?p3\<lparr>po_shutdown := Joining\<rparr>"
  note d = new_pool_def worker_step_def at_worker_def
  have 1: "pool_step ?p0 ?p1" by (rule worker [of 0]) (simp add: d)
  have 2: "pool_step ?p1 ?p2" by (rule worker [of 0]) (simp add: d)
  have 3: "pool_step ?p2 ?p3" using stop [of ?p2] by (simp add: d)
  have 4: "pool_step ?p3 ?p4" using notify [of ?p3] by (simp add: d notify_all_def wake_def)
  have 5: "pool_step ?p4 stuck_pool" by (rule worker [of 0]) (simp add: d stuck_pool_def)
  show ?thesis
    unfolding pool_reachable_def using 1 2 3 4 5 by (meson converse_rtranclp_into_rtranclp rtranclp.rtrancl_refl)
qed

lemma stuck_no_step: "\<not> pool_step stuck_pool p"
proof
  have "worker_step i stuck_pool = None" for i
    by (cases i) (simp_all add: worker_step_def stuck_pool_def new_pool_def)
  moreover assume "pool_step stuck_pool p"
  ultimately show False
    by (auto simp: stuck_pool_def new_pool_def elim!: pool_stepE)
qed

text \<open>
  The destructor can hang: a pool of one worker reaches a state in which the destructor has
  notified and waits for the worker, the worker is blocked without a notification to come, and no
  step of the pool is possible. The flag is stored without the mutex that the worker holds between
  its test and its wait.
\<close>

lemma pool_shutdown_hangs:
  "\<exists>p. pool_reachable 1 p \<and> po_shutdown p = Joining \<and> po_workers p = [Waiting] \<and> (\<nexists>p'. pool_step p p')"
  using stuck_reachable stuck_no_step by (intro exI [of _ stuck_pool]) (simp add: stuck_pool_def)

theorem pool_in_order_witness:
  "po_taken stuck_pool @ po_tasks stuck_pool = po_pushed stuck_pool \<and> \<not> (po_shutdown stuck_pool = Joined)"
  using pool_in_order [OF stuck_reachable] by (simp add: stuck_pool_def)

end
