(* ===== verification/Spec2Isabelle.thy ===== *)
theory Spec2Isabelle
  imports Backend_Properties Pump_Properties Compete_Properties Stop_Properties Module_Properties
    Sample_Modules Image_Pipeline Log_Pipeline Message_Store Oss_Client Thread_Pool
begin

text \<open>
  The Mould backend: a master process that starts one process per module, a publish/subscribe bus in shared
  memory between them, an HTTP gateway, an object-storage uploader, and a logging module that collects what the
  modules print. This development models the C++ code under \<^verbatim>\<open>src/\<close>, except its tests
  and demonstrations, and proves what makes each part correct and what they guarantee together.

  The program, from outside to inside. \<^verbatim>\<open>services/backend/main.cpp\<close> reads a launch plan
  (JSON), checks and merges the channel files of all modules into one topology, hands the scalars to gflags and
  writes them into the environment that children inherit. It creates and formats one shared-memory segment per
  channel, opens a pipe per module for its output, forks the logging module and then the business modules in the
  order of their priorities, each behind a READY barrier. Then it monitors its children: a module that exits has
  its consumers taken offline on every ring and is restarted under a policy of back-off and fuse; the exit of
  the logging module and a stop signal have a protocol of their own. A module process maps the rings of its
  channels, subscribes with an eventfd, and runs one pump thread that turns the notifications of the kernel into
  handler calls; \<^verbatim>\<open>ModuleBase\<close> queues these for the main thread and adds timers. The
  gateway module parses HTTP requests, limits, validates, publishes and uploads them. The logging module reads
  the pipes, cuts the bytes into lines, queues them with a drop policy and writes rolling files.

  \<^bold>\<open>The bus.\<close>
  \<open>Ring_Layout\<close>, \<open>Ring_Ops\<close> model
  \<^verbatim>\<open>common/comm/include/shm_ring_buffer.hpp\<close> and
  \<^verbatim>\<open>common/comm/src/shm_ring_buffer.cpp\<close>: the record \<open>ring\<close> is the content
  of a segment (header, consumer table, slots with their packed control word, payload bytes), each method of
  \<^verbatim>\<open>RingLayoutView\<close> is a function of the same name. \<open>Ring_Invariant\<close>,
  \<open>Ring_Publish\<close>, \<open>Ring_Membership\<close> prove that every method keeps
  \<open>ring_inv\<close>, and what it does on every branch. \<open>Ring_Spec\<close> states what a ring
  promises without slots and cursors, a queue per online consumer, and that the methods refine it through
  \<open>abs_bus\<close>. \<open>Bus_Contract\<close> puts the promise into the locale
  \<open>message_bus\<close>, proves delivery in order, without loss or repetition, once from the contract, and
  interprets it by the ring's own steps. \<open>Ring_Properties\<close> holds the properties of the ring.
  \<open>Shm_Segment\<close> (\<^verbatim>\<open>shm_segment.cpp\<close>), \<open>Control_Plane\<close>
  (\<^verbatim>\<open>shm_bus_control_plane.cpp\<close>) and \<open>Bus_Runtime\<close>,
  \<open>Bus_Dispatch\<close> (\<^verbatim>\<open>shm_bus_runtime.cpp\<close>) model what surrounds the rings:
  segments by name, provisioning, subscribing, publishing with its notifications, one wake of the pump,
  stopping. A \<open>bus_runtime\<close> is what one process keeps; the rings and the eventfd counters
  (\<open>eventfds\<close>) are shared. \<open>Control_Properties\<close>, \<open>Dispatch_Properties\<close>,
  \<open>Stop_Properties\<close> hold the properties of these calls. \<open>Compete_Properties\<close> and
  \<open>Pump_Properties\<close> are about several processes at once, each an inductive step relation with an
  invariant (the locale \<open>state_machine\<close> of \<open>Prelude\<close>, which the thread pool and the
  HTTP connections interpret too): every message handled exactly once in compete mode, and no consumer left with
  a message that no notification under way announces. \<open>Message_Store\<close>
  (\<^verbatim>\<open>refcounted_message_store.cpp\<close>) and \<open>Reliability\<close>
  (\<^verbatim>\<open>reliability.cpp\<close>) are the reference-counted store and the retry and acknowledgement
  rules. \<open>Image_Pipeline\<close> (\<^verbatim>\<open>image_pipeline.cpp\<close>) chooses the backend that
  prepares an image.

  \<^bold>\<open>Processes.\<close>
  \<open>Restart_Policy\<close>, \<open>Ready_Pipe\<close>, \<open>Supervisor\<close>,
  \<open>Module_Launcher\<close> model \<^verbatim>\<open>restart_policy.cpp\<close>,
  \<^verbatim>\<open>ready_pipe_protocol.cpp\<close>, \<^verbatim>\<open>supervisor.cpp\<close>,
  \<^verbatim>\<open>module_factory_registry.cpp\<close> and \<^verbatim>\<open>module_launcher.cpp\<close>. The
  locale \<open>monitor_hooks\<close> of \<open>Supervisor\<close> says what the monitor loop needs of the
  call-backs it is given, and is interpreted by those of \<^verbatim>\<open>main\<close>.
  \<open>Backend_Main\<close> composes them with the control plane as \<^verbatim>\<open>main\<close> does,
  phase by phase, and \<open>Backend_Properties\<close> carries one invariant through all phases: the process
  table names exactly the children the kernel holds, the segments are those from before and those the control
  plane manages. \<open>Module_Base\<close> (\<^verbatim>\<open>module_base.cpp\<close>,
  \<^verbatim>\<open>callback_queue.cpp\<close>, \<^verbatim>\<open>channel_factory.cpp\<close>) is the frame of
  a module process, \<open>Module_Properties\<close> the way of a message from the pump to its handler.
  \<open>Sample_Modules\<close> (\<^verbatim>\<open>services/backend/modules/sample_modules.cpp\<close>) are the
  modules the program ships. \<open>Thread_Pool\<close>
  (\<^verbatim>\<open>common/include/thread_pool.hpp\<close>) is a step relation of workers and callers, down to
  the single accesses to the shared state.

  \<^bold>\<open>Configuration.\<close>
  \<open>Text\<close> is what the code uses of the C++ string library. \<open>Json\<close> models the two JSON
  parsers of \<^verbatim>\<open>common/config/src/\<close> once, over a \<open>dialect\<close> that holds where
  they differ and the locale \<open>json_dialect\<close> for what they ask of it: the parsers are total and read
  the text of a value back. \<open>Topology_Config\<close>
  (\<^verbatim>\<open>channel_topology_config.cpp\<close>), \<open>Launch_Values\<close> and
  \<open>Launch_Plan\<close> (\<^verbatim>\<open>launch_plan_config.cpp\<close>) are the files, the checks and
  the merge; \<open>Launch_Environment\<close> (\<^verbatim>\<open>channel_factory.cpp\<close>,
  \<^verbatim>\<open>shm_bus_runtime_prefork.cpp\<close>) is the child's side of the environment.

  \<^bold>\<open>The gateway.\<close>
  \<open>Rate_Limiter\<close> has both token buckets and their common contract, the locale
  \<open>token_bucket\<close>, interpreted twice. \<open>Gate_Request\<close>, \<open>Gate_Validation\<close>,
  \<open>Multipart\<close>, \<open>Gate_Handlers\<close>, \<open>Frame_Payload\<close> model
  \<^verbatim>\<open>gate/handler/\<close> and the router; \<open>Http_Server\<close> models
  \<^verbatim>\<open>gate/http/muduo_http_server.cpp\<close>, a parser that gives one result however the network
  cuts the bytes into segments; \<open>Gateway_Module\<close> models
  \<^verbatim>\<open>gate/module/http_gateway_module.cpp\<close>; \<open>Oss_Client\<close> models
  \<^verbatim>\<open>gate/oss/oss_client.cpp\<close>.

  \<^bold>\<open>Logging.\<close>
  \<open>Log_Files\<close> and \<open>Log_Queue\<close> model
  \<^verbatim>\<open>logging/src/log_dump_manager.cpp\<close> (rolling, trimming, archiving and compressing
  files; the bounded queue and its batches), \<open>Log_Collector\<close> models
  \<^verbatim>\<open>logging/src/log_collector.cpp\<close> and \<^verbatim>\<open>log_pipe_manager.cpp\<close>,
  \<open>Log_Pipeline\<close> models \<^verbatim>\<open>logging/module/logging_module.cpp\<close> and the three
  threads together: the files refine a plain text, the lines the modules wrote.

  \<^bold>\<open>How the model corresponds to the code.\<close>
  Definitions have the names of the C++ functions, with a short prefix or suffix where two classes share a name.
  Classes are records, enums are datatypes, fixed-width integers of shared structures are words; sizes and
  counters that the code never lets wrap are natural numbers or integers. Where a wrap is possible it is written
  out: the 32 bits of the sequence number in a slot (lemmas ask for a head below \<open>2 ^ 32\<close>), the int
  cast of a time-out, the shift of a back-off. An exception or an error text is \<open>Inl\<close>, a missing
  result is \<open>None\<close>. What the kernel, the clock, gflags, glog, protobuf, muduo, zlib and the AWS SDK
  answer is an argument of the call, with what the code relies on as a hypothesis of the theorem. A method that
  holds one mutex from beginning to end is one step. Where the code takes no lock, the step relations have one
  step per shared access that the property depends on; memory is sequentially consistent. A loop that waits for
  others takes what they do meanwhile as a list; a list that ends before the loop does is the answer
  \<open>None\<close>, still waiting. Hash maps whose order the code does not use are maps; where it walks over
  them they are association lists with distinct keys. A \<^verbatim>\<open>double\<close> is a rational number.
  Recursion on text has fuel in three places: the JSON parsers (twice the length of the text and one, enough by
  \<open>parse_fuel_enough\<close> and \<open>document_has_fuel\<close>), the loop over an HTTP buffer (one
  round per byte, enough by \<open>parse_loop_fuel\<close>) and the two loops of the multipart parser (one round
  more than bytes, enough by \<open>split_parts_fuel\<close> and \<open>disposition_loop_fuel\<close>).
  Everything else is structural or has its termination proved.

  \<^bold>\<open>Properties.\<close>
  The most important ones first: first in, first out delivery of the ring; a full ring refuses and frees again;
  no wake-up is lost; compete mode handles each message once; the consumers of a dead process leave and free the
  publishers they blocked; a clean exit of the master leaves no child and no segment; a module handles every
  message it queued, in order, up to its shutdown; the log files hold the text of the modules. Then parsers and
  validators against reference definitions, round trips (JSON, HTTP requests, environment, READY message,
  segments), rate and restart bounds, the exit protocol of the supervisor. Properties with a hypothesis are
  applied to a concrete input by the lemma \<open>..._witness\<close> behind them. Lemmas that state a flaw of
  the code name it in their text: they are consequences of the same definitions.

  \<^bold>\<open>Not modelled.\<close>
  The two inline functions of \<^verbatim>\<open>common/include/ms_logging.hpp\<close>, which call glog. Log
  output of the program itself, except what the logging module collects. The modules of
  \<^verbatim>\<open>services/backend/test/\<close>, which copy image files through the bus to exercise it, and
  the test programs. Races that only a weaker memory model shows. Generated protobuf code and the third-party
  libraries: they are parameters. The rounding of \<^verbatim>\<open>double\<close> and the sign of zero.
\<close>

end
